(* ===== verification/C_Prelude.thy ===== *)
theory C_Prelude
  imports "HOL-Library.Word" "HOL-Library.Monad_Syntax"
begin

text \<open>
  The C machine the models of this development run on, and the lemmas all of them share.

  \<^item> The integer types of \<open>ns-linux-util.h\<close> as the LP64 targets of the README (Linux on x86-64)
    compile them: \<open>u32\<close> is \<open>#define\<close>d to \<open>unsigned long\<close> and \<open>u64\<close> to \<open>unsigned long long\<close>, both
    64 bits wide; \<open>u16\<close> is \<open>unsigned int\<close>, 32 bits wide; \<open>u8\<close> is \<open>unsigned char\<close>. A C
    \<open>int\<close> is a 32-bit word read with \<open>sint\<close>.
  \<^item> A function whose C code can fault (division by zero, array index out of range, shift
    count out of range) or loop for ever has a result of type \<open>option\<close>, and \<open>None\<close> stands for
    that fault or that divergence. \<open>udiv\<close> is the C division with its fault.
  \<^item> The collection \<open>unat_simps\<close> moves goals on words to goals on naturals.
\<close>

section \<open>Types\<close>

type_synonym u8 = "8 word"
type_synonym u16 = "32 word"
type_synonym u32 = "64 word"
type_synonym u64 = "64 word"
type_synonym s64 = "64 word"
type_synonym cint = "32 word"

named_theorems unat_simps \<open>rules that push \<open>unat\<close> to the leaves of a word term\<close>

section \<open>Checked operations\<close>

definition udiv :: "'a::len word \<Rightarrow> 'a word \<Rightarrow> 'a word option" where
  \<comment> \<open>unsigned division; a zero divisor traps\<close>
  "udiv a b = (if b = 0 then None else Some (a div b))"

definition umod :: "'a::len word \<Rightarrow> 'a word \<Rightarrow> 'a word option" where
  "umod a b = (if b = 0 then None else Some (a mod b))"

definition array_get :: "'a list \<Rightarrow> nat \<Rightarrow> 'a option" where
  \<comment> \<open>read of a static array; an index past its end is a fault\<close>
  "array_get xs i = (if i < length xs then Some (xs ! i) else None)"

lemma udiv_nonzero [simp]: "b \<noteq> 0 \<Longrightarrow> udiv a b = Some (a div b)"
  by (simp add: udiv_def)

lemma udiv_eq_Some: "udiv a b = Some q \<longleftrightarrow> b \<noteq> 0 \<and> q = a div b"
  by (auto simp: udiv_def)

lemma udiv_zero [simp]: "udiv a 0 = None"
  by (simp add: udiv_def)

lemma array_get_ok [simp]: "i < length xs \<Longrightarrow> array_get xs i = Some (xs ! i)"
  by (simp add: array_get_def)

lemma array_get_eq_Some: "array_get xs i = Some v \<longleftrightarrow> i < length xs \<and> v = xs ! i"
  by (auto simp: array_get_def)

section \<open>From words to naturals\<close>

lemma unat_max [unat_simps]: "unat (max a b) = max (unat a) (unat b)"
  by (simp add: max_def word_le_nat_alt)

lemma unat_min [unat_simps]: "unat (min a b) = min (unat a) (unat b)"
  by (simp add: min_def word_le_nat_alt)

lemma unat_shiftr [unat_simps]: "unat (drop_bit n w) = unat w div 2 ^ n"
  by (metis drop_bit_eq_div unat_drop_bit_eq)

lemma unat_bound: "unat (x :: 'a::len word) < 2 ^ LENGTH('a)"
  by (fact unsigned_less)

lemma unat_lt_64 [simp]: "unat (x :: 64 word) < 18446744073709551616"
  using unat_bound [of x] by simp

lemma unat_lt_32 [simp]: "unat (x :: 32 word) < 4294967296"
  using unat_bound [of x] by simp

lemma unat_high_64 [simp]: "unat (x :: 64 word) div 4294967296 < 4294967296"
  using unat_lt_64 [of x] by (intro less_mult_imp_div_less) simp

lemma unat_ucast_32_64 [simp]: "unat (ucast (x :: 32 word) :: 64 word) = unat x"
  using unat_lt_32 [of x] by (simp add: unsigned_ucast_eq take_bit_nat_eq_self_iff del: unat_lt_32)

lemma unat_ucast_8_64 [simp]: "unat (ucast (x :: 8 word) :: 64 word) = unat x"
  using unat_bound [of x] by (simp add: unsigned_ucast_eq take_bit_nat_eq_self_iff)

lemma unat_ucast_64_32 [unat_simps]: "unat (ucast (x :: 64 word) :: 32 word) = unat x mod 2 ^ 32"
  by (simp add: unsigned_ucast_eq take_bit_eq_mod)

declare unat_div [unat_simps]

lemmas word_order_nat = word_less_nat_alt word_le_nat_alt

lemma unat_add_no_wrap:
  "unat a + unat b < 2 ^ LENGTH('a::len) \<Longrightarrow> unat (a + b :: 'a word) = unat a + unat b"
  by (simp add: unat_add_lem)

lemma unat_mult_no_wrap:
  "unat a * unat b < 2 ^ LENGTH('a::len) \<Longrightarrow> unat (a * b :: 'a word) = unat a * unat b"
  by (simp add: unat_mult_lem)

lemma unat_shiftl_no_wrap:
  "unat a * 2 ^ n < 2 ^ LENGTH('a::len) \<Longrightarrow> unat (push_bit n a :: 'a word) = unat a * 2 ^ n"
  by (metis push_bit_eq_mult take_bit_nat_eq_self unsigned_push_bit_eq)

lemma unat_Suc_below:
  assumes "(a :: 'a::len word) < b"
  shows "unat (a + 1) = Suc (unat a)"
proof -
  have "unat a + unat (1 :: 'a word) < 2 ^ LENGTH('a)"
    using assms unat_bound [of b] unfolding word_less_nat_alt unat_1 by linarith
  then show ?thesis by (simp add: unat_add_no_wrap)
qed

lemma unat_of_nat_below: "n < 2 ^ LENGTH('a) \<Longrightarrow> unat (of_nat n :: 'a::len word) = n"
  by (simp add: unat_of_nat)

lemma word_nonzero_unat: "(w :: 'a::len word) \<noteq> 0 \<longleftrightarrow> 0 < unat w"
  by (simp add: unat_gt_0)

lemma ucast_ucast_32 [simp]: "ucast (ucast (x :: 32 word) :: 64 word) = x"
  by (rule word_unat_eq_iff [THEN iffD2]) (simp add: unat_ucast_64_32)

lemma div_between:
  fixes n d l u :: nat
  assumes "0 < d" "l * d \<le> n" "n \<le> u * d"
  shows "l \<le> n div d \<and> n div d \<le> u"
proof
  show "l \<le> n div d" using assms(1,2) by (simp add: less_eq_div_iff_mult_less_eq)
  have "n div d \<le> u * d div d" using assms(3) by (rule div_le_mono)
  then show "n div d \<le> u" using assms(1) by simp
qed

section \<open>Linear search\<close>

lemma find_key_Some:
  "find (\<lambda>x. key x = k) xs = Some x \<Longrightarrow> x \<in> set xs \<and> key x = k"
  by (auto simp: find_Some_iff)

lemma find_key_distinct:
  "distinct (map key xs) \<Longrightarrow> x \<in> set xs \<Longrightarrow> find (\<lambda>y. key y = key x) xs = Some x"
  by (induction xs) (auto simp: rev_image_eqI)

lemma find_key_None: "find (\<lambda>x. key x = k) xs = None \<longleftrightarrow> k \<notin> key ` set xs"
  by (auto simp: find_None_iff)

section \<open>Signed values\<close>

lemma sint_small:
  assumes "unat (w :: 'a::len word) < 2 ^ (LENGTH('a) - 1)"
  shows "sint w = int (unat w)"
proof -
  have "uint w < 2 ^ (LENGTH('a) - 1)"
    using assms by (metis of_nat_less_iff of_nat_numeral of_nat_power uint_nat)
  then have "signed_take_bit (LENGTH('a) - 1) (uint w) = uint w"
    by (intro signed_take_bit_int_eq_self)
      (use unsigned_greater_eq [of w] in \<open>auto intro: order_trans [of _ 0]\<close>)
  then show ?thesis by (simp add: sint_uint)
qed

lemma scast_ucast_small:
  assumes "unat (q :: 64 word) < 2 ^ 31"
  shows "scast (ucast q :: 32 word) = q"
proof -
  have u: "unat (ucast q :: 32 word) = unat q"
    using assms by (simp add: unsigned_ucast_eq take_bit_nat_eq_self_iff)
  then have "sint (ucast q :: 32 word) = int (unat q)"
    using assms sint_small [of "ucast q :: 32 word"] unfolding u by simp
  then show ?thesis unfolding scast_eq by simp
qed

lemma unat_scast_pos:
  assumes "0 \<le> sint (b :: 32 word)"
  shows "unat (scast b :: 64 word) = nat (sint b)"
proof -
  have "sint b < 2 ^ 31" using sint_lt [of b] by simp
  then have "uint (scast b :: 64 word) = sint b"
    unfolding scast_eq uint_word_of_int using assms by simp
  then show ?thesis by (simp flip: nat_uint_eq)
qed

end
