(* ===== verification/Linux_Kernel.thy ===== *)
theory Linux_Kernel
  imports C_Prelude "HOL-Library.Signed_Division"
begin

text \<open>
  The kernel services that \<open>tcp/linux\<close> gives the congestion control modules
  (\<open>ns-linux-util.h\<close>, \<open>ns-linux-c.h\<close>, \<open>ns-linux-c.c\<close>, \<open>ns-linux-param.c\<close>): the socket
  \<open>struct tcp_sock\<close>, the globals the modules read (\<open>kernel\<close>), the bit scans \<open>fls\<close> and
  \<open>fls64\<close>, the divisions \<open>do_div\<close> and \<open>div64_64\<close>, and the \<open>ktime_t\<close> functions.
  The lemmas characterise \<open>fls\<close> and \<open>fls64\<close> by powers of two and bound the error of
  \<open>div64_64\<close>.
\<close>

unbundle bit_operations_syntax

section \<open>Globals and the socket\<close>

text \<open>
  The variables the modules read but never write: the clock in jiffies and in nanoseconds
  (\<open>ns-linux-util.cc\<close>), and the sysctl values. \<open>sysctl_tcp_abc\<close> is an \<open>unsigned char\<close>.
\<close>

record kernel =
  tcp_time_stamp :: u32
  ktime_get_real :: s64
  sysctl_tcp_abc :: u8
  sysctl_tcp_max_ssthresh :: cint

text \<open>
  \<open>struct tcp_sock\<close>, with the fields of \<open>rx_opt\<close> in place. The modules cast the array
  \<open>icsk_ca_priv\<close> to their own structure; here it has that structure's type \<open>'ca\<close>.
  \<open>icsk_ca_ops\<close> is not a field: the client of a module is given its operations.
\<close>

record 'ca tcp_sock =
  sk_state :: cint
  snd_nxt :: u32
  snd_una :: u32
  mss_cache :: u32
  srtt :: u32
  rcv_tsval :: u32
  rcv_tsecr :: u32
  saw_tstamp :: bool
  snd_ssthresh :: u32
  snd_cwnd :: u32
  snd_cwnd_cnt :: u16
  snd_cwnd_clamp :: u16
  snd_cwnd_stamp :: u32
  bytes_acked :: u32
  icsk_ca_state :: u8
  icsk_ca_priv :: 'ca

datatype tcp_ca_event =
    CA_EVENT_TX_START
  | CA_EVENT_CWND_RESTART
  | CA_EVENT_COMPLETE_CWR
  | CA_EVENT_FRTO
  | CA_EVENT_LOSS
  | CA_EVENT_FAST_ACK
  | CA_EVENT_SLOW_ACK

text \<open>\<open>enum tcp_ca_state\<close>; the field that holds it is a byte, and so is the argument of the
  \<open>set_state\<close> operations.\<close>

definition TCP_CA_Open :: u8 where "TCP_CA_Open = 0"
definition TCP_CA_Disorder :: u8 where "TCP_CA_Disorder = 1"
definition TCP_CA_CWR :: u8 where "TCP_CA_CWR = 2"
definition TCP_CA_Recovery :: u8 where "TCP_CA_Recovery = 3"
definition TCP_CA_Loss :: u8 where "TCP_CA_Loss = 4"

lemmas tcp_ca_state_defs =
  TCP_CA_Open_def TCP_CA_Disorder_def TCP_CA_CWR_def TCP_CA_Recovery_def TCP_CA_Loss_def

definition HZ :: u32 where "HZ = 1000"

definition msecs_to_jiffies :: "u32 \<Rightarrow> u32" where
  \<comment> \<open>\<open>(JIFFY_RATIO/MS_RATIO)*(x)\<close>, both ratios 1000\<close>
  "msecs_to_jiffies x = (1000 div 1000) * x"

definition tcp_is_cwnd_limited :: "'ca tcp_sock \<Rightarrow> u32 \<Rightarrow> bool" where
  "tcp_is_cwnd_limited sk in_flight \<longleftrightarrow> snd_cwnd sk \<le> in_flight"

definition after :: "u32 \<Rightarrow> u32 \<Rightarrow> bool" where
  "after seq1 seq2 \<longleftrightarrow> seq2 < seq1"

definition between :: "u32 \<Rightarrow> u32 \<Rightarrow> u32 \<Rightarrow> bool" where
  "between seq1 seq2 seq3 \<longleftrightarrow> seq1 - seq2 \<le> seq3 - seq2"

lemma icsk_ca_priv_eq [simp]:
  "tp\<lparr>icsk_ca_priv := x\<rparr> = tp\<lparr>icsk_ca_priv := y\<rparr> \<longleftrightarrow> x = y"
  "tp = tp\<lparr>icsk_ca_priv := y\<rparr> \<longleftrightarrow> icsk_ca_priv tp = y"
  by (cases tp, simp)+

text \<open>A concrete kernel and socket, at which the hypotheses of theorems are shown to hold.\<close>

definition ex_kernel :: kernel where
  "ex_kernel = \<lparr>tcp_time_stamp = 20000, ktime_get_real = 20000000000, sysctl_tcp_abc = 0,
     sysctl_tcp_max_ssthresh = 0\<rparr>"

definition ex_sock :: "'ca \<Rightarrow> 'ca tcp_sock" where
  "ex_sock ca = \<lparr>sk_state = 1, snd_nxt = 30000, snd_una = 10000, mss_cache = 1000, srtt = 800,
     rcv_tsval = 19950, rcv_tsecr = 19900, saw_tstamp = True, snd_ssthresh = 20, snd_cwnd = 40,
     snd_cwnd_cnt = 0, snd_cwnd_clamp = 100, snd_cwnd_stamp = 0, bytes_acked = 0,
     icsk_ca_state = 0, icsk_ca_priv = ca\<rparr>"

lemmas ex_defs = ex_kernel_def ex_sock_def

section \<open>Bit scans\<close>

text \<open>One test of \<open>fls\<close>: when no bit of the mask is set, shift left and lower the result.
  The result starts at 32 and loses at most 31, so a natural number holds it.\<close>

definition fls_step :: "cint \<Rightarrow> nat \<Rightarrow> cint \<times> nat \<Rightarrow> cint \<times> nat" where
  "fls_step m n xr = (case xr of (x, r) \<Rightarrow> if x AND m = 0 then (push_bit n x, r - n) else (x, r))"

definition fls :: "cint \<Rightarrow> nat" where
  "fls x = (if x = 0 then 0
     else snd (fls_step 0x80000000 1 (fls_step 0xc0000000 2 (fls_step 0xf0000000 4
            (fls_step 0xff000000 8 (fls_step 0xffff0000 16 (x, 32)))))))"

definition fls64 :: "u64 \<Rightarrow> nat" where
  "fls64 x = (let h = drop_bit 32 x in
     if h \<noteq> 0 then fls (ucast h) + 32 else fls (ucast x))"

section \<open>Division\<close>

text \<open>\<open>do_div(n, base)\<close>: \<open>n\<close> becomes the quotient and the expression is the remainder.\<close>

definition do_div :: "u64 \<Rightarrow> u32 \<Rightarrow> (u64 \<times> u32) option" where
  "do_div n base = do { q \<leftarrow> udiv n base; r \<leftarrow> umod n base; Some (q, r) }"

definition div64_64 :: "u64 \<Rightarrow> u64 \<Rightarrow> u64 option" where
  "div64_64 dividend divisor =
     (let high = drop_bit 32 divisor in
      let (d, dividend) =
        (if high \<noteq> 0
         then let shift = fls (ucast high) in (drop_bit shift divisor, drop_bit shift dividend)
         else (divisor, dividend))
      in map_option fst (do_div dividend d))"

section \<open>Kernel time\<close>

definition net_invalid_timestamp :: s64 where
  "net_invalid_timestamp = 0"

definition ktime_equal :: "s64 \<Rightarrow> s64 \<Rightarrow> bool" where
  "ktime_equal cmp1 cmp2 \<longleftrightarrow> cmp1 = cmp2"

definition ktime_to_us :: "s64 \<Rightarrow> s64" where
  \<comment> \<open>a signed division, which truncates towards zero\<close>
  "ktime_to_us kt = word_of_int (sint kt sdiv 1000)"

definition net_timedelta :: "kernel \<Rightarrow> s64 \<Rightarrow> s64" where
  "net_timedelta k t = ktime_get_real k - t"

lemmas ktime_defs = net_invalid_timestamp_def ktime_equal_def

section \<open>The bit scans find the highest set bit\<close>

lemma and_high_mask_eq_0: "(x :: 'a::len word) AND NOT (mask k) = 0 \<longleftrightarrow> unat x < 2 ^ k"
proof -
  have hi: "x AND NOT (mask k) = 0 \<longleftrightarrow> (\<forall>n. bit x n \<longrightarrow> n < k)"
    by (auto simp: bit_eq_iff bit_and_iff bit_not_iff bit_mask_iff dest: bit_imp_le_length)
  have "drop_bit k x = 0 \<longleftrightarrow> (\<forall>n. \<not> bit x (k + n))"
    by (simp add: bit_eq_iff [of "drop_bit k x"] bit_drop_bit_eq)
      (metis add.commute add_lessD1 bit_imp_le_length)
  also have "\<dots> \<longleftrightarrow> (\<forall>n. bit x n \<longrightarrow> n < k)"
    by (metis le_add_diff_inverse not_less not_add_less1)
  finally have "x AND NOT (mask k) = 0 \<longleftrightarrow> drop_bit k x = 0"
    using hi by blast
  also have "\<dots> \<longleftrightarrow> unat x div 2 ^ k = 0"
    by (metis unat_eq_zero unat_shiftr)
  finally show ?thesis by (simp add: div_eq_0_iff)
qed

text \<open>
  What every step of \<open>fls\<close> keeps: the shifted word is the argument times \<open>2 ^ (32 - r)\<close>
  (no bit is lost), and after a step with the mask above bit \<open>k\<close> it is at least \<open>2 ^ k\<close>.
\<close>

definition fls_inv :: "cint \<Rightarrow> nat \<Rightarrow> nat \<Rightarrow> cint \<times> nat \<Rightarrow> bool" where
  "fls_inv x0 k lo xr \<longleftrightarrow>
     unat (fst xr) = unat x0 * 2 ^ (32 - snd xr) \<and> 2 ^ k \<le> unat (fst xr) \<and>
     lo \<le> snd xr \<and> snd xr \<le> 32"

lemma fls_step_inv:
  assumes inv: "fls_inv x0 k lo xr" and m: "m = NOT (mask (32 - n))"
    and kn: "32 - n \<le> k + n" "n \<le> 32" "n \<le> lo"
  shows "fls_inv x0 (32 - n) (lo - n) (fls_step m n xr)"
proof -
  obtain x r where xr: "xr = (x, r)" by force
  have x: "unat x = unat x0 * 2 ^ (32 - r)" "2 ^ k \<le> unat x" "lo \<le> r" "r \<le> 32"
    using inv by (auto simp: fls_inv_def xr)
  show ?thesis
  proof (cases "unat x < 2 ^ (32 - n)")
    case True
    then have "unat x * 2 ^ n < 2 ^ (32 - n) * 2 ^ n" by simp
    also have "\<dots> = (2::nat) ^ 32" using kn by (simp flip: power_add)
    finally have sh: "unat (push_bit n x) = unat x * 2 ^ n"
      by (simp add: unat_shiftl_no_wrap)
    have "unat x0 * 2 ^ (32 - r) * 2 ^ n = unat x0 * 2 ^ (32 - (r - n))"
      using x kn by (simp add: flip: power_add)
    moreover have "(2::nat) ^ (32 - n) \<le> 2 ^ (k + n)" using kn by (simp add: power_increasing)
    then have "2 ^ (32 - n) \<le> unat x * 2 ^ n"
      using x(2) by (metis mult_le_mono1 order_trans power_add)
    ultimately show ?thesis
      using True x(1,3,4) sh kn diff_le_mono [OF x(3)]
      by (simp add: xr fls_step_def m and_high_mask_eq_0 fls_inv_def)
  next
    case False
    then show ?thesis
      using x kn by (simp add: xr fls_step_def m and_high_mask_eq_0 fls_inv_def)
  qed
qed

lemma fls_masks:
  "(0xffff0000 :: cint) = NOT (mask (32 - 16))" "(0xff000000 :: cint) = NOT (mask (32 - 8))"
  "(0xf0000000 :: cint) = NOT (mask (32 - 4))" "(0xc0000000 :: cint) = NOT (mask (32 - 2))"
  "(0x80000000 :: cint) = NOT (mask (32 - 1))"
  by (simp_all add: mask_eq_exp_minus_1)

lemma fls_bounds:
  assumes "x \<noteq> 0"
  shows "2 ^ (fls x - 1) \<le> unat x" "unat x < 2 ^ fls x" "0 < fls x" "fls x \<le> 32"
proof -
  have "fls_inv x 0 32 (x, 32)"
    using assms by (simp add: fls_inv_def word_nonzero_unat Suc_le_eq)
  note i1 = fls_step_inv [OF this fls_masks(1)]
  note i2 = fls_step_inv [OF i1 fls_masks(2)]
  note i3 = fls_step_inv [OF i2 fls_masks(3)]
  note i4 = fls_step_inv [OF i3 fls_masks(4)]
  note i5 = fls_step_inv [OF i4 fls_masks(5)]
  obtain y where y: "fls_step 0x80000000 1 (fls_step 0xc0000000 2 (fls_step 0xf0000000 4
      (fls_step 0xff000000 8 (fls_step 0xffff0000 16 (x, 32))))) = (y, fls x)"
    using assms by (metis fls_def prod.collapse)
  have inv: "unat y = unat x * 2 ^ (32 - fls x)" "2 ^ 31 \<le> unat y" "1 \<le> fls x" "fls x \<le> 32"
    using i5 unfolding y fls_inv_def by simp_all
  then show "0 < fls x" "fls x \<le> 32" by simp_all
  have "2 ^ (fls x - 1) * 2 ^ (32 - fls x) \<le> unat x * 2 ^ (32 - fls x)"
    using inv by (simp flip: power_add)
  then show "2 ^ (fls x - 1) \<le> unat x" by simp
  have "unat x * 2 ^ (32 - fls x) < 2 ^ fls x * 2 ^ (32 - fls x)"
    using inv unat_bound [of y] by (simp flip: power_add)
  then show "unat x < 2 ^ fls x" by simp
qed

lemma fls_zero [simp]: "fls 0 = 0"
  by (simp add: fls_def)

lemma fls64_zero [simp]: "fls64 0 = 0"
  by (simp add: fls64_def)

lemma fls64_bounds:
  assumes "x \<noteq> 0"
  shows "2 ^ (fls64 x - 1) \<le> unat x" "unat x < 2 ^ fls64 x" "0 < fls64 x" "fls64 x \<le> 64"
proof -
  define h where "h = (drop_bit 32 x :: 64 word)"
  have h: "unat h = unat x div 2 ^ 32" by (simp add: h_def unat_shiftr)
  then have hlt: "unat h < 2 ^ 32" by simp
  have "2 ^ (fls64 x - 1) \<le> unat x \<and> unat x < 2 ^ fls64 x \<and> 0 < fls64 x \<and> fls64 x \<le> 64"
  proof (cases "h = 0")
    case True
    then have xlt: "unat x < 2 ^ 32" using h by (simp add: div_eq_0_iff)
    then have u: "unat (ucast x :: 32 word) = unat x" by (simp add: unat_ucast_64_32)
    then have "(ucast x :: 32 word) \<noteq> 0" using assms by (metis unat_eq_zero)
    from fls_bounds [OF this] show ?thesis
      using True u by (simp add: fls64_def flip: h_def)
  next
    case False
    define f where "f = fls (ucast h)"
    have u: "unat (ucast h :: 32 word) = unat h" using hlt by (simp add: unat_ucast_64_32)
    then have "(ucast h :: 32 word) \<noteq> 0" using False by (metis unat_eq_zero)
    from fls_bounds [OF this]
    have f: "2 ^ (f - 1) \<le> unat h" "unat h < 2 ^ f" "0 < f" "f \<le> 32"
      unfolding f_def [symmetric] u by simp_all
    have eq: "fls64 x = f + 32" using False by (simp add: fls64_def f_def h_def Let_def)
    have "unat x < (unat h + 1) * 2 ^ 32" unfolding h by simp
    also have "\<dots> \<le> 2 ^ f * 2 ^ 32" using f(2) by simp
    finally have up: "unat x < 2 ^ (f + 32)" by (simp add: power_add)
    have "2 ^ (f + 32 - 1) = 2 ^ (f - 1) * (2::nat) ^ 32"
      using f(3) by (cases f) (simp_all add: power_add)
    also have "\<dots> \<le> unat h * 2 ^ 32" using f(1) by simp
    also have "\<dots> \<le> unat x" unfolding h by simp
    finally show ?thesis using up f eq by simp
  qed
  then show "2 ^ (fls64 x - 1) \<le> unat x" "unat x < 2 ^ fls64 x" "0 < fls64 x" "fls64 x \<le> 64"
    by simp_all
qed

section \<open>Division\<close>

lemma do_div_eq: "base \<noteq> 0 \<Longrightarrow> do_div n base = Some (n div base, n mod base)"
  by (simp add: do_div_def umod_def)

lemma div64_64_small:
  assumes "divisor \<noteq> 0" "unat divisor < 2 ^ 32"
  shows "div64_64 dividend divisor = Some (dividend div divisor)"
proof -
  have "unat (drop_bit 32 divisor) = 0" using assms by (simp add: unat_shiftr)
  then have "drop_bit 32 divisor = 0" by (simp only: unat_eq_zero)
  then show ?thesis using assms by (simp add: div64_64_def do_div_eq)
qed

text \<open>The quotient of two numbers that both lost their low bits.\<close>

lemma div_shifted_error:
  fixes a D d s :: nat
  assumes d: "d = D div 2 ^ s" and big: "2 ^ 31 \<le> d" and Q: "a div D < 2 ^ 32"
  shows "a div D \<le> a div 2 ^ s div d" "a div 2 ^ s div d \<le> a div D + 2"
proof -
  have dpos: "0 < d" "0 < D" using big d by (auto intro: Nat.gr0I)
  have le: "2 ^ s * d \<le> D" by (simp add: d)
  have q: "a div 2 ^ s div d = a div (2 ^ s * d)" by (simp add: div_mult2_eq)
  show "a div D \<le> a div 2 ^ s div d" unfolding q using le dpos by (intro div_le_mono2) auto
  have "D < 2 ^ s * (d + 1)" unfolding d by (simp add: dividend_less_times_div)
  then have "a < (a div D + 1) * (2 ^ s * (d + 1))"
    by (metis (no_types, lifting) Suc_eq_plus1 dividend_less_div_times dpos(2) less_imp_le_nat
        mult.commute mult_le_mono2 order_less_le_trans mult_Suc)
  also have "(a div D + 1) * (d + 1) \<le> (a div D + 3) * d"
    using Q big by (simp add: algebra_simps)
  then have "(a div D + 1) * (2 ^ s * (d + 1)) \<le> (a div D + 3) * (2 ^ s * d)"
    by (metis mult.left_commute mult_le_mono2)
  finally have "a < (a div D + 3) * (2 ^ s * d)" .
  then have "a div (2 ^ s * d) < a div D + 3" by (simp add: less_mult_imp_div_less)
  then show "a div 2 ^ s div d \<le> a div D + 2" unfolding q by simp
qed

lemma div64_64_bounds:
  assumes "divisor \<noteq> 0"
  obtains q where "div64_64 dividend divisor = Some q"
    "unat dividend div unat divisor \<le> unat q" "unat q \<le> unat dividend div unat divisor + 2"
proof (cases "unat divisor < 2 ^ 32")
  case True
  then show ?thesis using div64_64_small [OF assms True] by (intro that) (auto simp: unat_div)
next
  case False
  define h where "h = (drop_bit 32 divisor :: 64 word)"
  define s where "s = fls (ucast h)"
  have h: "unat h = unat divisor div 2 ^ 32" by (simp add: h_def unat_shiftr)
  then have u: "unat (ucast h :: 32 word) = unat h" by (simp add: unat_ucast_64_32)
  have hpos: "0 < unat h" using False unfolding h by (simp add: div_greater_zero_iff)
  then have "(ucast h :: 32 word) \<noteq> 0" using u by (metis unat_0 less_irrefl)
  from fls_bounds [OF this] have s: "2 ^ (s - 1) \<le> unat h" "0 < s"
    unfolding s_def [symmetric] u by simp_all
  define d where "d = (drop_bit s divisor :: 64 word)"
  have d: "unat d = unat divisor div 2 ^ s" by (simp add: d_def unat_shiftr)
  have "2 ^ 31 * 2 ^ s = 2 ^ (s - 1) * (2::nat) ^ 32"
    using s(2) by (cases s) simp_all
  also have "\<dots> \<le> unat h * 2 ^ 32" using s(1) by simp
  also have "\<dots> \<le> unat divisor" unfolding h by simp
  finally have big: "2 ^ 31 \<le> unat d"
    unfolding d by (simp add: less_eq_div_iff_mult_less_eq)
  then have dnz: "d \<noteq> 0" by auto
  have "unat dividend div unat divisor \<le> unat dividend div 2 ^ 32"
    using False by (intro div_le_mono2) auto
  also have "\<dots> < 2 ^ 32" using unat_bound [of dividend] by simp
  finally have Q: "unat dividend div unat divisor < 2 ^ 32" .
  have "h \<noteq> 0" using hpos by auto
  then have "div64_64 dividend divisor = Some (drop_bit s dividend div d)"
    using dnz by (simp add: div64_64_def do_div_eq flip: h_def s_def d_def)
  then show ?thesis
    using div_shifted_error [OF d big Q]
    by (intro that) (auto simp: unat_div unat_shiftr)
qed

end
