(* ===== verification/Tcp_Cong.thy ===== *)
theory Tcp_Cong
  imports Linux_Kernel
begin

text \<open>
  Slow start and Reno of \<open>tcp/linux/src/tcp_cong.c\<close>, the structure
  \<open>struct tcp_congestion_ops\<close> through which every module is called, and the contract
  (\<open>cong_avoid_ops\<close>, \<open>ssthresh_ops\<close>, \<open>cong_control\<close>) that the rest of the stack relies on.
  Reno is the first interpretation of the contract.
\<close>

section \<open>The operations of a module\<close>

text \<open>
  A null function pointer is \<open>None\<close>. An operation takes the globals and the socket and
  gives the new socket; the outer \<open>option\<close> of its result is its fault.
\<close>

record 'ca tcp_congestion_ops =
  ops_flags :: u32
  ops_init :: "(kernel \<Rightarrow> 'ca tcp_sock \<Rightarrow> 'ca tcp_sock option) option"
  ops_release :: "(kernel \<Rightarrow> 'ca tcp_sock \<Rightarrow> 'ca tcp_sock option) option"
  ops_ssthresh :: "(kernel \<Rightarrow> 'ca tcp_sock \<Rightarrow> (u32 \<times> 'ca tcp_sock) option) option"
  ops_min_cwnd :: "('ca tcp_sock \<Rightarrow> u32 option) option"
  ops_cong_avoid :: "(kernel \<Rightarrow> u32 \<Rightarrow> u32 \<Rightarrow> u32 \<Rightarrow> cint \<Rightarrow> 'ca tcp_sock \<Rightarrow> 'ca tcp_sock option) option"
  ops_rtt_sample :: "(kernel \<Rightarrow> u32 \<Rightarrow> 'ca tcp_sock \<Rightarrow> 'ca tcp_sock option) option"
  ops_set_state :: "(kernel \<Rightarrow> u8 \<Rightarrow> 'ca tcp_sock \<Rightarrow> 'ca tcp_sock option) option"
  ops_cwnd_event :: "(kernel \<Rightarrow> tcp_ca_event \<Rightarrow> 'ca tcp_sock \<Rightarrow> 'ca tcp_sock option) option"
  ops_undo_cwnd :: "(kernel \<Rightarrow> 'ca tcp_sock \<Rightarrow> (u32 \<times> 'ca tcp_sock) option) option"
  ops_pkts_acked :: "(kernel \<Rightarrow> u32 \<Rightarrow> s64 \<Rightarrow> 'ca tcp_sock \<Rightarrow> 'ca tcp_sock option) option"
  ops_name :: string

definition TCP_CONG_NON_RESTRICTED :: u32 where "TCP_CONG_NON_RESTRICTED = 1"
definition TCP_CONG_RTT_STAMP :: u32 where "TCP_CONG_RTT_STAMP = 2"

text \<open>A static initialiser leaves the fields it does not name null.\<close>

definition null_ops :: "'ca tcp_congestion_ops" where
  "null_ops = \<lparr>ops_flags = 0, ops_init = None, ops_release = None, ops_ssthresh = None,
     ops_min_cwnd = None, ops_cong_avoid = None, ops_rtt_sample = None, ops_set_state = None,
     ops_cwnd_event = None, ops_undo_cwnd = None, ops_pkts_acked = None, ops_name = []\<rparr>"

section \<open>Slow start\<close>

text \<open>\<open>if (tp->snd_cwnd < tp->snd_cwnd_clamp) tp->snd_cwnd++;\<close>\<close>

definition cwnd_increment :: "'ca tcp_sock \<Rightarrow> 'ca tcp_sock" where
  "cwnd_increment tp =
     (if snd_cwnd tp < ucast (snd_cwnd_clamp tp) then tp\<lparr>snd_cwnd := snd_cwnd tp + 1\<rparr> else tp)"

text \<open>
  The loop of \<open>tcp_slow_start\<close> over \<open>snd_cwnd_cnt\<close>, an \<open>unsigned int\<close>, and \<open>snd_cwnd\<close>, an
  \<open>unsigned long\<close>: the comparison and the difference are taken at 64 bits. With both the
  window and its clamp at zero the loop does not end, and the value is \<open>None\<close>.
\<close>

partial_function (option) slow_start_loop :: "u16 \<Rightarrow> u32 \<Rightarrow> u16 \<Rightarrow> (u16 \<times> u32) option" where
  "slow_start_loop cnt cwnd clamp =
     (if cwnd \<le> ucast cnt
      then slow_start_loop (ucast (ucast cnt - cwnd)) (if cwnd < ucast clamp then cwnd + 1 else cwnd) clamp
      else Some (cnt, cwnd))"

text \<open>The increase in packets, an \<open>int\<close>: a window above \<open>sysctl_tcp_max_ssthresh\<close> gives half of that
  limit, any other its own low 32 bits; under ABC two segments acknowledged at once double it.\<close>

definition slow_start_cnt :: "kernel \<Rightarrow> 'ca tcp_sock \<Rightarrow> cint" where
  "slow_start_cnt k tp =
     (let cnt = (if 0 < sint (sysctl_tcp_max_ssthresh k) \<and>
                    scast (sysctl_tcp_max_ssthresh k) < snd_cwnd tp
                 then drop_bit 1 (sysctl_tcp_max_ssthresh k)
                 else ucast (snd_cwnd tp))
      in if 1 < sysctl_tcp_abc k \<and> 2 * mss_cache tp \<le> bytes_acked tp
         then push_bit 1 cnt else cnt)"

definition tcp_slow_start :: "kernel \<Rightarrow> 'ca tcp_sock \<Rightarrow> 'ca tcp_sock option" where
  "tcp_slow_start k tp =
     (if sysctl_tcp_abc k \<noteq> 0 \<and> bytes_acked tp < mss_cache tp then Some tp
      else do {
        (cnt, cwnd) \<leftarrow> slow_start_loop (snd_cwnd_cnt tp + slow_start_cnt k tp)
                        (snd_cwnd tp) (snd_cwnd_clamp tp);
        Some (tp\<lparr>bytes_acked := 0, snd_cwnd_cnt := cnt, snd_cwnd := cwnd\<rparr>)
      })"

section \<open>Reno\<close>

text \<open>
  The additive increase that Reno and the modules built on it share: one more segment after
  \<open>w\<close> acknowledgements.
\<close>

definition cong_avoid_ai :: "u32 \<Rightarrow> 'ca tcp_sock \<Rightarrow> 'ca tcp_sock" where
  "cong_avoid_ai w tp =
     (if w \<le> ucast (snd_cwnd_cnt tp) then (cwnd_increment tp)\<lparr>snd_cwnd_cnt := 0\<rparr>
      else tp\<lparr>snd_cwnd_cnt := snd_cwnd_cnt tp + 1\<rparr>)"

definition tcp_reno_cong_avoid ::
  "kernel \<Rightarrow> u32 \<Rightarrow> u32 \<Rightarrow> u32 \<Rightarrow> cint \<Rightarrow> 'ca tcp_sock \<Rightarrow> 'ca tcp_sock option" where
  "tcp_reno_cong_avoid k ack rtt in_flight flag tp =
     (if \<not> tcp_is_cwnd_limited tp in_flight then Some tp
      else if snd_cwnd tp \<le> snd_ssthresh tp then tcp_slow_start k tp
      else if sysctl_tcp_abc k \<noteq> 0 then
        (if snd_cwnd tp * mss_cache tp \<le> bytes_acked tp
         then Some (cwnd_increment (tp\<lparr>bytes_acked := bytes_acked tp - snd_cwnd tp * mss_cache tp\<rparr>))
         else Some tp)
      else Some (cong_avoid_ai (snd_cwnd tp) tp))"

definition tcp_reno_ssthresh :: "kernel \<Rightarrow> 'ca tcp_sock \<Rightarrow> (u32 \<times> 'ca tcp_sock) option" where
  "tcp_reno_ssthresh k tp = Some (max (drop_bit 1 (snd_cwnd tp)) 2, tp)"

definition tcp_reno_min_cwnd :: "'ca tcp_sock \<Rightarrow> u32 option" where
  "tcp_reno_min_cwnd tp = Some (snd_ssthresh tp div 2)"

definition tcp_reno :: "'ca tcp_congestion_ops" where
  "tcp_reno = null_ops\<lparr>ops_flags := TCP_CONG_NON_RESTRICTED, ops_name := ''reno'',
     ops_ssthresh := Some tcp_reno_ssthresh, ops_cong_avoid := Some tcp_reno_cong_avoid,
     ops_min_cwnd := Some tcp_reno_min_cwnd\<rparr>"

definition tcp_init_congestion_ops :: "'ca tcp_congestion_ops" where
  "tcp_init_congestion_ops = null_ops\<lparr>ops_name := '''',
     ops_ssthresh := Some tcp_reno_ssthresh, ops_cong_avoid := Some tcp_reno_cong_avoid,
     ops_min_cwnd := Some tcp_reno_min_cwnd\<rparr>"

section \<open>The slow start loop\<close>

declare slow_start_loop.simps [code]

lemma slow_start_loop_exit: "\<not> cwnd \<le> ucast cnt \<Longrightarrow> slow_start_loop cnt cwnd clamp = Some (cnt, cwnd)"
  by (simp add: slow_start_loop.simps)

lemma slow_start_loop_step:
  "cwnd \<le> ucast cnt \<Longrightarrow> slow_start_loop cnt cwnd clamp =
     slow_start_loop (ucast (ucast cnt - cwnd)) (if cwnd < ucast clamp then cwnd + 1 else cwnd) clamp"
  by (simp add: slow_start_loop.simps)

lemma unat_ucast_sub:
  "cwnd \<le> ucast (cnt :: u16) \<Longrightarrow> unat (ucast (ucast cnt - cwnd :: u32) :: u16) = unat cnt - unat cwnd"
  using unat_lt_32 [of cnt]
  by (simp add: unat_sub word_le_nat_alt unat_ucast_64_32 del: unat_lt_32)

text \<open>
  What one run of the loop yields: the counter ends below the window, the window does not
  shrink and does not pass the larger of its start and its clamp, and the counter paid each
  window it went through once (\<open>j\<close> more times the final one, when that is the clamp).
\<close>

definition slow_start_post :: "u16 \<Rightarrow> u32 \<Rightarrow> u16 \<Rightarrow> u16 \<times> u32 \<Rightarrow> bool" where
  "slow_start_post cnt cwnd clamp r \<longleftrightarrow> (case r of (c, w) \<Rightarrow>
     ucast c < w \<and> cwnd \<le> w \<and> w \<le> max cwnd (ucast clamp) \<and>
     (\<exists>j. unat cnt = unat c + sum id {unat cwnd..<unat w} + j * unat w \<and>
          (w < ucast clamp \<longrightarrow> j = 0)))"

lemma slow_start_post_exit:
  "\<not> cwnd \<le> ucast cnt \<Longrightarrow> slow_start_post cnt cwnd clamp (cnt, cwnd)"
  by (auto simp: slow_start_post_def intro: exI [of _ 0])

lemma slow_start_post_inc:
  assumes le: "cwnd \<le> ucast cnt" and lt: "cwnd < ucast clamp"
    and post: "slow_start_post (ucast (ucast cnt - cwnd)) (cwnd + 1) clamp r"
  shows "slow_start_post cnt cwnd clamp r"
proof -
  obtain c w where r: "r = (c, w)" by force
  have S: "unat (cwnd + 1) = Suc (unat cwnd)" by (rule unat_Suc_below [OF lt])
  obtain j where *: "ucast c < w" "cwnd + 1 \<le> w" "w \<le> max (cwnd + 1) (ucast clamp)"
    "unat cnt - unat cwnd = unat c + sum id {Suc (unat cwnd)..<unat w} + j * unat w"
    "w < ucast clamp \<longrightarrow> j = 0"
    using post by (auto simp: slow_start_post_def r unat_ucast_sub [OF le] S)
  have n: "unat cwnd \<le> unat cnt" "Suc (unat cwnd) \<le> unat w"
    using le *(2) by (simp_all add: word_le_nat_alt S)
  have "sum id {unat cwnd..<unat w} = unat cwnd + sum id {Suc (unat cwnd)..<unat w}"
    using n(2) by (simp add: sum.atLeast_Suc_lessThan)
  then have "unat cnt = unat c + sum id {unat cwnd..<unat w} + j * unat w" using *(4) n(1) by simp
  moreover have "cwnd \<le> w" using n by (simp add: word_le_nat_alt)
  moreover have "w \<le> max cwnd (ucast clamp)"
    using *(3) lt S by (simp add: word_order_nat max_def split: if_splits)
  ultimately show ?thesis using * by (auto simp: slow_start_post_def r)
qed

lemma slow_start_post_stay:
  assumes le: "cwnd \<le> ucast cnt" and nlt: "\<not> cwnd < ucast clamp"
    and post: "slow_start_post (ucast (ucast cnt - cwnd)) cwnd clamp r"
  shows "slow_start_post cnt cwnd clamp r"
proof -
  obtain c w where r: "r = (c, w)" by force
  obtain j where *: "ucast c < w" "cwnd \<le> w" "w \<le> max cwnd (ucast clamp)"
    "unat cnt - unat cwnd = unat c + sum id {unat cwnd..<unat w} + j * unat w"
    using post by (auto simp: slow_start_post_def r unat_ucast_sub [OF le])
  have eq: "w = cwnd" using *(2,3) nlt by (simp add: max_def split: if_splits)
  have "unat cnt = unat c + sum id {unat cwnd..<unat w} + Suc j * unat w"
    using *(4) le by (simp add: eq word_le_nat_alt)
  then show ?thesis using * nlt by (auto simp: slow_start_post_def r eq intro!: exI [of _ "Suc j"])
qed

lemma slow_start_loop_total:
  assumes "0 < cwnd"
  shows "\<exists>r. slow_start_loop cnt cwnd clamp = Some r \<and> slow_start_post cnt cwnd clamp r"
  using assms
proof (induction "unat cnt" arbitrary: cnt cwnd rule: less_induct)
  case less
  show ?case
  proof (cases "cwnd \<le> ucast cnt")
    case False
    then show ?thesis using slow_start_loop_exit slow_start_post_exit by blast
  next
    case True
    let ?cnt = "ucast (ucast cnt - cwnd) :: u16"
    let ?cwnd = "if cwnd < ucast clamp then cwnd + 1 else cwnd"
    have "unat ?cnt < unat cnt"
      using True less.prems by (simp add: unat_ucast_sub word_order_nat)
    moreover have "0 < ?cwnd"
      using less.prems unat_Suc_below [of cwnd "ucast clamp"] by (auto simp: word_less_nat_alt)
    ultimately obtain r where r: "slow_start_loop ?cnt ?cwnd clamp = Some r"
      "slow_start_post ?cnt ?cwnd clamp r" using less.hyps by blast
    have "slow_start_post cnt cwnd clamp r"
      using r(2) slow_start_post_inc [OF True] slow_start_post_stay [OF True]
      by (cases "cwnd < ucast clamp") simp_all
    then show ?thesis using r(1) by (simp add: slow_start_loop_step [OF True])
  qed
qed

lemma slow_start_loop_diverges: "slow_start_loop cnt 0 0 = None"
proof -
  have "slow_start_loop cnt 0 0 \<noteq> Some r" for r
  proof
    assume ret: "slow_start_loop cnt 0 0 = Some r"
    have "\<not> ((0::u32) = 0 \<and> (0::u16) = 0)"
    proof (rule slow_start_loop.raw_induct [where P = "\<lambda>_ cwnd clamp _. \<not> (cwnd = 0 \<and> clamp = 0)", OF _ ret])
      fix f and cnt clamp :: u16 and cwnd :: u32 and r
      assume "\<And>cnt cwnd clamp r. f cnt cwnd clamp = Some r \<Longrightarrow> \<not> (cwnd = (0::u32) \<and> clamp = (0::u16))"
        and "(if cwnd \<le> ucast cnt then f (ucast (ucast cnt - cwnd))
                (if cwnd < ucast clamp then cwnd + 1 else cwnd) clamp
              else Some (cnt, cwnd)) = Some r"
      then show "\<not> (cwnd = 0 \<and> clamp = 0)" by (auto split: if_splits)
    qed
    then show False by simp
  qed
  then show ?thesis by (cases "slow_start_loop cnt 0 0") auto
qed

lemma slow_start_loop_None_iff: "slow_start_loop cnt cwnd clamp = None \<longleftrightarrow> cwnd = 0 \<and> clamp = 0"
proof (cases "cwnd = 0")
  case False
  then have "0 < cwnd" by (simp add: word_gt_0)
  then show ?thesis using slow_start_loop_total [of cwnd cnt clamp] False by auto
next
  case True
  show ?thesis
  proof (cases "clamp = 0")
    case True
    then show ?thesis using \<open>cwnd = 0\<close> slow_start_loop_diverges by simp
  next
    case False
    then have "0 < unat clamp" by (simp add: unat_gt_0)
    then have "(0::u32) < ucast clamp" by (simp add: word_less_nat_alt)
    then have "slow_start_loop cnt cwnd clamp = slow_start_loop cnt 1 clamp"
      using True by (simp add: slow_start_loop.simps [of cnt 0])
    then show ?thesis using False slow_start_loop_total [of 1 cnt clamp] by auto
  qed
qed

section \<open>The congestion window stays within its clamp\<close>

definition window_ok :: "'ca tcp_sock \<Rightarrow> bool" where
  "window_ok tp \<longleftrightarrow> 0 < snd_cwnd tp \<and> snd_cwnd tp \<le> ucast (snd_cwnd_clamp tp)"

text \<open>The fields that no \<open>cong_avoid\<close> operation writes.\<close>

definition same_path :: "'ca tcp_sock \<Rightarrow> 'cb tcp_sock \<Rightarrow> bool" where
  "same_path tp tp' \<longleftrightarrow> snd_cwnd_clamp tp' = snd_cwnd_clamp tp \<and> mss_cache tp' = mss_cache tp \<and>
     snd_nxt tp' = snd_nxt tp \<and> snd_una tp' = snd_una tp \<and> srtt tp' = srtt tp \<and>
     rcv_tsval tp' = rcv_tsval tp \<and> rcv_tsecr tp' = rcv_tsecr tp \<and> saw_tstamp tp' = saw_tstamp tp \<and>
     icsk_ca_state tp' = icsk_ca_state tp"

lemma same_path_refl [simp]: "same_path tp tp"
  by (simp add: same_path_def)

lemma same_path_trans: "same_path tp tp' \<Longrightarrow> same_path tp' tp'' \<Longrightarrow> same_path tp tp''"
  by (simp add: same_path_def)

lemma cwnd_increment_frame [simp]:
  "same_path tp' (cwnd_increment tp) = same_path tp' tp" "icsk_ca_priv (cwnd_increment tp) = icsk_ca_priv tp"
  "snd_ssthresh (cwnd_increment tp) = snd_ssthresh tp"
  "snd_cwnd_clamp (cwnd_increment tp) = snd_cwnd_clamp tp"
  "snd_cwnd_cnt (cwnd_increment tp) = snd_cwnd_cnt tp"
  by (simp_all add: cwnd_increment_def same_path_def)

lemma cwnd_increment_window:
  assumes "window_ok tp"
  shows "window_ok (cwnd_increment tp)"
    and "unat (snd_cwnd (cwnd_increment tp)) \<le> Suc (unat (snd_cwnd tp))"
    and "unat (snd_cwnd tp) \<le> unat (snd_cwnd (cwnd_increment tp))"
proof -
  show "window_ok (cwnd_increment tp)"
    using assms unat_Suc_below [of "snd_cwnd tp" "ucast (snd_cwnd_clamp tp)"]
    by (auto simp: window_ok_def cwnd_increment_def word_order_nat)
  show "unat (snd_cwnd (cwnd_increment tp)) \<le> Suc (unat (snd_cwnd tp))"
    and "unat (snd_cwnd tp) \<le> unat (snd_cwnd (cwnd_increment tp))"
    using unat_Suc_below [of "snd_cwnd tp" "ucast (snd_cwnd_clamp tp)"]
    by (auto simp: cwnd_increment_def)
qed

lemma window_ok_counter [simp]:
  "window_ok (tp\<lparr>snd_cwnd_cnt := c\<rparr>) = window_ok tp"
  "window_ok (tp\<lparr>bytes_acked := b\<rparr>) = window_ok tp"
  "window_ok (tp\<lparr>icsk_ca_priv := p\<rparr>) = window_ok tp"
  "window_ok (tp\<lparr>snd_ssthresh := s\<rparr>) = window_ok tp"
  by (simp_all add: window_ok_def)

lemma same_path_counter [simp]:
  "same_path tp (tp'\<lparr>snd_cwnd_cnt := c\<rparr>) = same_path tp tp'"
  "same_path tp (tp'\<lparr>bytes_acked := b\<rparr>) = same_path tp tp'"
  "same_path tp (tp'\<lparr>icsk_ca_priv := p\<rparr>) = same_path tp tp'"
  "same_path tp (tp'\<lparr>snd_ssthresh := s\<rparr>) = same_path tp tp'"
  "same_path tp (tp'\<lparr>snd_cwnd := w\<rparr>) = same_path tp tp'"
  "same_path (tp\<lparr>bytes_acked := b\<rparr>) tp' = same_path tp tp'"
  "same_path (tp\<lparr>snd_cwnd := w\<rparr>) tp' = same_path tp tp'"
  "same_path (tp\<lparr>icsk_ca_priv := p\<rparr>) tp' = same_path tp tp'"
  "same_path (tp\<lparr>snd_cwnd_cnt := c\<rparr>) tp' = same_path tp tp'"
  "same_path (tp\<lparr>snd_ssthresh := s\<rparr>) tp' = same_path tp tp'"
  by (simp_all add: same_path_def)

text \<open>What a step of a \<open>cong_avoid\<close> operation promises of the window.\<close>

definition window_step :: "'ca tcp_sock \<Rightarrow> 'ca tcp_sock \<Rightarrow> bool" where
  "window_step tp tp' \<longleftrightarrow> window_ok tp' \<and> same_path tp tp'"

lemma window_step_refl: "window_ok tp \<Longrightarrow> window_step tp tp"
  by (simp add: window_step_def)

lemma window_ok_32:
  assumes "window_ok tp"
  shows "unat (snd_cwnd tp) < 2 ^ 32" "0 < unat (snd_cwnd tp)"
  using assms unat_lt_32 [of "snd_cwnd_clamp tp"]
  by (simp_all add: window_ok_def word_order_nat del: unat_lt_32)

lemma cong_avoid_ai_step:
  "window_ok tp \<Longrightarrow> window_step tp (cong_avoid_ai w tp) \<and>
     icsk_ca_priv (cong_avoid_ai w tp) = icsk_ca_priv tp \<and>
     snd_ssthresh (cong_avoid_ai w tp) = snd_ssthresh tp"
  by (simp add: cong_avoid_ai_def window_step_def cwnd_increment_window)

lemma tcp_slow_start_window:
  assumes "window_ok tp"
  obtains tp' where "tcp_slow_start k tp = Some tp'" "window_step tp tp'"
    "icsk_ca_priv tp' = icsk_ca_priv tp" "snd_ssthresh tp' = snd_ssthresh tp"
    "snd_cwnd tp \<le> snd_cwnd tp'"
proof (cases "sysctl_tcp_abc k \<noteq> 0 \<and> bytes_acked tp < mss_cache tp")
  case True
  with assms show ?thesis by (intro that [of tp]) (auto simp: tcp_slow_start_def window_step_def)
next
  case False
  have pos: "0 < snd_cwnd tp" using assms by (simp add: window_ok_def)
  obtain c w where r: "slow_start_loop (snd_cwnd_cnt tp + slow_start_cnt k tp) (snd_cwnd tp)
      (snd_cwnd_clamp tp) = Some (c, w)"
    and post: "slow_start_post (snd_cwnd_cnt tp + slow_start_cnt k tp) (snd_cwnd tp)
      (snd_cwnd_clamp tp) (c, w)"
    using slow_start_loop_total [OF pos] by (metis surj_pair)
  show ?thesis
  proof (rule that [of "tp\<lparr>bytes_acked := 0, snd_cwnd_cnt := c, snd_cwnd := w\<rparr>"])
    show "tcp_slow_start k tp = Some (tp\<lparr>bytes_acked := 0, snd_cwnd_cnt := c, snd_cwnd := w\<rparr>)"
      using False by (auto simp: tcp_slow_start_def r)
    show "window_step tp (tp\<lparr>bytes_acked := 0, snd_cwnd_cnt := c, snd_cwnd := w\<rparr>)"
      using post assms by (auto simp: slow_start_post_def window_ok_def window_step_def max_def
          split: if_splits)
  qed (use post in \<open>simp_all add: slow_start_post_def\<close>)
qed

lemma tcp_slow_start_step:
  "window_ok tp \<Longrightarrow> \<exists>tp'. tcp_slow_start k tp = Some tp' \<and> window_step tp tp' \<and>
     icsk_ca_priv tp' = icsk_ca_priv tp \<and> snd_ssthresh tp' = snd_ssthresh tp"
  by (metis tcp_slow_start_window)

section \<open>The contract of the modules\<close>

text \<open>
  \<open>cong_avoid_ops\<close>: on a connection with a segment size and a window within its clamp, in the
  circumstances \<open>env\<close> the module needs (what clocks and round trip times it can be called with),
  the operation returns (it neither faults nor runs for ever), leaves the window within its clamp
  and keeps the module's own invariant. \<open>ssthresh_ops\<close>: the new threshold is at least two
  segments and asks for no more than the window (or those two segments); the operation touches
  nothing but the private area.
\<close>

locale cong_avoid_ops =
  fixes cong_avoid :: "kernel \<Rightarrow> u32 \<Rightarrow> u32 \<Rightarrow> u32 \<Rightarrow> cint \<Rightarrow> 'ca tcp_sock \<Rightarrow> 'ca tcp_sock option"
    and env :: "kernel \<Rightarrow> 'ca tcp_sock \<Rightarrow> bool"
    and ca_inv :: "'ca \<Rightarrow> bool"
  assumes cong_avoid_step: "window_ok tp \<Longrightarrow> 0 < mss_cache tp \<Longrightarrow> env k tp \<Longrightarrow>
    ca_inv (icsk_ca_priv tp) \<Longrightarrow>
    \<exists>tp'. cong_avoid k ack rtt in_flight flag tp = Some tp' \<and> window_step tp tp' \<and>
          ca_inv (icsk_ca_priv tp')"
    and env_path: "env k tp \<Longrightarrow> same_path tp tp' \<Longrightarrow> env k tp'"

locale ssthresh_ops =
  fixes ssthresh :: "kernel \<Rightarrow> 'ca tcp_sock \<Rightarrow> (u32 \<times> 'ca tcp_sock) option"
    and ca_inv :: "'ca \<Rightarrow> bool"
  assumes ssthresh_ok: "window_ok tp \<Longrightarrow> ca_inv (icsk_ca_priv tp) \<Longrightarrow>
    \<exists>v ca. ssthresh k tp = Some (v, tp\<lparr>icsk_ca_priv := ca\<rparr>) \<and> ca_inv ca \<and>
           2 \<le> v \<and> v \<le> max (snd_cwnd tp) 2"

locale cong_control =
  cong_avoid_ops cong_avoid env ca_inv + ssthresh_ops ssthresh ca_inv
  for cong_avoid :: "kernel \<Rightarrow> u32 \<Rightarrow> u32 \<Rightarrow> u32 \<Rightarrow> cint \<Rightarrow> 'ca tcp_sock \<Rightarrow> 'ca tcp_sock option"
    and env :: "kernel \<Rightarrow> 'ca tcp_sock \<Rightarrow> bool"
    and ssthresh :: "kernel \<Rightarrow> 'ca tcp_sock \<Rightarrow> (u32 \<times> 'ca tcp_sock) option"
    and ca_inv :: "'ca \<Rightarrow> bool"

text \<open>The shape in which most modules meet \<open>ssthresh_ok\<close>: they write no field of the socket.\<close>

lemma ssthresh_ok_pure:
  assumes "ssthresh k tp = Some (v, tp)" "ca_inv (icsk_ca_priv tp)"
    and "unat v = max n 2" "n \<le> unat (snd_cwnd tp)"
  shows "\<exists>v ca. ssthresh k tp = Some (v, tp\<lparr>icsk_ca_priv := ca\<rparr>) \<and> ca_inv ca \<and>
    2 \<le> v \<and> v \<le> max (snd_cwnd tp) (2 :: u32)"
proof (rule exI [of _ v], rule exI [of _ "icsk_ca_priv tp"], intro conjI)
  show "2 \<le> v" "v \<le> max (snd_cwnd tp) 2"
    using assms(3,4) by (auto simp: word_le_nat_alt unat_max)
qed (use assms(1,2) in simp_all)

lemma ssthresh_ok_max:
  assumes "ssthresh k tp = Some (max x 2, tp\<lparr>icsk_ca_priv := ca\<rparr>)" "ca_inv ca" "x \<le> snd_cwnd tp"
  shows "\<exists>v ca. ssthresh k tp = Some (v, tp\<lparr>icsk_ca_priv := ca\<rparr>) \<and> ca_inv ca \<and>
    2 \<le> v \<and> v \<le> max (snd_cwnd tp) (2 :: u32)"
proof (rule exI [of _ "max x 2"], rule exI [of _ ca], intro conjI)
  show "max x 2 \<le> max (snd_cwnd tp) 2" using assms(3) by (auto simp: max_def)
qed (use assms(1,2) in simp_all)

text \<open>
  A run of acknowledgements, as the client of the operation makes it: each carries the globals
  and the arguments of its call.
\<close>

type_synonym ack_args = "kernel \<times> u32 \<times> u32 \<times> u32 \<times> cint"

fun run_acks ::
  "(kernel \<Rightarrow> u32 \<Rightarrow> u32 \<Rightarrow> u32 \<Rightarrow> cint \<Rightarrow> 'ca tcp_sock \<Rightarrow> 'ca tcp_sock option) \<Rightarrow> ack_args list \<Rightarrow>
   'ca tcp_sock \<Rightarrow> 'ca tcp_sock option" where
  "run_acks f [] tp = Some tp"
| "run_acks f ((k, ack, rtt, in_flight, flag) # as) tp =
     do { tp' \<leftarrow> f k ack rtt in_flight flag tp; run_acks f as tp' }"

context cong_avoid_ops begin

text \<open>Any number of acknowledgements is processed without a fault and within the clamp.\<close>

lemma run_acks_step:
  "window_ok tp \<Longrightarrow> 0 < mss_cache tp \<Longrightarrow> \<forall>a\<in>set as. env (fst a) tp \<Longrightarrow> ca_inv (icsk_ca_priv tp) \<Longrightarrow>
     \<exists>tp'. run_acks cong_avoid as tp = Some tp' \<and> window_step tp tp' \<and> ca_inv (icsk_ca_priv tp')"
proof (induction as arbitrary: tp)
  case Nil
  then show ?case by (simp add: window_step_refl)
next
  case (Cons a as)
  obtain k ack rtt in_flight flag where a: "a = (k, ack, rtt, in_flight, flag)" by (cases a)
  have "env k tp" using Cons.prems(3) by (simp add: a)
  then obtain tp1 where 1: "cong_avoid k ack rtt in_flight flag tp = Some tp1" "window_step tp tp1"
    "ca_inv (icsk_ca_priv tp1)" using cong_avoid_step [OF Cons.prems(1,2) _ Cons.prems(4)] by blast
  then have "window_ok tp1" "0 < mss_cache tp1" "\<forall>a\<in>set as. env (fst a) tp1"
    using Cons.prems env_path [of _ tp tp1] by (auto simp: window_step_def same_path_def)
  then obtain tp2 where 2: "run_acks cong_avoid as tp1 = Some tp2" "window_step tp1 tp2"
    "ca_inv (icsk_ca_priv tp2)" using Cons.IH 1(3) by blast
  then have "window_step tp tp2" using 1(2) by (auto simp: window_step_def intro: same_path_trans)
  then show ?case using 1 2 by (simp add: a)
qed

end

section \<open>Reno keeps the contract\<close>

lemma tcp_reno_cong_avoid_step:
  assumes "window_ok tp"
  shows "\<exists>tp'. tcp_reno_cong_avoid k ack rtt in_flight flag tp = Some tp' \<and> window_step tp tp' \<and>
    icsk_ca_priv tp' = icsk_ca_priv tp \<and> snd_ssthresh tp' = snd_ssthresh tp"
proof -
  consider (skip) "\<not> tcp_is_cwnd_limited tp in_flight"
    | (slow) "tcp_is_cwnd_limited tp in_flight" "snd_cwnd tp \<le> snd_ssthresh tp"
    | (abc) "tcp_is_cwnd_limited tp in_flight" "\<not> snd_cwnd tp \<le> snd_ssthresh tp" "sysctl_tcp_abc k \<noteq> 0"
    | (ai) "tcp_is_cwnd_limited tp in_flight" "\<not> snd_cwnd tp \<le> snd_ssthresh tp" "sysctl_tcp_abc k = 0"
    by blast
  then show ?thesis
  proof cases
    case skip
    then show ?thesis using assms by (simp add: tcp_reno_cong_avoid_def window_step_refl)
  next
    case slow
    then show ?thesis
      using tcp_slow_start_window [OF assms, of k] by (metis tcp_reno_cong_avoid_def)
  next
    case abc
    then show ?thesis
      using assms by (simp add: tcp_reno_cong_avoid_def window_step_def cwnd_increment_window)
  next
    case ai
    then show ?thesis
      using cong_avoid_ai_step [OF assms] by (simp add: tcp_reno_cong_avoid_def)
  qed
qed

interpretation reno: cong_control tcp_reno_cong_avoid "\<lambda>_ _. True" tcp_reno_ssthresh "\<lambda>_. True"
proof (unfold_locales, goal_cases)
  case (1 tp k ack rtt in_flight flag)
  show ?case using tcp_reno_cong_avoid_step [OF 1(1)] by blast
next
  case (3 tp k)
  show ?case
    by (rule ssthresh_ok_pure [where n = "unat (snd_cwnd tp) div 2"], rule tcp_reno_ssthresh_def)
      (simp_all add: unat_simps)
qed simp

lemma tcp_reno_min_cwnd_pos:
  "2 \<le> snd_ssthresh tp \<Longrightarrow> \<exists>v. tcp_reno_min_cwnd tp = Some v \<and> 0 < v"
  by (simp add: tcp_reno_min_cwnd_def word_order_nat unat_div)

section \<open>Properties\<close>

text \<open>
  Property C34. Slow start returns for every socket except one: the loop
  \<open>while (tp->snd_cwnd_cnt >= tp->snd_cwnd)\<close> runs for ever exactly when the window and its clamp
  are both zero (and Appropriate Byte Counting does not return first).
\<close>

theorem tcp_slow_start_diverges_iff:
  "tcp_slow_start k tp = None \<longleftrightarrow>
     snd_cwnd tp = 0 \<and> snd_cwnd_clamp tp = 0 \<and>
     \<not> (sysctl_tcp_abc k \<noteq> 0 \<and> bytes_acked tp < mss_cache tp)"
proof (cases "sysctl_tcp_abc k \<noteq> 0 \<and> bytes_acked tp < mss_cache tp")
  case True
  then show ?thesis by (simp add: tcp_slow_start_def)
next
  case False
  then have "tcp_slow_start k tp = None \<longleftrightarrow>
      slow_start_loop (snd_cwnd_cnt tp + slow_start_cnt k tp) (snd_cwnd tp) (snd_cwnd_clamp tp) = None"
    by (auto simp: tcp_slow_start_def Option.bind_eq_None_conv split: prod.splits)
  then show ?thesis using False by (auto simp: slow_start_loop_None_iff)
qed

text \<open>
  The accounting of slow start: with \<open>N\<close> the old counter plus the increase of this
  acknowledgement, the new window \<open>w'\<close> and counter \<open>c'\<close> satisfy
  \<open>N = c' + (w + (w+1) + ... + (w'-1)) + j * w'\<close> with \<open>c' < w'\<close>: every segment added cost one
  full window of the counter and no credit is lost, except the \<open>j\<close> windows thrown away when
  the clamp was reached.
\<close>

theorem tcp_slow_start_accounting:
  assumes "tcp_slow_start k tp = Some tp'"
    and "sysctl_tcp_abc k = 0 \<or> mss_cache tp \<le> bytes_acked tp"
    and "0 < snd_cwnd tp"
  shows "(\<exists>j. unat (snd_cwnd_cnt tp + slow_start_cnt k tp) =
            unat (snd_cwnd_cnt tp') + sum id {unat (snd_cwnd tp)..<unat (snd_cwnd tp')} +
            j * unat (snd_cwnd tp') \<and>
            (snd_cwnd tp' < ucast (snd_cwnd_clamp tp) \<longrightarrow> j = 0)) \<and>
         ucast (snd_cwnd_cnt tp') < snd_cwnd tp' \<and> snd_cwnd tp \<le> snd_cwnd tp' \<and>
         snd_cwnd tp' \<le> max (snd_cwnd tp) (ucast (snd_cwnd_clamp tp)) \<and> bytes_acked tp' = 0"
proof -
  obtain r where "slow_start_loop (snd_cwnd_cnt tp + slow_start_cnt k tp) (snd_cwnd tp)
      (snd_cwnd_clamp tp) = Some r"
    and "slow_start_post (snd_cwnd_cnt tp + slow_start_cnt k tp) (snd_cwnd tp) (snd_cwnd_clamp tp) r"
    using slow_start_loop_total [OF assms(3)] by blast
  moreover have "\<not> (sysctl_tcp_abc k \<noteq> 0 \<and> bytes_acked tp < mss_cache tp)"
    using assms(2) by (auto simp: not_less)
  ultimately have tp': "tp' = tp\<lparr>bytes_acked := 0, snd_cwnd_cnt := fst r, snd_cwnd := snd r\<rparr>"
    and post: "slow_start_post (snd_cwnd_cnt tp + slow_start_cnt k tp) (snd_cwnd tp)
      (snd_cwnd_clamp tp) (fst r, snd r)"
    using assms(1) unfolding prod.collapse
    by (auto simp: tcp_slow_start_def split: if_splits prod.splits)
  show ?thesis using post unfolding slow_start_post_def prod.case by (simp add: tp')
qed

theorem tcp_slow_start_accounting_witness:
  "\<exists>tp'. tcp_slow_start ex_kernel ((ex_sock ())\<lparr>snd_cwnd := 10, snd_cwnd_cnt := 5\<rparr>) = Some tp' \<and>
     ucast (snd_cwnd_cnt tp') < snd_cwnd tp' \<and> snd_cwnd tp' = 11"
proof -
  let ?tp = "(ex_sock ())\<lparr>snd_cwnd := 10, snd_cwnd_cnt := 5\<rparr>"
  let ?tp' = "?tp\<lparr>snd_cwnd_cnt := 5, snd_cwnd := 11\<rparr>"
  have 1: "tcp_slow_start ex_kernel ?tp = Some ?tp'"
    by (simp add: tcp_slow_start_def slow_start_cnt_def ex_defs slow_start_loop.simps)
  have 2: "sysctl_tcp_abc ex_kernel = 0 \<or> mss_cache ?tp \<le> bytes_acked ?tp" "0 < snd_cwnd ?tp"
    by (simp_all add: ex_defs)
  show ?thesis using 1 tcp_slow_start_accounting [OF 1 2] by (intro exI [of _ ?tp']) simp
qed

text \<open>Congestion avoidance counts acknowledgements up to the window, then adds a segment.\<close>

lemma run_acks_append:
  "run_acks f (as @ bs) tp = do { tp' \<leftarrow> run_acks f as tp; run_acks f bs tp' }"
  by (induction f as tp rule: run_acks.induct) (auto split: bind_split)

lemma reno_avoidance_counts:
  assumes "sysctl_tcp_abc k = 0" "snd_ssthresh tp < snd_cwnd tp" "snd_cwnd tp \<le> in_flight"
    and "snd_cwnd_cnt tp = 0" "snd_cwnd tp < ucast (snd_cwnd_clamp tp)" "n \<le> unat (snd_cwnd tp)"
  shows "run_acks tcp_reno_cong_avoid (replicate n (k, ack, rtt, in_flight, flag)) tp =
    Some (tp\<lparr>snd_cwnd_cnt := of_nat n\<rparr>)"
  using assms(6)
proof (induction n)
  case 0
  then show ?case using assms(4) by simp
next
  case (Suc n)
  have "unat (snd_cwnd tp) < 2 ^ 32"
    using assms(5) unat_lt_32 [of "snd_cwnd_clamp tp"] by (simp add: word_less_nat_alt del: unat_lt_32)
  then have "unat (of_nat n :: u16) = n" using Suc.prems by (simp add: unat_of_nat)
  then have "\<not> snd_cwnd tp \<le> ucast (of_nat n :: u16)" using Suc.prems by (simp add: word_le_nat_alt)
  then have "tcp_reno_cong_avoid k ack rtt in_flight flag (tp\<lparr>snd_cwnd_cnt := of_nat n\<rparr>) =
      Some (tp\<lparr>snd_cwnd_cnt := of_nat (Suc n)\<rparr>)"
    using assms(1,3) not_le [THEN iffD2, OF assms(2)]
    by (simp add: tcp_reno_cong_avoid_def tcp_is_cwnd_limited_def cong_avoid_ai_def)
  then show ?case using Suc by (simp add: replicate_append_same [symmetric] run_acks_append)
qed

text \<open>
  In congestion avoidance without ABC, a window of \<open>w\<close> segments takes exactly
  \<open>w + 1\<close> acknowledgements to grow: after any \<open>n \<le> w\<close> of them the window is unchanged, and the
  next one adds one segment and clears the counter. (The comment in the code gives the rate as
  one segment per \<open>w\<close> acknowledgements.)
\<close>

theorem tcp_reno_one_segment_per_window:
  assumes "sysctl_tcp_abc k = 0" "snd_ssthresh tp < snd_cwnd tp" "snd_cwnd tp \<le> in_flight"
    and "snd_cwnd_cnt tp = 0" "snd_cwnd tp < ucast (snd_cwnd_clamp tp)"
  shows "(\<forall>n \<le> unat (snd_cwnd tp).
           run_acks tcp_reno_cong_avoid (replicate n (k, ack, rtt, in_flight, flag)) tp =
             Some (tp\<lparr>snd_cwnd_cnt := of_nat n\<rparr>)) \<and>
         run_acks tcp_reno_cong_avoid
           (replicate (Suc (unat (snd_cwnd tp))) (k, ack, rtt, in_flight, flag)) tp =
           Some (tp\<lparr>snd_cwnd := snd_cwnd tp + 1\<rparr>)"
proof -
  let ?full = "tp\<lparr>snd_cwnd_cnt := of_nat (unat (snd_cwnd tp))\<rparr>"
  have lt: "unat (snd_cwnd tp) < 2 ^ 32"
    using assms(5) unat_lt_32 [of "snd_cwnd_clamp tp"] by (simp add: word_less_nat_alt del: unat_lt_32)
  then have "snd_cwnd tp \<le> ucast (of_nat (unat (snd_cwnd tp)) :: u16)"
    by (simp add: word_le_nat_alt unat_ucast_64_32)
  then have "tcp_reno_cong_avoid k ack rtt in_flight flag ?full =
      Some (tp\<lparr>snd_cwnd := snd_cwnd tp + 1\<rparr>)"
    using assms not_le [THEN iffD2, OF assms(2)]
    by (simp add: tcp_reno_cong_avoid_def tcp_is_cwnd_limited_def cong_avoid_ai_def
        cwnd_increment_def)
  then show ?thesis
    using reno_avoidance_counts [OF assms]
    by (simp add: replicate_append_same [symmetric] run_acks_append)
qed

theorem tcp_reno_one_segment_per_window_witness:
  "run_acks tcp_reno_cong_avoid (replicate (Suc (unat (40 :: u32))) (ex_kernel, 0, 0, 40, 0))
     (ex_sock ()) = Some ((ex_sock ())\<lparr>snd_cwnd := 41\<rparr>)"
proof -
  have h: "sysctl_tcp_abc ex_kernel = 0" "snd_ssthresh (ex_sock ()) < snd_cwnd (ex_sock ())"
    "snd_cwnd (ex_sock ()) \<le> 40" "snd_cwnd_cnt (ex_sock ()) = 0"
    "snd_cwnd (ex_sock ()) < ucast (snd_cwnd_clamp (ex_sock ()))"
    by (simp_all add: ex_defs)
  show ?thesis
    using tcp_reno_one_segment_per_window [OF h, of 0 0 0] by (simp add: ex_sock_def)
qed

end
