(* ===== verification/Tcp_Naive_Reno.thy ===== *)
theory Tcp_Naive_Reno
  imports Tcp_Cong
begin

text \<open>
  \<open>tcp/linux/tcp_naivereno.c\<close>, the example module. Its parameters \<open>alpha\<close> and \<open>beta\<close> are
  C \<open>int\<close>s, converted to \<open>unsigned long\<close> where they meet the window. The properties give its
  threshold on every parameter value and show where its window leaves the clamp.
\<close>

record naive_reno_params =
  nr_alpha :: cint
  nr_beta :: cint

definition naive_reno_defaults :: naive_reno_params where
  "naive_reno_defaults = \<lparr>nr_alpha = 1, nr_beta = 2\<rparr>"

definition tcp_naive_reno_cong_avoid ::
  "naive_reno_params \<Rightarrow> kernel \<Rightarrow> u32 \<Rightarrow> u32 \<Rightarrow> u32 \<Rightarrow> cint \<Rightarrow> 'ca tcp_sock \<Rightarrow> 'ca tcp_sock option" where
  "tcp_naive_reno_cong_avoid p k ack rtt in_flight flag tp = Some
     (if snd_cwnd tp < snd_ssthresh tp then tp\<lparr>snd_cwnd := snd_cwnd tp + 1\<rparr>
      else if snd_cwnd tp \<le> ucast (snd_cwnd_cnt tp) then
        (let w = snd_cwnd tp + scast (nr_alpha p) in
         tp\<lparr>snd_cwnd := (if ucast (snd_cwnd_clamp tp) < w then ucast (snd_cwnd_clamp tp) else w),
            snd_cwnd_cnt := 0\<rparr>)
      else tp\<lparr>snd_cwnd_cnt := snd_cwnd_cnt tp + 1\<rparr>)"

definition tcp_naive_reno_ssthresh ::
  "naive_reno_params \<Rightarrow> kernel \<Rightarrow> 'ca tcp_sock \<Rightarrow> (u32 \<times> 'ca tcp_sock) option" where
  \<comment> \<open>the quotient passes through the \<open>int reduction\<close>\<close>
  "tcp_naive_reno_ssthresh p k tp = do {
     q \<leftarrow> udiv (snd_cwnd tp) (scast (nr_beta p));
     let reduction = (ucast q :: cint) in
     Some (max (snd_cwnd tp - scast reduction) 2, tp)
   }"

definition tcp_naive_reno_min_cwnd :: "'ca tcp_sock \<Rightarrow> u32 option" where
  "tcp_naive_reno_min_cwnd tp = Some (snd_ssthresh tp)"

definition tcp_naive_reno :: "naive_reno_params \<Rightarrow> 'ca tcp_congestion_ops" where
  "tcp_naive_reno p = null_ops\<lparr>ops_name := ''naive_reno'',
     ops_ssthresh := Some (tcp_naive_reno_ssthresh p),
     ops_cong_avoid := Some (tcp_naive_reno_cong_avoid p),
     ops_min_cwnd := Some tcp_naive_reno_min_cwnd\<rparr>"

section \<open>The threshold\<close>

text \<open>
  After a loss the naive Reno threshold is the window less its \<open>1/beta\<close> part (the
  quotient rounded down), and never below two segments, for every \<open>beta\<close> of at least 2 and every
  window below \<open>2 ^ 32\<close>: the detour of the quotient through an \<open>int\<close> loses nothing.
\<close>

theorem naive_reno_ssthresh_value:
  assumes "2 \<le> sint (nr_beta p)" "unat (snd_cwnd tp) < 2 ^ 32"
  shows "\<exists>v. tcp_naive_reno_ssthresh p k tp = Some (v, tp) \<and>
    unat v = max (unat (snd_cwnd tp) - unat (snd_cwnd tp) div nat (sint (nr_beta p))) 2"
proof -
  let ?b = "scast (nr_beta p) :: u32" and ?w = "snd_cwnd tp"
  have b: "unat ?b = nat (sint (nr_beta p))" using assms(1) by (intro unat_scast_pos) simp
  then have "?b \<noteq> 0" using assms(1) by (auto simp: word_nonzero_unat)
  moreover have q: "unat (?w div ?b) \<le> unat ?w div 2"
    using assms(1) b by (simp add: unat_div div_le_mono2)
  then have "unat (?w div ?b) < 2 ^ 31" using assms(2) by (simp del: unat_div)
  moreover have "?w div ?b \<le> ?w" using q by (simp add: word_le_nat_alt del: unat_div)
  ultimately show ?thesis
    by (simp add: tcp_naive_reno_ssthresh_def scast_ucast_small unat_max unat_sub unat_div b)
qed

theorem naive_reno_ssthresh_value_witness:
  "\<exists>v. tcp_naive_reno_ssthresh naive_reno_defaults ex_kernel (ex_sock ()) = Some (v, ex_sock ()) \<and>
     unat v = 20"
proof -
  have "2 \<le> sint (nr_beta naive_reno_defaults)" "unat (snd_cwnd (ex_sock ())) < 2 ^ 32"
    by (simp_all add: naive_reno_defaults_def ex_sock_def)
  from naive_reno_ssthresh_value [OF this, of ex_kernel] show ?thesis
    by (simp add: naive_reno_defaults_def ex_sock_def)
qed

text \<open>
  The clamp is checked in congestion avoidance only: below the threshold the window grows past it.
\<close>

lemma naive_reno_slow_start_ignores_clamp:
  "snd_cwnd tp < snd_ssthresh tp \<Longrightarrow>
   tcp_naive_reno_cong_avoid p k ack rtt in_flight flag tp = Some (tp\<lparr>snd_cwnd := snd_cwnd tp + 1\<rparr>)"
  by (simp add: tcp_naive_reno_cong_avoid_def)

text \<open>
  The clamp does not bound the window of the naive Reno module: with the window at
  the clamp and below the threshold, an acknowledgement puts it one segment past the clamp.
\<close>

theorem naive_reno_passes_clamp:
  assumes "snd_cwnd tp = ucast (snd_cwnd_clamp tp)" "snd_cwnd tp < snd_ssthresh tp"
  shows "\<exists>tp'. tcp_naive_reno_cong_avoid p k ack rtt in_flight flag tp = Some tp' \<and>
    ucast (snd_cwnd_clamp tp') < snd_cwnd tp'"
  using assms unat_Suc_below [OF assms(2)]
  by (simp add: naive_reno_slow_start_ignores_clamp word_less_nat_alt)

theorem naive_reno_passes_clamp_witness:
  "\<exists>tp'. tcp_naive_reno_cong_avoid naive_reno_defaults ex_kernel 0 0 0 0
       ((ex_sock ())\<lparr>snd_cwnd := 100, snd_ssthresh := 200\<rparr>) = Some tp' \<and>
     ucast (snd_cwnd_clamp tp') < snd_cwnd tp'"
  by (rule naive_reno_passes_clamp) (simp_all add: ex_sock_def)

end
