(* ===== verification/Tcp_Scalable.thy ===== *)
theory Tcp_Scalable
  imports Tcp_Cong
begin

text \<open>
  \<open>tcp/linux/src/tcp_scalable.c\<close>, Scalable TCP: one more segment for every 50 acknowledgements
  (or for every window, if smaller), seven eighths of the window after a loss. It keeps the contract
  of \<open>Tcp_Cong\<close>.
\<close>

definition TCP_SCALABLE_AI_CNT :: u32 where "TCP_SCALABLE_AI_CNT = 50"
definition TCP_SCALABLE_MD_SCALE :: nat where "TCP_SCALABLE_MD_SCALE = 3"

definition tcp_scalable_cong_avoid ::
  "kernel \<Rightarrow> u32 \<Rightarrow> u32 \<Rightarrow> u32 \<Rightarrow> cint \<Rightarrow> 'ca tcp_sock \<Rightarrow> 'ca tcp_sock option" where
  "tcp_scalable_cong_avoid k ack rtt in_flight flag tp =
     (if \<not> tcp_is_cwnd_limited tp in_flight then Some tp
      else if snd_cwnd tp \<le> snd_ssthresh tp then tcp_slow_start k tp
      else let tp = tp\<lparr>snd_cwnd_cnt := snd_cwnd_cnt tp + 1\<rparr> in
        if min (snd_cwnd tp) TCP_SCALABLE_AI_CNT < ucast (snd_cwnd_cnt tp)
        then Some ((cwnd_increment tp)\<lparr>snd_cwnd_cnt := 0\<rparr>)
        else Some tp)"

definition tcp_scalable_ssthresh :: "kernel \<Rightarrow> 'ca tcp_sock \<Rightarrow> (u32 \<times> 'ca tcp_sock) option" where
  "tcp_scalable_ssthresh k tp =
     Some (max (snd_cwnd tp - drop_bit TCP_SCALABLE_MD_SCALE (snd_cwnd tp)) 2, tp)"

definition tcp_scalable :: "'ca tcp_congestion_ops" where
  "tcp_scalable = null_ops\<lparr>ops_ssthresh := Some tcp_scalable_ssthresh,
     ops_cong_avoid := Some tcp_scalable_cong_avoid, ops_min_cwnd := Some tcp_reno_min_cwnd,
     ops_name := ''scalable''\<rparr>"

lemma scalable_ssthresh_nat:
  "unat (max ((w :: u32) - drop_bit TCP_SCALABLE_MD_SCALE w) 2) = max (unat w - unat w div 8) 2"
proof -
  have "drop_bit 3 w \<le> w" by (simp add: word_le_nat_alt unat_shiftr)
  then show ?thesis by (simp add: TCP_SCALABLE_MD_SCALE_def unat_simps unat_sub)
qed

lemma tcp_scalable_cong_avoid_step:
  assumes "window_ok tp"
  shows "\<exists>tp'. tcp_scalable_cong_avoid k ack rtt in_flight flag tp = Some tp' \<and> window_step tp tp'"
proof (cases "tcp_is_cwnd_limited tp in_flight \<and> snd_cwnd tp \<le> snd_ssthresh tp")
  case True
  then show ?thesis
    using tcp_slow_start_step [OF assms, of k] by (auto simp: tcp_scalable_cong_avoid_def)
next
  case False
  then show ?thesis
    using assms
    by (auto simp: tcp_scalable_cong_avoid_def Let_def window_step_def cwnd_increment_window)
qed

interpretation scalable: cong_control tcp_scalable_cong_avoid "\<lambda>_ _. True" tcp_scalable_ssthresh "\<lambda>_. True"
proof (unfold_locales, goal_cases)
  case (1 tp k ack rtt in_flight flag)
  show ?case using tcp_scalable_cong_avoid_step [OF 1(1)] by blast
next
  case (3 tp k)
  show ?case
    by (rule ssthresh_ok_pure [where n = "unat (snd_cwnd tp) - unat (snd_cwnd tp) div 8"], rule tcp_scalable_ssthresh_def)
      (simp_all add: scalable_ssthresh_nat)
qed simp

text \<open>
  Scalable TCP gives up an eighth of its window (rounded down) at a loss, and never
  goes below two segments.
\<close>

theorem scalable_gives_up_an_eighth:
  "\<exists>v. tcp_scalable_ssthresh k tp = Some (v, tp) \<and>
     unat v = max (unat (snd_cwnd tp) - unat (snd_cwnd tp) div 8) 2"
  by (simp add: tcp_scalable_ssthresh_def scalable_ssthresh_nat)

end

