(* ===== verification/Tcp_Highspeed.thy ===== *)
theory Tcp_Highspeed
  imports Tcp_Cong
begin

text \<open>
  \<open>tcp/linux/src/tcp_highspeed.c\<close>, HighSpeed TCP (RFC 3649). The private area is the index
  \<open>ai\<close> of the row of the AIMD table that fits the window. The lemmas show that the two loops
  end, that the index stays within the table and brackets the window as the comment in the code
  wants it, and that the module keeps the contract of \<open>Tcp_Cong\<close>.
\<close>

section \<open>The module\<close>

definition hstcp_aimd_vals :: "(u16 \<times> u16) list" where
  \<comment> \<open>the window up to which a row is used, and its decrease scaled by 256\<close>
  "hstcp_aimd_vals =
    [(38, 128), (118, 112), (221, 104), (347, 98), (495, 93), (663, 89), (851, 86), (1058, 83),
    (1284, 81), (1529, 78), (1793, 76), (2076, 74), (2378, 72), (2699, 71), (3039, 69),
    (3399, 68), (3778, 66), (4177, 65), (4596, 64), (5036, 62), (5497, 61), (5979, 60),
    (6483, 59), (7009, 58), (7558, 57), (8130, 56), (8726, 55), (9346, 54), (9991, 53),
    (10661, 52), (11358, 52), (12082, 51), (12834, 50), (13614, 49), (14424, 48), (15265, 48),
    (16137, 47), (17042, 46), (17981, 45), (18955, 45), (19965, 44), (21013, 43), (22101, 43),
    (23230, 42), (24402, 41), (25618, 41), (26881, 40), (28193, 39), (29557, 39), (30975, 38),
    (32450, 38), (33986, 37), (35586, 36), (37253, 36), (38992, 35), (40808, 35), (42707, 34),
    (44694, 33), (46776, 33), (48961, 32), (51258, 32), (53677, 31), (56230, 30), (58932, 30),
    (61799, 29), (64851, 28), (68113, 28), (71617, 27), (75401, 26), (79517, 26), (84035, 25),
    (89053, 24)]"

definition HSTCP_AIMD_MAX :: u32 where
  "HSTCP_AIMD_MAX = of_nat (length hstcp_aimd_vals)"

record hstcp =
  ai :: u32

definition hstcp_init :: "kernel \<Rightarrow> hstcp tcp_sock \<Rightarrow> hstcp tcp_sock option" where
  "hstcp_init k tp = Some (tp\<lparr>icsk_ca_priv := \<lparr>ai = 0\<rparr>,
     snd_cwnd_clamp := ucast (min (ucast (snd_cwnd_clamp tp) :: u32) (0xffffffff div 128))\<rparr>)"

function hstcp_raise :: "u32 \<Rightarrow> u32 \<Rightarrow> u32 option" where
  \<comment> \<open>\<open>while (tp->snd_cwnd > hstcp_aimd_vals[ca->ai].cwnd && ca->ai < HSTCP_AIMD_MAX - 1)\<close>\<close>
  "hstcp_raise cwnd i = do {
     v \<leftarrow> array_get hstcp_aimd_vals (unat i);
     if ucast (fst v) < cwnd \<and> i < HSTCP_AIMD_MAX - 1 then hstcp_raise cwnd (i + 1) else Some i
   }"
  by auto

fun hstcp_lower :: "u32 \<Rightarrow> nat \<Rightarrow> nat option" where
  \<comment> \<open>\<open>while (ca->ai && tp->snd_cwnd <= hstcp_aimd_vals[ca->ai-1].cwnd)\<close>\<close>
  "hstcp_lower cwnd 0 = Some 0"
| "hstcp_lower cwnd (Suc i) = do {
     v \<leftarrow> array_get hstcp_aimd_vals i;
     if cwnd \<le> ucast (fst v) then hstcp_lower cwnd i else Some (Suc i)
   }"

definition hstcp_update_ai :: "u32 \<Rightarrow> u32 \<Rightarrow> u32 option" where
  "hstcp_update_ai cwnd i = do {
     v \<leftarrow> array_get hstcp_aimd_vals (unat i);
     if ucast (fst v) < cwnd then hstcp_raise cwnd i
     else map_option of_nat (hstcp_lower cwnd (unat i))
   }"

definition hstcp_cong_avoid ::
  "kernel \<Rightarrow> u32 \<Rightarrow> u32 \<Rightarrow> u32 \<Rightarrow> cint \<Rightarrow> hstcp tcp_sock \<Rightarrow> hstcp tcp_sock option" where
  "hstcp_cong_avoid k adk rtt in_flight data_acked tp =
     (if \<not> tcp_is_cwnd_limited tp in_flight then Some tp
      else if snd_cwnd tp \<le> snd_ssthresh tp then tcp_slow_start k tp
      else do {
        i \<leftarrow> hstcp_update_ai (snd_cwnd tp) (ai (icsk_ca_priv tp));
        let tp = tp\<lparr>icsk_ca_priv := \<lparr>ai = i\<rparr>\<rparr>;
        if snd_cwnd tp < ucast (snd_cwnd_clamp tp) then
          let cnt = snd_cwnd_cnt tp + ucast (i + 1) in
          if snd_cwnd tp \<le> ucast cnt
          then Some (tp\<lparr>snd_cwnd_cnt := ucast (ucast cnt - snd_cwnd tp), snd_cwnd := snd_cwnd tp + 1\<rparr>)
          else Some (tp\<lparr>snd_cwnd_cnt := cnt\<rparr>)
        else Some tp
      })"

definition hstcp_ssthresh :: "kernel \<Rightarrow> hstcp tcp_sock \<Rightarrow> (u32 \<times> hstcp tcp_sock) option" where
  "hstcp_ssthresh k tp = do {
     v \<leftarrow> array_get hstcp_aimd_vals (unat (ai (icsk_ca_priv tp)));
     Some (max (snd_cwnd tp - drop_bit 8 (snd_cwnd tp * ucast (snd v))) 2, tp)
   }"

definition tcp_highspeed :: "hstcp tcp_congestion_ops" where
  "tcp_highspeed = null_ops\<lparr>ops_init := Some hstcp_init, ops_ssthresh := Some hstcp_ssthresh,
     ops_cong_avoid := Some hstcp_cong_avoid, ops_min_cwnd := Some tcp_reno_min_cwnd,
     ops_name := ''highspeed''\<rparr>"

section \<open>The index stays in the table and fits the window\<close>

lemma hstcp_length [simp]: "length hstcp_aimd_vals = 72"
  by (simp add: hstcp_aimd_vals_def)

lemma hstcp_max [simp]: "HSTCP_AIMD_MAX = 72"
  by (simp add: HSTCP_AIMD_MAX_def)

lemma hstcp_index_Suc: "i < (71 :: u32) \<Longrightarrow> unat (i + 1) = Suc (unat i) \<and> unat i < 71"
  using unat_Suc_below [of i 71] by (simp add: word_less_nat_alt)

termination hstcp_raise
proof (relation "measure (\<lambda>(cwnd, i). 72 - unat i)", simp, goal_cases)
  case (1 cwnd i v)
  then show ?case using hstcp_index_Suc [of i] by auto
qed

declare hstcp_raise.simps [simp del]

definition hstcp_inv :: "hstcp \<Rightarrow> bool" where
  "hstcp_inv ca \<longleftrightarrow> unat (ai ca) < length hstcp_aimd_vals"

text \<open>\<open>hstcp_fits w i\<close>: the row below \<open>i\<close> is too small for the window \<open>w\<close>, and row \<open>i\<close> is not
  (or is the last one).\<close>

definition hstcp_fits :: "u32 \<Rightarrow> nat \<Rightarrow> bool" where
  "hstcp_fits w i \<longleftrightarrow> i < length hstcp_aimd_vals \<and>
     (0 < i \<longrightarrow> unat (fst (hstcp_aimd_vals ! (i - 1))) < unat w) \<and>
     (unat w \<le> unat (fst (hstcp_aimd_vals ! i)) \<or> i = length hstcp_aimd_vals - 1)"

lemma hstcp_raise_fits:
  "unat i < 72 \<Longrightarrow> 0 < unat i \<longrightarrow> unat (fst (hstcp_aimd_vals ! (unat i - 1))) < unat cwnd \<Longrightarrow>
   \<exists>j. hstcp_raise cwnd i = Some j \<and> hstcp_fits cwnd (unat j)"
proof (induction cwnd i rule: hstcp_raise.induct)
  case (1 cwnd i)
  let ?v = "hstcp_aimd_vals ! unat i"
  show ?case
  proof (cases "ucast (fst ?v) < cwnd \<and> i < 71")
    case True
    then show ?thesis
      using "1.IH" [of ?v] "1.prems"(1) hstcp_index_Suc [of i]
      by (simp add: hstcp_raise.simps [of cwnd i] word_less_nat_alt)
  next
    case False
    then show ?thesis
      using "1.prems" by (auto simp: hstcp_raise.simps [of cwnd i] hstcp_fits_def word_less_nat_alt)
  qed
qed

lemma hstcp_lower_fits:
  "i < 72 \<Longrightarrow> unat cwnd \<le> unat (fst (hstcp_aimd_vals ! i)) \<Longrightarrow>
   \<exists>j. hstcp_lower cwnd i = Some j \<and> hstcp_fits cwnd j"
proof (induction i)
  case 0
  then show ?case by (simp add: hstcp_fits_def)
next
  case (Suc i)
  then show ?case by (auto simp: hstcp_fits_def word_le_nat_alt)
qed

lemma hstcp_rows: "k < 71 \<Longrightarrow> fst (hstcp_aimd_vals ! k) \<le> fst (hstcp_aimd_vals ! Suc k)"
proof -
  have "\<forall>k\<in>set [0..<71]. fst (hstcp_aimd_vals ! k) \<le> fst (hstcp_aimd_vals ! Suc k)"
    unfolding hstcp_aimd_vals_def by (simp add: upt_rec)
  then show "k < 71 \<Longrightarrow> ?thesis" by simp
qed

lemma hstcp_update_ai_fits:
  assumes "unat i < 72"
  shows "\<exists>j. hstcp_update_ai cwnd i = Some j \<and> hstcp_fits cwnd (unat j)"
proof (cases "ucast (fst (hstcp_aimd_vals ! unat i)) < cwnd")
  case True
  have "0 < unat i \<longrightarrow> unat (fst (hstcp_aimd_vals ! (unat i - 1))) < unat cwnd"
    using True assms hstcp_rows [of "unat i - 1"]
    by (cases "unat i") (auto simp: word_order_nat)
  then show ?thesis
    using hstcp_raise_fits [OF assms] True assms by (simp add: hstcp_update_ai_def)
next
  case False
  then obtain j where "hstcp_lower cwnd (unat i) = Some j" "hstcp_fits cwnd j"
    using hstcp_lower_fits [OF assms, of cwnd] by (auto simp: word_less_nat_alt)
  moreover have "unat (of_nat j :: 64 word) = j"
    using calculation(2) by (simp add: hstcp_fits_def unat_of_nat)
  ultimately show ?thesis using False assms by (simp add: hstcp_update_ai_def)
qed

text \<open>The index loops in the order the code runs them, with the state around them.\<close>

lemma hstcp_avoid:
  assumes "window_ok tp" "hstcp_inv (icsk_ca_priv tp)"
    and "tcp_is_cwnd_limited tp in_flight" "snd_ssthresh tp < snd_cwnd tp"
  shows "\<exists>tp'. hstcp_cong_avoid k adk rtt in_flight data_acked tp = Some tp' \<and> window_step tp tp' \<and>
    hstcp_fits (snd_cwnd tp) (unat (ai (icsk_ca_priv tp')))"
proof -
  obtain j where j: "hstcp_update_ai (snd_cwnd tp) (ai (icsk_ca_priv tp)) = Some j"
    "hstcp_fits (snd_cwnd tp) (unat j)"
    using hstcp_update_ai_fits assms(2) by (auto simp: hstcp_inv_def)
  have "0 < unat (snd_cwnd tp + 1) \<and> unat (snd_cwnd tp + 1) \<le> unat (snd_cwnd_clamp tp)"
    if "snd_cwnd tp < ucast (snd_cwnd_clamp tp)"
    using unat_Suc_below [OF that] that by (simp add: word_less_nat_alt)
  then show ?thesis
    using j assms not_le [THEN iffD2, OF assms(4)]
    by (simp add: hstcp_cong_avoid_def window_step_def window_ok_def Let_def word_gt_0
        word_le_nat_alt word_nonzero_unat)
qed

lemma hstcp_cong_avoid_step:
  assumes "window_ok tp" "hstcp_inv (icsk_ca_priv tp)"
  shows "\<exists>tp'. hstcp_cong_avoid k adk rtt in_flight data_acked tp = Some tp' \<and> window_step tp tp' \<and>
    hstcp_inv (icsk_ca_priv tp')"
proof (cases "tcp_is_cwnd_limited tp in_flight \<and> snd_ssthresh tp < snd_cwnd tp")
  case True
  then show ?thesis using hstcp_avoid [OF assms] unfolding hstcp_inv_def hstcp_fits_def by metis
next
  case False
  then show ?thesis
    using tcp_slow_start_step [OF assms(1), of k] assms
    by (auto simp: hstcp_cong_avoid_def window_step_refl)
qed

section \<open>The multiplicative decrease\<close>

lemma hstcp_md: "i < 72 \<Longrightarrow> unat (snd (hstcp_aimd_vals ! i)) \<le> 128"
proof -
  have "\<forall>v\<in>set hstcp_aimd_vals. unat (snd v) \<le> 128" by (simp add: hstcp_aimd_vals_def)
  then show "i < 72 \<Longrightarrow> ?thesis" by simp
qed

lemma hstcp_ssthresh_nat:
  assumes "unat (snd_cwnd tp) < 2 ^ 32" "hstcp_inv (icsk_ca_priv tp)"
  shows "\<exists>v. hstcp_ssthresh k tp = Some (v, tp) \<and>
    unat v = max (unat (snd_cwnd tp) - unat (snd_cwnd tp) *
      unat (snd (hstcp_aimd_vals ! unat (ai (icsk_ca_priv tp)))) div 256) 2"
proof -
  let ?w = "snd_cwnd tp" and ?m = "snd (hstcp_aimd_vals ! unat (ai (icsk_ca_priv tp)))"
  have m: "unat ?m \<le> 128" using hstcp_md assms(2) by (simp add: hstcp_inv_def)
  then have "unat ?w * unat ?m \<le> unat ?w * 128" by (rule mult_le_mono2)
  also have "\<dots> < 2 ^ 64" using assms(1) by simp
  finally have "unat ?w * unat (ucast ?m :: u32) < 2 ^ LENGTH(64)" by simp
  from unat_mult_no_wrap [OF this] have p: "unat (?w * ucast ?m) = unat ?w * unat ?m" by simp
  have "unat ?w * unat ?m div 256 \<le> unat ?w" using m by (simp add: div_le_mono [of _ "unat ?w * 256" 256, simplified])
  then have "drop_bit 8 (?w * ucast ?m) \<le> ?w" by (simp add: word_le_nat_alt unat_shiftr p)
  then show ?thesis
    using assms(2) by (simp add: hstcp_ssthresh_def hstcp_inv_def unat_simps unat_sub p)
qed

interpretation highspeed: cong_control hstcp_cong_avoid "\<lambda>_ _. True" hstcp_ssthresh hstcp_inv
proof (unfold_locales, goal_cases)
  case (1 tp k ack rtt in_flight flag)
  show ?case using hstcp_cong_avoid_step [OF 1(1,4)] .
next
  case (3 tp k)
  obtain v where v: "hstcp_ssthresh k tp = Some (v, tp)" "unat v = max (unat (snd_cwnd tp) - unat (snd_cwnd tp) *
      unat (snd (hstcp_aimd_vals ! unat (ai (icsk_ca_priv tp)))) div 256) 2"
    using hstcp_ssthresh_nat [OF window_ok_32(1) [OF 3(1)] 3(2)] by blast
  show ?case
    by (rule ssthresh_ok_pure [where ssthresh = hstcp_ssthresh and ca_inv = hstcp_inv and tp = tp, OF v(1) 3(2) v(2)]) simp
qed simp

section \<open>Properties\<close>

text \<open>
  In congestion avoidance the AIMD index is brought where the comment in the code
  wants it: \<open>vals[ai-1].cwnd < snd_cwnd <= vals[ai].cwnd\<close>, except that a window above the last
  row keeps the last row; no access leaves the table and both loops end.
\<close>

theorem hstcp_index_brackets_window:
  assumes "window_ok tp" "hstcp_inv (icsk_ca_priv tp)"
    and "tcp_is_cwnd_limited tp in_flight" "snd_ssthresh tp < snd_cwnd tp"
  shows "\<exists>tp'. hstcp_cong_avoid k adk rtt in_flight data_acked tp = Some tp' \<and>
    (let i = unat (ai (icsk_ca_priv tp')) in i < 72 \<and>
       (0 < i \<longrightarrow> unat (fst (hstcp_aimd_vals ! (i - 1))) < unat (snd_cwnd tp)) \<and>
       (unat (snd_cwnd tp) \<le> unat (fst (hstcp_aimd_vals ! i)) \<or> i = 71))"
  using hstcp_avoid [OF assms, of k adk rtt data_acked]
  by (auto simp: hstcp_fits_def Let_def)

theorem hstcp_index_brackets_window_witness:
  "\<exists>tp'. hstcp_cong_avoid ex_kernel 0 0 40 0 (ex_sock \<lparr>ai = 5\<rparr>) = Some tp'"
proof -
  have "window_ok (ex_sock \<lparr>ai = 5\<rparr>)" "hstcp_inv (icsk_ca_priv (ex_sock \<lparr>ai = 5\<rparr>))"
    "tcp_is_cwnd_limited (ex_sock \<lparr>ai = 5\<rparr>) 40"
    "snd_ssthresh (ex_sock \<lparr>ai = 5\<rparr>) < snd_cwnd (ex_sock \<lparr>ai = 5\<rparr>)"
    by (simp_all add: ex_defs window_ok_def hstcp_inv_def tcp_is_cwnd_limited_def)
  from hstcp_index_brackets_window [OF this, of ex_kernel 0 0 0] show ?thesis by blast
qed

text \<open>
  After a loss HighSpeed TCP keeps at least half of a window that fits 32 bits,
  rounded up, and never less than two segments: the product \<open>snd_cwnd * md\<close> does not wrap.
\<close>

theorem hstcp_keeps_half:
  assumes "unat (snd_cwnd tp) < 2 ^ 32" "unat (ai (icsk_ca_priv tp)) < 72"
  shows "\<exists>v. hstcp_ssthresh k tp = Some (v, tp) \<and> 2 \<le> v \<and>
    unat (snd_cwnd tp) \<le> 2 * unat v \<and> unat v \<le> max (unat (snd_cwnd tp)) 2"
proof -
  have inv: "hstcp_inv (icsk_ca_priv tp)" using assms(2) by (simp add: hstcp_inv_def)
  let ?m = "unat (snd (hstcp_aimd_vals ! unat (ai (icsk_ca_priv tp))))"
  have "unat (snd_cwnd tp) * ?m div 256 \<le> unat (snd_cwnd tp) * 128 div 256"
    using hstcp_md [OF assms(2)] by (intro div_le_mono) simp
  then show ?thesis
    using hstcp_ssthresh_nat [OF assms(1) inv, of k] by (auto simp: word_le_nat_alt)
qed

theorem hstcp_keeps_half_witness:
  "\<exists>v. hstcp_ssthresh ex_kernel (ex_sock \<lparr>ai = 5\<rparr>) = Some (v, ex_sock \<lparr>ai = 5\<rparr>) \<and> 20 \<le> unat v"
proof -
  have "unat (snd_cwnd (ex_sock \<lparr>ai = 5\<rparr>)) < 2 ^ 32" "unat (ai (icsk_ca_priv (ex_sock \<lparr>ai = 5\<rparr>))) < 72"
    by (simp_all add: ex_defs)
  from hstcp_keeps_half [OF this, of ex_kernel] show ?thesis by (auto simp: ex_defs)
qed

end
