(* ===== verification/Tcp_Bic.thy ===== *)
theory Tcp_Bic
  imports Tcp_Cong
begin

text \<open>
  \<open>tcp/linux/src/tcp_bic.c\<close>, BIC TCP: a binary search for the window at the last loss. The
  module's static parameters are the record \<open>bic_params\<close>; they are C \<open>int\<close>s and convert to
  \<open>unsigned long\<close> where they meet the window. The lemmas show that no division faults as long as
  the delayed-ACK estimate is not zero, and that \<open>bictcp_acked\<close> keeps it so.
\<close>

record bic_params =
  bic_fast_convergence :: cint
  bic_max_increment :: cint
  bic_low_window :: cint
  bic_beta :: cint
  bic_initial_ssthresh :: cint
  bic_smooth_part :: cint

definition bic_defaults :: bic_params where
  "bic_defaults = \<lparr>bic_fast_convergence = 1, bic_max_increment = 16, bic_low_window = 14,
     bic_beta = 819, bic_initial_ssthresh = 0, bic_smooth_part = 20\<rparr>"

definition BICTCP_BETA_SCALE :: cint where "BICTCP_BETA_SCALE = 1024"
definition BICTCP_B :: u32 where "BICTCP_B = 4"
definition ACK_RATIO_SHIFT :: nat where "ACK_RATIO_SHIFT = 4"

lemmas bic_consts = BICTCP_BETA_SCALE_def BICTCP_B_def ACK_RATIO_SHIFT_def

record bictcp_ca =
  bic_cnt :: u32
  bic_last_max_cwnd :: u32
  bic_loss_cwnd :: u32
  bic_last_cwnd :: u32
  bic_last_time :: u32
  bic_epoch_start :: u32
  bic_delayed_ack :: u32

definition bictcp_reset :: bictcp_ca where
  "bictcp_reset = \<lparr>bic_cnt = 0, bic_last_max_cwnd = 0, bic_loss_cwnd = 0, bic_last_cwnd = 0,
     bic_last_time = 0, bic_epoch_start = 0, bic_delayed_ack = push_bit ACK_RATIO_SHIFT 2\<rparr>"

definition bictcp_init ::
  "bic_params \<Rightarrow> kernel \<Rightarrow> bictcp_ca tcp_sock \<Rightarrow> bictcp_ca tcp_sock option" where
  "bictcp_init p k tp =
     (let tp = tp\<lparr>icsk_ca_priv := bictcp_reset\<rparr> in
      Some (if bic_initial_ssthresh p \<noteq> 0 then tp\<lparr>snd_ssthresh := scast (bic_initial_ssthresh p)\<rparr>
            else tp))"

text \<open>The rate of \<open>bictcp_update\<close> before its last adjustments; a division may fault.\<close>

definition bictcp_rate :: "bic_params \<Rightarrow> bictcp_ca \<Rightarrow> u32 \<Rightarrow> u32 option" where
  "bictcp_rate p ca cwnd =
     (if cwnd < bic_last_max_cwnd ca then
        let dist = (bic_last_max_cwnd ca - cwnd) div BICTCP_B in
        if scast (bic_max_increment p) < dist then udiv cwnd (scast (bic_max_increment p))
        else if dist \<le> 1 then Some (cwnd * scast (bic_smooth_part p) div BICTCP_B)
        else udiv cwnd dist
      else if cwnd < bic_last_max_cwnd ca + BICTCP_B
        then Some (cwnd * scast (bic_smooth_part p) div BICTCP_B)
      else if cwnd < bic_last_max_cwnd ca + scast (bic_max_increment p * (ucast BICTCP_B - 1))
        then udiv (cwnd * (BICTCP_B - 1)) (cwnd - bic_last_max_cwnd ca)
      else udiv cwnd (scast (bic_max_increment p)))"

definition bictcp_update :: "bic_params \<Rightarrow> kernel \<Rightarrow> bictcp_ca \<Rightarrow> u32 \<Rightarrow> bictcp_ca option" where
  "bictcp_update p k ca cwnd =
     (if bic_last_cwnd ca = cwnd \<and> tcp_time_stamp k - bic_last_time ca \<le>s HZ div 32 then Some ca
      else
        let ca = ca\<lparr>bic_last_cwnd := cwnd, bic_last_time := tcp_time_stamp k\<rparr>;
            ca = (if bic_epoch_start ca = 0 then ca\<lparr>bic_epoch_start := tcp_time_stamp k\<rparr> else ca)
        in if cwnd \<le> scast (bic_low_window p) then Some (ca\<lparr>bic_cnt := cwnd\<rparr>)
        else do {
          cnt \<leftarrow> bictcp_rate p ca cwnd;
          let cnt = (if bic_loss_cwnd ca = 0 \<and> 20 < cnt then 20 else cnt);
          cnt \<leftarrow> udiv (push_bit ACK_RATIO_SHIFT cnt) (bic_delayed_ack ca);
          Some (ca\<lparr>bic_cnt := (if cnt = 0 then 1 else cnt)\<rparr>)
        })"

definition bictcp_cong_avoid ::
  "bic_params \<Rightarrow> kernel \<Rightarrow> u32 \<Rightarrow> u32 \<Rightarrow> u32 \<Rightarrow> cint \<Rightarrow> bictcp_ca tcp_sock \<Rightarrow> bictcp_ca tcp_sock option" where
  "bictcp_cong_avoid p k ack seq_rtt in_flight data_acked tp =
     (if \<not> tcp_is_cwnd_limited tp in_flight then Some tp
      else if snd_cwnd tp \<le> snd_ssthresh tp then tcp_slow_start k tp
      else do {
        ca \<leftarrow> bictcp_update p k (icsk_ca_priv tp) (snd_cwnd tp);
        Some (cong_avoid_ai (bic_cnt ca) (tp\<lparr>icsk_ca_priv := ca\<rparr>))
      })"

definition bictcp_recalc_ssthresh ::
  "bic_params \<Rightarrow> kernel \<Rightarrow> bictcp_ca tcp_sock \<Rightarrow> (u32 \<times> bictcp_ca tcp_sock) option" where
  "bictcp_recalc_ssthresh p k tp =
     (let ca = icsk_ca_priv tp;
          last_max = (if snd_cwnd tp < bic_last_max_cwnd ca \<and> bic_fast_convergence p \<noteq> 0
            then snd_cwnd tp * scast (BICTCP_BETA_SCALE + bic_beta p) div scast (2 * BICTCP_BETA_SCALE)
            else snd_cwnd tp);
          ca = ca\<lparr>bic_epoch_start := 0, bic_last_max_cwnd := last_max, bic_loss_cwnd := snd_cwnd tp\<rparr>
      in Some ((if snd_cwnd tp \<le> scast (bic_low_window p) then max (drop_bit 1 (snd_cwnd tp)) 2
                else max (snd_cwnd tp * scast (bic_beta p) div scast BICTCP_BETA_SCALE) 2),
               tp\<lparr>icsk_ca_priv := ca\<rparr>))"

definition bictcp_undo_cwnd :: "kernel \<Rightarrow> bictcp_ca tcp_sock \<Rightarrow> (u32 \<times> bictcp_ca tcp_sock) option" where
  "bictcp_undo_cwnd k tp = Some (max (snd_cwnd tp) (bic_last_max_cwnd (icsk_ca_priv tp)), tp)"

definition bictcp_state :: "kernel \<Rightarrow> u8 \<Rightarrow> bictcp_ca tcp_sock \<Rightarrow> bictcp_ca tcp_sock option" where
  "bictcp_state k new_state tp =
     Some (if new_state = TCP_CA_Loss then tp\<lparr>icsk_ca_priv := bictcp_reset\<rparr> else tp)"

definition bictcp_acked :: "kernel \<Rightarrow> u32 \<Rightarrow> s64 \<Rightarrow> bictcp_ca tcp_sock \<Rightarrow> bictcp_ca tcp_sock option" where
  "bictcp_acked k cnt kt tp =
     (if 0 < cnt \<and> icsk_ca_state tp = TCP_CA_Open then
        let ca = icsk_ca_priv tp;
            cnt = cnt - drop_bit ACK_RATIO_SHIFT (bic_delayed_ack ca)
        in Some (tp\<lparr>icsk_ca_priv := ca\<lparr>bic_delayed_ack := bic_delayed_ack ca + cnt\<rparr>\<rparr>)
      else Some tp)"

definition bictcp :: "bic_params \<Rightarrow> bictcp_ca tcp_congestion_ops" where
  "bictcp p = null_ops\<lparr>ops_init := Some (bictcp_init p), ops_ssthresh := Some (bictcp_recalc_ssthresh p),
     ops_cong_avoid := Some (bictcp_cong_avoid p), ops_set_state := Some bictcp_state,
     ops_undo_cwnd := Some bictcp_undo_cwnd, ops_pkts_acked := Some bictcp_acked,
     ops_name := ''bic''\<rparr>"

section \<open>The delayed-ACK estimate\<close>

text \<open>
  \<open>delayed_ack_ok d\<close>: the estimate is a usable divisor, and small enough that no sample below
  \<open>2 ^ 32\<close> wraps it. \<open>d - d div 16 + cnt\<close> is the new value; its fixed point is \<open>16 * cnt + 15\<close>.
\<close>

definition delayed_ack_ok :: "u32 \<Rightarrow> bool" where
  "delayed_ack_ok d \<longleftrightarrow> 0 < unat d \<and> unat d \<le> 16 * 2 ^ 32 + 15"

lemma delayed_ack_start: "delayed_ack_ok (push_bit ACK_RATIO_SHIFT 2)"
  by (simp add: delayed_ack_ok_def ACK_RATIO_SHIFT_def)

lemma delayed_ack_next:
  assumes "delayed_ack_ok d" "0 < cnt" "unat cnt \<le> 2 ^ 32"
  shows "unat (d + (cnt - drop_bit ACK_RATIO_SHIFT d)) = unat d - unat d div 16 + unat cnt"
    and "delayed_ack_ok (d + (cnt - drop_bit ACK_RATIO_SHIFT d))"
proof -
  let ?q = "drop_bit ACK_RATIO_SHIFT d"
  have q: "unat ?q = unat d div 16" by (simp add: ACK_RATIO_SHIFT_def unat_shiftr)
  have sw: "d + (cnt - ?q) = (d - ?q) + cnt" by simp
  have dq: "unat (d - ?q) = unat d - unat d div 16"
    by (subst unat_sub) (simp_all add: word_le_nat_alt q)
  moreover have "unat (d - ?q) + unat cnt < 2 ^ LENGTH(64)"
    using assms diff_le_self [of "unat d" "unat d div 16"]
    unfolding dq delayed_ack_ok_def by (simp del: diff_le_self, linarith)
  ultimately show eq: "unat (d + (cnt - ?q)) = unat d - unat d div 16 + unat cnt"
    unfolding sw using unat_add_no_wrap [of "d - ?q" cnt] unfolding dq by simp
  have "0 < unat cnt" using assms(2) by (simp add: word_less_nat_alt)
  then show "delayed_ack_ok (d + (cnt - ?q))"
    unfolding delayed_ack_ok_def eq using assms(1,3) unfolding delayed_ack_ok_def
    by (intro conjI) (simp, linarith)
qed

definition bic_inv :: "bictcp_ca \<Rightarrow> bool" where
  "bic_inv ca \<longleftrightarrow> delayed_ack_ok (bic_delayed_ack ca)"

lemma bictcp_rate_total:
  assumes "0 < sint (bic_max_increment p)" "unat cwnd < 2 ^ 32"
  shows "bictcp_rate p ca cwnd \<noteq> None"
proof -
  have inc: "(scast (bic_max_increment p) :: u32) \<noteq> 0"
    using assms(1) unat_scast_pos [of "bic_max_increment p"] by (auto simp: word_nonzero_unat)
  have "cwnd - bic_last_max_cwnd ca \<noteq> 0"
    if "\<not> cwnd < bic_last_max_cwnd ca" "\<not> cwnd < bic_last_max_cwnd ca + BICTCP_B"
  proof
    assume "cwnd - bic_last_max_cwnd ca = 0"
    then have eq: "bic_last_max_cwnd ca = cwnd" by simp
    have "unat (cwnd + 4) = unat cwnd + 4"
      using assms(2) unat_add_no_wrap [of cwnd 4] by simp
    then show False using that(2) by (simp add: eq BICTCP_B_def word_less_nat_alt)
  qed
  then show ?thesis
    using inc by (auto simp: bictcp_rate_def Let_def udiv_def BICTCP_B_def)
qed

lemma bictcp_update_total:
  assumes "0 < sint (bic_max_increment p)" "unat cwnd < 2 ^ 32" "bic_inv ca"
  shows "\<exists>ca'. bictcp_update p k ca cwnd = Some ca' \<and> bic_delayed_ack ca' = bic_delayed_ack ca"
proof -
  have d: "bic_delayed_ack ca \<noteq> 0"
    using assms(3) by (auto simp: bic_inv_def delayed_ack_ok_def)
  define ca1 where "ca1 = (let ca1 = ca\<lparr>bic_last_cwnd := cwnd, bic_last_time := tcp_time_stamp k\<rparr> in
    if bic_epoch_start ca1 = 0 then ca1\<lparr>bic_epoch_start := tcp_time_stamp k\<rparr> else ca1)"
  have d1: "bic_delayed_ack ca1 = bic_delayed_ack ca" by (simp add: ca1_def Let_def)
  obtain r where r: "bictcp_rate p ca1 cwnd = Some r"
    using bictcp_rate_total [OF assms(1,2), of ca1] by blast
  show ?thesis
    unfolding bictcp_update_def ca1_def [symmetric, unfolded Let_def] Let_def
    using d by (auto simp: r d1)
qed

lemma bictcp_cong_avoid_step:
  assumes "0 < sint (bic_max_increment p)" "window_ok tp" "bic_inv (icsk_ca_priv tp)"
  shows "\<exists>tp'. bictcp_cong_avoid p k ack seq_rtt in_flight data_acked tp = Some tp' \<and>
    window_step tp tp' \<and> bic_inv (icsk_ca_priv tp')"
proof (cases "tcp_is_cwnd_limited tp in_flight \<and> snd_ssthresh tp < snd_cwnd tp")
  case True
  obtain ca where ca: "bictcp_update p k (icsk_ca_priv tp) (snd_cwnd tp) = Some ca"
    "bic_delayed_ack ca = bic_delayed_ack (icsk_ca_priv tp)"
    using bictcp_update_total [OF assms(1) window_ok_32(1) [OF assms(2)] assms(3)] by blast
  then show ?thesis
    using True assms cong_avoid_ai_step [of "tp\<lparr>icsk_ca_priv := ca\<rparr>" "bic_cnt ca"]
    by (simp add: bictcp_cong_avoid_def bic_inv_def window_step_def not_le [symmetric])
next
  case False
  then show ?thesis
    using tcp_slow_start_step [OF assms(2), of k] assms
    by (auto simp: bictcp_cong_avoid_def window_step_refl)
qed

section \<open>The threshold after a loss\<close>

text \<open>\<open>(cwnd * beta) / 1024\<close> for a parameter of at most 1024 and a window that fits 32 bits; CUBIC
  has the same line.\<close>

lemma beta_share:
  assumes "0 \<le> sint (b :: cint)" "sint b \<le> 1024" "unat (w :: u32) < 2 ^ 32"
  shows "unat (w * scast b div scast BICTCP_BETA_SCALE) = unat w * nat (sint b) div 1024"
    and "unat w * nat (sint b) div 1024 \<le> unat w"
proof -
  have b: "unat (scast b :: u32) = nat (sint b)" using assms(1) by (rule unat_scast_pos)
  have n: "nat (sint b) \<le> 1024" using assms(2) by simp
  have "unat w * nat (sint b) \<le> unat w * 1024" using n by (rule mult_le_mono2)
  also have "\<dots> < 2 ^ LENGTH(64)" using assms(3) by simp
  finally have "unat (w * scast b) = unat w * nat (sint b)"
    using unat_mult_no_wrap [of w "scast b"] unfolding b by simp
  then show "unat (w * scast b div scast BICTCP_BETA_SCALE) = unat w * nat (sint b) div 1024"
    by (simp add: unat_div BICTCP_BETA_SCALE_def)
  show "unat w * nat (sint b) div 1024 \<le> unat w"
    using div_le_mono [OF mult_le_mono2 [OF n, of "unat w"], of 1024] by simp
qed

lemma bictcp_ssthresh_ok:
  assumes "0 \<le> sint (bic_beta p)" "sint (bic_beta p) \<le> 1024" "window_ok tp" "bic_inv (icsk_ca_priv tp)"
  shows "\<exists>v ca. bictcp_recalc_ssthresh p k tp = Some (v, tp\<lparr>icsk_ca_priv := ca\<rparr>) \<and> bic_inv ca \<and>
    2 \<le> v \<and> v \<le> max (snd_cwnd tp) 2"
proof -
  have share: "snd_cwnd tp * scast (bic_beta p) div scast BICTCP_BETA_SCALE \<le> snd_cwnd tp"
    using beta_share [OF assms(1,2) window_ok_32(1) [OF assms(3)]] by (simp add: word_le_nat_alt)
  have half: "drop_bit 1 (snd_cwnd tp) \<le> snd_cwnd tp" by (simp add: word_le_nat_alt unat_shiftr)
  define x where "x = (if snd_cwnd tp \<le> scast (bic_low_window p) then drop_bit 1 (snd_cwnd tp)
    else snd_cwnd tp * scast (bic_beta p) div scast BICTCP_BETA_SCALE)"
  define ca where "ca = icsk_ca_priv (snd (the (bictcp_recalc_ssthresh p k tp)))"
  have "bictcp_recalc_ssthresh p k tp = Some (max x 2, tp\<lparr>icsk_ca_priv := ca\<rparr>)" "bic_inv ca"
    using assms(4) by (simp_all add: bictcp_recalc_ssthresh_def Let_def x_def ca_def bic_inv_def)
  then show ?thesis using share half
    by (intro ssthresh_ok_max [where ssthresh = "bictcp_recalc_ssthresh p" and x = x and ca = ca])
      (simp_all add: x_def)
qed

interpretation bic: cong_control "bictcp_cong_avoid bic_defaults" "\<lambda>_ _. True"
  "bictcp_recalc_ssthresh bic_defaults" bic_inv
proof (unfold_locales, goal_cases)
  case (1 tp k ack rtt in_flight flag)
  show ?case using bictcp_cong_avoid_step [OF _ 1(1,4)] by (simp add: bic_defaults_def)
next
  case (3 tp k)
  show ?case using bictcp_ssthresh_ok [OF _ _ 3] by (simp add: bic_defaults_def)
qed simp

section \<open>Properties\<close>

text \<open>
  The delayed-ACK estimate of BIC is the moving average of its comment: for a sample
  of \<open>cnt\<close> segments, \<open>cnt\<close> between 1 and \<open>2 ^ 32\<close>, the new estimate is \<open>d - d/16 + cnt\<close>, exactly and
  without wrapping, and stays a divisor that is not zero.
\<close>

theorem bictcp_acked_average:
  assumes "0 < unat (bic_delayed_ack (icsk_ca_priv tp))"
    "unat (bic_delayed_ack (icsk_ca_priv tp)) \<le> 16 * 2 ^ 32 + 15"
    "icsk_ca_state tp = TCP_CA_Open" "0 < cnt" "unat cnt \<le> 2 ^ 32"
  shows "\<exists>d. bictcp_acked k cnt kt tp =
      Some (tp\<lparr>icsk_ca_priv := (icsk_ca_priv tp)\<lparr>bic_delayed_ack := d\<rparr>\<rparr>) \<and>
    unat d = unat (bic_delayed_ack (icsk_ca_priv tp))
      - unat (bic_delayed_ack (icsk_ca_priv tp)) div 16 + unat cnt \<and>
    0 < unat d \<and> unat d \<le> 16 * 2 ^ 32 + 15"
proof -
  have "delayed_ack_ok (bic_delayed_ack (icsk_ca_priv tp))"
    using assms(1,2) by (simp add: delayed_ack_ok_def)
  note step = delayed_ack_next [OF this assms(4,5)]
  show ?thesis
    using step(1) step(2) [unfolded delayed_ack_ok_def] assms(3,4)
    by (intro exI [of _ "bic_delayed_ack (icsk_ca_priv tp) +
          (cnt - drop_bit ACK_RATIO_SHIFT (bic_delayed_ack (icsk_ca_priv tp)))"])
      (simp add: bictcp_acked_def Let_def)
qed

theorem bictcp_acked_average_witness:
  "\<exists>d. bictcp_acked ex_kernel 4 0 (ex_sock bictcp_reset) =
      Some (ex_sock (bictcp_reset\<lparr>bic_delayed_ack := d\<rparr>)) \<and> unat d = 34"
proof -
  have h: "0 < unat (bic_delayed_ack (icsk_ca_priv (ex_sock bictcp_reset)))"
    "unat (bic_delayed_ack (icsk_ca_priv (ex_sock bictcp_reset))) \<le> 16 * 2 ^ 32 + 15"
    "icsk_ca_state (ex_sock bictcp_reset) = TCP_CA_Open" "0 < (4 :: u32)" "unat (4 :: u32) \<le> 2 ^ 32"
    by (simp_all add: ex_defs bictcp_reset_def bic_consts tcp_ca_state_defs)
  show ?thesis
    using bictcp_acked_average [OF h, of ex_kernel 0]
    by (auto simp: ex_defs bictcp_reset_def bic_consts)
qed

text \<open>
  \<open>bictcp_update\<close> divides by no zero and returns a rate of at least one: for a
  positive \<open>max_increment\<close>, a window between 1 and \<open>2 ^ 32 - 1\<close> and a usable delayed-ACK estimate
  it either leaves the state as it is or records the window and a positive rate.
\<close>

theorem bictcp_update_rate_positive:
  assumes "0 < sint (bic_max_increment p)" "0 < cwnd" "unat cwnd < 2 ^ 32"
    and "0 < unat (bic_delayed_ack ca)" "unat (bic_delayed_ack ca) \<le> 16 * 2 ^ 32 + 15"
  shows "\<exists>ca'. bictcp_update p k ca cwnd = Some ca' \<and>
    (ca' = ca \<or> bic_last_cwnd ca' = cwnd \<and> 0 < bic_cnt ca' \<and> bic_last_time ca' = tcp_time_stamp k)"
proof -
  have inv: "bic_inv ca" using assms(4,5) by (simp add: bic_inv_def delayed_ack_ok_def)
  obtain ca' where "bictcp_update p k ca cwnd = Some ca'"
    using bictcp_update_total [OF assms(1,3) inv] by blast
  moreover from this have
    "ca' = ca \<or> bic_last_cwnd ca' = cwnd \<and> bic_cnt ca' \<noteq> 0 \<and> bic_last_time ca' = tcp_time_stamp k"
    using assms(2) unfolding bictcp_update_def Let_def
    by (auto split: if_splits bind_splits)
  ultimately show ?thesis by (auto simp: word_gt_0)
qed

theorem bictcp_update_rate_positive_witness:
  "\<exists>ca. bictcp_update bic_defaults ex_kernel bictcp_reset 40 = Some ca \<and> 0 < bic_cnt ca"
proof -
  have h: "0 < sint (bic_max_increment bic_defaults)" "0 < (40 :: u32)" "unat (40 :: u32) < 2 ^ 32"
    "0 < unat (bic_delayed_ack bictcp_reset)" "unat (bic_delayed_ack bictcp_reset) \<le> 16 * 2 ^ 32 + 15"
    by (simp_all add: bic_defaults_def bictcp_reset_def bic_consts)
  obtain ca where "bictcp_update bic_defaults ex_kernel bictcp_reset 40 = Some ca"
    "ca = bictcp_reset \<or> 0 < bic_cnt ca"
    using bictcp_update_rate_positive [OF h, of ex_kernel] by blast
  moreover have "bictcp_update bic_defaults ex_kernel bictcp_reset 40 \<noteq> Some bictcp_reset"
    by (auto simp: bictcp_update_def bictcp_reset_def Let_def bic_defaults_def ex_defs
        bind_eq_Some_conv dest!: arg_cong [of _ _ bic_last_cwnd])
  ultimately show ?thesis by auto
qed

end
