(* ===== verification/Tcp_Cubic.thy ===== *)
theory Tcp_Cubic
  imports Tcp_Bic
begin

text \<open>
  \<open>tcp/linux/src/tcp_cubic.c\<close>, CUBIC TCP. The static functions that the C file calls
  \<open>bictcp_...\<close> are called \<open>cubictcp_...\<close> here. The precomputed factors \<open>beta_scale\<close>,
  \<open>cube_rtt_scale\<close> and \<open>cube_factor\<close> are a record of their own, filled in by
  \<open>cubictcp_register\<close>. The lemmas show that the cube root reads within its table and divides by
  no zero, that the TCP-friendliness loop ends exactly when its step is not zero and what it
  computes, and that the module keeps the contract of \<open>Tcp_Cong\<close> while the clock stays below
  \<open>2 ^ 56\<close> jiffies.
\<close>

section \<open>Parameters and state\<close>

record cubic_params =
  cubic_fast_convergence :: cint
  cubic_max_increment :: cint
  cubic_beta :: cint
  cubic_initial_ssthresh :: cint
  cubic_bic_scale :: cint
  cubic_tcp_friendliness :: cint

definition cubic_defaults :: cubic_params where
  "cubic_defaults = \<lparr>cubic_fast_convergence = 1, cubic_max_increment = 16, cubic_beta = 819,
     cubic_initial_ssthresh = 0, cubic_bic_scale = 41, cubic_tcp_friendliness = 1\<rparr>"

record cubic_scales =
  cube_rtt_scale :: u32
  beta_scale :: u32
  cube_factor :: u64

definition BICTCP_HZ :: nat where "BICTCP_HZ = 10"

text \<open>The signed \<open>int\<close> divisions of \<open>cubictcp_register\<close>; \<open>beta = 1024\<close> faults.\<close>

definition cubictcp_register_scales :: "cubic_params \<Rightarrow> cubic_scales option" where
  "cubictcp_register_scales p = do {
     bs \<leftarrow> (if BICTCP_BETA_SCALE - cubic_beta p = 0 then None
            else Some (word_of_int (sint (word_of_int (sint (8 * (BICTCP_BETA_SCALE + cubic_beta p)) sdiv 3) :: cint)
                   sdiv sint (BICTCP_BETA_SCALE - cubic_beta p)) :: cint));
     (q, r) \<leftarrow> do_div (push_bit (10 + 3 * BICTCP_HZ) 1) (scast (cubic_bic_scale p * 10));
     Some \<lparr>cube_rtt_scale = scast (cubic_bic_scale p * 10), beta_scale = scast bs, cube_factor = q\<rparr>
   }"

record cubictcp_ca =
  cub_cnt :: u32
  cub_last_max_cwnd :: u32
  cub_loss_cwnd :: u32
  cub_last_cwnd :: u32
  cub_last_time :: u32
  bic_origin_point :: u32
  bic_K :: u32
  cub_delay_min :: u32
  cub_epoch_start :: u32
  cub_ack_cnt :: u32
  cub_tcp_cwnd :: u32
  cub_delayed_ack :: u32

definition cubictcp_reset :: cubictcp_ca where
  "cubictcp_reset = \<lparr>cub_cnt = 0, cub_last_max_cwnd = 0, cub_loss_cwnd = 0, cub_last_cwnd = 0,
     cub_last_time = 0, bic_origin_point = 0, bic_K = 0, cub_delay_min = 0, cub_epoch_start = 0,
     cub_ack_cnt = 0, cub_tcp_cwnd = 0, cub_delayed_ack = push_bit ACK_RATIO_SHIFT 2\<rparr>"

definition cubictcp_init ::
  "cubic_params \<Rightarrow> kernel \<Rightarrow> cubictcp_ca tcp_sock \<Rightarrow> cubictcp_ca tcp_sock option" where
  "cubictcp_init p k tp =
     (let tp = tp\<lparr>icsk_ca_priv := cubictcp_reset\<rparr> in
      Some (if cubic_initial_ssthresh p \<noteq> 0 then tp\<lparr>snd_ssthresh := scast (cubic_initial_ssthresh p)\<rparr>
            else tp))"

section \<open>The cube root\<close>

definition cubic_root_v :: "u8 list" where
  "cubic_root_v =
    [0, 54, 54, 54, 118, 118, 118, 118,
     123, 129, 134, 138, 143, 147, 151, 156,
     157, 161, 164, 168, 170, 173, 176, 179,
     181, 185, 187, 190, 192, 194, 197, 199,
     200, 202, 204, 206, 209, 211, 213, 215,
     217, 219, 221, 222, 224, 225, 227, 229,
     231, 232, 234, 236, 237, 239, 240, 242,
     244, 245, 246, 248, 250, 251, 252, 254]"

text \<open>\<open>b\<close> holds a result of \<open>fls64\<close>, at most 64, and stays a natural number. The table is read
  first, then one Newton step: \<open>(2 * x + a / (x * (x - 1))) / 3\<close>, with \<open>341 / 1024\<close> for a third.\<close>

definition cubic_root :: "u64 \<Rightarrow> u32 option" where
  "cubic_root a =
     (let b = fls64 a in
      if b < 7 then do {
        v \<leftarrow> array_get cubic_root_v (unat a);
        Some (drop_bit 6 (ucast v + 35))
      } else do {
        let b = (b * 84) div 2 ^ 8 - 1;
        v \<leftarrow> array_get cubic_root_v (unat (drop_bit (b * 3) a));
        let x = drop_bit 6 (push_bit b (ucast v + 10));
        q \<leftarrow> div64_64 a (x * (x - 1));
        let x = 2 * x + q;
        Some (drop_bit 10 (x * 341))
      })"

section \<open>The window growth function\<close>

text \<open>\<open>while (ca->ack_cnt > delta)\<close>: the window Reno would have; with \<open>delta = 0\<close> it does not end.\<close>

partial_function (option) cubic_friendly_loop :: "u32 \<Rightarrow> u32 \<Rightarrow> u32 \<Rightarrow> (u32 \<times> u32) option" where
  "cubic_friendly_loop ack_cnt tcp_cwnd delta =
     (if delta < ack_cnt then cubic_friendly_loop (ack_cnt - delta) (tcp_cwnd + 1) delta
      else Some (ack_cnt, tcp_cwnd))"

text \<open>The start of an epoch.\<close>

definition cubictcp_epoch :: "cubic_scales \<Rightarrow> kernel \<Rightarrow> cubictcp_ca \<Rightarrow> u32 \<Rightarrow> cubictcp_ca option" where
  "cubictcp_epoch sc k ca cwnd =
     (if cub_epoch_start ca = 0 then
        let ca = ca\<lparr>cub_epoch_start := tcp_time_stamp k, cub_ack_cnt := 1, cub_tcp_cwnd := cwnd\<rparr> in
        if cub_last_max_cwnd ca \<le> cwnd then Some (ca\<lparr>bic_K := 0, bic_origin_point := cwnd\<rparr>)
        else do {
          K \<leftarrow> cubic_root (cube_factor sc * (cub_last_max_cwnd ca - cwnd));
          Some (ca\<lparr>bic_K := K, bic_origin_point := cub_last_max_cwnd ca\<rparr>)
        }
      else Some ca)"

text \<open>The cubic function: the time \<open>t\<close> into the epoch, the target window and the rate for it.\<close>

definition cubic_time :: "kernel \<Rightarrow> cubictcp_ca \<Rightarrow> u32" where
  "cubic_time k ca =
     push_bit BICTCP_HZ (tcp_time_stamp k + drop_bit 3 (cub_delay_min ca) - cub_epoch_start ca) div HZ"

definition cubic_target :: "cubic_scales \<Rightarrow> cubictcp_ca \<Rightarrow> u32 \<Rightarrow> u32" where
  "cubic_target sc ca t =
     (let offs = (if t < bic_K ca then bic_K ca - t else t - bic_K ca);
          delta = drop_bit (10 + 3 * BICTCP_HZ) (cube_rtt_scale sc * offs * offs * offs)
      in if t < bic_K ca then bic_origin_point ca - delta else bic_origin_point ca + delta)"

definition cubic_rate ::
  "cubic_params \<Rightarrow> cubic_scales \<Rightarrow> cubictcp_ca \<Rightarrow> u32 \<Rightarrow> u32 \<Rightarrow> u32 option" where
  "cubic_rate p sc ca t cwnd = do {
     let bic_target = cubic_target sc ca t;
     cnt \<leftarrow> (if cwnd < bic_target then udiv cwnd (bic_target - cwnd) else Some (100 * cwnd));
     cnt \<leftarrow> (if 0 < cub_delay_min ca then do {
               min_cnt \<leftarrow> udiv (cwnd * HZ * 8) (scast (10 * cubic_max_increment p) * cub_delay_min ca);
               Some (if cnt < min_cnt \<and> bic_K ca \<le> t then min_cnt else cnt)
             } else Some cnt);
     Some (if cub_loss_cwnd ca = 0 then 50 else cnt)
   }"

definition cubic_friendly ::
  "cubic_params \<Rightarrow> cubic_scales \<Rightarrow> cubictcp_ca \<Rightarrow> u32 \<Rightarrow> cubictcp_ca option" where
  "cubic_friendly p sc ca cwnd =
     (if cubic_tcp_friendliness p \<noteq> 0 then do {
        (ack, w) \<leftarrow> cubic_friendly_loop (cub_ack_cnt ca) (cub_tcp_cwnd ca)
                      (drop_bit 3 (cwnd * beta_scale sc));
        let ca = ca\<lparr>cub_ack_cnt := ack, cub_tcp_cwnd := w\<rparr>;
        if cwnd < w then do {
          max_cnt \<leftarrow> udiv cwnd (w - cwnd);
          Some (if max_cnt < cub_cnt ca then ca\<lparr>cub_cnt := max_cnt\<rparr> else ca)
        } else Some ca
      } else Some ca)"

definition cubictcp_update ::
  "cubic_params \<Rightarrow> cubic_scales \<Rightarrow> kernel \<Rightarrow> cubictcp_ca \<Rightarrow> u32 \<Rightarrow> cubictcp_ca option" where
  "cubictcp_update p sc k ca cwnd =
     (let ca = ca\<lparr>cub_ack_cnt := cub_ack_cnt ca + 1\<rparr> in
      if cub_last_cwnd ca = cwnd \<and> tcp_time_stamp k - cub_last_time ca \<le>s HZ div 32 then Some ca
      else do {
        let ca = ca\<lparr>cub_last_cwnd := cwnd, cub_last_time := tcp_time_stamp k\<rparr>;
        ca \<leftarrow> cubictcp_epoch sc k ca cwnd;
        cnt \<leftarrow> cubic_rate p sc ca (cubic_time k ca) cwnd;
        ca \<leftarrow> cubic_friendly p sc (ca\<lparr>cub_cnt := cnt\<rparr>) cwnd;
        cnt \<leftarrow> udiv (push_bit ACK_RATIO_SHIFT (cub_cnt ca)) (cub_delayed_ack ca);
        Some (ca\<lparr>cub_cnt := (if cnt = 0 then 1 else cnt)\<rparr>)
      })"

text \<open>\<open>measure_delay\<close>: the least round trip time, in eighths of a jiffy.\<close>

definition cubic_measure_delay :: "kernel \<Rightarrow> cubictcp_ca tcp_sock \<Rightarrow> cubictcp_ca tcp_sock" where
  "cubic_measure_delay k tp =
     (let ca = icsk_ca_priv tp in
      if \<not> (saw_tstamp tp \<and> rcv_tsecr tp \<noteq> 0) \<or> tcp_time_stamp k - cub_epoch_start ca <s HZ then tp
      else
        let delay = push_bit 3 (tcp_time_stamp k - rcv_tsecr tp);
            delay = (if delay = 0 then 1 else delay)
        in if cub_delay_min ca = 0 \<or> delay < cub_delay_min ca
           then tp\<lparr>icsk_ca_priv := ca\<lparr>cub_delay_min := delay\<rparr>\<rparr> else tp)"

section \<open>The operations\<close>

definition cubictcp_cong_avoid ::
  "cubic_params \<Rightarrow> cubic_scales \<Rightarrow> kernel \<Rightarrow> u32 \<Rightarrow> u32 \<Rightarrow> u32 \<Rightarrow> cint \<Rightarrow>
   cubictcp_ca tcp_sock \<Rightarrow> cubictcp_ca tcp_sock option" where
  "cubictcp_cong_avoid p sc k ack seq_rtt in_flight data_acked tp =
     (let tp = (if data_acked \<noteq> 0 then cubic_measure_delay k tp else tp) in
      if \<not> tcp_is_cwnd_limited tp in_flight then Some tp
      else if snd_cwnd tp \<le> snd_ssthresh tp then tcp_slow_start k tp
      else do {
        ca \<leftarrow> cubictcp_update p sc k (icsk_ca_priv tp) (snd_cwnd tp);
        Some (cong_avoid_ai (cub_cnt ca) (tp\<lparr>icsk_ca_priv := ca\<rparr>))
      })"

definition cubictcp_recalc_ssthresh ::
  "cubic_params \<Rightarrow> kernel \<Rightarrow> cubictcp_ca tcp_sock \<Rightarrow> (u32 \<times> cubictcp_ca tcp_sock) option" where
  "cubictcp_recalc_ssthresh p k tp =
     (let ca = icsk_ca_priv tp;
          last_max = (if snd_cwnd tp < cub_last_max_cwnd ca \<and> cubic_fast_convergence p \<noteq> 0
            then snd_cwnd tp * scast (BICTCP_BETA_SCALE + cubic_beta p) div scast (2 * BICTCP_BETA_SCALE)
            else snd_cwnd tp);
          ca = ca\<lparr>cub_epoch_start := 0, cub_last_max_cwnd := last_max, cub_loss_cwnd := snd_cwnd tp\<rparr>
      in Some (max (snd_cwnd tp * scast (cubic_beta p) div scast BICTCP_BETA_SCALE) 2,
               tp\<lparr>icsk_ca_priv := ca\<rparr>))"

definition cubictcp_undo_cwnd :: "kernel \<Rightarrow> cubictcp_ca tcp_sock \<Rightarrow> (u32 \<times> cubictcp_ca tcp_sock) option" where
  "cubictcp_undo_cwnd k tp = Some (max (snd_cwnd tp) (cub_last_max_cwnd (icsk_ca_priv tp)), tp)"

definition cubictcp_state :: "kernel \<Rightarrow> u8 \<Rightarrow> cubictcp_ca tcp_sock \<Rightarrow> cubictcp_ca tcp_sock option" where
  "cubictcp_state k new_state tp =
     Some (if new_state = TCP_CA_Loss then tp\<lparr>icsk_ca_priv := cubictcp_reset\<rparr> else tp)"

definition cubictcp_acked :: "kernel \<Rightarrow> u32 \<Rightarrow> s64 \<Rightarrow> cubictcp_ca tcp_sock \<Rightarrow> cubictcp_ca tcp_sock option" where
  "cubictcp_acked k cnt kt tp =
     (if 0 < cnt \<and> icsk_ca_state tp = TCP_CA_Open then
        let ca = icsk_ca_priv tp;
            cnt = cnt - drop_bit ACK_RATIO_SHIFT (cub_delayed_ack ca)
        in Some (tp\<lparr>icsk_ca_priv := ca\<lparr>cub_delayed_ack := cub_delayed_ack ca + cnt\<rparr>\<rparr>)
      else Some tp)"

definition cubictcp :: "cubic_params \<Rightarrow> cubic_scales \<Rightarrow> cubictcp_ca tcp_congestion_ops" where
  "cubictcp p sc = null_ops\<lparr>ops_init := Some (cubictcp_init p),
     ops_ssthresh := Some (cubictcp_recalc_ssthresh p),
     ops_cong_avoid := Some (cubictcp_cong_avoid p sc), ops_set_state := Some cubictcp_state,
     ops_undo_cwnd := Some cubictcp_undo_cwnd, ops_pkts_acked := Some cubictcp_acked,
     ops_name := ''cubic''\<rparr>"

section \<open>The cube root does not fault\<close>

lemma cubic_shift_range:
  assumes "7 \<le> (f :: nat)" "f \<le> 64"
  shows "1 \<le> f * 84 div 256 - 1" "f * 84 div 256 - 1 \<le> 20"
    "3 * (f * 84 div 256 - 1) + 4 \<le> f" "f \<le> 3 * (f * 84 div 256 - 1) + 6"
proof -
  define q r where "q = f * 84 div 256" and "r = f * 84 mod 256"
  have f: "f * 84 = 256 * q + r" and r: "r < 256"
    unfolding q_def r_def by (simp_all only: mult_div_mod_eq)
  have q: "2 \<le> q" "q \<le> 21" using f r assms by linarith+
  have "3 * q + 1 \<le> f" using f q by linarith
  moreover have "f \<le> 3 * q + 3"
  proof (cases "q = 21")
    case True
    then show ?thesis using assms(2) by simp
  next
    case False
    then have "q \<le> 20" using q by simp
    then have "f * 84 < 252 * q + 336" using f r by linarith
    then show ?thesis by linarith
  qed
  ultimately show "1 \<le> f * 84 div 256 - 1" "f * 84 div 256 - 1 \<le> 20"
    "3 * (f * 84 div 256 - 1) + 4 \<le> f" "f \<le> 3 * (f * 84 div 256 - 1) + 6"
    using q unfolding q_def [symmetric] by linarith+
qed

lemma cubic_table_length [simp]: "length cubic_root_v = 64"
  by (simp add: cubic_root_v_def)

lemma cubic_table:
  assumes "8 \<le> i" "i < 64"
  shows "123 \<le> unat (cubic_root_v ! i)"
proof -
  have "\<forall>v\<in>set (drop 8 cubic_root_v). 123 \<le> unat v" by (simp add: cubic_root_v_def)
  moreover have "cubic_root_v ! i = drop 8 cubic_root_v ! (i - 8)" using assms by simp
  moreover have "i - 8 < length (drop 8 cubic_root_v)" using assms by simp
  ultimately show ?thesis by (metis nth_mem)
qed

text \<open>The index of the second table access.\<close>

lemma cubic_index:
  assumes "7 \<le> fls64 a"
  defines "b \<equiv> fls64 a * 84 div 256 - 1"
  shows "8 \<le> unat (drop_bit (b * 3) a)" "unat (drop_bit (b * 3) a) < 64"
proof -
  have "a \<noteq> 0" using assms(1) by auto
  note f = fls64_bounds [OF this]
  note r = cubic_shift_range [OF assms(1) f(4), folded b_def]
  have d: "unat (drop_bit (b * 3) a) = unat a div 2 ^ (b * 3)" by (rule unat_shiftr)
  have "8 * 2 ^ (b * 3) = (2::nat) ^ (b * 3 + 3)" by (simp add: power_add)
  also have "\<dots> \<le> 2 ^ (fls64 a - 1)" using r by (intro power_increasing) auto
  finally have "8 * 2 ^ (b * 3) \<le> unat a" using f(1) by linarith
  then show "8 \<le> unat (drop_bit (b * 3) a)" unfolding d by (simp add: less_eq_div_iff_mult_less_eq)
  have "unat a < 2 ^ (b * 3 + 6)"
    using f(2) r by (intro less_le_trans [OF f(2)] power_increasing) auto
  then show "unat (drop_bit (b * 3) a) < 64"
    unfolding d by (intro less_mult_imp_div_less) (simp add: power_add mult.commute)
qed

lemma cubic_divisor:
  assumes "123 \<le> unat (v :: u8)" "1 \<le> b" "b \<le> 20"
  defines "x \<equiv> drop_bit 6 (push_bit b (ucast v + 10)) :: u64"
  shows "x * (x - 1) \<noteq> 0"
proof -
  have v: "unat v < 256" using unat_bound [of v] by simp
  have u: "unat (ucast v + 10 :: u64) = unat v + 10"
    using unat_add_no_wrap [of "ucast v :: u64" 10] v by simp
  have p: "(2::nat) ^ 1 \<le> 2 ^ b" "(2::nat) ^ b \<le> 2 ^ 20"
    using power_increasing [OF assms(2), of "2::nat"] power_increasing [OF assms(3), of "2::nat"] by simp_all
  have le: "(unat v + 10) * 2 ^ b \<le> 266 * 2 ^ 20" using v p(2) by (intro mult_le_mono) auto
  then have "unat (push_bit b (ucast v + 10) :: u64) = (unat v + 10) * 2 ^ b"
    using unat_shiftl_no_wrap [of "ucast v + 10 :: u64" b] unfolding u by simp
  then have x: "unat x = (unat v + 10) * 2 ^ b div 64" by (simp add: x_def unat_shiftr)
  have "133 * 2 ^ 1 \<le> (unat v + 10) * 2 ^ b" using assms(1) p(1) by (intro mult_le_mono) auto
  then have lo: "4 \<le> unat x" unfolding x by simp
  have hi: "unat x \<le> 266 * 2 ^ 20 div 64" unfolding x using le by (rule div_le_mono)
  have x1: "unat (x - 1) = unat x - 1" using lo by (subst unat_sub) (simp_all add: word_le_nat_alt)
  have "unat x * unat (x - 1) \<le> (266 * 2 ^ 20 div 64) * (266 * 2 ^ 20 div 64)"
    unfolding x1 using hi by (intro mult_le_mono) auto
  also have "\<dots> < 2 ^ LENGTH(64)" by simp
  finally have "unat (x * (x - 1)) = unat x * (unat x - 1)"
    using unat_mult_no_wrap [of x "x - 1"] unfolding x1 by blast
  moreover have "0 < unat x * (unat x - 1)" using lo by simp
  ultimately show ?thesis by (metis unat_0 less_irrefl)
qed

lemma cubic_root_total: "\<exists>r. cubic_root a = Some r"
proof (cases "fls64 a < 7")
  case True
  have "unat a < 64"
  proof (cases "a = 0")
    case False
    have "unat a < 2 ^ fls64 a" by (rule fls64_bounds [OF False])
    also have "\<dots> \<le> 2 ^ 6" using True by (intro power_increasing) auto
    finally show ?thesis by simp
  qed simp
  then show ?thesis using True by (simp add: cubic_root_def Let_def)
next
  case False
  define b where "b = fls64 a * 84 div 256 - 1"
  have f: "7 \<le> fls64 a" "a \<noteq> 0" using False by auto
  note i = cubic_index [OF f(1), folded b_def]
  define v where "v = cubic_root_v ! unat (drop_bit (b * 3) a)"
  define x where "x = (drop_bit 6 (push_bit b (ucast v + 10)) :: u64)"
  have "x * (x - 1) \<noteq> 0"
    unfolding x_def using cubic_table [OF i, folded v_def]
      cubic_shift_range [OF f(1) fls64_bounds(4) [OF f(2)], folded b_def]
    by (intro cubic_divisor) auto
  then obtain q where q: "div64_64 a (x * (x - 1)) = Some q" by (rule div64_64_bounds)
  moreover have b: "fls64 a * 84 div 2 ^ 8 - 1 = b" by (simp add: b_def)
  ultimately show ?thesis
    using False i unfolding cubic_root_def Let_def b by (simp add: q flip: v_def x_def)
qed

section \<open>The TCP-friendliness loop\<close>

declare cubic_friendly_loop.simps [code]

lemma cubic_friendly_loop_exit:
  "\<not> d < n \<Longrightarrow> cubic_friendly_loop n w d = Some (n, w)"
  by (simp add: cubic_friendly_loop.simps)

lemma cubic_friendly_loop_result:
  assumes "0 < d"
  shows "\<exists>n'. cubic_friendly_loop n w d = Some (n', w + of_nat ((unat n - 1) div unat d)) \<and>
    unat n' = unat n - (unat n - 1) div unat d * unat d"
proof (induction "unat n" arbitrary: n w rule: less_induct)
  case less
  have d: "0 < unat d" using assms by (simp add: word_less_nat_alt)
  show ?case
  proof (cases "d < n")
    case False
    then have "(unat n - 1) div unat d = 0" using d by (auto simp: word_less_nat_alt)
    then show ?thesis using False by (simp add: cubic_friendly_loop_exit)
  next
    case True
    then have lt: "unat d < unat n" by (simp add: word_less_nat_alt)
    have s: "unat (n - d) = unat n - unat d" using True by (simp add: unat_sub less_imp_le)
    have q: "(unat n - 1) div unat d = Suc ((unat n - unat d - 1) div unat d)"
      using d lt le_div_geq [of "unat d" "unat n - 1"] by (simp add: algebra_simps)
    obtain n' where n': "cubic_friendly_loop (n - d) (w + 1) d =
        Some (n', w + 1 + of_nat ((unat n - unat d - 1) div unat d))"
      "unat n' = unat n - unat d - (unat n - unat d - 1) div unat d * unat d"
      using less [of "n - d" "w + 1"] d lt unfolding s by auto
    then show ?thesis
      using True by (simp add: cubic_friendly_loop.simps [of n] q [simplified] algebra_simps)
  qed
qed

lemma cubic_friendly_loop_diverges:
  assumes "0 < n"
  shows "cubic_friendly_loop n w 0 = None"
proof -
  have "cubic_friendly_loop n w 0 \<noteq> Some r" for r
  proof
    assume ret: "cubic_friendly_loop n w 0 = Some r"
    have "\<not> (0 < n \<and> (0 :: u32) = 0)"
    proof (rule cubic_friendly_loop.raw_induct [where P = "\<lambda>n _ d _. \<not> (0 < n \<and> d = 0)", OF _ ret])
      fix f and n w d :: u32 and r
      assume "\<And>n w d r. f n w d = Some r \<Longrightarrow> \<not> (0 < n \<and> d = (0 :: u32))"
        and "(if d < n then f (n - d) (w + 1) d else Some (n, w)) = Some r"
      then show "\<not> (0 < n \<and> d = 0)" by (metis diff_zero)
    qed
    then show False using assms by simp
  qed
  then show ?thesis by (cases "cubic_friendly_loop n w 0") auto
qed

section \<open>The update\<close>

definition cubic_default_scales :: cubic_scales where
  "cubic_default_scales = \<lparr>cube_rtt_scale = 410, beta_scale = 23, cube_factor = 2681735677\<rparr>"

lemma cubic_default_scales:
  "cubictcp_register_scales cubic_defaults = Some cubic_default_scales"
  by (simp add: cubictcp_register_scales_def cubic_defaults_def cubic_default_scales_def bic_consts
      BICTCP_HZ_def do_div_def umod_def)

text \<open>The private area the update can work on: a usable delayed-ACK estimate, and a least delay
  whose product with \<open>10 * max_increment\<close> does not wrap to zero.\<close>

definition cubic_inv :: "cubictcp_ca \<Rightarrow> bool" where
  "cubic_inv ca \<longleftrightarrow> delayed_ack_ok (cub_delayed_ack ca) \<and> unat (cub_delay_min ca) < 2 ^ 43"

lemma cubictcp_epoch_total:
  "\<exists>ca'. cubictcp_epoch sc k ca cwnd = Some ca' \<and> cub_delayed_ack ca' = cub_delayed_ack ca \<and>
     cub_delay_min ca' = cub_delay_min ca"
  using cubic_root_total [of "cube_factor sc * (cub_last_max_cwnd ca - cwnd)"]
  by (auto simp: cubictcp_epoch_def Let_def)

lemma cubic_rate_total:
  assumes "unat (cub_delay_min ca) < 2 ^ 43"
  shows "\<exists>r. cubic_rate cubic_defaults sc ca t cwnd = Some r"
proof -
  have "unat (scast (10 * cubic_max_increment cubic_defaults) :: u32) = 160"
    by (simp add: cubic_defaults_def)
  then have "scast (10 * cubic_max_increment cubic_defaults) * cub_delay_min ca \<noteq> 0"
    if "0 < cub_delay_min ca"
    using that assms unat_mult_no_wrap [of "scast (10 * cubic_max_increment cubic_defaults)" "cub_delay_min ca"]
    by (auto simp: word_less_nat_alt word_nonzero_unat)
  then show ?thesis by (auto simp: cubic_rate_def Let_def udiv_def)
qed

lemma cubic_friendly_step_pos:
  assumes "0 < unat cwnd" "unat cwnd < 2 ^ 32"
  shows "unat (drop_bit 3 (cwnd * beta_scale cubic_default_scales)) = unat cwnd * 23 div 8"
    and "0 < drop_bit 3 (cwnd * beta_scale cubic_default_scales)"
proof -
  have "unat (cwnd * 23) = unat cwnd * 23"
    using assms unat_mult_no_wrap [of cwnd 23] by simp
  then show d: "unat (drop_bit 3 (cwnd * beta_scale cubic_default_scales)) = unat cwnd * 23 div 8"
    by (simp add: cubic_default_scales_def unat_shiftr)
  then show "0 < drop_bit 3 (cwnd * beta_scale cubic_default_scales)"
    using assms(1) by (simp add: word_less_nat_alt)
qed

lemma cubic_friendly_total:
  assumes "0 < unat cwnd" "unat cwnd < 2 ^ 32"
  shows "\<exists>ca'. cubic_friendly cubic_defaults cubic_default_scales ca cwnd = Some ca' \<and>
    cub_delayed_ack ca' = cub_delayed_ack ca \<and> cub_delay_min ca' = cub_delay_min ca"
proof -
  obtain n w where "cubic_friendly_loop (cub_ack_cnt ca) (cub_tcp_cwnd ca)
      (drop_bit 3 (cwnd * beta_scale cubic_default_scales)) = Some (n, w)"
    using cubic_friendly_loop_result [OF cubic_friendly_step_pos(2) [OF assms]] by blast
  then show ?thesis by (auto simp: cubic_friendly_def Let_def udiv_def)
qed

lemma cubictcp_update_total:
  assumes "0 < unat cwnd" "unat cwnd < 2 ^ 32" "cubic_inv ca"
  shows "\<exists>ca'. cubictcp_update cubic_defaults cubic_default_scales k ca cwnd = Some ca' \<and> cubic_inv ca'"
proof (cases "cub_last_cwnd ca = cwnd \<and> tcp_time_stamp k - cub_last_time ca \<le>s HZ div 32")
  case True
  then show ?thesis using assms(3) by (simp add: cubictcp_update_def Let_def cubic_inv_def)
next
  case False
  define ca0 where "ca0 = ca\<lparr>cub_ack_cnt := cub_ack_cnt ca + 1, cub_last_cwnd := cwnd,
    cub_last_time := tcp_time_stamp k\<rparr>"
  obtain ca1 where 1: "cubictcp_epoch cubic_default_scales k ca0 cwnd = Some ca1" "cubic_inv ca1"
    using cubictcp_epoch_total [of cubic_default_scales k ca0 cwnd] assms(3)
    by (auto simp: ca0_def cubic_inv_def)
  obtain r where 2: "cubic_rate cubic_defaults cubic_default_scales ca1 (cubic_time k ca1) cwnd = Some r"
    using cubic_rate_total 1(2) by (force simp: cubic_inv_def)
  obtain ca2 where 3: "cubic_friendly cubic_defaults cubic_default_scales (ca1\<lparr>cub_cnt := r\<rparr>) cwnd = Some ca2"
    "cubic_inv ca2"
    using cubic_friendly_total [OF assms(1,2), of "ca1\<lparr>cub_cnt := r\<rparr>"] 1(2)
    by (auto simp: cubic_inv_def)
  then have "cub_delayed_ack ca2 \<noteq> 0" by (auto simp: cubic_inv_def delayed_ack_ok_def)
  then show ?thesis
    using False 1(1) 2 3 by (auto simp: cubictcp_update_def Let_def ca0_def cubic_inv_def)
qed

section \<open>CUBIC keeps the contract\<close>

text \<open>The clock has run for less than \<open>2 ^ 40\<close> jiffies, and no echoed time stamp is later.\<close>

definition clock_ok :: "kernel \<Rightarrow> 'ca tcp_sock \<Rightarrow> bool" where
  "clock_ok k tp \<longleftrightarrow> unat (tcp_time_stamp k) < 2 ^ 40 \<and> rcv_tsecr tp \<le> tcp_time_stamp k"

lemma cubic_measure_delay_ok:
  assumes "clock_ok k tp" "cubic_inv (icsk_ca_priv tp)"
  shows "\<exists>ca. cubic_measure_delay k tp = tp\<lparr>icsk_ca_priv := ca\<rparr> \<and> cubic_inv ca"
proof -
  let ?d = "push_bit 3 (tcp_time_stamp k - rcv_tsecr tp)"
  have "unat (tcp_time_stamp k - rcv_tsecr tp) < 2 ^ 40"
    using assms(1) by (auto simp: clock_ok_def unat_sub intro: le_less_trans [OF diff_le_self])
  then have "unat ?d < 2 ^ 43"
    using unat_shiftl_no_wrap [of "tcp_time_stamp k - rcv_tsecr tp" 3] by simp
  then have ok: "cubic_inv ((icsk_ca_priv tp)\<lparr>cub_delay_min := if ?d = 0 then 1 else ?d\<rparr>)"
    using assms(2) by (simp add: cubic_inv_def)
  have "cubic_measure_delay k tp = tp\<lparr>icsk_ca_priv := icsk_ca_priv tp\<rparr> \<or>
      cubic_measure_delay k tp = tp\<lparr>icsk_ca_priv :=
        (icsk_ca_priv tp)\<lparr>cub_delay_min := if ?d = 0 then 1 else ?d\<rparr>\<rparr>"
    unfolding cubic_measure_delay_def Let_def by simp
  then show ?thesis using ok assms(2) by blast
qed

lemma cubictcp_cong_avoid_step:
  assumes "window_ok tp" "clock_ok k tp" "cubic_inv (icsk_ca_priv tp)"
  shows "\<exists>tp'. cubictcp_cong_avoid cubic_defaults cubic_default_scales k ack seq_rtt in_flight data_acked tp
      = Some tp' \<and> window_step tp tp' \<and> cubic_inv (icsk_ca_priv tp')"
proof -
  obtain ca where ca: "(if data_acked \<noteq> 0 then cubic_measure_delay k tp else tp) = tp\<lparr>icsk_ca_priv := ca\<rparr>"
    "cubic_inv ca"
    using cubic_measure_delay_ok [OF assms(2,3)] assms(3)
    by (cases "data_acked = 0") (force intro: that [of "icsk_ca_priv tp"], auto)
  have w: "window_ok (tp\<lparr>icsk_ca_priv := ca\<rparr>)" using assms(1) by simp
  show ?thesis
  proof (cases "tcp_is_cwnd_limited tp in_flight \<and> snd_ssthresh tp < snd_cwnd tp")
    case True
    obtain ca' where ca': "cubictcp_update cubic_defaults cubic_default_scales k ca (snd_cwnd tp) = Some ca'"
      "cubic_inv ca'" using cubictcp_update_total [OF window_ok_32(2,1) [OF assms(1)] ca(2)] by blast
    then show ?thesis
      using True assms(1) cong_avoid_ai_step [of "tp\<lparr>icsk_ca_priv := ca'\<rparr>" "cub_cnt ca'"]
      unfolding cubictcp_cong_avoid_def Let_def ca(1)
      by (simp add: tcp_is_cwnd_limited_def window_step_def not_le [symmetric])
  next
    case False
    then show ?thesis
      using tcp_slow_start_step [OF w, of k] w ca(2) unfolding cubictcp_cong_avoid_def Let_def ca(1)
      by (auto simp: tcp_is_cwnd_limited_def window_step_def)
  qed
qed

interpretation cubic: cong_control "cubictcp_cong_avoid cubic_defaults cubic_default_scales" clock_ok
  "cubictcp_recalc_ssthresh cubic_defaults" cubic_inv
proof (unfold_locales, goal_cases)
  case (1 tp k ack rtt in_flight flag)
  show ?case by (rule cubictcp_cong_avoid_step [OF 1(1,3,4)])
next
  case (2 k tp tp')
  then show ?case by (simp add: clock_ok_def same_path_def)
next
  case (3 tp k)
  define ca where "ca = icsk_ca_priv (snd (the (cubictcp_recalc_ssthresh cubic_defaults k tp)))"
  have "cubictcp_recalc_ssthresh cubic_defaults k tp = Some (max (snd_cwnd tp *
      scast (cubic_beta cubic_defaults) div scast BICTCP_BETA_SCALE) 2, tp\<lparr>icsk_ca_priv := ca\<rparr>)"
    "cubic_inv ca"
    using 3(2) by (simp_all add: cubictcp_recalc_ssthresh_def Let_def ca_def cubic_inv_def)
  moreover have "snd_cwnd tp * scast (cubic_beta cubic_defaults) div scast BICTCP_BETA_SCALE \<le> snd_cwnd tp"
    using beta_share [of "cubic_beta cubic_defaults", OF _ _ window_ok_32(1) [OF 3(1)]]
    by (simp add: cubic_defaults_def word_le_nat_alt)
  ultimately show ?case
    by (rule ssthresh_ok_max [where ssthresh = "cubictcp_recalc_ssthresh cubic_defaults" and ca = ca and tp = tp])
qed

section \<open>Properties\<close>

text \<open>
  Property C38. The cube root of CUBIC neither reads outside its table nor divides by zero, for
  any 64-bit argument.
\<close>

theorem cubic_root_never_faults: "cubic_root a \<noteq> None"
  using cubic_root_total [of a] by auto

text \<open>
  Property C39. The TCP-friendliness loop \<open>while (ca->ack_cnt > delta)\<close> runs for ever exactly when
  \<open>delta\<close> is zero and an acknowledgement was counted; otherwise it adds \<open>(ack_cnt - 1) / delta\<close> to
  the estimated Reno window and keeps the rest of the count, at least 1 and at most \<open>delta\<close> when
  something was counted.
\<close>

theorem cubic_friendly_loop_closed_form:
  "cubic_friendly_loop n w d =
     (if d = 0 \<and> 0 < n then None
      else if d = 0 then Some (n, w)
      else Some (of_nat (unat n - (unat n - 1) div unat d * unat d),
                 w + of_nat ((unat n - 1) div unat d)))"
proof (cases "d = 0")
  case True
  then show ?thesis
    using cubic_friendly_loop_diverges [of n w] by (auto simp: cubic_friendly_loop_exit)
next
  case False
  then obtain n' where n': "cubic_friendly_loop n w d = Some (n', w + of_nat ((unat n - 1) div unat d))"
    "unat n' = unat n - (unat n - 1) div unat d * unat d"
    using cubic_friendly_loop_result [of d n w] by (auto simp: word_gt_0)
  have "n' = of_nat (unat n - (unat n - 1) div unat d * unat d)"
    unfolding n'(2) [symmetric] by simp
  then show ?thesis using n'(1) False by simp
qed

text \<open>
  Property C37. With the default parameters and while the clock is below \<open>2 ^ 40\<close> jiffies, any
  sequence of acknowledgements leaves CUBIC running: no division by zero, no endless loop, no
  table overrun, and the window between 1 and its clamp.
\<close>

theorem cubictcp_runs:
  assumes "window_ok tp" "0 < mss_cache tp" "cubic_inv (icsk_ca_priv tp)"
    and "\<forall>a\<in>set as. clock_ok (fst a) tp"
  shows "\<exists>tp'. run_acks (cubictcp_cong_avoid cubic_defaults cubic_default_scales) as tp = Some tp' \<and>
    0 < snd_cwnd tp' \<and> snd_cwnd tp' \<le> ucast (snd_cwnd_clamp tp) \<and> cubic_inv (icsk_ca_priv tp')"
  using cubic.run_acks_step [OF assms(1,2,4,3)]
  by (auto simp: window_step_def window_ok_def same_path_def)

theorem cubictcp_runs_witness:
  "\<exists>tp'. run_acks (cubictcp_cong_avoid cubic_defaults cubic_default_scales)
      [(ex_kernel, 0, 100, 40, 1), (ex_kernel, 0, 100, 40, 1)] (ex_sock cubictcp_reset) = Some tp' \<and>
    0 < snd_cwnd tp'"
proof -
  have h: "window_ok (ex_sock cubictcp_reset)" "0 < mss_cache (ex_sock cubictcp_reset)"
    "cubic_inv (icsk_ca_priv (ex_sock cubictcp_reset))"
    "\<forall>a\<in>set [(ex_kernel, 0, 100, 40, 1), (ex_kernel, 0, 100, 40, 1)]. clock_ok (fst a) (ex_sock cubictcp_reset)"
    by (simp_all add: ex_defs window_ok_def cubic_inv_def clock_ok_def cubictcp_reset_def delayed_ack_start)
  show ?thesis using cubictcp_runs [OF h] by blast
qed

end
