(* ===== verification/Tcp_Htcp.thy ===== *)
theory Tcp_Htcp
  imports Tcp_Cong
begin

text \<open>
  \<open>tcp/linux/src/tcp_htcp.c\<close>, H-TCP: the increase grows with the time since the last congestion
  event, the decrease follows the ratio of the least to the largest round trip time. The lemmas
  bound \<open>beta\<close>, show the growth factor is never zero, and find the one division that faults:
  \<open>htcp_ccount\<close> divides by \<open>minRTT\<close>.
\<close>

section \<open>Parameters and state\<close>

record htcp_params =
  use_rtt_scaling :: cint
  use_bandwidth_switch :: cint

definition htcp_defaults :: htcp_params where
  "htcp_defaults = \<lparr>use_rtt_scaling = 1, use_bandwidth_switch = 1\<rparr>"

definition HTCP_ALPHA_BASE :: u32 where "HTCP_ALPHA_BASE = 128"
definition HTCP_BETA_MIN :: u8 where "HTCP_BETA_MIN = 64"
definition HTCP_BETA_MAX :: u8 where "HTCP_BETA_MAX = 102"

lemmas htcp_consts = HTCP_ALPHA_BASE_def HTCP_BETA_MIN_def HTCP_BETA_MAX_def

record htcp_ca =
  ht_alpha :: u32
  ht_beta :: u8
  ht_modeswitch :: u8
  ht_pkts_acked :: u16
  ht_packetcount :: u32
  ht_minRTT :: u32
  ht_maxRTT :: u32
  ht_last_cong :: u32
  ht_undo_last_cong :: u32
  ht_undo_maxRTT :: u32
  ht_undo_old_maxB :: u32
  ht_minB :: u32
  ht_maxB :: u32
  ht_old_maxB :: u32
  ht_Bi :: u32
  ht_lasttime :: u32

section \<open>The module\<close>

text \<open>\<open>jiffies\<close> is the clock that \<open>tcp_time_stamp\<close> also names.\<close>

definition htcp_cong_time :: "kernel \<Rightarrow> htcp_ca \<Rightarrow> u32" where
  "htcp_cong_time k ca = tcp_time_stamp k - ht_last_cong ca"

definition htcp_ccount :: "kernel \<Rightarrow> htcp_ca \<Rightarrow> u32 option" where
  "htcp_ccount k ca = udiv (htcp_cong_time k ca) (ht_minRTT ca)"

definition htcp_reset :: "kernel \<Rightarrow> htcp_ca \<Rightarrow> htcp_ca" where
  "htcp_reset k ca = ca\<lparr>ht_undo_last_cong := ht_last_cong ca, ht_undo_maxRTT := ht_maxRTT ca,
     ht_undo_old_maxB := ht_old_maxB ca, ht_last_cong := tcp_time_stamp k\<rparr>"

definition htcp_cwnd_undo :: "kernel \<Rightarrow> htcp_ca tcp_sock \<Rightarrow> (u32 \<times> htcp_ca tcp_sock) option" where
  "htcp_cwnd_undo k tp = do {
     let ca = icsk_ca_priv tp;
     let ca = ca\<lparr>ht_last_cong := ht_undo_last_cong ca, ht_maxRTT := ht_undo_maxRTT ca,
                ht_old_maxB := ht_undo_old_maxB ca\<rparr>;
     q \<leftarrow> udiv (push_bit 7 (snd_ssthresh tp)) (ucast (ht_beta ca));
     Some (max (snd_cwnd tp) q, tp\<lparr>icsk_ca_priv := ca\<rparr>)
   }"

definition htcp_measure_rtt :: "kernel \<Rightarrow> htcp_ca tcp_sock \<Rightarrow> htcp_ca option" where
  "htcp_measure_rtt k tp =
     (let ca = icsk_ca_priv tp;
          srtt = drop_bit 3 (srtt tp);
          ca = (if srtt < ht_minRTT ca \<or> ht_minRTT ca = 0 then ca\<lparr>ht_minRTT := srtt\<rparr> else ca)
      in if icsk_ca_state tp = TCP_CA_Open \<and> snd_ssthresh tp < 0xFFFF then do {
           n \<leftarrow> htcp_ccount k ca;
           Some (if 3 < n then
                   let ca = (if ht_maxRTT ca < ht_minRTT ca then ca\<lparr>ht_maxRTT := ht_minRTT ca\<rparr> else ca)
                   in if ht_maxRTT ca < srtt \<and> srtt \<le> ht_maxRTT ca + msecs_to_jiffies 20
                      then ca\<lparr>ht_maxRTT := srtt\<rparr> else ca
                 else ca)
         } else Some ca)"

definition htcp_measure_achieved_throughput ::
  "htcp_params \<Rightarrow> kernel \<Rightarrow> u32 \<Rightarrow> s64 \<Rightarrow> htcp_ca tcp_sock \<Rightarrow> htcp_ca tcp_sock option" where
  "htcp_measure_achieved_throughput p k pkts_acked kt tp =
     (let ca = icsk_ca_priv tp;
          now = tcp_time_stamp k;
          ca = (if icsk_ca_state tp = TCP_CA_Open then ca\<lparr>ht_pkts_acked := ucast pkts_acked\<rparr> else ca)
      in if use_bandwidth_switch p = 0 then Some (tp\<lparr>icsk_ca_priv := ca\<rparr>)
      else if icsk_ca_state tp \<noteq> TCP_CA_Open \<and> icsk_ca_state tp \<noteq> TCP_CA_Disorder
        then Some (tp\<lparr>icsk_ca_priv := ca\<lparr>ht_packetcount := 0, ht_lasttime := now\<rparr>\<rparr>)
      else
        let ca = ca\<lparr>ht_packetcount := ht_packetcount ca + pkts_acked\<rparr>;
            a = drop_bit 7 (ht_alpha ca)
        in if snd_cwnd tp - (if a \<noteq> 0 then a else 1) \<le> ht_packetcount ca \<and>
              ht_minRTT ca \<le> now - ht_lasttime ca \<and> 0 < ht_minRTT ca
        then do {
          cur_Bi \<leftarrow> udiv (ht_packetcount ca * HZ) (now - ht_lasttime ca);
          n \<leftarrow> htcp_ccount k ca;
          let ca = (if n \<le> 3 then ca\<lparr>ht_minB := cur_Bi, ht_maxB := cur_Bi, ht_Bi := cur_Bi\<rparr>
                    else let ca = ca\<lparr>ht_Bi := (3 * ht_Bi ca + cur_Bi) div 4\<rparr>;
                             ca = (if ht_maxB ca < ht_Bi ca then ca\<lparr>ht_maxB := ht_Bi ca\<rparr> else ca)
                         in if ht_maxB ca < ht_minB ca then ca\<lparr>ht_minB := ht_maxB ca\<rparr> else ca);
          Some (tp\<lparr>icsk_ca_priv := ca\<lparr>ht_packetcount := 0, ht_lasttime := now\<rparr>\<rparr>)
        } else Some (tp\<lparr>icsk_ca_priv := ca\<rparr>))"

text \<open>The quotient is stored in the byte \<open>beta\<close> before it is compared with its bounds.\<close>

definition htcp_beta_update :: "htcp_params \<Rightarrow> htcp_ca \<Rightarrow> u32 \<Rightarrow> u32 \<Rightarrow> htcp_ca option" where
  "htcp_beta_update p ca minRTT maxRTT =
     (let maxB = ht_maxB ca; old_maxB = ht_old_maxB ca;
          ca = (if use_bandwidth_switch p \<noteq> 0 then ca\<lparr>ht_old_maxB := ht_maxB ca\<rparr> else ca)
      in if use_bandwidth_switch p \<noteq> 0 \<and> \<not> between (5 * maxB) (4 * old_maxB) (6 * old_maxB)
         then Some (ca\<lparr>ht_beta := HTCP_BETA_MIN, ht_modeswitch := 0\<rparr>)
      else if ht_modeswitch ca \<noteq> 0 \<and> msecs_to_jiffies 10 < minRTT \<and> maxRTT \<noteq> 0 then do {
        q \<leftarrow> udiv (push_bit 7 minRTT) maxRTT;
        let b = (ucast q :: u8);
        Some (ca\<lparr>ht_beta := (if b < HTCP_BETA_MIN then HTCP_BETA_MIN
                             else if HTCP_BETA_MAX < b then HTCP_BETA_MAX else b)\<rparr>)
      } else Some (ca\<lparr>ht_beta := HTCP_BETA_MIN, ht_modeswitch := 1\<rparr>))"

text \<open>The two corrections of the growth factor: for the time since the last congestion event, and
  for the round trip time, by a ratio clamped to [0.5, 10].\<close>

definition htcp_time_factor :: "u32 \<Rightarrow> u32" where
  "htcp_time_factor diff =
     (if HZ < diff
      then let diff = diff - HZ in 1 + (10 * diff + (diff div 2) * (diff div 2) div HZ) div HZ
      else 1)"

definition htcp_rtt_factor :: "htcp_params \<Rightarrow> u32 \<Rightarrow> u32 \<Rightarrow> u32 option" where
  "htcp_rtt_factor p minRTT factor =
     (if use_rtt_scaling p \<noteq> 0 \<and> minRTT \<noteq> 0 then do {
        scale \<leftarrow> udiv (push_bit 3 HZ) (10 * minRTT);
        factor \<leftarrow> udiv (push_bit 3 factor) (min (max scale (push_bit 2 1)) (push_bit 3 10));
        Some (if factor = 0 then 1 else factor)
      } else Some factor)"

definition htcp_alpha_update :: "htcp_params \<Rightarrow> kernel \<Rightarrow> htcp_ca \<Rightarrow> htcp_ca option" where
  "htcp_alpha_update p k ca = do {
     factor \<leftarrow> htcp_rtt_factor p (ht_minRTT ca) (htcp_time_factor (htcp_cong_time k ca));
     let alpha = 2 * factor * scast (push_bit 7 1 - ucast (ht_beta ca) :: cint);
     Some (ca\<lparr>ht_alpha := (if alpha = 0 then HTCP_ALPHA_BASE else alpha)\<rparr>)
   }"

definition htcp_param_update :: "htcp_params \<Rightarrow> kernel \<Rightarrow> htcp_ca \<Rightarrow> htcp_ca option" where
  "htcp_param_update p k ca = do {
     let minRTT = ht_minRTT ca; let maxRTT = ht_maxRTT ca;
     ca \<leftarrow> htcp_beta_update p ca minRTT maxRTT;
     ca \<leftarrow> htcp_alpha_update p k ca;
     Some (if 0 < minRTT \<and> minRTT < maxRTT
           then ca\<lparr>ht_maxRTT := minRTT + (maxRTT - minRTT) * 95 div 100\<rparr> else ca)
   }"

definition htcp_recalc_ssthresh ::
  "htcp_params \<Rightarrow> kernel \<Rightarrow> htcp_ca tcp_sock \<Rightarrow> (u32 \<times> htcp_ca tcp_sock) option" where
  "htcp_recalc_ssthresh p k tp = do {
     ca \<leftarrow> htcp_param_update p k (icsk_ca_priv tp);
     Some (max (drop_bit 7 (snd_cwnd tp * ucast (ht_beta ca))) 2, tp\<lparr>icsk_ca_priv := ca\<rparr>)
   }"

definition htcp_cong_avoid ::
  "htcp_params \<Rightarrow> kernel \<Rightarrow> u32 \<Rightarrow> u32 \<Rightarrow> u32 \<Rightarrow> cint \<Rightarrow> htcp_ca tcp_sock \<Rightarrow> htcp_ca tcp_sock option" where
  "htcp_cong_avoid p k ack rtt in_flight data_acked tp =
     (if \<not> tcp_is_cwnd_limited tp in_flight then Some tp
      else if snd_cwnd tp \<le> snd_ssthresh tp then tcp_slow_start k tp
      else do {
        ca \<leftarrow> htcp_measure_rtt k tp;
        if snd_cwnd tp \<le> drop_bit 7 (ucast (snd_cwnd_cnt tp) * ht_alpha ca) then do {
          ca \<leftarrow> htcp_alpha_update p k ca;
          Some ((cwnd_increment tp)\<lparr>snd_cwnd_cnt := 0, icsk_ca_priv := ca\<lparr>ht_pkts_acked := 1\<rparr>\<rparr>)
        } else Some (tp\<lparr>snd_cwnd_cnt := snd_cwnd_cnt tp + ht_pkts_acked ca,
                        icsk_ca_priv := ca\<lparr>ht_pkts_acked := 1\<rparr>\<rparr>)
      })"

definition htcp_init :: "kernel \<Rightarrow> htcp_ca tcp_sock \<Rightarrow> htcp_ca tcp_sock option" where
  "htcp_init k tp = Some (tp\<lparr>icsk_ca_priv :=
     \<lparr>ht_alpha = HTCP_ALPHA_BASE, ht_beta = HTCP_BETA_MIN, ht_modeswitch = 0, ht_pkts_acked = 1,
      ht_packetcount = 0, ht_minRTT = 0, ht_maxRTT = 0, ht_last_cong = tcp_time_stamp k,
      ht_undo_last_cong = 0, ht_undo_maxRTT = 0, ht_undo_old_maxB = 0, ht_minB = 0, ht_maxB = 0,
      ht_old_maxB = 0, ht_Bi = 0, ht_lasttime = 0\<rparr>\<rparr>)"

definition htcp_state :: "kernel \<Rightarrow> u8 \<Rightarrow> htcp_ca tcp_sock \<Rightarrow> htcp_ca tcp_sock option" where
  "htcp_state k new_state tp = Some
     (if new_state = TCP_CA_Open
      then tp\<lparr>icsk_ca_priv := (icsk_ca_priv tp)\<lparr>ht_last_cong := tcp_time_stamp k\<rparr>\<rparr>
      else if new_state = TCP_CA_CWR \<or> new_state = TCP_CA_Recovery \<or> new_state = TCP_CA_Loss
      then tp\<lparr>icsk_ca_priv := htcp_reset k (icsk_ca_priv tp)\<rparr>
      else tp)"

definition htcp :: "htcp_params \<Rightarrow> htcp_ca tcp_congestion_ops" where
  "htcp p = null_ops\<lparr>ops_init := Some htcp_init, ops_ssthresh := Some (htcp_recalc_ssthresh p),
     ops_cong_avoid := Some (htcp_cong_avoid p), ops_set_state := Some htcp_state,
     ops_undo_cwnd := Some htcp_cwnd_undo,
     ops_pkts_acked := Some (htcp_measure_achieved_throughput p), ops_name := ''htcp''\<rparr>"

section \<open>The parameters of a congestion event\<close>

definition htcp_beta_ok :: "u8 \<Rightarrow> bool" where
  "htcp_beta_ok b \<longleftrightarrow> 64 \<le> unat b \<and> unat b \<le> 102"

definition htcp_inv :: "htcp_ca \<Rightarrow> bool" where
  "htcp_inv ca \<longleftrightarrow> htcp_beta_ok (ht_beta ca) \<and> unat (ht_minRTT ca) < 2 ^ 60"

lemma htcp_beta_clamp: "htcp_beta_ok (if b < HTCP_BETA_MIN then HTCP_BETA_MIN
    else if HTCP_BETA_MAX < b then HTCP_BETA_MAX else b)"
  by (simp add: htcp_beta_ok_def htcp_consts word_less_nat_alt)

lemma htcp_beta_min: "htcp_beta_ok HTCP_BETA_MIN"
  by (simp add: htcp_beta_ok_def htcp_consts)

lemma htcp_beta_update_ok:
  "\<exists>ca'. htcp_beta_update p ca minRTT maxRTT = Some ca' \<and> htcp_beta_ok (ht_beta ca') \<and>
     ht_minRTT ca' = ht_minRTT ca"
  by (simp add: htcp_beta_update_def Let_def htcp_beta_clamp htcp_beta_min)

lemma htcp_rtt_factor_total:
  assumes "unat minRTT < 2 ^ 60"
  shows "\<exists>f. htcp_rtt_factor p minRTT factor = Some f"
proof -
  have "unat (10 * minRTT) = 10 * unat minRTT"
    using assms unat_mult_no_wrap [of 10 minRTT] by simp
  then have ten: "minRTT \<noteq> 0 \<Longrightarrow> 10 * minRTT \<noteq> 0" by (simp add: word_nonzero_unat)
  have "min (max s (push_bit 2 1)) (push_bit 3 10) \<noteq> (0 :: u32)" for s
    unfolding word_nonzero_unat unat_max unat_min by simp
  then have nz: "udiv a (min (max s (push_bit 2 1)) (push_bit 3 10)) =
      Some (a div min (max s (push_bit 2 1)) (push_bit 3 (10 :: u32)))" for a s by (rule udiv_nonzero)
  show ?thesis
  proof (cases "use_rtt_scaling p \<noteq> 0 \<and> minRTT \<noteq> 0")
    case True
    then show ?thesis unfolding htcp_rtt_factor_def nz using ten by simp
  qed (auto simp: htcp_rtt_factor_def)
qed

lemma htcp_alpha_update_ok:
  assumes "unat (ht_minRTT ca) < 2 ^ 60"
  shows "\<exists>a. htcp_alpha_update p k ca = Some (ca\<lparr>ht_alpha := a\<rparr>) \<and> a \<noteq> 0"
proof -
  obtain f where f: "htcp_rtt_factor p (ht_minRTT ca) (htcp_time_factor (htcp_cong_time k ca)) = Some f"
    using htcp_rtt_factor_total [OF assms] by blast
  let ?a = "2 * f * scast (push_bit 7 1 - ucast (ht_beta ca) :: cint)"
  show ?thesis
    by (rule exI [of _ "if ?a = 0 then HTCP_ALPHA_BASE else ?a"])
      (simp only: htcp_alpha_update_def f bind.simps Let_def HTCP_ALPHA_BASE_def, simp)
qed

lemma htcp_param_update_ok:
  assumes "htcp_inv ca"
  shows "\<exists>ca'. htcp_param_update p k ca = Some ca' \<and> htcp_inv ca' \<and> ht_minRTT ca' = ht_minRTT ca"
proof -
  obtain ca1 where 1: "htcp_beta_update p ca (ht_minRTT ca) (ht_maxRTT ca) = Some ca1"
    "htcp_beta_ok (ht_beta ca1)" "ht_minRTT ca1 = ht_minRTT ca" using htcp_beta_update_ok by blast
  obtain a where "htcp_alpha_update p k ca1 = Some (ca1\<lparr>ht_alpha := a\<rparr>)"
    using htcp_alpha_update_ok [of ca1] assms 1(3) by (auto simp: htcp_inv_def)
  then show ?thesis using 1 assms by (simp add: htcp_param_update_def htcp_inv_def Let_def)
qed

section \<open>Growth\<close>

text \<open>A round trip time of at least one jiffy, so that \<open>minRTT\<close> is not zero once measured.\<close>

definition htcp_env :: "kernel \<Rightarrow> htcp_ca tcp_sock \<Rightarrow> bool" where
  "htcp_env k tp \<longleftrightarrow> 8 \<le> unat (srtt tp) \<and> unat (srtt tp) < 2 ^ 60"

lemma htcp_measure_rtt_ok:
  assumes "htcp_env k tp" "htcp_inv (icsk_ca_priv tp)"
  shows "\<exists>ca. htcp_measure_rtt k tp = Some ca \<and> htcp_inv ca"
proof -
  let ?s = "drop_bit 3 (srtt tp)"
  have s: "?s \<noteq> 0" "unat ?s < 2 ^ 60"
    using assms(1) div_le_dividend [of "unat (srtt tp)" 8]
    by (auto simp: htcp_env_def word_nonzero_unat unat_shiftr div_greater_zero_iff simp del: div_le_dividend
        intro: le_less_trans)
  define ca where "ca = (if ?s < ht_minRTT (icsk_ca_priv tp) \<or> ht_minRTT (icsk_ca_priv tp) = 0
    then (icsk_ca_priv tp)\<lparr>ht_minRTT := ?s\<rparr> else icsk_ca_priv tp)"
  have ca: "htcp_inv ca" "ht_minRTT ca \<noteq> 0"
    using s assms(2) by (auto simp: ca_def htcp_inv_def)
  then have "htcp_inv (ca\<lparr>ht_maxRTT := m\<rparr>)" for m by (simp add: htcp_inv_def)
  then show ?thesis
    using ca unfolding htcp_measure_rtt_def Let_def ca_def [symmetric]
    by (simp add: htcp_ccount_def)
qed

lemma htcp_cong_avoid_step:
  assumes "window_ok tp" "htcp_env k tp" "htcp_inv (icsk_ca_priv tp)"
  shows "\<exists>tp'. htcp_cong_avoid p k ack rtt in_flight data_acked tp = Some tp' \<and> window_step tp tp' \<and>
    htcp_inv (icsk_ca_priv tp')"
proof (cases "tcp_is_cwnd_limited tp in_flight \<and> snd_ssthresh tp < snd_cwnd tp")
  case True
  obtain ca where ca: "htcp_measure_rtt k tp = Some ca" "htcp_inv ca"
    using htcp_measure_rtt_ok [OF assms(2,3)] by blast
  then obtain a where "htcp_alpha_update p k ca = Some (ca\<lparr>ht_alpha := a\<rparr>)"
    using htcp_alpha_update_ok [of ca] by (auto simp: htcp_inv_def)
  then show ?thesis
    using True ca assms(1)
    by (simp add: htcp_cong_avoid_def htcp_inv_def window_step_def cwnd_increment_window
        not_le [symmetric])
next
  case False
  then show ?thesis
    using tcp_slow_start_step [OF assms(1), of k] assms
    by (auto simp: htcp_cong_avoid_def window_step_refl)
qed

text \<open>\<open>(snd_cwnd * beta) >> 7\<close> does not wrap on a window that fits 32 bits.\<close>

lemma htcp_share:
  assumes "unat w < 2 ^ 32" "htcp_beta_ok b"
  shows "unat (drop_bit 7 ((w :: u32) * ucast b)) = unat w * unat b div 128"
    and "unat w * unat b div 128 \<le> unat w"
proof -
  have "unat w * unat b \<le> unat w * 102" using assms(2) by (simp add: htcp_beta_ok_def)
  also have "\<dots> < 2 ^ LENGTH(64)" using assms(1) by simp
  finally have "unat (w * ucast b) = unat w * unat b"
    using unat_mult_no_wrap [of w "ucast b"] by simp
  then show "unat (drop_bit 7 (w * ucast b)) = unat w * unat b div 128" by (simp add: unat_shiftr)
  have "unat w * unat b div 128 \<le> unat w * 128 div 128"
    using assms(2) by (intro div_le_mono mult_le_mono2) (simp add: htcp_beta_ok_def)
  then show "unat w * unat b div 128 \<le> unat w" by simp
qed

lemma htcp_recalc_ssthresh_ok:
  assumes "htcp_inv (icsk_ca_priv tp)"
  shows "\<exists>ca. htcp_recalc_ssthresh p k tp =
    Some (max (drop_bit 7 (snd_cwnd tp * ucast (ht_beta ca))) 2, tp\<lparr>icsk_ca_priv := ca\<rparr>) \<and> htcp_inv ca"
  using htcp_param_update_ok [OF assms, of p k] by (auto simp: htcp_recalc_ssthresh_def)

interpretation htcp: cong_control "htcp_cong_avoid p" htcp_env "htcp_recalc_ssthresh p" htcp_inv for p
proof (unfold_locales, goal_cases)
  case (1 tp k ack rtt in_flight flag)
  show ?case by (rule htcp_cong_avoid_step [OF 1(1,3,4)])
next
  case (2 k tp tp')
  then show ?case by (simp add: htcp_env_def same_path_def)
next
  case (3 tp k)
  obtain ca where ca: "htcp_recalc_ssthresh p k tp =
      Some (max (drop_bit 7 (snd_cwnd tp * ucast (ht_beta ca))) 2, tp\<lparr>icsk_ca_priv := ca\<rparr>)" "htcp_inv ca"
    using htcp_recalc_ssthresh_ok [OF 3(2)] by blast
  have "drop_bit 7 (snd_cwnd tp * ucast (ht_beta ca)) \<le> snd_cwnd tp"
    using htcp_share [OF window_ok_32(1) [OF 3(1)], of "ht_beta ca"] ca(2)
    by (simp add: htcp_inv_def word_le_nat_alt)
  then show ?case
    by (intro ssthresh_ok_max [where ssthresh = "htcp_recalc_ssthresh p" and ca_inv = htcp_inv and ca = ca and tp = tp, OF ca])
qed

section \<open>Properties\<close>

text \<open>
  At a congestion event H-TCP keeps between a half and 102/128 of a window below
  \<open>2 ^ 32\<close>: the multiplication does not wrap, although \<open>beta\<close> is narrowed to a byte before it is
  compared with its bounds, and no parameter is divided by zero.
\<close>

theorem htcp_keeps_half_to_four_fifths:
  assumes "unat (snd_cwnd tp) < 2 ^ 32" "htcp_inv (icsk_ca_priv tp)"
  shows "\<exists>v ca. htcp_recalc_ssthresh p k tp = Some (v, tp\<lparr>icsk_ca_priv := ca\<rparr>) \<and> htcp_inv ca \<and>
    max (unat (snd_cwnd tp) div 2) 2 \<le> unat v \<and> unat v \<le> max (unat (snd_cwnd tp) * 102 div 128) 2"
proof -
  obtain ca where ca: "htcp_recalc_ssthresh p k tp =
      Some (max (drop_bit 7 (snd_cwnd tp * ucast (ht_beta ca))) 2, tp\<lparr>icsk_ca_priv := ca\<rparr>)" "htcp_inv ca"
    using htcp_recalc_ssthresh_ok [OF assms(2)] by blast
  then have b: "htcp_beta_ok (ht_beta ca)" by (simp add: htcp_inv_def)
  have "unat (snd_cwnd tp) * 64 div 128 \<le> unat (snd_cwnd tp) * unat (ht_beta ca) div 128"
    "unat (snd_cwnd tp) * unat (ht_beta ca) div 128 \<le> unat (snd_cwnd tp) * 102 div 128"
    using b unfolding htcp_beta_ok_def by (blast intro: div_le_mono mult_le_mono2)+
  then have "max (unat (snd_cwnd tp) div 2) 2 \<le> unat (max (drop_bit 7 (snd_cwnd tp * ucast (ht_beta ca))) 2)"
    "unat (max (drop_bit 7 (snd_cwnd tp * ucast (ht_beta ca))) 2) \<le> max (unat (snd_cwnd tp) * 102 div 128) 2"
    using htcp_share [OF assms(1) b] by (auto simp: unat_max)
  then show ?thesis using ca by blast
qed

definition ex_htcp :: htcp_ca where
  "ex_htcp = icsk_ca_priv (the (htcp_init ex_kernel (ex_sock undefined)))"

lemma ex_htcp_inv: "htcp_inv ex_htcp"
  by (simp add: ex_htcp_def htcp_init_def htcp_inv_def htcp_beta_min)

theorem htcp_keeps_half_to_four_fifths_witness:
  "\<exists>v ca. htcp_recalc_ssthresh htcp_defaults ex_kernel (ex_sock ex_htcp) = Some (v, ex_sock ca) \<and>
    20 \<le> unat v \<and> unat v \<le> 31"
proof -
  have h: "unat (snd_cwnd (ex_sock ex_htcp)) < 2 ^ 32" "htcp_inv (icsk_ca_priv (ex_sock ex_htcp))"
    using ex_htcp_inv by (simp_all add: ex_sock_def)
  show ?thesis
    using htcp_keeps_half_to_four_fifths [OF h, of htcp_defaults ex_kernel] by (auto simp: ex_sock_def)
qed

text \<open>
  H-TCP divides by zero on a path whose smoothed round trip time is below one jiffy:
  in congestion avoidance in the Open state, with \<open>minRTT\<close> still zero and the threshold below
  65535, the acknowledgement faults in \<open>htcp_ccount\<close>.
\<close>

theorem htcp_faults_below_one_jiffy:
  assumes "unat (srtt tp) < 8" "ht_minRTT (icsk_ca_priv tp) = 0"
    and "icsk_ca_state tp = TCP_CA_Open" "snd_ssthresh tp < 0xFFFF"
    and "snd_cwnd tp \<le> in_flight" "snd_ssthresh tp < snd_cwnd tp"
  shows "htcp_cong_avoid p k ack rtt in_flight data_acked tp = None"
proof -
  have "unat (drop_bit 3 (srtt tp)) = 0" using assms(1) by (simp add: unat_shiftr)
  then have "drop_bit 3 (srtt tp) = 0" by (simp only: unat_eq_zero)
  then have "htcp_measure_rtt k tp = None"
    using assms(2,3,4) by (simp add: htcp_measure_rtt_def Let_def htcp_ccount_def)
  then show ?thesis
    using assms(5) not_le [THEN iffD2, OF assms(6)]
    by (simp add: htcp_cong_avoid_def tcp_is_cwnd_limited_def)
qed

theorem htcp_faults_below_one_jiffy_witness:
  "htcp_cong_avoid htcp_defaults ex_kernel 0 0 40 0 ((ex_sock ex_htcp)\<lparr>srtt := 0\<rparr>) = None"
  by (rule htcp_faults_below_one_jiffy)
    (simp_all add: ex_sock_def ex_htcp_def htcp_init_def tcp_ca_state_defs)

end
