(* ===== verification/Tcp_Hybla.thy ===== *)
theory Tcp_Hybla
  imports Tcp_Cong
begin

text \<open>
  \<open>tcp/linux/src/tcp_hybla.c\<close>, TCP Hybla: growth scaled by \<open>rho\<close>, the ratio of the round trip
  time to a reference, in fixed point with the fractions of a segment kept in
  \<open>snd_cwnd_cents\<close>. The lemmas show that no fraction is lost, that the contract of \<open>Tcp_Cong\<close>
  holds while \<open>rho\<close> stays below 32, and that slow start shifts an \<open>int\<close> by \<open>rho\<close> bits, which is
  undefined from 32 on.
\<close>

section \<open>The module\<close>

record hybla_ca =
  hybla_en :: bool
  snd_cwnd_cents :: u32
  hy_rho :: u32
  hy_rho2 :: u32
  hy_rho_3ls :: u32
  hy_rho2_7ls :: u32
  hy_minrtt :: u32

text \<open>\<open>rtt0\<close> is the module's parameter, an \<open>int\<close>; \<open>msecs_to_jiffies(rtt0)\<close> is an \<open>int\<close> too.\<close>

definition hybla_recalc_param :: "cint \<Rightarrow> u32 \<Rightarrow> hybla_ca \<Rightarrow> hybla_ca option" where
  "hybla_recalc_param rtt0 rtt ca = do {
     q \<leftarrow> udiv rtt (msecs_to_jiffies (scast rtt0));
     let rho_3ls = max q 8;
     let rho2_7ls = push_bit 1 (rho_3ls * rho_3ls);
     Some (ca\<lparr>hy_rho_3ls := rho_3ls, hy_rho := drop_bit 3 rho_3ls, hy_rho2_7ls := rho2_7ls,
              hy_rho2 := drop_bit 7 rho2_7ls\<rparr>)
   }"

definition hybla_init :: "cint \<Rightarrow> kernel \<Rightarrow> hybla_ca tcp_sock \<Rightarrow> hybla_ca tcp_sock option" where
  "hybla_init rtt0 k tp = do {
     let ca = \<lparr>hybla_en = True, snd_cwnd_cents = 0, hy_rho = 0, hy_rho2 = 0, hy_rho_3ls = 0,
               hy_rho2_7ls = 0, hy_minrtt = hy_minrtt (icsk_ca_priv tp)\<rparr>;
     ca \<leftarrow> hybla_recalc_param rtt0 (srtt tp) ca;
     Some (tp\<lparr>snd_cwnd_clamp := 65535, icsk_ca_priv := ca\<lparr>hy_minrtt := srtt tp\<rparr>,
              snd_cwnd := hy_rho ca\<rparr>)
   }"

definition hybla_state :: "kernel \<Rightarrow> u8 \<Rightarrow> hybla_ca tcp_sock \<Rightarrow> hybla_ca tcp_sock option" where
  "hybla_state k ca_state tp =
     Some (tp\<lparr>icsk_ca_priv := (icsk_ca_priv tp)\<lparr>hybla_en := (ca_state = TCP_CA_Open)\<rparr>\<rparr>)"

definition hybla_fractions :: "u32 list" where
  "hybla_fractions = [128, 139, 152, 165, 181, 197, 215, 234]"

definition hybla_fraction :: "u32 \<Rightarrow> u32" where
  "hybla_fraction odds =
     (if unat odds < length hybla_fractions then hybla_fractions ! unat odds else 128)"

text \<open>\<open>1 << ca->rho\<close> on an \<open>int\<close>, then widened: a count of 32 or more is undefined.\<close>

definition hybla_pow2 :: "u32 \<Rightarrow> u32 option" where
  "hybla_pow2 rho = (if unat rho < 32 then Some (scast (push_bit (unat rho) 1 :: cint)) else None)"

text \<open>The increment in 128ths of a segment, and the counter.\<close>

definition hybla_increment :: "hybla_ca \<Rightarrow> hybla_ca tcp_sock \<Rightarrow> (u32 \<times> u16) option" where
  "hybla_increment ca tp =
     (if snd_cwnd tp < snd_ssthresh tp then do {
        p \<leftarrow> hybla_pow2 (hy_rho ca);
        let rho_fractions = hy_rho_3ls ca - push_bit 3 (hy_rho ca);
        Some (p * hybla_fraction rho_fractions - 128, snd_cwnd_cnt tp)
      } else do {
        inc \<leftarrow> udiv (hy_rho2_7ls ca) (snd_cwnd tp);
        Some (inc, if inc < 128 then snd_cwnd_cnt tp + 1 else snd_cwnd_cnt tp)
      })"

text \<open>\<open>while (ca->snd_cwnd_cents >= 128)\<close>: carry whole segments into the window.\<close>

function hybla_carry :: "u32 \<Rightarrow> u32 \<Rightarrow> u16 \<Rightarrow> u32 \<times> u32 \<times> u16" where
  "hybla_carry cwnd cents cnt =
     (if 128 \<le> cents then hybla_carry (cwnd + 1) (cents - 128) 0 else (cwnd, cents, cnt))"
  by auto

termination
  by (relation "measure (\<lambda>(cwnd, cents, cnt). unat cents)")
    (auto simp: word_le_nat_alt unat_sub)

declare hybla_carry.simps [simp del]

text \<open>Recalculate rho only if this srtt is the lowest.\<close>

definition hybla_refresh :: "cint \<Rightarrow> hybla_ca tcp_sock \<Rightarrow> hybla_ca option" where
  "hybla_refresh rtt0 tp =
     (let ca = icsk_ca_priv tp in
      if srtt tp < hy_minrtt ca
      then map_option (\<lambda>ca. ca\<lparr>hy_minrtt := srtt tp\<rparr>) (hybla_recalc_param rtt0 (srtt tp) ca)
      else Some ca)"

text \<open>The end of \<open>hybla_cong_avoid\<close>: add the increment, carry, clamp.\<close>

definition hybla_grow :: "hybla_ca \<Rightarrow> hybla_ca tcp_sock \<Rightarrow> hybla_ca tcp_sock option" where
  "hybla_grow ca tp = do {
     (inc, cnt) \<leftarrow> hybla_increment ca tp;
     let (cwnd, cents, cnt) = hybla_carry (snd_cwnd tp + drop_bit 7 inc)
                                (snd_cwnd_cents ca + inc mod 128) cnt;
     let cwnd = (if snd_cwnd tp < snd_ssthresh tp then min cwnd (snd_ssthresh tp) else cwnd);
     Some (tp\<lparr>snd_cwnd := min cwnd (ucast (snd_cwnd_clamp tp)), snd_cwnd_cnt := cnt,
              icsk_ca_priv := ca\<lparr>snd_cwnd_cents := cents\<rparr>\<rparr>)
   }"

definition hybla_cong_avoid ::
  "cint \<Rightarrow> kernel \<Rightarrow> u32 \<Rightarrow> u32 \<Rightarrow> u32 \<Rightarrow> cint \<Rightarrow> hybla_ca tcp_sock \<Rightarrow> hybla_ca tcp_sock option" where
  "hybla_cong_avoid rtt0 k ack rtt in_flight flag tp = do {
     ca \<leftarrow> hybla_refresh rtt0 tp;
     let tp = tp\<lparr>icsk_ca_priv := ca\<rparr>;
     if \<not> tcp_is_cwnd_limited tp in_flight then Some tp
     else if \<not> hybla_en ca then tcp_reno_cong_avoid k ack rtt in_flight flag tp
     else do {
       ca \<leftarrow> (if hy_rho ca = 0 then hybla_recalc_param rtt0 (srtt tp) ca else Some ca);
       hybla_grow ca tp
     }
   }"

definition tcp_hybla :: "cint \<Rightarrow> hybla_ca tcp_congestion_ops" where
  "tcp_hybla rtt0 = null_ops\<lparr>ops_init := Some (hybla_init rtt0), ops_ssthresh := Some tcp_reno_ssthresh,
     ops_min_cwnd := Some tcp_reno_min_cwnd, ops_cong_avoid := Some (hybla_cong_avoid rtt0),
     ops_set_state := Some hybla_state, ops_name := ''hybla''\<rparr>"

section \<open>The carry loses nothing\<close>

lemma hybla_carry_result:
  assumes "unat cwnd + unat cents div 128 < 2 ^ 64"
  shows "\<exists>cwnd' cents' cnt'. hybla_carry cwnd cents cnt = (cwnd', cents', cnt') \<and>
    unat cwnd' = unat cwnd + unat cents div 128 \<and> unat cents' = unat cents mod 128"
  using assms
proof (induction cwnd cents cnt rule: hybla_carry.induct)
  case (1 cwnd cents cnt)
  show ?case
  proof (cases "128 \<le> cents")
    case True
    then have s: "128 \<le> unat cents" "unat (cents - 128) = unat cents - 128"
      by (simp_all add: word_le_nat_alt unat_sub)
    have d: "unat cents div 128 = Suc ((unat cents - 128) div 128)"
      "unat cents mod 128 = (unat cents - 128) mod 128"
      using s(1) by (simp_all add: le_div_geq le_mod_geq)
    have c: "unat (cwnd + 1) = unat cwnd + 1"
      using unat_add_no_wrap [of cwnd 1] 1(2) d(1) by simp
    show ?thesis
      using "1.IH" [OF True] "1.prems" True unfolding s(2) c d
      by (simp add: hybla_carry.simps [of cwnd cents])
  next
    case False
    then show ?thesis by (simp add: hybla_carry.simps [of cwnd cents] word_le_nat_alt)
  qed
qed

section \<open>The parameters\<close>

lemma hybla_recalc_param_eq:
  "hybla_recalc_param 25 rtt ca = Some (ca\<lparr>hy_rho_3ls := max (rtt div 25) 8,
     hy_rho := drop_bit 3 (max (rtt div 25) 8),
     hy_rho2_7ls := push_bit 1 (max (rtt div 25) 8 * max (rtt div 25) 8),
     hy_rho2 := drop_bit 7 (push_bit 1 (max (rtt div 25) 8 * max (rtt div 25) 8))\<rparr>)"
  by (simp add: hybla_recalc_param_def msecs_to_jiffies_def Let_def)

lemma hybla_rho_nat: "unat (drop_bit 3 (max ((rtt :: u32) div 25) 8)) = max (unat rtt div 25) 8 div 8"
  by (simp add: unat_simps)

lemma hybla_rho_bounds:
  "drop_bit 3 (max ((rtt :: u32) div 25) 8) \<noteq> 0"
  "unat (drop_bit 3 (max (rtt div 25) 8)) < 32 \<longleftrightarrow> unat rtt < 6400"
proof -
  show "drop_bit 3 (max (rtt div 25) 8) \<noteq> 0"
    unfolding word_nonzero_unat hybla_rho_nat by (simp add: div_greater_zero_iff)
  have "max (unat rtt div 25) 8 div 8 < 32 \<longleftrightarrow> max (unat rtt div 25) 8 < 256"
    by (simp add: div_less_iff_less_mult)
  also have "\<dots> \<longleftrightarrow> unat rtt div 25 < 256" by simp
  also have "\<dots> \<longleftrightarrow> unat rtt < 6400" by (simp add: div_less_iff_less_mult)
  finally show "unat (drop_bit 3 (max (rtt div 25) 8)) < 32 \<longleftrightarrow> unat rtt < 6400"
    unfolding hybla_rho_nat .
qed

definition hybla_inv :: "hybla_ca \<Rightarrow> bool" where
  "hybla_inv ca \<longleftrightarrow> unat (snd_cwnd_cents ca) < 128 \<and> unat (hy_rho ca) < 32"

definition hybla_env :: "kernel \<Rightarrow> hybla_ca tcp_sock \<Rightarrow> bool" where
  "hybla_env k tp \<longleftrightarrow> unat (srtt tp) < 6400"

section \<open>The window\<close>

text \<open>The carry as \<open>hybla_cong_avoid\<close> calls it: the window does not wrap.\<close>

lemma hybla_carry_call:
  assumes "unat cwnd < 2 ^ 32" "unat cents < 128"
  shows "\<exists>cwnd' cents' cnt'. hybla_carry (cwnd + drop_bit 7 inc) (cents + inc mod 128) cnt = (cwnd', cents', cnt') \<and>
    unat cwnd' * 128 + unat cents' = unat cwnd * 128 + unat cents + unat inc \<and> unat cents' < 128 \<and>
    unat cwnd \<le> unat cwnd'"
proof -
  have i: "unat (drop_bit 7 inc) = unat inc div 128" "unat (inc mod 128) = unat inc mod 128"
    by (simp_all add: unat_shiftr unat_mod)
  have "unat inc div 128 < 2 ^ 57" using unat_bound [of inc] by (intro less_mult_imp_div_less) simp
  with assms(1) have lt: "unat cwnd + unat inc div 128 < 2 ^ 32 + 2 ^ 57" by (rule add_strict_mono)
  then have w: "unat (cwnd + drop_bit 7 inc) = unat cwnd + unat inc div 128"
    using unat_add_no_wrap [of cwnd "drop_bit 7 inc"] by (simp add: i)
  have "unat inc mod 128 < 128" by simp
  then have c: "unat (cents + inc mod 128) = unat cents + unat inc mod 128" "unat cents + unat inc mod 128 < 256"
    using unat_add_no_wrap [of cents "inc mod 128"] assms(2) by (simp_all add: i)
  have "(unat cents + unat inc mod 128) div 128 < 2" using c(2) by (intro less_mult_imp_div_less) simp
  then have "unat (cwnd + drop_bit 7 inc) + unat (cents + inc mod 128) div 128 < 2 ^ 64"
    using lt unfolding w c(1) by simp
  from hybla_carry_result [OF this, of cnt] obtain cwnd' cents' cnt' where
    r: "hybla_carry (cwnd + drop_bit 7 inc) (cents + inc mod 128) cnt = (cwnd', cents', cnt')"
      "unat cwnd' = unat cwnd + unat inc div 128 + (unat cents + unat inc mod 128) div 128"
      "unat cents' = (unat cents + unat inc mod 128) mod 128"
    unfolding w c(1) by blast
  have "unat cwnd' * 128 + unat cents' = unat cwnd * 128 + (unat inc div 128 * 128 + unat inc mod 128) + unat cents"
    unfolding r(2,3) by (simp add: algebra_simps)
  then show ?thesis using r by simp
qed

lemma hybla_increment_ok:
  assumes "unat (hy_rho ca) < 32" "snd_cwnd tp \<noteq> 0"
  shows "\<exists>inc cnt. hybla_increment ca tp = Some (inc, cnt)"
  using assms by (simp add: hybla_increment_def hybla_pow2_def)

text \<open>What one increment does to the window, in 128ths of a segment, before it is clamped.\<close>

lemma hybla_grow_result:
  assumes "unat (snd_cwnd tp) < 2 ^ 32" "unat (snd_cwnd_cents ca) < 128" "hybla_increment ca tp = Some (inc, cnt)"
  shows "\<exists>w cents c. hybla_grow ca tp = Some (tp\<lparr>snd_cwnd := min (if snd_cwnd tp < snd_ssthresh tp
        then min w (snd_ssthresh tp) else w) (ucast (snd_cwnd_clamp tp)), snd_cwnd_cnt := c,
      icsk_ca_priv := ca\<lparr>snd_cwnd_cents := cents\<rparr>\<rparr>) \<and>
    unat w * 128 + unat cents = unat (snd_cwnd tp) * 128 + unat (snd_cwnd_cents ca) + unat inc \<and>
    unat cents < 128 \<and> unat (snd_cwnd tp) \<le> unat w"
proof -
  obtain w cents c where r: "hybla_carry (snd_cwnd tp + drop_bit 7 inc) (snd_cwnd_cents ca + inc mod 128) cnt = (w, cents, c)"
    "unat w * 128 + unat cents = unat (snd_cwnd tp) * 128 + unat (snd_cwnd_cents ca) + unat inc"
    "unat cents < 128" "unat (snd_cwnd tp) \<le> unat w"
    using hybla_carry_call [OF assms(1,2)] by blast
  show ?thesis
    by (rule exI [of _ w], rule exI [of _ cents], rule exI [of _ c])
      (use r(2-4) in \<open>simp add: hybla_grow_def assms(3) r(1) Let_def\<close>)
qed

lemma hybla_grow_ok:
  assumes "window_ok tp" "hybla_inv ca"
  shows "\<exists>tp'. hybla_grow ca tp = Some tp' \<and> window_step tp tp' \<and> hybla_inv (icsk_ca_priv tp')"
proof -
  note w = window_ok_32 [OF assms(1)]
  have "snd_cwnd tp \<noteq> 0" using w(2) by auto
  then obtain inc cnt where inc: "hybla_increment ca tp = Some (inc, cnt)"
    using hybla_increment_ok [of ca tp] assms(2) by (auto simp: hybla_inv_def)
  obtain W cents c where g: "hybla_grow ca tp = Some (tp\<lparr>snd_cwnd := min (if snd_cwnd tp < snd_ssthresh tp
        then min W (snd_ssthresh tp) else W) (ucast (snd_cwnd_clamp tp)), snd_cwnd_cnt := c,
      icsk_ca_priv := ca\<lparr>snd_cwnd_cents := cents\<rparr>\<rparr>)" "unat cents < 128" "unat (snd_cwnd tp) \<le> unat W"
    using hybla_grow_result [OF w(1) _ inc] assms(2) by (auto simp: hybla_inv_def)
  have "0 < unat (snd_cwnd_clamp tp)" using assms(1) w(2) by (auto simp: window_ok_def word_le_nat_alt)
  then have "0 < min (if snd_cwnd tp < snd_ssthresh tp then min W (snd_ssthresh tp) else W)
      (ucast (snd_cwnd_clamp tp))"
    using g(3) w(2) by (auto simp: word_less_nat_alt unat_min)
  then show ?thesis
    using g assms(2) by (auto simp: window_step_def window_ok_def hybla_inv_def)
qed

section \<open>Hybla keeps the contract\<close>

lemma hybla_recalc_ok:
  assumes "unat rtt < 6400" "unat (snd_cwnd_cents ca) < 128"
  shows "\<exists>ca'. hybla_recalc_param 25 rtt ca = Some ca' \<and> hybla_inv ca' \<and> hy_rho ca' \<noteq> 0"
  using hybla_rho_bounds [of rtt] assms by (simp add: hybla_recalc_param_eq hybla_inv_def)

lemma hybla_refresh_ok:
  assumes "hybla_env k tp" "hybla_inv (icsk_ca_priv tp)"
  shows "\<exists>ca. hybla_refresh 25 tp = Some ca \<and> hybla_inv ca"
proof -
  obtain ca' where "hybla_recalc_param 25 (srtt tp) (icsk_ca_priv tp) = Some ca'" "hybla_inv ca'"
    using hybla_recalc_ok [of "srtt tp" "icsk_ca_priv tp"] assms by (auto simp: hybla_env_def hybla_inv_def)
  then show ?thesis
    using assms(2) by (simp add: hybla_refresh_def Let_def) (simp add: hybla_inv_def)
qed

lemma hybla_cong_avoid_step:
  assumes "window_ok tp" "hybla_env k tp" "hybla_inv (icsk_ca_priv tp)"
  shows "\<exists>tp'. hybla_cong_avoid 25 k ack rtt in_flight flag tp = Some tp' \<and> window_step tp tp' \<and>
    hybla_inv (icsk_ca_priv tp')"
proof -
  obtain ca where ca: "hybla_refresh 25 tp = Some ca" "hybla_inv ca"
    using hybla_refresh_ok [OF assms(2,3)] by blast
  let ?tp = "tp\<lparr>icsk_ca_priv := ca\<rparr>"
  have w: "window_ok ?tp" using assms(1) by simp
  obtain ca2 where ca2: "(if hy_rho ca = 0 then hybla_recalc_param 25 (srtt tp) ca else Some ca) = Some ca2"
    "hybla_inv ca2"
    using hybla_recalc_ok [of "srtt tp" ca] assms(2) ca(2)
    by (cases "hy_rho ca = 0") (auto simp: hybla_env_def hybla_inv_def)
  obtain tp1 where "hybla_grow ca2 ?tp = Some tp1" "window_step ?tp tp1" "hybla_inv (icsk_ca_priv tp1)"
    using hybla_grow_ok [OF w ca2(2)] by blast
  moreover obtain tp2 where "tcp_reno_cong_avoid k ack rtt in_flight flag ?tp = Some tp2"
    "window_step ?tp tp2" "icsk_ca_priv tp2 = ca"
    using tcp_reno_cong_avoid_step [OF w] by force
  ultimately show ?thesis
    using ca ca2 w by (cases "hy_rho ca = 0") (simp_all add: hybla_cong_avoid_def window_step_def Let_def)
qed

interpretation hybla: cong_control "hybla_cong_avoid 25" hybla_env tcp_reno_ssthresh hybla_inv
proof (unfold_locales, goal_cases)
  case (1 tp k ack rtt in_flight flag)
  show ?case by (rule hybla_cong_avoid_step [OF 1(1,3,4)])
next
  case (2 k tp tp')
  then show ?case by (simp add: hybla_env_def same_path_def)
next
  case (3 tp k)
  show ?case
    by (rule ssthresh_ok_max [where x = "drop_bit 1 (snd_cwnd tp)" and ca = "icsk_ca_priv tp"])
      (use 3(2) in \<open>simp_all add: tcp_reno_ssthresh_def word_le_nat_alt unat_shiftr\<close>)
qed

section \<open>Properties\<close>

text \<open>
  No fraction of a segment is lost in the congestion avoidance of Hybla: counted in
  128ths, the window before clamping plus the cents grow by exactly \<open>rho^2 * 128 / snd_cwnd\<close>
  (rounded down), and fewer than 128 cents remain.
\<close>

theorem hybla_conserves_fractions:
  assumes "window_ok tp" "unat (snd_cwnd_cents (icsk_ca_priv tp)) < 128"
    and "hybla_en (icsk_ca_priv tp)" "hy_rho (icsk_ca_priv tp) \<noteq> 0"
    and "hy_minrtt (icsk_ca_priv tp) \<le> srtt tp"
    and "snd_cwnd tp \<le> in_flight" "snd_ssthresh tp \<le> snd_cwnd tp"
  shows "\<exists>tp' w. hybla_cong_avoid rtt0 k ack rtt in_flight flag tp = Some tp' \<and>
    snd_cwnd tp' = min w (ucast (snd_cwnd_clamp tp)) \<and>
    unat w * 128 + unat (snd_cwnd_cents (icsk_ca_priv tp')) =
      unat (snd_cwnd tp) * 128 + unat (snd_cwnd_cents (icsk_ca_priv tp)) +
      unat (hy_rho2_7ls (icsk_ca_priv tp)) div unat (snd_cwnd tp) \<and>
    unat (snd_cwnd_cents (icsk_ca_priv tp')) < 128"
proof -
  note w = window_ok_32 [OF assms(1)]
  have "snd_cwnd tp \<noteq> 0" using w(2) by auto
  then obtain cnt where inc: "hybla_increment (icsk_ca_priv tp) tp =
      Some (hy_rho2_7ls (icsk_ca_priv tp) div snd_cwnd tp, cnt)"
    by (simp add: hybla_increment_def leD [OF assms(7)])
  show ?thesis
    using hybla_grow_result [OF w(1) assms(2) inc] assms(3-7)
    by (auto simp: hybla_cong_avoid_def hybla_refresh_def Let_def tcp_is_cwnd_limited_def unat_div
        not_less)
qed

definition ex_hybla :: hybla_ca where
  "ex_hybla = icsk_ca_priv (the (hybla_init 25 ex_kernel (ex_sock \<lparr>hybla_en = True, snd_cwnd_cents = 0,
     hy_rho = 0, hy_rho2 = 0, hy_rho_3ls = 0, hy_rho2_7ls = 0, hy_minrtt = 0\<rparr>)))"

lemma ex_hybla: "ex_hybla = \<lparr>hybla_en = True, snd_cwnd_cents = 0, hy_rho = 4, hy_rho2 = 16,
    hy_rho_3ls = 32, hy_rho2_7ls = 2048, hy_minrtt = 800\<rparr>"
  by (simp add: ex_hybla_def hybla_init_def ex_defs hybla_recalc_param_eq)

theorem hybla_conserves_fractions_witness:
  "\<exists>tp'. hybla_cong_avoid 25 ex_kernel 0 0 40 0 (ex_sock ex_hybla) = Some tp' \<and>
    unat (snd_cwnd_cents (icsk_ca_priv tp')) < 128"
proof -
  have h: "window_ok (ex_sock ex_hybla)" "unat (snd_cwnd_cents (icsk_ca_priv (ex_sock ex_hybla))) < 128"
    "hybla_en (icsk_ca_priv (ex_sock ex_hybla))" "hy_rho (icsk_ca_priv (ex_sock ex_hybla)) \<noteq> 0"
    "hy_minrtt (icsk_ca_priv (ex_sock ex_hybla)) \<le> srtt (ex_sock ex_hybla)"
    "snd_cwnd (ex_sock ex_hybla) \<le> 40" "snd_ssthresh (ex_sock ex_hybla) \<le> snd_cwnd (ex_sock ex_hybla)"
    by (simp_all add: ex_sock_def ex_hybla window_ok_def)
  show ?thesis using hybla_conserves_fractions [OF h, of 25 ex_kernel 0 0 0] by blast
qed

text \<open>
  Hybla shifts \<open>1\<close>, an \<open>int\<close>, left by \<open>rho\<close>: after \<open>hybla_init\<close> with the default
  reference of 25 ms, an acknowledgement in slow start is undefined exactly when the smoothed
  round trip time is 6400 or more in its unit, that is from 800 ms on.
\<close>

theorem hybla_slow_start_undefined_iff:
  assumes "hybla_init 25 k tp = Some tp1" "snd_cwnd tp1 < snd_ssthresh tp1" "snd_cwnd tp1 \<le> in_flight"
  shows "hybla_cong_avoid 25 k ack rtt in_flight flag tp1 = None \<longleftrightarrow> 6400 \<le> unat (srtt tp1)"
proof -
  let ?ca = "icsk_ca_priv tp1"
  have ca: "hy_rho ?ca = drop_bit 3 (max (srtt tp1 div 25) 8)" "hybla_en ?ca"
    "hy_minrtt ?ca = srtt tp1" "hy_rho ?ca \<noteq> 0"
    using assms(1) hybla_rho_bounds(1) by (auto simp: hybla_init_def hybla_recalc_param_eq)
  have "hybla_cong_avoid 25 k ack rtt in_flight flag tp1 = hybla_grow ?ca tp1"
    using assms(3) ca(2-4) by (simp add: hybla_cong_avoid_def hybla_refresh_def tcp_is_cwnd_limited_def)
  also have "\<dots> = None \<longleftrightarrow> \<not> unat (hy_rho ?ca) < 32"
    using assms(2)
    by (simp add: hybla_grow_def hybla_increment_def hybla_pow2_def Let_def split: prod.split)
  finally show ?thesis using hybla_rho_bounds(2) [of "srtt tp1"] unfolding ca(1) by auto
qed

theorem hybla_slow_start_undefined_iff_witness:
  "hybla_cong_avoid 25 ex_kernel 0 0 32 0
     (the (hybla_init 25 ex_kernel ((ex_sock ex_hybla)\<lparr>srtt := 6400, snd_ssthresh := 1000\<rparr>))) = None"
proof -
  let ?tp = "(ex_sock ex_hybla)\<lparr>srtt := 6400, snd_ssthresh := 1000\<rparr>"
  have i: "hybla_init 25 ex_kernel ?tp = Some (the (hybla_init 25 ex_kernel ?tp))"
    by (simp add: hybla_init_def hybla_recalc_param_eq)
  have h: "snd_cwnd (the (hybla_init 25 ex_kernel ?tp)) < snd_ssthresh (the (hybla_init 25 ex_kernel ?tp))"
    "snd_cwnd (the (hybla_init 25 ex_kernel ?tp)) \<le> 32" "6400 \<le> unat (srtt (the (hybla_init 25 ex_kernel ?tp)))"
    by (simp_all add: hybla_init_def hybla_recalc_param_eq)
  show ?thesis using hybla_slow_start_undefined_iff [OF i h(1,2)] h(3) by blast
qed

end
