(* ===== verification/Tcp_Illinois.thy ===== *)
theory Tcp_Illinois
  imports Tcp_Cong
begin

text \<open>
  \<open>tcp/linux/src/tcp_illinois.c\<close>, TCP Illinois: the increase \<open>alpha\<close> and the decrease \<open>beta\<close> are
  functions of the average queueing delay of the last round trip, in microseconds. The lemmas
  show that the delays are consistent (the average lies between the least and the largest), that
  \<open>alpha\<close> stays within [0.3, 10] and \<open>beta\<close> within [1/8, 1/2] in their fixed point, and that the
  module keeps the contract of \<open>Tcp_Cong\<close>. \<open>tcp_illinois_info\<close> (netlink) is not modelled.
\<close>

section \<open>Parameters and state\<close>

definition ILL_ALPHA_SHIFT :: nat where "ILL_ALPHA_SHIFT = 7"
definition ILL_ALPHA_SCALE :: u32 where "ILL_ALPHA_SCALE = push_bit ILL_ALPHA_SHIFT 1"
definition ILL_ALPHA_MIN :: u32 where "ILL_ALPHA_MIN = 3 * ILL_ALPHA_SCALE div 10"
definition ILL_ALPHA_MAX :: u32 where "ILL_ALPHA_MAX = 10 * ILL_ALPHA_SCALE"
definition ILL_ALPHA_BASE :: u32 where "ILL_ALPHA_BASE = ILL_ALPHA_SCALE"
definition ILL_RTT_MAX :: u32 where "ILL_RTT_MAX = 0xffffffff div ILL_ALPHA_MAX"
definition ILL_BETA_SHIFT :: nat where "ILL_BETA_SHIFT = 6"
definition ILL_BETA_SCALE :: u32 where "ILL_BETA_SCALE = push_bit ILL_BETA_SHIFT 1"
definition ILL_BETA_MIN :: u32 where "ILL_BETA_MIN = ILL_BETA_SCALE div 8"
definition ILL_BETA_MAX :: u32 where "ILL_BETA_MAX = ILL_BETA_SCALE div 2"
definition ILL_BETA_BASE :: u32 where "ILL_BETA_BASE = ILL_BETA_MAX"

lemmas ill_consts = ILL_ALPHA_SHIFT_def ILL_ALPHA_SCALE_def ILL_ALPHA_MIN_def ILL_ALPHA_MAX_def
  ILL_ALPHA_BASE_def ILL_RTT_MAX_def ILL_BETA_SHIFT_def ILL_BETA_SCALE_def ILL_BETA_MIN_def
  ILL_BETA_MAX_def ILL_BETA_BASE_def

record illinois_params =
  win_thresh :: cint
  theta :: cint

definition illinois_defaults :: illinois_params where
  "illinois_defaults = \<lparr>win_thresh = 15, theta = 5\<rparr>"

record illinois =
  sum_rtt :: u64
  cnt_rtt :: u16
  base_rtt :: u32
  max_rtt :: u32
  end_seq :: u32
  ill_alpha :: u32
  ill_beta :: u32
  acked :: u16
  rtt_above :: u8
  rtt_low :: u8

section \<open>The module\<close>

definition ill_rtt_reset :: "illinois tcp_sock \<Rightarrow> illinois \<Rightarrow> illinois" where
  "ill_rtt_reset tp ca = ca\<lparr>end_seq := snd_nxt tp, cnt_rtt := 0, sum_rtt := 0\<rparr>"

definition tcp_illinois_init :: "kernel \<Rightarrow> illinois tcp_sock \<Rightarrow> illinois tcp_sock option" where
  "tcp_illinois_init k tp = Some (tp\<lparr>icsk_ca_priv := ill_rtt_reset tp
     \<lparr>sum_rtt = 0, cnt_rtt = 0, base_rtt = 0x7fffffff, max_rtt = 0, end_seq = 0,
      ill_alpha = ILL_ALPHA_MAX, ill_beta = ILL_BETA_BASE, acked = 0, rtt_above = 0, rtt_low = 0\<rparr>\<rparr>)"

definition tcp_illinois_acked :: "kernel \<Rightarrow> u32 \<Rightarrow> s64 \<Rightarrow> illinois tcp_sock \<Rightarrow> illinois tcp_sock option" where
  "tcp_illinois_acked k pkts_acked kt tp =
     (let ca = (icsk_ca_priv tp)\<lparr>acked := ucast pkts_acked\<rparr> in
      if ktime_equal kt net_invalid_timestamp then Some (tp\<lparr>icsk_ca_priv := ca\<rparr>)
      else
        let rtt = ktime_to_us (net_timedelta k kt);
            rtt = (if ILL_RTT_MAX < rtt then ILL_RTT_MAX else rtt);
            ca = (if rtt < base_rtt ca then ca\<lparr>base_rtt := rtt\<rparr> else ca);
            ca = (if max_rtt ca < rtt then ca\<lparr>max_rtt := rtt\<rparr> else ca)
        in Some (tp\<lparr>icsk_ca_priv := ca\<lparr>cnt_rtt := cnt_rtt ca + 1, sum_rtt := sum_rtt ca + rtt\<rparr>\<rparr>))"

definition ill_max_delay :: "illinois \<Rightarrow> u32" where
  "ill_max_delay ca = max_rtt ca - base_rtt ca"

definition ill_avg_delay :: "illinois \<Rightarrow> u32 option" where
  "ill_avg_delay ca = do {
     (t, _) \<leftarrow> do_div (sum_rtt ca) (ucast (cnt_rtt ca));
     Some (t - base_rtt ca)
   }"

definition ill_compute_alpha :: "illinois_params \<Rightarrow> illinois \<Rightarrow> u32 \<Rightarrow> u32 \<Rightarrow> (u32 \<times> illinois) option" where
  "ill_compute_alpha p ca da dm =
     (let d1 = dm div 100 in
      if da \<le> d1 then
        (if rtt_above ca = 0 then Some (ILL_ALPHA_MAX, ca)
         else let ca = ca\<lparr>rtt_low := rtt_low ca + 1\<rparr> in
           if (ucast (rtt_low ca) :: cint) <s theta p then Some (ill_alpha ca, ca)
           else Some (ILL_ALPHA_MAX, ca\<lparr>rtt_low := 0, rtt_above := 0\<rparr>))
      else do {
        let ca = ca\<lparr>rtt_above := 1\<rparr>;
        let dm = dm - d1; let da = da - d1;
        q \<leftarrow> udiv (da * (ILL_ALPHA_MAX - ILL_ALPHA_MIN)) ILL_ALPHA_MIN;
        a \<leftarrow> udiv (dm * ILL_ALPHA_MAX) (dm + q);
        Some (a, ca)
      })"

definition ill_compute_beta :: "u32 \<Rightarrow> u32 \<Rightarrow> u32 option" where
  "ill_compute_beta da dm =
     (let d2 = dm div 10 in
      if da \<le> d2 then Some ILL_BETA_MIN
      else let d3 = 8 * dm div 10 in
      if d3 \<le> da \<or> d3 \<le> d2 then Some ILL_BETA_MAX
      else udiv (ILL_BETA_MIN * d3 - ILL_BETA_MAX * d2 + (ILL_BETA_MAX - ILL_BETA_MIN) * da) (d3 - d2))"

definition ill_update_params :: "illinois_params \<Rightarrow> illinois tcp_sock \<Rightarrow> illinois option" where
  "ill_update_params p tp = do {
     let ca = icsk_ca_priv tp;
     ca \<leftarrow> (if snd_cwnd tp < scast (win_thresh p)
            then Some (ca\<lparr>ill_alpha := ILL_ALPHA_BASE, ill_beta := ILL_BETA_BASE\<rparr>)
            else if 0 < cnt_rtt ca then do {
              let dm = ill_max_delay ca;
              da \<leftarrow> ill_avg_delay ca;
              (a, ca) \<leftarrow> ill_compute_alpha p ca da dm;
              b \<leftarrow> ill_compute_beta da dm;
              Some (ca\<lparr>ill_alpha := a, ill_beta := b\<rparr>)
            } else Some ca);
     Some (ill_rtt_reset tp ca)
   }"

definition tcp_illinois_state :: "kernel \<Rightarrow> u8 \<Rightarrow> illinois tcp_sock \<Rightarrow> illinois tcp_sock option" where
  "tcp_illinois_state k new_state tp = Some
     (if new_state = TCP_CA_Loss
      then tp\<lparr>icsk_ca_priv := ill_rtt_reset tp ((icsk_ca_priv tp)\<lparr>ill_alpha := ILL_ALPHA_BASE,
             ill_beta := ILL_BETA_BASE, rtt_low := 0, rtt_above := 0\<rparr>)\<rparr>
      else tp)"

definition tcp_illinois_cong_avoid ::
  "illinois_params \<Rightarrow> kernel \<Rightarrow> u32 \<Rightarrow> u32 \<Rightarrow> u32 \<Rightarrow> cint \<Rightarrow> illinois tcp_sock \<Rightarrow> illinois tcp_sock option" where
  "tcp_illinois_cong_avoid p k ack rtt in_flight flag tp = do {
     ca \<leftarrow> (if after ack (end_seq (icsk_ca_priv tp)) then ill_update_params p tp
            else Some (icsk_ca_priv tp));
     let tp = tp\<lparr>icsk_ca_priv := ca\<rparr>;
     if \<not> tcp_is_cwnd_limited tp in_flight then Some tp
     else if snd_cwnd tp \<le> snd_ssthresh tp then tcp_slow_start k tp
     else do {
       let cnt = snd_cwnd_cnt tp + acked ca;
       let tp = tp\<lparr>snd_cwnd_cnt := cnt, icsk_ca_priv := ca\<lparr>acked := 1\<rparr>\<rparr>;
       let delta = drop_bit ILL_ALPHA_SHIFT (ucast cnt * ill_alpha ca);
       if snd_cwnd tp \<le> delta then do {
         q \<leftarrow> udiv delta (snd_cwnd tp);
         Some (tp\<lparr>snd_cwnd := min (snd_cwnd tp + q) (ucast (snd_cwnd_clamp tp)), snd_cwnd_cnt := 0\<rparr>)
       } else Some tp
     }
   }"

definition tcp_illinois_ssthresh :: "kernel \<Rightarrow> illinois tcp_sock \<Rightarrow> (u32 \<times> illinois tcp_sock) option" where
  "tcp_illinois_ssthresh k tp =
     Some (max (drop_bit ILL_BETA_SHIFT (snd_cwnd tp * ill_beta (icsk_ca_priv tp))) 2, tp)"

definition tcp_illinois :: "illinois_params \<Rightarrow> illinois tcp_congestion_ops" where
  "tcp_illinois p = null_ops\<lparr>ops_flags := TCP_CONG_RTT_STAMP, ops_init := Some tcp_illinois_init,
     ops_ssthresh := Some tcp_illinois_ssthresh, ops_min_cwnd := Some tcp_reno_min_cwnd,
     ops_cong_avoid := Some (tcp_illinois_cong_avoid p), ops_set_state := Some tcp_illinois_state,
     ops_pkts_acked := Some tcp_illinois_acked, ops_name := ''illinois''\<rparr>"

section \<open>Bounds of beta\<close>

lemma ill_const_values [simp]:
  "ILL_ALPHA_MIN = 38" "ILL_ALPHA_MAX = 1280" "ILL_BETA_MIN = 8" "ILL_BETA_MAX = 32"
  "ILL_ALPHA_BASE = 128" "ILL_BETA_BASE = 32" "ILL_RTT_MAX = 3355443"
  by (simp_all add: ill_consts)

lemma ill_compute_beta_bounds:
  assumes "unat dm \<le> 3355443"
  shows "\<exists>b. ill_compute_beta da dm = Some b \<and> 8 \<le> unat b \<and> unat b \<le> 32"
proof -
  define d2 d3 where "d2 = dm div 10" and "d3 = 8 * dm div (10 :: u32)"
  have "unat (8 * dm) = 8 * unat dm" using assms unat_mult_no_wrap [of 8 dm] by simp
  then have d: "unat d2 = unat dm div 10" "unat d3 = 8 * unat dm div 10"
    by (simp_all add: d2_def d3_def unat_div)
  show ?thesis
  proof (cases "da \<le> d2 \<or> d3 \<le> da \<or> d3 \<le> d2")
    case True
    then show ?thesis by (auto simp: ill_compute_beta_def Let_def simp flip: d2_def d3_def)
  next
    case False
    then have o: "unat d2 < unat da" "unat da < unat d3" by (simp_all add: word_order_nat)
    have small: "unat d3 \<le> 3355443" unfolding d using assms by linarith
    define n where "n = 8 * d3 - 32 * d2 + 24 * da"
    have n': "n = (8 * d3 + 24 * da) - 32 * d2" by (simp add: n_def)
    have m: "unat (8 * d3) = 8 * unat d3" "unat (24 * da) = 24 * unat da" "unat (32 * d2) = 32 * unat d2"
      using unat_mult_no_wrap [of 8 d3] unat_mult_no_wrap [of 24 da] unat_mult_no_wrap [of 32 d2] o small
      by simp_all
    have s: "unat (8 * d3 + 24 * da) = 8 * unat d3 + 24 * unat da"
      using unat_add_no_wrap [of "8 * d3" "24 * da"] m o small by simp
    have N: "unat n = 8 * unat d3 + 24 * unat da - 32 * unat d2"
      unfolding n' by (subst unat_sub) (use m s o in \<open>simp_all add: word_le_nat_alt\<close>)
    have D: "unat (d3 - d2) = unat d3 - unat d2" using o by (simp add: unat_sub word_le_nat_alt)
    have "8 * (unat d3 - unat d2) \<le> unat n" "unat n \<le> 32 * (unat d3 - unat d2)" "0 < unat d3 - unat d2"
      unfolding N using o by linarith+
    then have "8 \<le> unat (n div (d3 - d2)) \<and> unat (n div (d3 - d2)) \<le> 32"
      unfolding unat_div D by (intro div_between)
    moreover have "d3 - d2 \<noteq> 0" using D o by (auto simp: word_nonzero_unat)
    ultimately show ?thesis
      using False unfolding ill_compute_beta_def Let_def d2_def [symmetric] d3_def [symmetric]
      by (simp add: n_def)
  qed
qed

section \<open>Bounds of alpha\<close>

definition ill_same_samples :: "illinois \<Rightarrow> illinois \<Rightarrow> bool" where
  "ill_same_samples ca ca' \<longleftrightarrow> sum_rtt ca' = sum_rtt ca \<and> cnt_rtt ca' = cnt_rtt ca \<and>
     base_rtt ca' = base_rtt ca \<and> max_rtt ca' = max_rtt ca"

lemma ill_compute_alpha_bounds:
  assumes "unat dm \<le> 3355443" "unat da \<le> unat dm" "38 \<le> unat (ill_alpha ca)" "unat (ill_alpha ca) \<le> 1280"
  shows "\<exists>a ca'. ill_compute_alpha p ca da dm = Some (a, ca') \<and> 38 \<le> unat a \<and> unat a \<le> 1280 \<and>
    ill_same_samples ca ca'"
proof (cases "da \<le> dm div 100")
  case True
  then show ?thesis using assms(3,4) by (simp add: ill_compute_alpha_def Let_def ill_same_samples_def)
next
  case False
  define d1 where "d1 = dm div (100 :: u32)"
  have d1: "unat d1 < unat da" "unat d1 \<le> unat dm"
    using False assms(2) by (auto simp: d1_def word_order_nat)
  define D A where "D = dm - d1" and "A = da - d1"
  have u: "unat D = unat dm - unat d1" "unat A = unat da - unat d1"
    using d1 by (simp_all add: D_def A_def unat_sub word_le_nat_alt)
  have o: "0 < unat A" "unat A \<le> unat D" "unat D \<le> 3355443" using d1 assms(1,2) unfolding u by auto
  define q where "q = (A * 1242) div (38 :: u32)"
  have q: "unat q = unat A * 1242 div 38"
    using unat_mult_no_wrap [of A 1242] o by (simp add: q_def unat_div)
  then have q38: "38 * unat q \<le> unat A * 1242" by simp
  have "unat q \<le> unat A * 1242" unfolding q by (rule div_le_dividend)
  then have Dq: "unat (D + q) = unat D + unat q"
    using unat_add_no_wrap [of D q] o by simp
  define a where "a = (D * 1280) div (D + q)"
  have a: "unat a = unat D * 1280 div (unat D + unat q)"
    using unat_mult_no_wrap [of D 1280] o by (simp add: a_def unat_div Dq)
  have "unat A * 1242 \<le> unat D * 1242" using o(2) by (rule mult_le_mono1)
  then have "38 * (unat D + unat q) \<le> unat D * 1280" unfolding distrib_left using q38 by linarith
  moreover have "unat D * 1280 \<le> 1280 * (unat D + unat q)" by simp
  ultimately have "38 \<le> unat a \<and> unat a \<le> 1280" unfolding a using o by (intro div_between) auto
  moreover have "D + q \<noteq> 0" using Dq o by (auto simp: word_nonzero_unat)
  ultimately show ?thesis
    using False unfolding ill_compute_alpha_def Let_def d1_def [symmetric] D_def [symmetric] A_def [symmetric]
    by (simp add: q_def a_def ill_same_samples_def)
qed

section \<open>The invariant\<close>

definition ill_samples_ok :: "illinois \<Rightarrow> bool" where
  "ill_samples_ok ca \<longleftrightarrow> unat (cnt_rtt ca) * unat (base_rtt ca) \<le> unat (sum_rtt ca) \<and>
     unat (sum_rtt ca) \<le> unat (cnt_rtt ca) * unat (max_rtt ca) \<and> unat (max_rtt ca) \<le> 3355443"

definition ill_inv :: "illinois \<Rightarrow> bool" where
  "ill_inv ca \<longleftrightarrow> ill_samples_ok ca \<and> 38 \<le> unat (ill_alpha ca) \<and> unat (ill_alpha ca) \<le> 1280 \<and>
     8 \<le> unat (ill_beta ca) \<and> unat (ill_beta ca) \<le> 32"

lemma ill_inv_reset:
  "unat (max_rtt ca) \<le> 3355443 \<Longrightarrow> 38 \<le> unat (ill_alpha ca) \<Longrightarrow> unat (ill_alpha ca) \<le> 1280 \<Longrightarrow>
   8 \<le> unat (ill_beta ca) \<Longrightarrow> unat (ill_beta ca) \<le> 32 \<Longrightarrow> ill_inv (ill_rtt_reset tp ca)"
  by (simp add: ill_inv_def ill_samples_ok_def ill_rtt_reset_def)

text \<open>The average delay of the last round trip is at most the largest one.\<close>

lemma ill_delays:
  assumes "ill_samples_ok ca" "0 < cnt_rtt ca"
  shows "\<exists>da. ill_avg_delay ca = Some da \<and> unat da \<le> unat (ill_max_delay ca) \<and>
    unat (ill_max_delay ca) \<le> 3355443 \<and>
    unat da = unat (sum_rtt ca) div unat (cnt_rtt ca) - unat (base_rtt ca)"
proof -
  let ?n = "unat (cnt_rtt ca)" and ?s = "unat (sum_rtt ca)"
  have n: "0 < ?n" using assms(2) by (simp add: word_less_nat_alt)
  then have nz: "(ucast (cnt_rtt ca) :: u32) \<noteq> 0" by (simp add: word_nonzero_unat)
  have lo: "unat (base_rtt ca) \<le> ?s div ?n"
    using assms(1) n by (simp add: ill_samples_ok_def less_eq_div_iff_mult_less_eq mult.commute)
  have "?s div ?n \<le> ?n * unat (max_rtt ca) div ?n"
    using assms(1) by (intro div_le_mono) (simp add: ill_samples_ok_def)
  then have hi: "?s div ?n \<le> unat (max_rtt ca)" using n by simp
  have t: "unat (sum_rtt ca div ucast (cnt_rtt ca)) = ?s div ?n" by (simp add: unat_div)
  have "unat (sum_rtt ca div ucast (cnt_rtt ca) - base_rtt ca) = ?s div ?n - unat (base_rtt ca)"
    using lo by (simp add: unat_sub word_le_nat_alt t del: unat_div)
  moreover have "unat (ill_max_delay ca) = unat (max_rtt ca) - unat (base_rtt ca)"
    using lo hi by (simp add: ill_max_delay_def unat_sub word_le_nat_alt)
  ultimately show ?thesis
    using nz diff_le_mono [OF hi, of "unat (base_rtt ca)"] assms(1)
    by (auto simp: ill_avg_delay_def do_div_eq ill_samples_ok_def intro: order_trans [OF diff_le_self])
qed

lemma ill_update_params_ok:
  assumes "ill_inv (icsk_ca_priv tp)"
  shows "\<exists>ca. ill_update_params p tp = Some ca \<and> ill_inv ca"
proof -
  let ?ca = "icsk_ca_priv tp"
  have m: "unat (max_rtt ?ca) \<le> 3355443" using assms by (simp add: ill_inv_def ill_samples_ok_def)
  show ?thesis
  proof (cases "\<not> snd_cwnd tp < scast (win_thresh p) \<and> 0 < cnt_rtt ?ca")
    case True
    obtain da where da: "ill_avg_delay ?ca = Some da" "unat da \<le> unat (ill_max_delay ?ca)"
      "unat (ill_max_delay ?ca) \<le> 3355443"
      using ill_delays [of ?ca] assms True by (auto simp: ill_inv_def)
    obtain a ca' where a: "ill_compute_alpha p ?ca da (ill_max_delay ?ca) = Some (a, ca')"
      "38 \<le> unat a" "unat a \<le> 1280" "ill_same_samples ?ca ca'"
      using ill_compute_alpha_bounds [OF da(3,2), of ?ca p] assms by (auto simp: ill_inv_def)
    obtain b where b: "ill_compute_beta da (ill_max_delay ?ca) = Some b" "8 \<le> unat b" "unat b \<le> 32"
      using ill_compute_beta_bounds [OF da(3)] by blast
    show ?thesis
      using True da(1) a b m
      by (simp add: ill_update_params_def Let_def ill_same_samples_def ill_inv_reset)
  next
    case False
    then show ?thesis
      using assms m
      by (auto simp: ill_update_params_def Let_def ill_inv_def ill_rtt_reset_def ill_samples_ok_def)
  qed
qed

text \<open>A round trip time sample keeps the invariant until the counter of samples is full.\<close>

lemma tcp_illinois_acked_ok:
  assumes "ill_inv (icsk_ca_priv tp)" "unat (cnt_rtt (icsk_ca_priv tp)) + 1 < 2 ^ 32"
  shows "\<exists>ca. tcp_illinois_acked k pkts_acked kt tp = Some (tp\<lparr>icsk_ca_priv := ca\<rparr>) \<and> ill_inv ca"
proof (cases "ktime_equal kt net_invalid_timestamp")
  case True
  then show ?thesis
    using assms(1)
    by (intro exI [of _ "(icsk_ca_priv tp)\<lparr>acked := ucast pkts_acked\<rparr>"])
      (simp add: tcp_illinois_acked_def ill_inv_def ill_samples_ok_def)
next
  case False
  let ?ca = "icsk_ca_priv tp"
  define r where "r = (if ILL_RTT_MAX < ktime_to_us (net_timedelta k kt) then ILL_RTT_MAX
    else ktime_to_us (net_timedelta k kt))"
  have r: "unat r \<le> 3355443" by (simp add: r_def word_less_nat_alt)
  let ?n = "unat (cnt_rtt ?ca)" and ?s = "unat (sum_rtt ?ca)"
  let ?b = "min (unat (base_rtt ?ca)) (unat r)" and ?m = "max (unat (max_rtt ?ca)) (unat r)"
  have s: "?n * unat (base_rtt ?ca) \<le> ?s" "?s \<le> ?n * unat (max_rtt ?ca)" "unat (max_rtt ?ca) \<le> 3355443"
    using assms(1) by (simp_all add: ill_inv_def ill_samples_ok_def)
  have "?n * unat (max_rtt ?ca) \<le> 2 ^ 32 * 3355443" using s(3) assms(2) by (intro mult_le_mono) auto
  then have sum: "unat (sum_rtt ?ca + r) = ?s + unat r"
    using unat_add_no_wrap [of "sum_rtt ?ca" r] s(2) r by simp
  have cnt: "unat (cnt_rtt ?ca + 1) = ?n + 1"
    using unat_add_no_wrap [of "cnt_rtt ?ca" 1] assms(2) by simp
  have "?n * ?b \<le> ?s" 
    by (rule order_trans [OF mult_le_mono2 [OF min.cobounded1] s(1)])
  then have lo: "(?n + 1) * ?b \<le> ?s + unat r" by simp
  have "?s \<le> ?n * ?m" 
    by (rule order_trans [OF s(2) mult_le_mono2 [OF max.cobounded1]])
  then have hi: "?s + unat r \<le> (?n + 1) * ?m" by simp
  have samples: "ill_samples_ok (?ca\<lparr>base_rtt := min (base_rtt ?ca) r, max_rtt := max (max_rtt ?ca) r,
      cnt_rtt := cnt_rtt ?ca + 1, sum_rtt := sum_rtt ?ca + r\<rparr>)"
    using lo hi s(3) r by (simp add: ill_samples_ok_def sum cnt unat_min unat_max)
  have "tcp_illinois_acked k pkts_acked kt tp = Some (tp\<lparr>icsk_ca_priv := ?ca\<lparr>acked := ucast pkts_acked,
      base_rtt := min (base_rtt ?ca) r, max_rtt := max (max_rtt ?ca) r,
      cnt_rtt := cnt_rtt ?ca + 1, sum_rtt := sum_rtt ?ca + r\<rparr>\<rparr>)"
    using False unfolding tcp_illinois_acked_def Let_def r_def [symmetric]
    by (simp add: min_def max_def not_le)
  moreover have "ill_inv (?ca\<lparr>acked := ucast pkts_acked, base_rtt := min (base_rtt ?ca) r,
      max_rtt := max (max_rtt ?ca) r, cnt_rtt := cnt_rtt ?ca + 1, sum_rtt := sum_rtt ?ca + r\<rparr>)"
    using samples assms(1) by (simp add: ill_inv_def ill_samples_ok_def)
  ultimately show ?thesis by blast
qed

section \<open>Illinois keeps the contract\<close>

lemma tcp_illinois_growth:
  assumes "window_ok tp"
  shows "window_ok (tp\<lparr>snd_cwnd := min (snd_cwnd tp + drop_bit 7 d div snd_cwnd tp) (ucast (snd_cwnd_clamp tp))\<rparr>)"
proof -
  have w: "0 < unat (snd_cwnd tp)" "unat (snd_cwnd tp) < 2 ^ 32" by (rule window_ok_32 [OF assms])+
  have "unat d div 128 < 2 ^ 57" using unat_bound [of d] by (intro less_mult_imp_div_less) simp
  with div_le_dividend have "unat d div 128 div unat (snd_cwnd tp) < 2 ^ 57" by (rule le_less_trans)
  then have "unat (snd_cwnd tp) + unat d div 128 div unat (snd_cwnd tp) < 2 ^ 32 + 2 ^ 57"
    using w(2) by (rule add_strict_mono [rotated])
  also have "\<dots> < 2 ^ LENGTH(64)" by simp
  finally have "unat (snd_cwnd tp) + unat d div 128 div unat (snd_cwnd tp) < 2 ^ LENGTH(64)" .
  then have "unat (snd_cwnd tp + drop_bit 7 d div snd_cwnd tp) =
      unat (snd_cwnd tp) + unat (drop_bit 7 d div snd_cwnd tp)"
    by (intro unat_add_no_wrap) (simp add: unat_div unat_shiftr)
  moreover have "0 < unat (snd_cwnd_clamp tp)"
    using assms w(1) by (auto simp: window_ok_def word_le_nat_alt)
  ultimately show ?thesis using w(1) by (simp add: window_ok_def word_order_nat unat_min)
qed

lemma tcp_illinois_cong_avoid_step:
  assumes "window_ok tp" "ill_inv (icsk_ca_priv tp)"
  shows "\<exists>tp'. tcp_illinois_cong_avoid p k ack rtt in_flight flag tp = Some tp' \<and> window_step tp tp' \<and>
    ill_inv (icsk_ca_priv tp')"
proof -
  obtain ca where ca: "(if after ack (end_seq (icsk_ca_priv tp)) then ill_update_params p tp
      else Some (icsk_ca_priv tp)) = Some ca" "ill_inv ca"
    using ill_update_params_ok [OF assms(2), of p] assms(2)
    by (cases "after ack (end_seq (icsk_ca_priv tp))") auto
  have w: "window_ok (tp\<lparr>icsk_ca_priv := ca\<rparr>)" using assms(1) by simp
  have inv: "ill_inv (ca\<lparr>acked := 1\<rparr>)" using ca(2) by (simp add: ill_inv_def ill_samples_ok_def)
  have nz: "snd_cwnd tp \<noteq> 0" using assms(1) by (auto simp: window_ok_def)
  show ?thesis
  proof (cases "tcp_is_cwnd_limited tp in_flight \<and> snd_ssthresh tp < snd_cwnd tp")
    case True
    have g: "window_ok (tp\<lparr>snd_cwnd := min (snd_cwnd tp + drop_bit ILL_ALPHA_SHIFT d div snd_cwnd tp)
        (ucast (snd_cwnd_clamp tp))\<rparr>)" for d
      using tcp_illinois_growth [OF assms(1)] by (simp add: ILL_ALPHA_SHIFT_def)
    show ?thesis
      using True inv nz assms(1) g
      by (simp add: tcp_illinois_cong_avoid_def ca(1) tcp_is_cwnd_limited_def window_step_def Let_def
          not_le [symmetric] window_ok_def)
  next
    case False
    then show ?thesis
      using tcp_slow_start_step [OF w, of k] w ca(2)
      by (auto simp: tcp_illinois_cong_avoid_def ca(1) tcp_is_cwnd_limited_def window_step_def Let_def)
  qed
qed

lemma ill_share:
  assumes "unat w < 2 ^ 32" "unat b \<le> 32"
  shows "unat (drop_bit ILL_BETA_SHIFT ((w :: u32) * b)) = unat w * unat b div 64"
proof -
  have "unat w * unat b \<le> unat w * 32" using assms(2) by (rule mult_le_mono2)
  also have "\<dots> < 2 ^ LENGTH(64)" using assms(1) by simp
  finally show ?thesis
    using unat_mult_no_wrap [of w b] by (simp add: unat_shiftr ILL_BETA_SHIFT_def)
qed

interpretation illinois: cong_control "tcp_illinois_cong_avoid p" "\<lambda>_ _. True" tcp_illinois_ssthresh ill_inv for p
proof (unfold_locales, goal_cases)
  case (1 tp k ack rtt in_flight flag)
  show ?case by (rule tcp_illinois_cong_avoid_step [OF 1(1,4)])
next
  case (3 tp k)
  let ?b = "ill_beta (icsk_ca_priv tp)"
  have b: "unat ?b \<le> 32" using 3(2) by (simp add: ill_inv_def)
  then have "unat (snd_cwnd tp) * unat ?b div 64 \<le> unat (snd_cwnd tp) * 64 div 64"
    by (intro div_le_mono mult_le_mono2) simp
  then have "drop_bit ILL_BETA_SHIFT (snd_cwnd tp * ?b) \<le> snd_cwnd tp"
    using ill_share [OF window_ok_32(1) [OF 3(1)] b] by (simp add: word_le_nat_alt)
  then show ?case
    using 3(2) by (intro ssthresh_ok_max [where ssthresh = tcp_illinois_ssthresh and ca = "icsk_ca_priv tp"])
      (simp_all add: tcp_illinois_ssthresh_def)
qed simp

section \<open>Properties\<close>

text \<open>
  The multiplicative decrease of Illinois stays within its documented range for every
  average delay: \<open>beta\<close> is between 8 and 32 sixty-fourths, although the terms of its numerator
  wrap, and no divisor is zero (largest delay up to \<open>RTT_MAX\<close>).
\<close>

theorem illinois_beta_range:
  assumes "unat dm \<le> unat ILL_RTT_MAX"
  shows "\<exists>b. ill_compute_beta da dm = Some b \<and> 8 \<le> unat b \<and> unat b \<le> 32"
  using ill_compute_beta_bounds assms by simp

theorem illinois_beta_range_witness: "ill_compute_beta 500 1000 = Some 21"
  using illinois_beta_range [of 1000 500] by (simp add: ill_compute_beta_def Let_def)

text \<open>
  Once per round trip Illinois computes its parameters without a fault and within
  their ranges: \<open>alpha\<close> in [38, 1280] 128ths and \<open>beta\<close> in [8, 32] sixty-fourths. The state it needs
  (the samples lie between \<open>base_rtt\<close> and \<open>max_rtt\<close>, at most \<open>RTT_MAX\<close>) is what every operation
  of the module keeps, a round trip time sample included.
\<close>

theorem illinois_params_in_range:
  assumes "ill_inv (icsk_ca_priv tp)"
  shows "(\<exists>ca. ill_update_params p tp = Some ca \<and> ill_inv ca \<and> cnt_rtt ca = 0) \<and>
    (unat (cnt_rtt (icsk_ca_priv tp)) + 1 < 2 ^ 32 \<longrightarrow>
      (\<exists>ca. tcp_illinois_acked k n kt tp = Some (tp\<lparr>icsk_ca_priv := ca\<rparr>) \<and> ill_inv ca))"
proof -
  obtain ca where "ill_update_params p tp = Some ca" "ill_inv ca"
    using ill_update_params_ok [OF assms] by blast
  moreover from this(1) have "cnt_rtt ca = 0"
    by (auto simp: ill_update_params_def ill_rtt_reset_def Let_def bind_eq_Some_conv)
  ultimately show ?thesis using tcp_illinois_acked_ok [OF assms] by blast
qed

definition ex_illinois :: illinois where
  "ex_illinois = icsk_ca_priv (the (tcp_illinois_init ex_kernel (ex_sock undefined)))"

lemma ex_illinois_inv: "ill_inv ex_illinois"
  by (simp add: ex_illinois_def tcp_illinois_init_def ill_inv_reset)

theorem illinois_params_in_range_witness:
  "\<exists>ca. ill_update_params illinois_defaults (ex_sock ex_illinois) = Some ca \<and> 38 \<le> unat (ill_alpha ca)"
proof -
  have h: "ill_inv (icsk_ca_priv (ex_sock ex_illinois))" using ex_illinois_inv by (simp add: ex_sock_def)
  show ?thesis
    using illinois_params_in_range [OF h, of illinois_defaults ex_kernel 0 0] by (auto simp: ill_inv_def)
qed

end
