(* ===== verification/Tcp_Lp.thy ===== *)
theory Tcp_Lp
  imports Tcp_Cong
begin

unbundle bit_operations_syntax

text \<open>
  \<open>tcp/linux/src/tcp_lp.c\<close>, TCP Low Priority: Reno that stops growing and gives way when the
  one-way delay, estimated from the time stamps of both ends, passes a threshold. The lemmas show
  that \<open>pkts_acked\<close> never divides by zero, what it can do to the window, and that inside an
  inference the window does not grow.
\<close>

section \<open>State\<close>

definition LP_RESOL :: u32 where "LP_RESOL = 1000"

definition LP_VALID_RHZ :: u32 where "LP_VALID_RHZ = push_bit 0 1"
definition LP_VALID_OWD :: u32 where "LP_VALID_OWD = push_bit 1 1"
definition LP_WITHIN_THR :: u32 where "LP_WITHIN_THR = push_bit 3 1"
definition LP_WITHIN_INF :: u32 where "LP_WITHIN_INF = push_bit 4 1"

lemmas lp_flag_defs = LP_VALID_RHZ_def LP_VALID_OWD_def LP_WITHIN_THR_def LP_WITHIN_INF_def

record lp =
  lp_flag :: u32
  lp_sowd :: u32
  lp_owd_min :: u32
  lp_owd_max :: u32
  lp_owd_max_rsv :: u32
  lp_remote_hz :: u32
  lp_remote_ref_time :: u32
  lp_local_ref_time :: u32
  lp_last_drop :: u32
  lp_inference :: u32

text \<open>\<open>lp->flag |= f\<close> or \<open>lp->flag &= ~f\<close>, by the test of the surrounding \<open>if\<close>.\<close>

definition lp_set :: "u32 \<Rightarrow> bool \<Rightarrow> lp \<Rightarrow> lp" where
  "lp_set f b l = l\<lparr>lp_flag := (if b then lp_flag l OR f else lp_flag l AND NOT f)\<rparr>"

definition lp_has :: "u32 \<Rightarrow> lp \<Rightarrow> bool" where
  "lp_has f l \<longleftrightarrow> lp_flag l AND f \<noteq> 0"

section \<open>The module\<close>

definition tcp_lp_init :: "kernel \<Rightarrow> lp tcp_sock \<Rightarrow> lp tcp_sock option" where
  "tcp_lp_init k tp = Some (tp\<lparr>icsk_ca_priv := \<lparr>lp_flag = 0, lp_sowd = 0, lp_owd_min = 0xffffffff,
     lp_owd_max = 0, lp_owd_max_rsv = 0, lp_remote_hz = 0, lp_remote_ref_time = 0,
     lp_local_ref_time = 0, lp_last_drop = 0, lp_inference = 0\<rparr>\<rparr>)"

definition tcp_lp_cong_avoid ::
  "kernel \<Rightarrow> u32 \<Rightarrow> u32 \<Rightarrow> u32 \<Rightarrow> cint \<Rightarrow> lp tcp_sock \<Rightarrow> lp tcp_sock option" where
  "tcp_lp_cong_avoid k ack rtt in_flight flag tp =
     (if \<not> lp_has LP_WITHIN_INF (icsk_ca_priv tp)
      then tcp_reno_cong_avoid k ack rtt in_flight flag tp else Some tp)"

text \<open>The estimate \<open>rhz\<close> is an \<open>s64\<close>, 64 times the remote clock rate; the quotient \<open>m\<close> is taken
  unsigned and only then read as signed.\<close>

definition lp_next_rhz :: "lp tcp_sock \<Rightarrow> s64 option" where
  "lp_next_rhz tp =
     (let l = icsk_ca_priv tp; rhz = push_bit 6 (lp_remote_hz l) in
      if lp_remote_ref_time l = 0 \<or> lp_local_ref_time l = 0 \<or>
         rcv_tsval tp = lp_remote_ref_time l \<or> rcv_tsecr tp = lp_local_ref_time l then Some rhz
      else do {
        m \<leftarrow> udiv (HZ * (rcv_tsval tp - lp_remote_ref_time l)) (rcv_tsecr tp - lp_local_ref_time l);
        let m = (if m <s 0 then - m else m);
        Some (if 0 <s rhz then rhz + (m - signed_drop_bit 6 rhz) else push_bit 6 m)
      })"

definition tcp_lp_remote_hz_estimator :: "lp tcp_sock \<Rightarrow> (u32 \<times> lp) option" where
  "tcp_lp_remote_hz_estimator tp = do {
     rhz \<leftarrow> lp_next_rhz tp;
     let l = lp_set LP_VALID_RHZ (0 <s signed_drop_bit 6 rhz) (icsk_ca_priv tp);
     Some (signed_drop_bit 6 rhz, l\<lparr>lp_remote_ref_time := rcv_tsval tp, lp_local_ref_time := rcv_tsecr tp\<rparr>)
   }"

definition tcp_lp_owd_calculator :: "lp tcp_sock \<Rightarrow> (u32 \<times> lp) option" where
  "tcp_lp_owd_calculator tp = do {
     (hz, l) \<leftarrow> tcp_lp_remote_hz_estimator tp;
     let l = l\<lparr>lp_remote_hz := hz\<rparr>;
     owd \<leftarrow> (if lp_has LP_VALID_RHZ l then do {
         q \<leftarrow> udiv LP_RESOL (lp_remote_hz l);
         let owd = rcv_tsval tp * q - rcv_tsecr tp * (LP_RESOL div HZ);
         Some (if owd <s 0 then - owd else owd)
       } else Some 0);
     Some (owd, lp_set LP_VALID_OWD (0 <s owd) l)
   }"

text \<open>The comparisons of the signed \<open>mowd\<close> with the \<open>unsigned long\<close> fields are unsigned.\<close>

definition lp_min_max :: "s64 \<Rightarrow> lp \<Rightarrow> lp" where
  "lp_min_max mowd l =
     (let l = (if mowd < lp_owd_min l then l\<lparr>lp_owd_min := mowd\<rparr> else l) in
      if lp_owd_max l < mowd then
        (if lp_owd_max_rsv l < mowd
         then l\<lparr>lp_owd_max := (if lp_owd_max_rsv l = 0 then mowd else lp_owd_max_rsv l),
                lp_owd_max_rsv := mowd\<rparr>
         else l\<lparr>lp_owd_max := mowd\<rparr>)
      else l)"

definition tcp_lp_rtt_sample :: "kernel \<Rightarrow> u32 \<Rightarrow> lp tcp_sock \<Rightarrow> lp tcp_sock option" where
  "tcp_lp_rtt_sample k rtt tp = do {
     (mowd, l) \<leftarrow> tcp_lp_owd_calculator tp;
     if \<not> lp_has LP_VALID_RHZ l \<or> \<not> lp_has LP_VALID_OWD l then Some (tp\<lparr>icsk_ca_priv := l\<rparr>)
     else
       let l = lp_min_max mowd l in
       Some (tp\<lparr>icsk_ca_priv := l\<lparr>lp_sowd :=
         (if lp_sowd l \<noteq> 0 then lp_sowd l + (mowd - drop_bit 3 (lp_sowd l)) else push_bit 3 mowd)\<rparr>\<rparr>)
   }"

text \<open>The three assessments of \<open>tcp_lp_pkts_acked\<close>: the inference time, then the flags
  \<open>LP_WITHIN_INF\<close> and \<open>LP_WITHIN_THR\<close>.\<close>

definition lp_calc_inference :: "kernel \<Rightarrow> u32 \<Rightarrow> lp \<Rightarrow> lp" where
  "lp_calc_inference k tsecr l =
     (if tsecr < tcp_time_stamp k then l\<lparr>lp_inference := 3 * (tcp_time_stamp k - tsecr)\<rparr> else l)"

definition lp_test_inf :: "kernel \<Rightarrow> lp \<Rightarrow> lp" where
  "lp_test_inf k l = lp_set LP_WITHIN_INF
     (lp_last_drop l \<noteq> 0 \<and> tcp_time_stamp k - lp_last_drop l < lp_inference l) l"

definition lp_test_thr :: "lp \<Rightarrow> lp" where
  "lp_test_thr l = lp_set LP_WITHIN_THR
     (drop_bit 3 (lp_sowd l) < lp_owd_min l + 15 * (lp_owd_max l - lp_owd_min l) div 100) l"

definition tcp_lp_pkts_acked :: "kernel \<Rightarrow> u32 \<Rightarrow> s64 \<Rightarrow> lp tcp_sock \<Rightarrow> lp tcp_sock option" where
  "tcp_lp_pkts_acked k num_acked kt tp = do {
     tp \<leftarrow> (if \<not> ktime_equal kt net_invalid_timestamp
            then tcp_lp_rtt_sample k (ktime_to_us (net_timedelta k kt)) tp else Some tp);
     let l = lp_test_thr (lp_test_inf k (lp_calc_inference k (rcv_tsecr tp) (icsk_ca_priv tp)));
     if lp_has LP_WITHIN_THR l then Some (tp\<lparr>icsk_ca_priv := l\<rparr>)
     else
       let l = l\<lparr>lp_owd_min := drop_bit 3 (lp_sowd l), lp_owd_max := drop_bit 2 (lp_sowd l),
                 lp_owd_max_rsv := drop_bit 2 (lp_sowd l)\<rparr> in
       Some (tp\<lparr>snd_cwnd := (if lp_has LP_WITHIN_INF l then 1 else max (drop_bit 1 (snd_cwnd tp)) 1),
                icsk_ca_priv := l\<lparr>lp_last_drop := tcp_time_stamp k\<rparr>\<rparr>)
   }"

definition tcp_lp :: "lp tcp_congestion_ops" where
  "tcp_lp = null_ops\<lparr>ops_flags := TCP_CONG_RTT_STAMP, ops_init := Some tcp_lp_init,
     ops_ssthresh := Some tcp_reno_ssthresh, ops_cong_avoid := Some tcp_lp_cong_avoid,
     ops_min_cwnd := Some tcp_reno_min_cwnd, ops_pkts_acked := Some tcp_lp_pkts_acked,
     ops_name := ''lp''\<rparr>"

section \<open>Flags\<close>

lemma flag_and:
  "(x OR f) AND f = (f :: u32)" "(x AND NOT f) AND f = 0"
  "g AND f = 0 \<Longrightarrow> (x OR g) AND f = x AND f" "g AND f = 0 \<Longrightarrow> (x AND NOT g) AND f = x AND f"
  by (auto simp: bit_eq_iff bit_simps)

lemma lp_flags_distinct:
  "LP_WITHIN_THR AND LP_WITHIN_INF = 0" "LP_VALID_OWD AND LP_VALID_RHZ = 0"
  "LP_WITHIN_INF \<noteq> 0" "LP_WITHIN_THR \<noteq> 0" "LP_VALID_RHZ \<noteq> 0" "LP_VALID_OWD \<noteq> 0"
  by (simp_all add: lp_flag_defs)

lemma lp_has_set:
  "f \<noteq> 0 \<Longrightarrow> lp_has f (lp_set f b l) = b"
  "lp_has LP_WITHIN_INF (lp_set LP_WITHIN_THR b l) = lp_has LP_WITHIN_INF l"
  "lp_has LP_VALID_RHZ (lp_set LP_VALID_OWD b l) = lp_has LP_VALID_RHZ l"
  by (simp_all add: lp_has_def lp_set_def flag_and lp_flags_distinct)

lemma lp_has_frame [simp]:
  "lp_has f (l\<lparr>lp_owd_min := a\<rparr>) = lp_has f l" "lp_has f (l\<lparr>lp_owd_max := a\<rparr>) = lp_has f l"
  "lp_has f (l\<lparr>lp_owd_max_rsv := a\<rparr>) = lp_has f l" "lp_has f (l\<lparr>lp_last_drop := a\<rparr>) = lp_has f l"
  "lp_has f (l\<lparr>lp_inference := a\<rparr>) = lp_has f l" "lp_has f (l\<lparr>lp_remote_hz := a\<rparr>) = lp_has f l"
  "lp_has f (l\<lparr>lp_remote_ref_time := a\<rparr>) = lp_has f l" "lp_has f (l\<lparr>lp_local_ref_time := a\<rparr>) = lp_has f l"
  by (simp_all add: lp_has_def)

lemma lp_set_frame [simp]:
  "lp_last_drop (lp_set f b l) = lp_last_drop l" "lp_remote_hz (lp_set f b l) = lp_remote_hz l"
  "lp_inference (lp_set f b l) = lp_inference l" "lp_sowd (lp_set f b l) = lp_sowd l"
  by (simp_all add: lp_set_def)

section \<open>The estimators divide by no zero\<close>

lemma lp_next_rhz_total: "\<exists>rhz. lp_next_rhz tp = Some rhz"
  by (simp add: lp_next_rhz_def Let_def)

lemma tcp_lp_owd_calculator_total: "\<exists>owd l. tcp_lp_owd_calculator tp = Some (owd, l) \<and>
    lp_last_drop l = lp_last_drop (icsk_ca_priv tp)"
proof -
  obtain rhz where rhz: "lp_next_rhz tp = Some rhz" using lp_next_rhz_total by blast
  have "signed_drop_bit 6 rhz \<noteq> 0" if "0 <s signed_drop_bit 6 rhz" using that by auto
  then show ?thesis
    by (auto simp: tcp_lp_owd_calculator_def tcp_lp_remote_hz_estimator_def rhz Let_def lp_has_set
        lp_flags_distinct udiv_def)
qed

lemma tcp_lp_rtt_sample_total: "\<exists>l. tcp_lp_rtt_sample k rtt tp = Some (tp\<lparr>icsk_ca_priv := l\<rparr>) \<and>
    lp_last_drop l = lp_last_drop (icsk_ca_priv tp)"
proof -
  obtain owd l where "tcp_lp_owd_calculator tp = Some (owd, l)"
    "lp_last_drop l = lp_last_drop (icsk_ca_priv tp)"
    using tcp_lp_owd_calculator_total by blast
  then show ?thesis by (simp add: tcp_lp_rtt_sample_def Let_def lp_min_max_def)
qed

text \<open>
  The outcome of \<open>tcp_lp_pkts_acked\<close>: the flag \<open>LP_WITHIN_INF\<close> records whether the last drop is
  within the inference time, and the window is left alone, or cut as the flag says and the drop
  recorded.
\<close>

lemma tcp_lp_pkts_acked_result:
  "\<exists>l w. tcp_lp_pkts_acked k n kt tp = Some (tp\<lparr>snd_cwnd := w, icsk_ca_priv := l\<rparr>) \<and>
     (lp_has LP_WITHIN_INF l \<longleftrightarrow> lp_last_drop (icsk_ca_priv tp) \<noteq> 0 \<and>
        tcp_time_stamp k - lp_last_drop (icsk_ca_priv tp) < lp_inference l) \<and>
     (if lp_has LP_WITHIN_THR l then w = snd_cwnd tp \<and> lp_last_drop l = lp_last_drop (icsk_ca_priv tp)
      else w = (if lp_has LP_WITHIN_INF l then 1 else max (drop_bit 1 (snd_cwnd tp)) 1) \<and>
           lp_last_drop l = tcp_time_stamp k) \<and>
     (rcv_tsecr tp < tcp_time_stamp k \<longrightarrow> lp_inference l = 3 * (tcp_time_stamp k - rcv_tsecr tp))"
proof -
  obtain l0 where l0: "(if \<not> ktime_equal kt net_invalid_timestamp
      then tcp_lp_rtt_sample k (ktime_to_us (net_timedelta k kt)) tp else Some tp) = Some (tp\<lparr>icsk_ca_priv := l0\<rparr>)"
    "lp_last_drop l0 = lp_last_drop (icsk_ca_priv tp)"
    using tcp_lp_rtt_sample_total [of k "ktime_to_us (net_timedelta k kt)" tp]
    by (cases "ktime_equal kt net_invalid_timestamp") auto
  define l where "l = lp_test_thr (lp_test_inf k (lp_calc_inference k (rcv_tsecr tp) l0))"
  have d: "lp_last_drop (lp_calc_inference k (rcv_tsecr tp) l0) = lp_last_drop (icsk_ca_priv tp)"
    by (simp add: lp_calc_inference_def l0(2))
  have f: "lp_has LP_WITHIN_INF l \<longleftrightarrow> lp_last_drop (icsk_ca_priv tp) \<noteq> 0 \<and>
        tcp_time_stamp k - lp_last_drop (icsk_ca_priv tp) < lp_inference l"
    "lp_last_drop l = lp_last_drop (icsk_ca_priv tp)"
    "rcv_tsecr tp < tcp_time_stamp k \<longrightarrow> lp_inference l = 3 * (tcp_time_stamp k - rcv_tsecr tp)"
    by (simp_all add: l_def lp_test_thr_def lp_test_inf_def lp_has_set lp_flags_distinct d)
      (simp add: lp_calc_inference_def)
  define l' where "l' = (if lp_has LP_WITHIN_THR l then l
    else l\<lparr>lp_owd_min := drop_bit 3 (lp_sowd l), lp_owd_max := drop_bit 2 (lp_sowd l),
           lp_owd_max_rsv := drop_bit 2 (lp_sowd l), lp_last_drop := tcp_time_stamp k\<rparr>)"
  define w where "w = (if lp_has LP_WITHIN_THR l then snd_cwnd tp
    else if lp_has LP_WITHIN_INF l then 1 else max (drop_bit 1 (snd_cwnd tp)) 1)"
  have "tcp_lp_pkts_acked k n kt tp = Some (tp\<lparr>snd_cwnd := w, icsk_ca_priv := l'\<rparr>)"
    unfolding tcp_lp_pkts_acked_def l0(1) Let_def by (simp add: l'_def w_def flip: l_def)
  moreover have "lp_has LP_WITHIN_INF l' = lp_has LP_WITHIN_INF l" "lp_has LP_WITHIN_THR l' = lp_has LP_WITHIN_THR l"
    "lp_inference l' = lp_inference l"
    by (simp_all add: l'_def)
  ultimately show ?thesis using f
    by (intro exI [of _ l'] exI [of _ w]) (simp add: l'_def w_def)
qed

interpretation lp: cong_control tcp_lp_cong_avoid "\<lambda>_ _. True" tcp_reno_ssthresh "\<lambda>_. True"
proof (unfold_locales, goal_cases)
  case (1 tp k ack rtt in_flight flag)
  show ?case
    using tcp_reno_cong_avoid_step [OF 1(1), of k ack rtt in_flight flag] 1(1)
    by (auto simp: tcp_lp_cong_avoid_def window_step_def)
qed simp

section \<open>Properties\<close>

text \<open>
  \<open>tcp_lp_pkts_acked\<close> returns on every state (it never divides by the estimated remote
  clock rate when that is zero), and what it does to the window is one of three things: nothing
  within the delay threshold; otherwise the drop time is recorded and the window is cut to one
  segment inside an inference, to half (at least one) outside.
\<close>

theorem tcp_lp_window_cuts:
  "\<exists>tp'. tcp_lp_pkts_acked k n kt tp = Some tp' \<and>
     (snd_cwnd tp' = snd_cwnd tp \<and> lp_last_drop (icsk_ca_priv tp') = lp_last_drop (icsk_ca_priv tp) \<or>
      lp_last_drop (icsk_ca_priv tp') = tcp_time_stamp k \<and>
        snd_cwnd tp' = (if lp_has LP_WITHIN_INF (icsk_ca_priv tp') then 1 else max (drop_bit 1 (snd_cwnd tp)) 1))"
proof -
  obtain l w where "tcp_lp_pkts_acked k n kt tp = Some (tp\<lparr>snd_cwnd := w, icsk_ca_priv := l\<rparr>)"
    "if lp_has LP_WITHIN_THR l then w = snd_cwnd tp \<and> lp_last_drop l = lp_last_drop (icsk_ca_priv tp)
     else w = (if lp_has LP_WITHIN_INF l then 1 else max (drop_bit 1 (snd_cwnd tp)) 1) \<and>
       lp_last_drop l = tcp_time_stamp k"
    using tcp_lp_pkts_acked_result [of k n kt tp] by blast
  then show ?thesis by (cases "lp_has LP_WITHIN_THR l") simp_all
qed

text \<open>
  No growth inside an inference: when the last drop is less than three round trip
  times (as the time stamps show them) before this acknowledgement, the acknowledgement leaves
  the window unchanged or cuts it to one segment, and the \<open>cong_avoid\<close> calls that follow it,
  whatever their arguments, change nothing.
\<close>

theorem tcp_lp_no_growth_in_inference:
  assumes "lp_last_drop (icsk_ca_priv tp) \<noteq> 0" "rcv_tsecr tp < tcp_time_stamp k"
    and "tcp_time_stamp k - lp_last_drop (icsk_ca_priv tp) < 3 * (tcp_time_stamp k - rcv_tsecr tp)"
  shows "\<exists>tp'. tcp_lp_pkts_acked k n kt tp = Some tp' \<and>
    (snd_cwnd tp' = snd_cwnd tp \<or> snd_cwnd tp' = 1) \<and>
    run_acks tcp_lp_cong_avoid as tp' = Some tp'"
proof -
  obtain l w where r: "tcp_lp_pkts_acked k n kt tp = Some (tp\<lparr>snd_cwnd := w, icsk_ca_priv := l\<rparr>)"
    "lp_has LP_WITHIN_INF l \<longleftrightarrow> lp_last_drop (icsk_ca_priv tp) \<noteq> 0 \<and>
       tcp_time_stamp k - lp_last_drop (icsk_ca_priv tp) < lp_inference l"
    "if lp_has LP_WITHIN_THR l then w = snd_cwnd tp \<and> lp_last_drop l = lp_last_drop (icsk_ca_priv tp)
     else w = (if lp_has LP_WITHIN_INF l then 1 else max (drop_bit 1 (snd_cwnd tp)) 1) \<and>
       lp_last_drop l = tcp_time_stamp k"
    "rcv_tsecr tp < tcp_time_stamp k \<longrightarrow> lp_inference l = 3 * (tcp_time_stamp k - rcv_tsecr tp)"
    using tcp_lp_pkts_acked_result [of k n kt tp] by blast
  define tp' where "tp' = tp\<lparr>snd_cwnd := w, icsk_ca_priv := l\<rparr>"
  have tp': "tcp_lp_pkts_acked k n kt tp = Some tp'" "lp_has LP_WITHIN_INF (icsk_ca_priv tp')"
    "snd_cwnd tp' = snd_cwnd tp \<or> snd_cwnd tp' = 1"
    using r assms by (simp_all add: tp'_def split: if_split_asm)
  have "run_acks tcp_lp_cong_avoid as tp' = Some tp'"
    using tp'(2)
    by (induction tcp_lp_cong_avoid as tp' rule: run_acks.induct) (auto simp: tcp_lp_cong_avoid_def)
  then show ?thesis using tp' by blast
qed

theorem tcp_lp_no_growth_in_inference_witness:
  "\<exists>tp'. tcp_lp_pkts_acked ex_kernel 1 0 ((ex_sock (icsk_ca_priv (the (tcp_lp_init ex_kernel (ex_sock undefined)))))
       \<lparr>icsk_ca_priv := (icsk_ca_priv (the (tcp_lp_init ex_kernel (ex_sock undefined))))\<lparr>lp_last_drop := 19800\<rparr>\<rparr>) = Some tp' \<and>
     run_acks tcp_lp_cong_avoid [(ex_kernel, 0, 0, 100, 0)] tp' = Some tp'"
proof -
  let ?tp = "(ex_sock (icsk_ca_priv (the (tcp_lp_init ex_kernel (ex_sock undefined)))))
       \<lparr>icsk_ca_priv := (icsk_ca_priv (the (tcp_lp_init ex_kernel (ex_sock undefined))))\<lparr>lp_last_drop := 19800\<rparr>\<rparr>"
  have h: "lp_last_drop (icsk_ca_priv ?tp) \<noteq> 0" "rcv_tsecr ?tp < tcp_time_stamp ex_kernel"
    "tcp_time_stamp ex_kernel - lp_last_drop (icsk_ca_priv ?tp) < 3 * (tcp_time_stamp ex_kernel - rcv_tsecr ?tp)"
    by (simp_all add: ex_defs tcp_lp_init_def)
  show ?thesis using tcp_lp_no_growth_in_inference [OF h] by blast
qed

end
