(* ===== verification/Tcp_Vegas.thy ===== *)
theory Tcp_Vegas
  imports Tcp_Cong
begin

text \<open>
  \<open>tcp/linux/src/tcp_vegas.c\<close> and \<open>tcp_vegas.h\<close>, TCP Vegas: once per round trip the window moves by
  at most one segment, by the difference between the expected and the actual rate. YeAH embeds the
  structure \<open>vegas\<close>, so the sampling functions are stated on it. The lemmas show that the minimal
  round trip time stays a usable divisor and that the module keeps the contract of \<open>Tcp_Cong\<close> on
  clamps of at least two segments. \<open>tcp_vegas_get_info\<close> has an empty body.
\<close>

section \<open>State\<close>

definition V_PARAM_SHIFT :: nat where "V_PARAM_SHIFT = 1"

record vegas_params =
  vegas_alpha :: cint
  vegas_beta :: cint
  vegas_gamma :: cint

definition vegas_defaults :: vegas_params where
  "vegas_defaults = \<lparr>vegas_alpha = push_bit V_PARAM_SHIFT 2, vegas_beta = push_bit V_PARAM_SHIFT 4,
     vegas_gamma = push_bit V_PARAM_SHIFT 1\<rparr>"

record vegas =
  beg_snd_nxt :: u32
  beg_snd_una :: u32
  beg_snd_cwnd :: u32
  doing_vegas_now :: bool
  cntRTT :: u16
  minRTT :: u32
  baseRTT :: u32

section \<open>Sampling\<close>

definition vegas_enable :: "u32 \<Rightarrow> vegas \<Rightarrow> vegas" where
  "vegas_enable nxt v = v\<lparr>doing_vegas_now := True, beg_snd_nxt := nxt, cntRTT := 0, minRTT := 0x7fffffff\<rparr>"

definition vegas_disable :: "vegas \<Rightarrow> vegas" where
  "vegas_disable v = v\<lparr>doing_vegas_now := False\<rparr>"

definition vegas_init :: "u32 \<Rightarrow> vegas \<Rightarrow> vegas" where
  "vegas_init nxt v = vegas_enable nxt (v\<lparr>baseRTT := 0x7fffffff\<rparr>)"

definition vegas_pkts_acked :: "kernel \<Rightarrow> s64 \<Rightarrow> vegas \<Rightarrow> vegas" where
  "vegas_pkts_acked k kt v =
     (if ktime_equal kt net_invalid_timestamp then v
      else
        let vrtt = ktime_to_us (net_timedelta k kt) + 1;
            v = (if vrtt < baseRTT v then v\<lparr>baseRTT := vrtt\<rparr> else v)
        in v\<lparr>minRTT := min (minRTT v) vrtt, cntRTT := cntRTT v + 1\<rparr>)"

definition vegas_state :: "u32 \<Rightarrow> u8 \<Rightarrow> vegas \<Rightarrow> vegas" where
  "vegas_state nxt ca_state v =
     (if ca_state = TCP_CA_Open then vegas_enable nxt v else vegas_disable v)"

definition vegas_cwnd_event :: "u32 \<Rightarrow> tcp_ca_event \<Rightarrow> vegas \<Rightarrow> vegas" where
  "vegas_cwnd_event nxt event v =
     (if event = CA_EVENT_CWND_RESTART \<or> event = CA_EVENT_TX_START then vegas_init nxt v else v)"

section \<open>The operations\<close>

definition tcp_vegas_init :: "kernel \<Rightarrow> vegas tcp_sock \<Rightarrow> vegas tcp_sock option" where
  "tcp_vegas_init k tp = Some (tp\<lparr>icsk_ca_priv := vegas_init (snd_nxt tp) (icsk_ca_priv tp)\<rparr>)"

definition tcp_vegas_pkts_acked :: "kernel \<Rightarrow> u32 \<Rightarrow> s64 \<Rightarrow> vegas tcp_sock \<Rightarrow> vegas tcp_sock option" where
  "tcp_vegas_pkts_acked k cnt kt tp = Some (tp\<lparr>icsk_ca_priv := vegas_pkts_acked k kt (icsk_ca_priv tp)\<rparr>)"

definition tcp_vegas_state :: "kernel \<Rightarrow> u8 \<Rightarrow> vegas tcp_sock \<Rightarrow> vegas tcp_sock option" where
  "tcp_vegas_state k ca_state tp =
     Some (tp\<lparr>icsk_ca_priv := vegas_state (snd_nxt tp) ca_state (icsk_ca_priv tp)\<rparr>)"

definition tcp_vegas_cwnd_event ::
  "kernel \<Rightarrow> tcp_ca_event \<Rightarrow> vegas tcp_sock \<Rightarrow> vegas tcp_sock option" where
  "tcp_vegas_cwnd_event k event tp =
     Some (tp\<lparr>icsk_ca_priv := vegas_cwnd_event (snd_nxt tp) event (icsk_ca_priv tp)\<rparr>)"

text \<open>The window at the end of a round trip with enough samples: \<open>old_wnd\<close> segments were sent in
  it, \<open>old_snd_cwnd\<close> was the window at its start.\<close>

definition vegas_target_cwnd :: "u32 \<Rightarrow> vegas \<Rightarrow> u32 option" where
  "vegas_target_cwnd old_wnd v = udiv (push_bit V_PARAM_SHIFT (old_wnd * baseRTT v)) (minRTT v)"

definition vegas_next_cwnd :: "vegas_params \<Rightarrow> u32 \<Rightarrow> u32 \<Rightarrow> u32" where
  "vegas_next_cwnd p diff old_snd_cwnd =
     (if scast (vegas_beta p) < diff then old_snd_cwnd - 1
      else if diff < scast (vegas_alpha p) then old_snd_cwnd + 1
      else old_snd_cwnd)"

definition vegas_toward :: "u32 \<Rightarrow> vegas tcp_sock \<Rightarrow> vegas tcp_sock" where
  "vegas_toward next_snd_cwnd tp =
     (if snd_cwnd tp < next_snd_cwnd then tp\<lparr>snd_cwnd := snd_cwnd tp + 1\<rparr>
      else if next_snd_cwnd < snd_cwnd tp then tp\<lparr>snd_cwnd := snd_cwnd tp - 1\<rparr>
      else tp)"

definition vegas_bound :: "'ca tcp_sock \<Rightarrow> 'ca tcp_sock" where
  "vegas_bound tp =
     (if snd_cwnd tp < 2 then tp\<lparr>snd_cwnd := 2\<rparr>
      else if ucast (snd_cwnd_clamp tp) < snd_cwnd tp then tp\<lparr>snd_cwnd := ucast (snd_cwnd_clamp tp)\<rparr>
      else tp)"

definition vegas_adjust ::
  "vegas_params \<Rightarrow> kernel \<Rightarrow> u32 \<Rightarrow> u32 \<Rightarrow> vegas tcp_sock \<Rightarrow> vegas tcp_sock option" where
  "vegas_adjust p k old_wnd old_snd_cwnd tp = do {
     target_cwnd \<leftarrow> vegas_target_cwnd old_wnd (icsk_ca_priv tp);
     let diff = push_bit V_PARAM_SHIFT old_wnd - target_cwnd;
     tp \<leftarrow> (if snd_cwnd tp \<le> snd_ssthresh tp
            then tcp_slow_start k
              (if scast (vegas_gamma p) < diff
               then tp\<lparr>snd_ssthresh := 2, snd_cwnd := min (snd_cwnd tp) (drop_bit V_PARAM_SHIFT target_cwnd + 1)\<rparr>
               else tp)
            else Some (vegas_toward (vegas_next_cwnd p diff old_snd_cwnd) tp));
     Some (vegas_bound tp)
   }"

definition tcp_vegas_cong_avoid ::
  "vegas_params \<Rightarrow> kernel \<Rightarrow> u32 \<Rightarrow> u32 \<Rightarrow> u32 \<Rightarrow> cint \<Rightarrow> vegas tcp_sock \<Rightarrow> vegas tcp_sock option" where
  "tcp_vegas_cong_avoid p k ack seq_rtt in_flight flag tp =
     (let v = icsk_ca_priv tp in
      if \<not> doing_vegas_now v then tcp_reno_cong_avoid k ack seq_rtt in_flight flag tp
      else if after ack (beg_snd_nxt v) then do {
        old_wnd \<leftarrow> udiv (beg_snd_nxt v - beg_snd_una v) (mss_cache tp);
        let old_snd_cwnd = beg_snd_cwnd v;
        let tp = tp\<lparr>icsk_ca_priv := v\<lparr>beg_snd_una := beg_snd_nxt v, beg_snd_nxt := snd_nxt tp,
                                        beg_snd_cwnd := snd_cwnd tp\<rparr>\<rparr>;
        tp \<leftarrow> (if cntRTT v \<le> 2 then tcp_reno_cong_avoid k ack seq_rtt in_flight flag tp
               else vegas_adjust p k old_wnd old_snd_cwnd tp);
        Some (tp\<lparr>icsk_ca_priv := (icsk_ca_priv tp)\<lparr>cntRTT := 0, minRTT := 0x7fffffff\<rparr>\<rparr>)
      }
      else if snd_cwnd tp \<le> snd_ssthresh tp then tcp_slow_start k tp
      else Some tp)"

definition tcp_vegas :: "vegas_params \<Rightarrow> vegas tcp_congestion_ops" where
  "tcp_vegas p = null_ops\<lparr>ops_flags := TCP_CONG_RTT_STAMP, ops_init := Some tcp_vegas_init,
     ops_ssthresh := Some tcp_reno_ssthresh, ops_cong_avoid := Some (tcp_vegas_cong_avoid p),
     ops_min_cwnd := Some tcp_reno_min_cwnd, ops_pkts_acked := Some tcp_vegas_pkts_acked,
     ops_set_state := Some tcp_vegas_state, ops_cwnd_event := Some tcp_vegas_cwnd_event,
     ops_name := ''vegas''\<rparr>"

section \<open>The minimal round trip time is never zero\<close>

text \<open>\<open>vegas_inv\<close>: both minima are at least one microsecond; \<open>sample_ok\<close>: the acknowledged segment
  was not sent in the future.\<close>

definition vegas_inv :: "vegas \<Rightarrow> bool" where
  "vegas_inv v \<longleftrightarrow> minRTT v \<noteq> 0 \<and> baseRTT v \<noteq> 0"

definition sample_ok :: "kernel \<Rightarrow> s64 \<Rightarrow> bool" where
  "sample_ok k kt \<longleftrightarrow> ktime_to_us (net_timedelta k kt) \<noteq> - 1"

lemma vegas_ops_inv:
  "vegas_inv v \<Longrightarrow> sample_ok k kt \<Longrightarrow> vegas_inv (vegas_pkts_acked k kt v)"
  "vegas_inv (vegas_init nxt v)" "vegas_inv v \<Longrightarrow> vegas_inv (vegas_state nxt s v)"
  "vegas_inv v \<Longrightarrow> vegas_inv (vegas_cwnd_event nxt e v)"
  by (auto simp: vegas_inv_def sample_ok_def vegas_pkts_acked_def vegas_init_def vegas_enable_def
      vegas_disable_def vegas_state_def vegas_cwnd_event_def Let_def min_def
      eq_neg_iff_add_eq_0)

section \<open>Vegas keeps the contract\<close>

definition vegas_env :: "kernel \<Rightarrow> 'ca tcp_sock \<Rightarrow> bool" where
  "vegas_env k tp \<longleftrightarrow> 2 \<le> snd_cwnd_clamp tp"

lemma vegas_bound_ok:
  assumes "2 \<le> snd_cwnd_clamp tp"
  shows "window_ok (vegas_bound tp)" "same_path tp (vegas_bound tp)"
    "icsk_ca_priv (vegas_bound tp) = icsk_ca_priv tp"
  using assms by (auto simp: vegas_bound_def window_ok_def word_order_nat same_path_def)

lemma vegas_adjust_ok:
  assumes "window_ok tp" "2 \<le> snd_cwnd_clamp tp" "vegas_inv (icsk_ca_priv tp)"
  shows "\<exists>tp'. vegas_adjust p k old_wnd old_snd_cwnd tp = Some tp' \<and> window_step tp tp' \<and>
    icsk_ca_priv tp' = icsk_ca_priv tp"
proof -
  obtain t where t: "vegas_target_cwnd old_wnd (icsk_ca_priv tp) = Some t"
    using assms(3) by (auto simp: vegas_target_cwnd_def vegas_inv_def)
  define d where "d = push_bit V_PARAM_SHIFT old_wnd - t"
  define tp0 where "tp0 = (if scast (vegas_gamma p) < d
    then tp\<lparr>snd_ssthresh := 2, snd_cwnd := min (snd_cwnd tp) (drop_bit V_PARAM_SHIFT t + 1)\<rparr> else tp)"
  have "unat t div 2 < 2 ^ 63" using unat_bound [of t] by (intro less_mult_imp_div_less) simp
  then have "unat (drop_bit V_PARAM_SHIFT t + 1) = unat t div 2 + 1"
    using unat_add_no_wrap [of "drop_bit V_PARAM_SHIFT t" 1] by (simp add: V_PARAM_SHIFT_def unat_shiftr)
  then have "0 < drop_bit V_PARAM_SHIFT t + 1" by (simp add: word_less_nat_alt)
  then have 0: "window_ok tp0" "same_path tp tp0" "icsk_ca_priv tp0 = icsk_ca_priv tp"
    using assms(1) by (auto simp: tp0_def window_ok_def min_def)
  obtain tp1 where 1: "tcp_slow_start k tp0 = Some tp1" "window_step tp0 tp1"
    "icsk_ca_priv tp1 = icsk_ca_priv tp0" using tcp_slow_start_step [OF 0(1)] by blast
  define tp2 where "tp2 = (if snd_cwnd tp \<le> snd_ssthresh tp then tp1
    else vegas_toward (vegas_next_cwnd p d old_snd_cwnd) tp)"
  have 2: "same_path tp tp2" "icsk_ca_priv tp2 = icsk_ca_priv tp"
    using 0 1 by (auto simp: tp2_def vegas_toward_def window_step_def intro: same_path_trans)
  have "vegas_adjust p k old_wnd old_snd_cwnd tp = Some (vegas_bound tp2)"
    using 1(1) by (simp add: vegas_adjust_def t tp2_def Let_def flip: d_def tp0_def)
  moreover have "2 \<le> snd_cwnd_clamp tp2" using 2(1) assms(2) by (simp add: same_path_def)
  ultimately show ?thesis
    using 2 vegas_bound_ok [of tp2] by (auto simp: window_step_def intro: same_path_trans)
qed

lemma tcp_vegas_cong_avoid_step:
  assumes "window_ok tp" "0 < mss_cache tp" "vegas_env k tp" "vegas_inv (icsk_ca_priv tp)"
  shows "\<exists>tp'. tcp_vegas_cong_avoid p k ack seq_rtt in_flight flag tp = Some tp' \<and> window_step tp tp' \<and>
    vegas_inv (icsk_ca_priv tp')"
proof -
  let ?v = "icsk_ca_priv tp"
  consider (reno) "\<not> doing_vegas_now ?v" | (round) "doing_vegas_now ?v" "after ack (beg_snd_nxt ?v)"
    | (slow) "doing_vegas_now ?v" "\<not> after ack (beg_snd_nxt ?v)" "snd_cwnd tp \<le> snd_ssthresh tp"
    | (idle) "doing_vegas_now ?v" "\<not> after ack (beg_snd_nxt ?v)" "\<not> snd_cwnd tp \<le> snd_ssthresh tp"
    by blast
  then show ?thesis
  proof cases
    case reno
    then show ?thesis using tcp_reno_cong_avoid_step [OF assms(1)] assms(4)
      by (simp add: tcp_vegas_cong_avoid_def) metis
  next
    case slow
    then show ?thesis using tcp_slow_start_step [OF assms(1)] assms(4)
      by (simp add: tcp_vegas_cong_avoid_def) metis
  next
    case idle
    then show ?thesis using assms by (simp add: tcp_vegas_cong_avoid_def window_step_refl)
  next
    case round
    define v1 where "v1 = ?v\<lparr>beg_snd_una := beg_snd_nxt ?v, beg_snd_nxt := snd_nxt tp, beg_snd_cwnd := snd_cwnd tp\<rparr>"
    let ?tp = "tp\<lparr>icsk_ca_priv := v1\<rparr>"
    have v1: "vegas_inv v1" using assms(4) by (simp add: v1_def vegas_inv_def)
    obtain q where q: "udiv (beg_snd_nxt ?v - beg_snd_una ?v) (mss_cache tp) = Some q"
      using assms(2) by (simp add: word_gt_0)
    have w: "window_ok ?tp" using assms(1) by simp
    obtain tp1 where 1: "(if cntRTT ?v \<le> 2 then tcp_reno_cong_avoid k ack seq_rtt in_flight flag ?tp
        else vegas_adjust p k q (beg_snd_cwnd ?v) ?tp) = Some tp1" "window_step ?tp tp1" "icsk_ca_priv tp1 = v1"
      using tcp_reno_cong_avoid_step [OF w, of k ack seq_rtt in_flight flag]
        vegas_adjust_ok [OF w, of p k q "beg_snd_cwnd ?v"] assms(3) v1
      by (cases "cntRTT ?v \<le> 2") (auto simp: vegas_env_def)
    then show ?thesis
      using round v1 by (simp add: tcp_vegas_cong_avoid_def q Let_def window_step_def flip: v1_def)
        (simp add: vegas_inv_def)
  qed
qed

interpretation vegas: cong_control "tcp_vegas_cong_avoid p" vegas_env tcp_reno_ssthresh vegas_inv for p
proof (unfold_locales, goal_cases)
  case (1 tp k ack rtt in_flight flag)
  show ?case by (rule tcp_vegas_cong_avoid_step [OF 1])
next
  case (2 k tp tp')
  then show ?case by (simp add: vegas_env_def same_path_def)
next
  case (3 tp k)
  show ?case
    by (rule ssthresh_ok_max [where x = "drop_bit 1 (snd_cwnd tp)" and ca = "icsk_ca_priv tp"])
      (use 3(2) in \<open>simp_all add: tcp_reno_ssthresh_def word_le_nat_alt unat_shiftr\<close>)
qed

section \<open>Properties\<close>

text \<open>
  Vegas samples cannot break it: from initialisation on, any sequence of round trip
  time samples of segments sent in the past leaves both minima positive, so that the division by
  the minimal round trip time never faults.
\<close>

theorem vegas_minima_positive:
  assumes "\<forall>kt\<in>set kts. ktime_to_us (net_timedelta k kt) \<noteq> - 1"
  shows "minRTT (fold (vegas_pkts_acked k) kts (vegas_init nxt v)) \<noteq> 0 \<and>
    baseRTT (fold (vegas_pkts_acked k) kts (vegas_init nxt v)) \<noteq> 0 \<and>
    vegas_target_cwnd w (fold (vegas_pkts_acked k) kts (vegas_init nxt v)) \<noteq> None"
proof -
  have "vegas_inv v' \<Longrightarrow> vegas_inv (fold (vegas_pkts_acked k) kts v')" for v'
    using assms by (induction kts arbitrary: v') (simp_all add: vegas_ops_inv sample_ok_def)
  then have "vegas_inv (fold (vegas_pkts_acked k) kts (vegas_init nxt v))" by (simp add: vegas_ops_inv)
  then show ?thesis by (simp add: vegas_inv_def vegas_target_cwnd_def)
qed

definition ex_vegas :: vegas where
  "ex_vegas = vegas_init 9000 \<lparr>beg_snd_nxt = 0, beg_snd_una = 0, beg_snd_cwnd = 0, doing_vegas_now = False,
     cntRTT = 0, minRTT = 0, baseRTT = 0\<rparr>"

theorem vegas_minima_positive_witness:
  "minRTT (fold (vegas_pkts_acked ex_kernel) [19000000000, 19900000000] (vegas_init 0 ex_vegas)) \<noteq> 0"
proof -
  have "\<forall>kt\<in>set [19000000000, 19900000000]. ktime_to_us (net_timedelta ex_kernel kt) \<noteq> - 1"
    by (simp add: ktime_to_us_def net_timedelta_def ex_kernel_def)
  from vegas_minima_positive [OF this] show ?thesis by blast
qed

text \<open>
  Once per round trip Vegas moves the window by at most one segment in congestion
  avoidance: with enough samples and a window within [2, clamp], the new window differs from the
  old by at most one and stays within [2, clamp], and the threshold is not touched.
\<close>

theorem vegas_moves_by_one:
  assumes "minRTT (icsk_ca_priv tp) \<noteq> 0" "snd_ssthresh tp < snd_cwnd tp"
    and "2 \<le> snd_cwnd tp" "snd_cwnd tp \<le> ucast (snd_cwnd_clamp tp)"
  shows "\<exists>tp'. vegas_adjust p k old_wnd old_snd_cwnd tp = Some tp' \<and>
    unat (snd_cwnd tp') \<le> Suc (unat (snd_cwnd tp)) \<and> unat (snd_cwnd tp) \<le> Suc (unat (snd_cwnd tp')) \<and>
    2 \<le> snd_cwnd tp' \<and> snd_cwnd tp' \<le> ucast (snd_cwnd_clamp tp) \<and> snd_ssthresh tp' = snd_ssthresh tp"
proof -
  obtain t where t: "vegas_target_cwnd old_wnd (icsk_ca_priv tp) = Some t"
    using assms(1) by (auto simp: vegas_target_cwnd_def)
  define n where "n = vegas_next_cwnd p (push_bit V_PARAM_SHIFT old_wnd - t) old_snd_cwnd"
  have eq: "vegas_adjust p k old_wnd old_snd_cwnd tp = Some (vegas_bound (vegas_toward n tp))"
    using leD [OF assms(2) [THEN less_imp_le]] not_le [THEN iffD2, OF assms(2)]
    by (simp add: vegas_adjust_def t Let_def n_def)
  have o: "2 \<le> unat (snd_cwnd tp)" "unat (snd_cwnd tp) \<le> unat (snd_cwnd_clamp tp)"
    using assms(3,4) by (simp_all add: word_le_nat_alt)
  have up: "unat (snd_cwnd tp + 1) = Suc (unat (snd_cwnd tp))" if "snd_cwnd tp < n"
    using unat_Suc_below [OF that] .
  have down: "unat (snd_cwnd tp - 1) = unat (snd_cwnd tp) - 1"
    using o(1) by (subst unat_sub) (simp_all add: word_le_nat_alt)
  consider "snd_cwnd tp < n" | "n < snd_cwnd tp" | "snd_cwnd tp = n" by force
  then show ?thesis
  proof cases
    case 1
    then show ?thesis using up o by (auto simp: eq vegas_toward_def vegas_bound_def word_order_nat)
  next
    case 2
    then show ?thesis using down o
      by (auto simp: eq vegas_toward_def vegas_bound_def word_order_nat)
  next
    case 3
    then show ?thesis using o by (auto simp: eq vegas_toward_def vegas_bound_def word_order_nat)
  qed
qed

theorem vegas_moves_by_one_witness:
  "\<exists>tp'. vegas_adjust vegas_defaults ex_kernel 40 40 (ex_sock ex_vegas) = Some tp' \<and>
    2 \<le> snd_cwnd tp' \<and> unat (snd_cwnd tp') \<le> 41"
proof -
  have h: "minRTT (icsk_ca_priv (ex_sock ex_vegas)) \<noteq> 0" "snd_ssthresh (ex_sock ex_vegas) < snd_cwnd (ex_sock ex_vegas)"
    "2 \<le> snd_cwnd (ex_sock ex_vegas)" "snd_cwnd (ex_sock ex_vegas) \<le> ucast (snd_cwnd_clamp (ex_sock ex_vegas))"
    by (simp_all add: ex_sock_def ex_vegas_def vegas_init_def vegas_enable_def)
  show ?thesis using vegas_moves_by_one [OF h, of vegas_defaults ex_kernel 40 40] by (auto simp: ex_sock_def)
qed

end
