(* ===== verification/Tcp_Veno.thy ===== *)
theory Tcp_Veno
  imports Tcp_Vegas
begin

text \<open>
  \<open>tcp/linux/src/tcp_veno.c\<close>, TCP Veno: Reno whose increase and decrease are halved while the
  Vegas estimate of the queue says that losses are not due to congestion. It samples round trip
  times as Vegas does and bounds its window the same way (\<open>vegas_bound\<close>). The lemmas show that it
  keeps the contract of \<open>Tcp_Cong\<close> on clamps of at least two segments.
\<close>

section \<open>The module\<close>

definition veno_beta :: u32 where "veno_beta = push_bit V_PARAM_SHIFT 3"

record veno =
  doing_veno_now :: bool
  cntrtt :: u16
  minrtt :: u32
  basertt :: u32
  veno_inc :: u32
  veno_diff :: u32

definition veno_enable :: "veno \<Rightarrow> veno" where
  "veno_enable v = v\<lparr>doing_veno_now := True, minrtt := 0x7fffffff\<rparr>"

definition veno_disable :: "veno \<Rightarrow> veno" where
  "veno_disable v = v\<lparr>doing_veno_now := False\<rparr>"

definition tcp_veno_init :: "kernel \<Rightarrow> veno tcp_sock \<Rightarrow> veno tcp_sock option" where
  "tcp_veno_init k tp = Some (tp\<lparr>icsk_ca_priv :=
     veno_enable ((icsk_ca_priv tp)\<lparr>basertt := 0x7fffffff, veno_inc := 1\<rparr>)\<rparr>)"

definition tcp_veno_pkts_acked :: "kernel \<Rightarrow> u32 \<Rightarrow> s64 \<Rightarrow> veno tcp_sock \<Rightarrow> veno tcp_sock option" where
  "tcp_veno_pkts_acked k cnt kt tp = Some
     (if ktime_equal kt net_invalid_timestamp then tp
      else
        let v = icsk_ca_priv tp;
            vrtt = ktime_to_us (net_timedelta k kt) + 1;
            v = (if vrtt < basertt v then v\<lparr>basertt := vrtt\<rparr> else v)
        in tp\<lparr>icsk_ca_priv := v\<lparr>minrtt := min (minrtt v) vrtt, cntrtt := cntrtt v + 1\<rparr>\<rparr>)"

definition tcp_veno_state :: "kernel \<Rightarrow> u8 \<Rightarrow> veno tcp_sock \<Rightarrow> veno tcp_sock option" where
  "tcp_veno_state k ca_state tp = Some (tp\<lparr>icsk_ca_priv :=
     (if ca_state = TCP_CA_Open then veno_enable (icsk_ca_priv tp) else veno_disable (icsk_ca_priv tp))\<rparr>)"

definition tcp_veno_cwnd_event :: "kernel \<Rightarrow> tcp_ca_event \<Rightarrow> veno tcp_sock \<Rightarrow> veno tcp_sock option" where
  "tcp_veno_cwnd_event k event tp =
     (if event = CA_EVENT_CWND_RESTART \<or> event = CA_EVENT_TX_START then tcp_veno_init k tp else Some tp)"

text \<open>Congestion avoidance: every round trip in the non-congestive state, every other one in the
  congestive state, where \<open>inc\<close> alternates.\<close>

definition veno_avoid :: "veno tcp_sock \<Rightarrow> veno tcp_sock" where
  "veno_avoid tp =
     (let v = icsk_ca_priv tp in
      if veno_diff v < veno_beta then cong_avoid_ai (snd_cwnd tp) tp
      else if snd_cwnd tp \<le> ucast (snd_cwnd_cnt tp) then
        (if veno_inc v \<noteq> 0 \<and> snd_cwnd tp < ucast (snd_cwnd_clamp tp)
         then tp\<lparr>snd_cwnd := snd_cwnd tp + 1, snd_cwnd_cnt := 0, icsk_ca_priv := v\<lparr>veno_inc := 0\<rparr>\<rparr>
         else tp\<lparr>snd_cwnd_cnt := 0, icsk_ca_priv := v\<lparr>veno_inc := 1\<rparr>\<rparr>)
      else tp\<lparr>snd_cwnd_cnt := snd_cwnd_cnt tp + 1\<rparr>)"

text \<open>The calculation with enough samples.\<close>

definition veno_adjust :: "kernel \<Rightarrow> veno tcp_sock \<Rightarrow> veno tcp_sock option" where
  "veno_adjust k tp = do {
     let v = icsk_ca_priv tp;
     target_cwnd \<leftarrow> udiv (push_bit V_PARAM_SHIFT (snd_cwnd tp * basertt v)) (minrtt v);
     let tp = tp\<lparr>icsk_ca_priv := v\<lparr>veno_diff := push_bit V_PARAM_SHIFT (snd_cwnd tp) - target_cwnd\<rparr>\<rparr>;
     tp \<leftarrow> (if snd_cwnd tp \<le> snd_ssthresh tp then tcp_slow_start k tp else Some (veno_avoid tp));
     Some (vegas_bound tp)
   }"

definition tcp_veno_cong_avoid ::
  "kernel \<Rightarrow> u32 \<Rightarrow> u32 \<Rightarrow> u32 \<Rightarrow> cint \<Rightarrow> veno tcp_sock \<Rightarrow> veno tcp_sock option" where
  "tcp_veno_cong_avoid k ack seq_rtt in_flight flag tp =
     (let v = icsk_ca_priv tp in
      if \<not> doing_veno_now v then tcp_reno_cong_avoid k ack seq_rtt in_flight flag tp
      else if \<not> tcp_is_cwnd_limited tp in_flight then Some tp
      else do {
        tp \<leftarrow> (if cntrtt v \<le> 2 then tcp_reno_cong_avoid k ack seq_rtt in_flight flag tp
               else veno_adjust k tp);
        Some (tp\<lparr>icsk_ca_priv := (icsk_ca_priv tp)\<lparr>minrtt := 0x7fffffff\<rparr>\<rparr>)
      })"

definition tcp_veno_ssthresh :: "kernel \<Rightarrow> veno tcp_sock \<Rightarrow> (u32 \<times> veno tcp_sock) option" where
  "tcp_veno_ssthresh k tp = Some
     ((if veno_diff (icsk_ca_priv tp) < veno_beta then max (snd_cwnd tp * 4 div 5) 2
       else max (drop_bit 1 (snd_cwnd tp)) 2), tp)"

definition tcp_veno :: "veno tcp_congestion_ops" where
  "tcp_veno = null_ops\<lparr>ops_flags := TCP_CONG_RTT_STAMP, ops_init := Some tcp_veno_init,
     ops_ssthresh := Some tcp_veno_ssthresh, ops_cong_avoid := Some tcp_veno_cong_avoid,
     ops_pkts_acked := Some tcp_veno_pkts_acked, ops_set_state := Some tcp_veno_state,
     ops_cwnd_event := Some tcp_veno_cwnd_event, ops_name := ''veno''\<rparr>"

section \<open>Veno keeps the contract\<close>

definition veno_inv :: "veno \<Rightarrow> bool" where
  "veno_inv v \<longleftrightarrow> minrtt v \<noteq> 0"

lemma veno_avoid_ok:
  assumes "window_ok tp"
  shows "same_path tp (veno_avoid tp)" "window_ok (veno_avoid tp)"
proof -
  note ai = cong_avoid_ai_step [OF assms, of "snd_cwnd tp"]
  have inc: "window_ok (tp\<lparr>snd_cwnd := snd_cwnd tp + 1\<rparr>)" if "snd_cwnd tp < ucast (snd_cwnd_clamp tp)"
    using cwnd_increment_window(1) [OF assms] that by (simp add: cwnd_increment_def)
  show "same_path tp (veno_avoid tp)" using ai by (simp add: veno_avoid_def Let_def window_step_def)
  show "window_ok (veno_avoid tp)"
    using ai inc assms by (auto simp: veno_avoid_def Let_def window_step_def window_ok_def)
qed

lemma veno_adjust_ok:
  assumes "window_ok tp" "vegas_env k tp" "veno_inv (icsk_ca_priv tp)"
  shows "\<exists>tp'. veno_adjust k tp = Some tp' \<and> window_step tp tp'"
proof -
  let ?v = "icsk_ca_priv tp"
  define t where "t = push_bit V_PARAM_SHIFT (snd_cwnd tp * basertt ?v) div minrtt ?v"
  have t: "udiv (push_bit V_PARAM_SHIFT (snd_cwnd tp * basertt ?v)) (minrtt ?v) = Some t"
    using assms(3) by (simp add: veno_inv_def t_def)
  define ca where "ca = ?v\<lparr>veno_diff := push_bit V_PARAM_SHIFT (snd_cwnd tp) - t\<rparr>"
  have w1: "window_ok (tp\<lparr>icsk_ca_priv := ca\<rparr>)" using assms(1) by simp
  obtain tp2 where 2: "(if snd_cwnd tp \<le> snd_ssthresh tp then tcp_slow_start k (tp\<lparr>icsk_ca_priv := ca\<rparr>)
      else Some (veno_avoid (tp\<lparr>icsk_ca_priv := ca\<rparr>))) = Some tp2" "same_path tp tp2"
    using tcp_slow_start_step [OF w1, of k] veno_avoid_ok(1) [OF w1]
    by (cases "snd_cwnd tp \<le> snd_ssthresh tp") (auto simp: window_step_def)
  then have "window_step tp (vegas_bound tp2)"
    using vegas_bound_ok [of tp2] assms(2) same_path_trans [OF 2(2)]
    by (auto simp: vegas_env_def same_path_def window_step_def)
  moreover have "veno_adjust k tp = Some (vegas_bound tp2)"
    using 2(1) by (simp add: veno_adjust_def t Let_def flip: ca_def split: if_split_asm)
  ultimately show ?thesis by blast
qed

lemma tcp_veno_cong_avoid_step:
  assumes "window_ok tp" "vegas_env k tp" "veno_inv (icsk_ca_priv tp)"
  shows "\<exists>tp'. tcp_veno_cong_avoid k ack seq_rtt in_flight flag tp = Some tp' \<and> window_step tp tp' \<and>
    veno_inv (icsk_ca_priv tp')"
proof -
  obtain r where r: "tcp_reno_cong_avoid k ack seq_rtt in_flight flag tp = Some r" "window_step tp r"
    "icsk_ca_priv r = icsk_ca_priv tp" using tcp_reno_cong_avoid_step [OF assms(1)] by blast
  obtain a where "veno_adjust k tp = Some a" "window_step tp a" using veno_adjust_ok [OF assms] by blast
  then show ?thesis
    using r assms by (simp add: tcp_veno_cong_avoid_def Let_def window_step_def) (simp add: veno_inv_def)
qed

text \<open>\<open>snd_cwnd * 4 / 5\<close> does not wrap on a window that fits 32 bits.\<close>

lemma veno_four_fifths:
  assumes "unat (w :: u32) < 2 ^ 32"
  shows "unat (w * 4 div 5) = unat w * 4 div 5"
  using assms unat_mult_no_wrap [of w 4] by (simp add: unat_div)

interpretation veno: cong_control tcp_veno_cong_avoid vegas_env tcp_veno_ssthresh veno_inv
proof (unfold_locales, goal_cases)
  case (1 tp k ack rtt in_flight flag)
  show ?case by (rule tcp_veno_cong_avoid_step [OF 1(1,3,4)])
next
  case (2 k tp tp')
  then show ?case by (simp add: vegas_env_def same_path_def)
next
  case (3 tp k)
  define x where "x = (if veno_diff (icsk_ca_priv tp) < veno_beta then snd_cwnd tp * 4 div 5
    else drop_bit 1 (snd_cwnd tp))"
  have "unat (snd_cwnd tp * 4 div 5) \<le> unat (snd_cwnd tp)"
    unfolding veno_four_fifths [OF window_ok_32(1) [OF 3(1)]] by linarith
  then have x: "x \<le> snd_cwnd tp" by (simp add: x_def word_le_nat_alt unat_shiftr del: unat_div)
  show ?case
    by (rule ssthresh_ok_max [where x = x and ca = "icsk_ca_priv tp"])
      (use 3(2) x in \<open>simp_all add: tcp_veno_ssthresh_def x_def\<close>)
qed

section \<open>Properties\<close>

text \<open>
  Veno gives up a fifth of a window below \<open>2 ^ 32\<close> in the non-congestive state and half
  of it in the congestive state, and never goes below two segments.
\<close>

theorem veno_ssthresh_value:
  assumes "unat (snd_cwnd tp) < 2 ^ 32"
  shows "\<exists>v. tcp_veno_ssthresh k tp = Some (v, tp) \<and>
    unat v = max (if unat (veno_diff (icsk_ca_priv tp)) < 6 then unat (snd_cwnd tp) * 4 div 5
                  else unat (snd_cwnd tp) div 2) 2"
proof -
  have "veno_diff (icsk_ca_priv tp) < veno_beta \<longleftrightarrow> unat (veno_diff (icsk_ca_priv tp)) < 6"
    by (simp add: veno_beta_def V_PARAM_SHIFT_def word_less_nat_alt)
  then show ?thesis
    using veno_four_fifths [OF assms] by (simp add: tcp_veno_ssthresh_def unat_max unat_shiftr del: unat_div)
qed

theorem veno_ssthresh_value_witness:
  "\<exists>v. tcp_veno_ssthresh ex_kernel (ex_sock \<lparr>doing_veno_now = True, cntrtt = 3, minrtt = 10, basertt = 10,
     veno_inc = 1, veno_diff = 0\<rparr>) = Some (v, ex_sock \<lparr>doing_veno_now = True, cntrtt = 3, minrtt = 10,
     basertt = 10, veno_inc = 1, veno_diff = 0\<rparr>) \<and> unat v = 32"
proof -
  have "unat (snd_cwnd (ex_sock \<lparr>doing_veno_now = True, cntrtt = 3, minrtt = 10, basertt = 10,
     veno_inc = 1, veno_diff = 0\<rparr>)) < 2 ^ 32" by (simp add: ex_sock_def)
  from veno_ssthresh_value [OF this, of ex_kernel] show ?thesis by (simp add: ex_sock_def)
qed

end
