(* ===== verification/Tcp_Yeah.thy ===== *)
theory Tcp_Yeah
  imports Tcp_Vegas
begin

text \<open>
  \<open>tcp/linux/src/tcp_yeah.c\<close>, YeAH TCP: Scalable growth while the queue it estimates is short,
  Reno growth and early decongestion otherwise. Its private area starts with Vegas's. The
  properties give its threshold, which nothing bounds from below, and show that its Reno mode
  grows past the clamp.
\<close>

section \<open>The module\<close>

definition TCP_YEAH_ALPHA :: u32 where "TCP_YEAH_ALPHA = 80"
definition TCP_YEAH_GAMMA :: u32 where "TCP_YEAH_GAMMA = 1"
definition TCP_YEAH_DELTA :: nat where "TCP_YEAH_DELTA = 3"
definition TCP_YEAH_EPSILON :: nat where "TCP_YEAH_EPSILON = 1"
definition TCP_YEAH_PHY :: u32 where "TCP_YEAH_PHY = 8"
definition TCP_YEAH_RHO :: u32 where "TCP_YEAH_RHO = 16"
definition TCP_YEAH_ZETA :: u32 where "TCP_YEAH_ZETA = 50"
definition YEAH_SCALABLE_AI_CNT :: u32 where "YEAH_SCALABLE_AI_CNT = 100"

lemmas yeah_consts = TCP_YEAH_ALPHA_def TCP_YEAH_GAMMA_def TCP_YEAH_DELTA_def TCP_YEAH_EPSILON_def
  TCP_YEAH_PHY_def TCP_YEAH_RHO_def TCP_YEAH_ZETA_def YEAH_SCALABLE_AI_CNT_def

record yeah =
  yeah_vegas :: vegas
  lastQ :: u32
  doing_reno_now :: u32
  reno_count :: u32
  fast_count :: u32
  yeah_pkts_acked :: u32

definition tcp_yeah_init :: "kernel \<Rightarrow> yeah tcp_sock \<Rightarrow> yeah tcp_sock option" where
  "tcp_yeah_init k tp =
     (let y = icsk_ca_priv tp in
      Some (tp\<lparr>icsk_ca_priv := y\<lparr>yeah_vegas := vegas_init (snd_nxt tp) (yeah_vegas y), doing_reno_now := 0,
                                 lastQ := 0, reno_count := 2\<rparr>,
               snd_cwnd_clamp := ucast (min (ucast (snd_cwnd_clamp tp) :: u32) (0xffffffff div 128))\<rparr>))"

definition tcp_yeah_pkts_acked :: "kernel \<Rightarrow> u32 \<Rightarrow> s64 \<Rightarrow> yeah tcp_sock \<Rightarrow> yeah tcp_sock option" where
  "tcp_yeah_pkts_acked k pkts_acked kt tp =
     (let y = icsk_ca_priv tp;
          y = (if icsk_ca_state tp = TCP_CA_Open then y\<lparr>yeah_pkts_acked := pkts_acked\<rparr> else y)
      in Some (tp\<lparr>icsk_ca_priv := y\<lparr>yeah_vegas := vegas_pkts_acked k kt (yeah_vegas y)\<rparr>\<rparr>))"

definition yeah_state :: "kernel \<Rightarrow> u8 \<Rightarrow> yeah tcp_sock \<Rightarrow> yeah tcp_sock option" where
  "yeah_state k ca_state tp = Some (tp\<lparr>icsk_ca_priv := (icsk_ca_priv tp)
     \<lparr>yeah_vegas := vegas_state (snd_nxt tp) ca_state (yeah_vegas (icsk_ca_priv tp))\<rparr>\<rparr>)"

definition yeah_cwnd_event :: "kernel \<Rightarrow> tcp_ca_event \<Rightarrow> yeah tcp_sock \<Rightarrow> yeah tcp_sock option" where
  "yeah_cwnd_event k event tp = Some (tp\<lparr>icsk_ca_priv := (icsk_ca_priv tp)
     \<lparr>yeah_vegas := vegas_cwnd_event (snd_nxt tp) event (yeah_vegas (icsk_ca_priv tp))\<rparr>\<rparr>)"

text \<open>The growth of \<open>tcp_yeah_cong_avoid\<close>: slow start, Scalable, or Reno.\<close>

definition yeah_scalable :: "yeah tcp_sock \<Rightarrow> yeah tcp_sock" where
  "yeah_scalable tp =
     (let y = icsk_ca_priv tp;
          tp = tp\<lparr>snd_cwnd_cnt := snd_cwnd_cnt tp + ucast (yeah_pkts_acked y)\<rparr>;
          tp = (if min (snd_cwnd tp) YEAH_SCALABLE_AI_CNT < ucast (snd_cwnd_cnt tp)
                then (cwnd_increment tp)\<lparr>snd_cwnd_cnt := 0\<rparr> else tp)
      in tp\<lparr>icsk_ca_priv := y\<lparr>yeah_pkts_acked := 1\<rparr>\<rparr>)"

definition yeah_reno :: "yeah tcp_sock \<Rightarrow> yeah tcp_sock" where
  "yeah_reno tp =
     (let tp = (if ucast (snd_cwnd_cnt tp) < snd_cwnd tp then tp\<lparr>snd_cwnd_cnt := snd_cwnd_cnt tp + 1\<rparr> else tp)
      in if snd_cwnd tp \<le> ucast (snd_cwnd_cnt tp)
         then tp\<lparr>snd_cwnd := snd_cwnd tp + 1, snd_cwnd_cnt := 0\<rparr> else tp)"

definition yeah_grow :: "kernel \<Rightarrow> yeah tcp_sock \<Rightarrow> yeah tcp_sock option" where
  "yeah_grow k tp =
     (if snd_cwnd tp \<le> snd_ssthresh tp then tcp_slow_start k tp
      else if doing_reno_now (icsk_ca_priv tp) = 0 then Some (yeah_scalable tp)
      else Some (yeah_reno tp))"

text \<open>The round trip with enough samples: early decongestion when the queue is long.\<close>

definition yeah_decongest :: "u32 \<Rightarrow> yeah tcp_sock \<Rightarrow> yeah tcp_sock" where
  "yeah_decongest queue tp =
     (let y = icsk_ca_priv tp in
      if TCP_YEAH_ALPHA < queue \<and> reno_count y < snd_cwnd tp then
        let reduction = min (queue div TCP_YEAH_GAMMA) (drop_bit TCP_YEAH_EPSILON (snd_cwnd tp));
            w = max (snd_cwnd tp - reduction) (reno_count y)
        in tp\<lparr>snd_cwnd := w, snd_ssthresh := w\<rparr>
      else tp)"

definition yeah_queue :: "yeah tcp_sock \<Rightarrow> u32 option" where
  "yeah_queue tp =
     (let v = yeah_vegas (icsk_ca_priv tp) in
      map_option fst (do_div (snd_cwnd tp * (minRTT v - baseRTT v)) (minRTT v)))"

definition yeah_round :: "yeah tcp_sock \<Rightarrow> yeah tcp_sock option" where
  "yeah_round tp = do {
     let y = icsk_ca_priv tp; let rtt = minRTT (yeah_vegas y); let base = baseRTT (yeah_vegas y);
     queue \<leftarrow> yeah_queue tp;
     Some (if TCP_YEAH_ALPHA < queue \<or> base div TCP_YEAH_PHY < rtt - base
       then let tp = yeah_decongest queue tp in
         tp\<lparr>icsk_ca_priv := y\<lparr>reno_count := (if reno_count y \<le> 2 then max (drop_bit 1 (snd_cwnd tp)) 2
                                            else reno_count y + 1),
                              doing_reno_now := min (doing_reno_now y + 1) 0xffffff, lastQ := queue\<rparr>\<rparr>
       else let fc = fast_count y + 1; y = y\<lparr>fast_count := fc\<rparr> in
         tp\<lparr>icsk_ca_priv := (if TCP_YEAH_ZETA < fc then y\<lparr>reno_count := 2, fast_count := 0\<rparr> else y)
              \<lparr>doing_reno_now := 0, lastQ := queue\<rparr>\<rparr>)
   }"

definition tcp_yeah_cong_avoid ::
  "kernel \<Rightarrow> u32 \<Rightarrow> u32 \<Rightarrow> u32 \<Rightarrow> cint \<Rightarrow> yeah tcp_sock \<Rightarrow> yeah tcp_sock option" where
  "tcp_yeah_cong_avoid k ack seq_rtt in_flight flag tp =
     (if \<not> tcp_is_cwnd_limited tp in_flight then Some tp
      else do {
        tp \<leftarrow> yeah_grow k tp;
        let v = yeah_vegas (icsk_ca_priv tp);
        if after ack (beg_snd_nxt v) then do {
          tp \<leftarrow> (if 2 < cntRTT v then yeah_round tp else Some tp);
          let y = icsk_ca_priv tp;
          Some (tp\<lparr>icsk_ca_priv := y\<lparr>yeah_vegas := (yeah_vegas y)\<lparr>beg_snd_una := beg_snd_nxt (yeah_vegas y),
            beg_snd_nxt := snd_nxt tp, beg_snd_cwnd := snd_cwnd tp, cntRTT := 0, minRTT := 0x7fffffff\<rparr>\<rparr>\<rparr>)
        } else Some tp
      })"

definition tcp_yeah_ssthresh :: "kernel \<Rightarrow> yeah tcp_sock \<Rightarrow> (u32 \<times> yeah tcp_sock) option" where
  "tcp_yeah_ssthresh k tp =
     (let y = icsk_ca_priv tp;
          reduction = (if doing_reno_now y < TCP_YEAH_RHO
            then max (min (lastQ y) (max (drop_bit 1 (snd_cwnd tp)) 2)) (drop_bit TCP_YEAH_DELTA (snd_cwnd tp))
            else max (drop_bit 1 (snd_cwnd tp)) 2)
      in Some (snd_cwnd tp - reduction,
               tp\<lparr>icsk_ca_priv := y\<lparr>fast_count := 0, reno_count := max (drop_bit 1 (reno_count y)) 2\<rparr>\<rparr>))"

definition tcp_yeah :: "yeah tcp_congestion_ops" where
  "tcp_yeah = null_ops\<lparr>ops_flags := TCP_CONG_RTT_STAMP, ops_init := Some tcp_yeah_init,
     ops_ssthresh := Some tcp_yeah_ssthresh, ops_cong_avoid := Some tcp_yeah_cong_avoid,
     ops_min_cwnd := Some tcp_reno_min_cwnd, ops_set_state := Some yeah_state,
     ops_cwnd_event := Some yeah_cwnd_event, ops_pkts_acked := Some tcp_yeah_pkts_acked,
     ops_name := ''yeah''\<rparr>"

section \<open>Early decongestion\<close>

lemma yeah_decongest_bounds:
  assumes "reno_count (icsk_ca_priv tp) < snd_cwnd tp" "TCP_YEAH_ALPHA < queue"
  shows "snd_cwnd (yeah_decongest queue tp) \<le> snd_cwnd tp"
    "reno_count (icsk_ca_priv tp) \<le> snd_cwnd (yeah_decongest queue tp)"
    "unat (snd_cwnd tp) \<le> 2 * unat (snd_cwnd (yeah_decongest queue tp))"
    "snd_ssthresh (yeah_decongest queue tp) = snd_cwnd (yeah_decongest queue tp)"
proof -
  define r where "r = min (queue div TCP_YEAH_GAMMA) (drop_bit TCP_YEAH_EPSILON (snd_cwnd tp))"
  have r: "unat r \<le> unat (snd_cwnd tp) div 2"
    by (simp add: r_def unat_min unat_shiftr TCP_YEAH_EPSILON_def)
  then have s: "unat (snd_cwnd tp - r) = unat (snd_cwnd tp) - unat r"
    by (subst unat_sub) (simp_all add: word_le_nat_alt)
  have eq: "snd_cwnd (yeah_decongest queue tp) = max (snd_cwnd tp - r) (reno_count (icsk_ca_priv tp))"
    "snd_ssthresh (yeah_decongest queue tp) = max (snd_cwnd tp - r) (reno_count (icsk_ca_priv tp))"
    using assms by (simp_all add: yeah_decongest_def Let_def flip: r_def)
  show "snd_ssthresh (yeah_decongest queue tp) = snd_cwnd (yeah_decongest queue tp)" by (simp only: eq)
  have le: "unat (snd_cwnd (yeah_decongest queue tp)) =
      max (unat (snd_cwnd tp) - unat r) (unat (reno_count (icsk_ca_priv tp)))"
    unfolding eq unat_max s ..
  have a: "unat (reno_count (icsk_ca_priv tp)) < unat (snd_cwnd tp)"
    using assms(1) by (simp add: word_less_nat_alt)
  show "snd_cwnd (yeah_decongest queue tp) \<le> snd_cwnd tp"
    unfolding word_le_nat_alt le using a by simp
  show "reno_count (icsk_ca_priv tp) \<le> snd_cwnd (yeah_decongest queue tp)"
    unfolding word_le_nat_alt le by simp
  have "unat (snd_cwnd tp) - unat r \<le> unat (snd_cwnd (yeah_decongest queue tp))" unfolding le by simp
  then show "unat (snd_cwnd tp) \<le> 2 * unat (snd_cwnd (yeah_decongest queue tp))" using r by linarith
qed

section \<open>The threshold\<close>

lemma yeah_ssthresh_nat:
  assumes "4 \<le> unat (snd_cwnd tp)"
  shows "\<exists>v tp'. tcp_yeah_ssthresh k tp = Some (v, tp') \<and> 2 \<le> unat v \<and>
    unat (snd_cwnd tp) \<le> 2 * unat v \<and> unat v \<le> unat (snd_cwnd tp) - unat (snd_cwnd tp) div 8"
proof -
  let ?w = "unat (snd_cwnd tp)"
  define h where "h = max (drop_bit 1 (snd_cwnd tp)) 2"
  define r where "r = (if doing_reno_now (icsk_ca_priv tp) < TCP_YEAH_RHO
    then max (min (lastQ (icsk_ca_priv tp)) h) (drop_bit TCP_YEAH_DELTA (snd_cwnd tp)) else h)"
  have h: "unat h = ?w div 2"
    using assms by (simp add: h_def unat_max unat_shiftr)
  have d: "unat (drop_bit TCP_YEAH_DELTA (snd_cwnd tp)) = ?w div 8"
    by (simp add: unat_shiftr TCP_YEAH_DELTA_def)
  have le: "?w div 8 \<le> ?w div 2" by (rule div_le_mono2) simp_all
  have "unat r \<le> ?w div 2" "?w div 8 \<le> unat r"
    using le by (simp_all add: r_def unat_max unat_min h d)
  moreover from this have "unat (snd_cwnd tp - r) = ?w - unat r"
    by (subst unat_sub) (simp_all add: word_le_nat_alt)
  moreover have "\<exists>tp'. tcp_yeah_ssthresh k tp = Some (snd_cwnd tp - r, tp')"
    by (simp add: tcp_yeah_ssthresh_def Let_def r_def h_def)
  ultimately show ?thesis using assms by (auto intro!: exI [of _ "snd_cwnd tp - r"])
qed

section \<open>Properties\<close>

text \<open>
  On windows of at least four segments YeAH's threshold is sound: it keeps at least
  half of the window, gives up at least an eighth of it, and is at least two segments.
\<close>

theorem yeah_ssthresh_range:
  assumes "4 \<le> unat (snd_cwnd tp)"
  shows "\<exists>v tp'. tcp_yeah_ssthresh k tp = Some (v, tp') \<and> 2 \<le> unat v \<and>
    unat (snd_cwnd tp) \<le> 2 * unat v \<and> unat v \<le> unat (snd_cwnd tp) - unat (snd_cwnd tp) div 8"
  by (rule yeah_ssthresh_nat [OF assms])

definition ex_yeah :: yeah where
  "ex_yeah = \<lparr>yeah_vegas = ex_vegas, lastQ = 100, doing_reno_now = 0, reno_count = 2, fast_count = 0,
     yeah_pkts_acked = 1\<rparr>"

theorem yeah_ssthresh_range_witness:
  "\<exists>v tp'. tcp_yeah_ssthresh ex_kernel (ex_sock ex_yeah) = Some (v, tp') \<and> 20 \<le> unat v"
proof -
  have "4 \<le> unat (snd_cwnd (ex_sock ex_yeah))" by (simp add: ex_sock_def)
  from yeah_ssthresh_range [OF this, of ex_kernel] show ?thesis by (auto simp: ex_sock_def)
qed

text \<open>
  YeAH has no floor under its threshold: in its Reno mode (or with a queue of two or
  more) a loss at a window of two gives the threshold zero, and at a window of one it gives
  \<open>2 ^ 64 - 1\<close>, since the two segments it takes off do not depend on the window.
\<close>

theorem yeah_ssthresh_underflow:
  assumes "TCP_YEAH_RHO \<le> doing_reno_now (icsk_ca_priv tp) \<or> 2 \<le> lastQ (icsk_ca_priv tp)"
  shows "(snd_cwnd tp = 2 \<longrightarrow> map_option fst (tcp_yeah_ssthresh k tp) = Some 0) \<and>
    (snd_cwnd tp = 1 \<longrightarrow> map_option fst (tcp_yeah_ssthresh k tp) = Some (- 1))"
  using assms
  by (auto simp: tcp_yeah_ssthresh_def Let_def TCP_YEAH_DELTA_def min_def max_def not_le)

theorem yeah_ssthresh_underflow_witness:
  "map_option fst (tcp_yeah_ssthresh ex_kernel ((ex_sock ex_yeah)\<lparr>snd_cwnd := 2\<rparr>)) = Some 0"
proof -
  have "TCP_YEAH_RHO \<le> doing_reno_now (icsk_ca_priv ((ex_sock ex_yeah)\<lparr>snd_cwnd := 2\<rparr>)) \<or>
      2 \<le> lastQ (icsk_ca_priv ((ex_sock ex_yeah)\<lparr>snd_cwnd := 2\<rparr>))" by (simp add: ex_sock_def ex_yeah_def)
  from yeah_ssthresh_underflow [OF this, of ex_kernel] show ?thesis by simp
qed

end
