(* ===== verification/Tcp_Compound.thy ===== *)
theory Tcp_Compound
  imports Tcp_Vegas
begin

text \<open>
  \<open>tcp/linux/src/tcp_compound.c\<close>, Compound TCP: the window is the sum of a Reno window \<open>cwnd\<close> and
  a delay window \<open>dwnd\<close> that grows by the quartic root of the cube of the data sent in a round
  trip. The lemmas show that the Newton iteration of \<open>qroot\<close> ends for every argument and returns
  at least the root, so that \<open>cong_avoid\<close> returns on every state. \<open>tcp_compound_get_info\<close>
  (netlink) is not modelled.
\<close>

section \<open>State\<close>

definition TCP_COMPOUND_ALPHA :: nat where "TCP_COMPOUND_ALPHA = 3"
definition TCP_COMPOUND_BETA :: u32 where "TCP_COMPOUND_BETA = 1"
definition TCP_COMPOUND_GAMMA :: u32 where "TCP_COMPOUND_GAMMA = 30"

record compound =
  c_beg_snd_nxt :: u32
  c_beg_snd_una :: u32
  c_beg_snd_cwnd :: u32
  c_doing_vegas_now :: bool
  c_cntRTT :: u16
  c_minRTT :: u32
  c_baseRTT :: u32
  c_cwnd :: u32
  c_dwnd :: u32

definition cvegas_enable :: "u32 \<Rightarrow> compound \<Rightarrow> compound" where
  "cvegas_enable nxt v =
     v\<lparr>c_doing_vegas_now := True, c_beg_snd_nxt := nxt, c_cntRTT := 0, c_minRTT := 0x7fffffff\<rparr>"

definition cvegas_disable :: "compound \<Rightarrow> compound" where
  "cvegas_disable v = v\<lparr>c_doing_vegas_now := False\<rparr>"

definition tcp_compound_init :: "kernel \<Rightarrow> compound tcp_sock \<Rightarrow> compound tcp_sock option" where
  "tcp_compound_init k tp = Some (tp\<lparr>icsk_ca_priv :=
     (cvegas_enable (snd_nxt tp) ((icsk_ca_priv tp)\<lparr>c_baseRTT := 0x7fffffff\<rparr>))
       \<lparr>c_dwnd := 0, c_cwnd := snd_cwnd tp\<rparr>\<rparr>)"

definition tcp_compound_rtt_calc :: "kernel \<Rightarrow> u32 \<Rightarrow> compound tcp_sock \<Rightarrow> compound tcp_sock option" where
  "tcp_compound_rtt_calc k usrtt tp =
     (let v = icsk_ca_priv tp; vrtt = usrtt + 1;
          v = (if vrtt < c_baseRTT v then v\<lparr>c_baseRTT := vrtt\<rparr> else v)
      in Some (tp\<lparr>icsk_ca_priv := v\<lparr>c_minRTT := min (c_minRTT v) vrtt, c_cntRTT := c_cntRTT v + 1\<rparr>\<rparr>))"

definition tcp_compound_state :: "kernel \<Rightarrow> u8 \<Rightarrow> compound tcp_sock \<Rightarrow> compound tcp_sock option" where
  "tcp_compound_state k ca_state tp = Some (tp\<lparr>icsk_ca_priv :=
     (if ca_state = TCP_CA_Open then cvegas_enable (snd_nxt tp) (icsk_ca_priv tp)
      else cvegas_disable (icsk_ca_priv tp))\<rparr>)"

definition tcp_compound_cwnd_event ::
  "kernel \<Rightarrow> tcp_ca_event \<Rightarrow> compound tcp_sock \<Rightarrow> compound tcp_sock option" where
  "tcp_compound_cwnd_event k event tp =
     (if event = CA_EVENT_CWND_RESTART \<or> event = CA_EVENT_TX_START then tcp_compound_init k tp else Some tp)"

section \<open>The quartic root\<close>

definition cdiv64_64 :: "u64 \<Rightarrow> u64 \<Rightarrow> u64 option" where
  "cdiv64_64 dividend divisor =
     (let (d, dividend) =
        (if 0xffffffff < divisor
         then let shift = fls (ucast (drop_bit 32 divisor)) in (drop_bit shift divisor, drop_bit shift dividend)
         else (divisor, dividend))
      in if drop_bit 32 dividend \<noteq> 0 then map_option fst (do_div dividend d)
         else udiv dividend d)"

text \<open>\<open>do { ... } while (abs(x1 - x) > 1)\<close>; \<open>abs\<close> is the C function on \<open>int\<close>.\<close>

partial_function (option) qroot_loop :: "u64 \<Rightarrow> u32 \<Rightarrow> u32 option" where
  "qroot_loop a x1 = do {
     q \<leftarrow> cdiv64_64 a (x1 * x1 * x1);
     let x = (3 * x1 + q) div 4;
     if 1 < \<bar>sint (ucast (x1 - x) :: cint)\<bar> then qroot_loop a x else Some x
   }"

definition qroot :: "u64 \<Rightarrow> u32 option" where
  "qroot a = qroot_loop a (ucast (push_bit (fls64 a div 4) (1 :: cint)))"

section \<open>The window\<close>

text \<open>Another party (loss recovery) has cut \<open>snd_cwnd\<close>: bring the two windows back under it.\<close>

definition compound_sync :: "compound tcp_sock \<Rightarrow> compound" where
  "compound_sync tp =
     (let v = icsk_ca_priv tp in
      if snd_cwnd tp < c_cwnd v + c_dwnd v then
        (if snd_cwnd tp < c_cwnd v \<or> snd_cwnd tp < c_dwnd v
         then v\<lparr>c_cwnd := snd_cwnd tp, c_dwnd := 0\<rparr>
         else v\<lparr>c_cwnd := snd_cwnd tp - c_dwnd v\<rparr>)
      else v)"

text \<open>The Reno part: the counter, and whether \<open>cwnd\<close> grows.\<close>

definition compound_reno :: "compound tcp_sock \<Rightarrow> compound tcp_sock" where
  "compound_reno tp =
     (let v = icsk_ca_priv tp;
          inc = (c_cwnd v \<le> snd_ssthresh tp);
          cnt = (if \<not> inc \<and> ucast (snd_cwnd_cnt tp) < snd_cwnd tp then snd_cwnd_cnt tp + 1 else snd_cwnd_cnt tp);
          full = (snd_cwnd tp \<le> ucast cnt)
      in tp\<lparr>snd_cwnd_cnt := (if full then 0 else cnt),
            icsk_ca_priv := (if (inc \<or> full) \<and> snd_cwnd tp < ucast (snd_cwnd_clamp tp)
                             then v\<lparr>c_cwnd := c_cwnd v + 1\<rparr> else v)\<rparr>)"

definition compound_dwnd :: "u32 \<Rightarrow> u32 \<Rightarrow> u32 \<Rightarrow> u32 option" where
  "compound_dwnd old_wnd diff dwnd =
     (if diff < push_bit V_PARAM_SHIFT TCP_COMPOUND_GAMMA then do {
        root \<leftarrow> qroot (old_wnd * old_wnd * old_wnd);
        let x = drop_bit TCP_COMPOUND_ALPHA root;
        Some ((if 1 < x then x - 1 else 0) + dwnd)
      } else if push_bit V_PARAM_SHIFT dwnd < diff * TCP_COMPOUND_BETA then Some 0
      else Some (drop_bit V_PARAM_SHIFT (push_bit V_PARAM_SHIFT dwnd - diff * TCP_COMPOUND_BETA)))"

text \<open>The end of a round trip. The flag tells whether the function returns early, without the
  final assignment to \<open>snd_cwnd\<close> (no segment size, or no round trip time).\<close>

definition compound_round :: "compound tcp_sock \<Rightarrow> (bool \<times> compound tcp_sock) option" where
  "compound_round tp =
     (let v = icsk_ca_priv tp in
      if mss_cache tp = 0 then Some (True, tp)
      else do {
        old_wnd \<leftarrow> udiv (c_beg_snd_nxt v - c_beg_snd_una v) (mss_cache tp);
        let v = v\<lparr>c_beg_snd_una := c_beg_snd_nxt v, c_beg_snd_nxt := snd_nxt tp, c_beg_snd_cwnd := snd_cwnd tp\<rparr>;
        if 2 < c_cntRTT v \<and> c_minRTT v = 0 then Some (True, tp\<lparr>icsk_ca_priv := v\<rparr>)
        else do {
          v \<leftarrow> (if 2 < c_cntRTT v then do {
                 target_cwnd \<leftarrow> udiv (push_bit V_PARAM_SHIFT (old_wnd * c_baseRTT v)) (c_minRTT v);
                 let diff = push_bit V_PARAM_SHIFT old_wnd - target_cwnd;
                 dwnd \<leftarrow> compound_dwnd old_wnd diff (c_dwnd v);
                 Some (v\<lparr>c_dwnd := dwnd\<rparr>)
               } else Some v);
          Some (False, tp\<lparr>icsk_ca_priv := v\<lparr>c_cntRTT := 0, c_minRTT := 0x7fffffff\<rparr>\<rparr>)
        }
      })"

definition tcp_compound_cong_avoid ::
  "kernel \<Rightarrow> u32 \<Rightarrow> u32 \<Rightarrow> u32 \<Rightarrow> cint \<Rightarrow> compound tcp_sock \<Rightarrow> compound tcp_sock option" where
  "tcp_compound_cong_avoid k ack seq_rtt in_flight flag tp =
     (let tp = tp\<lparr>icsk_ca_priv := compound_sync tp\<rparr> in
      if \<not> tcp_is_cwnd_limited tp in_flight then Some tp
      else do {
        let tp = compound_reno tp;
        (early, tp) \<leftarrow> (if after ack (c_beg_snd_nxt (icsk_ca_priv tp)) then compound_round tp
                        else Some (False, tp));
        Some (if early then tp
              else tp\<lparr>snd_cwnd := c_cwnd (icsk_ca_priv tp) + c_dwnd (icsk_ca_priv tp)\<rparr>)
      })"

definition tcp_compound :: "compound tcp_congestion_ops" where
  "tcp_compound = null_ops\<lparr>ops_flags := TCP_CONG_RTT_STAMP, ops_init := Some tcp_compound_init,
     ops_ssthresh := Some tcp_reno_ssthresh, ops_cong_avoid := Some tcp_compound_cong_avoid,
     ops_min_cwnd := Some tcp_reno_min_cwnd, ops_rtt_sample := Some tcp_compound_rtt_calc,
     ops_set_state := Some tcp_compound_state, ops_cwnd_event := Some tcp_compound_cwnd_event,
     ops_name := ''compound''\<rparr>"

section \<open>One Newton step\<close>

lemma cdiv64_64_eq: "cdiv64_64 a d = div64_64 a d"
proof -
  have big: "0xffffffff < d \<longleftrightarrow> drop_bit 32 d \<noteq> 0"
  proof -
    have "0xffffffff < d \<longleftrightarrow> 2 ^ 32 \<le> unat d" by (auto simp: word_less_nat_alt)
    also have "\<dots> \<longleftrightarrow> 0 < unat d div 2 ^ 32" by (simp add: div_greater_zero_iff)
    also have "\<dots> \<longleftrightarrow> 0 < unat (drop_bit 32 d)" by (simp add: unat_shiftr)
    finally show ?thesis by (simp add: word_nonzero_unat)
  qed
  have quot: "(if c then map_option fst (do_div x y) else udiv x y) = map_option fst (do_div x y)" for c x y
    by (cases "y = 0") (simp_all add: do_div_def umod_def)
  show ?thesis unfolding cdiv64_64_def div64_64_def big Let_def quot by (simp split: prod.split)
qed

text \<open>On naturals: a step from any positive estimate does not fall below the root, and a step from
  an estimate above the root does not grow.\<close>

lemma newton_lower:
  fixes x r n :: nat
  assumes "0 < x" "r ^ 4 \<le> n"
  shows "4 * r \<le> 3 * x + n div x ^ 3"
proof (cases "4 * r \<le> 3 * x")
  case False
  have sq: "0 \<le> (int r - int x)\<^sup>2 * ((int r)\<^sup>2 + 2 * int r * int x + 3 * (int x)\<^sup>2)"
    by (intro mult_nonneg_nonneg add_nonneg_nonneg) simp_all
  have "(4 * int r - 3 * int x) * int x ^ 3 \<le> int r ^ 4"
    using sq by (simp add: power2_eq_square power3_eq_cube power4_eq_xxxx algebra_simps)
  then have "int ((4 * r - 3 * x) * x ^ 3) \<le> int (r ^ 4)"
    using False by (simp add: of_nat_diff)
  then have "(4 * r - 3 * x) * x ^ 3 \<le> n" using assms(2) by linarith
  then have "4 * r - 3 * x \<le> n div x ^ 3" using assms(1) by (simp add: less_eq_div_iff_mult_less_eq)
  then show ?thesis by linarith
qed simp

lemma newton_upper:
  fixes x r n :: nat
  assumes "r < x" "n < (r + 1) ^ 4"
  shows "n div x ^ 3 < x"
proof -
  have "(r + 1) ^ 4 \<le> x ^ 4" using assms(1) by (intro power_mono) auto
  then have "n < x * x ^ 3" using assms(2) by (simp add: power4_eq_xxxx power3_eq_cube)
  then show ?thesis using assms(1) by (simp add: less_mult_imp_div_less)
qed

lemma newton_at_root:
  fixes r n :: nat
  assumes "3 \<le> r" "n < (r + 1) ^ 4"
  shows "n div r ^ 3 \<le> r + 6" "7 \<le> r \<Longrightarrow> n div r ^ 3 \<le> r + 4"
proof -
  have n: "n < r ^ 4 + 4 * r ^ 3 + 6 * r ^ 2 + 4 * r + 1"
    using assms(2) by (simp add: power4_eq_xxxx power3_eq_cube power2_eq_square algebra_simps)
  have p: "r ^ 4 = r * r ^ 3" "r ^ 3 = r * r ^ 2" "r ^ 2 = r * r"
    by (simp_all add: power4_eq_xxxx power3_eq_cube power2_eq_square)
  have lin: "4 * r + 1 \<le> 2 * r ^ 2" using assms(1) mult_le_mono1 [of 3 r r] unfolding p by linarith
  have "6 * r ^ 2 + (4 * r + 1) \<le> 8 * r ^ 2" using lin by simp
  also have "\<dots> \<le> 3 * r ^ 3" using assms(1) mult_le_mono1 [of 3 r "r ^ 2"] unfolding p(2) by linarith
  finally have "n < (r + 7) * r ^ 3" using n unfolding p(1) distrib_right by linarith
  then show "n div r ^ 3 \<le> r + 6" by (metis Suc_eq_plus1 add_Suc_right less_Suc_eq_le less_mult_imp_div_less numeral_eq_Suc pred_numeral_simps(3))
  assume r: "7 \<le> r"
  have "4 * r + 1 \<le> r ^ 2" using r mult_le_mono1 [of 7 r r] unfolding p by linarith
  then have "6 * r ^ 2 + (4 * r + 1) \<le> 7 * r ^ 2" by simp
  also have "\<dots> \<le> r ^ 3" using r unfolding p(2) by (rule mult_le_mono1)
  finally have "n < (r + 5) * r ^ 3" using n unfolding p(1) distrib_right by linarith
  then have "n div r ^ 3 < r + 5" by (rule less_mult_imp_div_less)
  then show "n div r ^ 3 \<le> r + 4" by simp
qed

lemma sint_difference:
  assumes "unat (x :: u32) < 2 ^ 30" "unat (y :: u32) < 2 ^ 30"
  shows "sint (ucast (x - y) :: cint) = int (unat x) - int (unat y)"
proof -
  have narrow: "(word_of_int (take_bit 64 k) :: cint) = word_of_int k" for k
    by transfer simp
  have "(ucast (x - y) :: cint) = ucast (word_of_int (uint x - uint y) :: u32)"
    by (simp only: word_sub_wi)
  also have "\<dots> = word_of_int (uint x - uint y)"
    by (simp only: unsigned_of_int len_num1 len_bit0) (use narrow in simp)
  finally have eq: "(ucast (x - y) :: cint) = word_of_int (uint x - uint y)" .
  have "sint (word_of_int (uint x - uint y) :: cint) = signed_take_bit 31 (uint x - uint y)"
    by (subst sint_sbintrunc') simp
  moreover have "uint x < 2 ^ 30" "uint y < 2 ^ 30"
    using assms by (simp_all only: uint_nat of_nat_less_numeral_power_cancel_iff)
  then have "uint x < 1073741824" "uint y < 1073741824" by simp_all
  then have "- 2147483648 \<le> uint x - uint y" "uint x - uint y < 2147483648"
    using uint_ge_0 [of x] uint_ge_0 [of y] by linarith+
  then have "- (2 ^ 31) \<le> uint x - uint y" "uint x - uint y < 2 ^ 31" by simp_all
  then have "signed_take_bit 31 (uint x - uint y) = uint x - uint y" by (rule signed_take_bit_int_eq_self)
  ultimately show ?thesis unfolding eq uint_nat by simp
qed

text \<open>One turn of the loop: the quotient is off by at most 2, and exact for small estimates.\<close>

lemma qroot_loop_turn:
  assumes "0 < unat x" "unat x \<le> 2 ^ 18" "unat a div unat x ^ 3 \<le> 2 ^ 22"
  shows "\<exists>x' e. unat x' = (3 * unat x + unat a div unat x ^ 3 + e) div 4 \<and> e \<le> 2 \<and>
    (unat x < 1625 \<longrightarrow> e = 0) \<and>
    qroot_loop a x = (if 1 < \<bar>int (unat x) - int (unat x')\<bar> then qroot_loop a x' else Some x')"
proof -
  have le: "unat x ^ 2 \<le> (2 ^ 18) ^ 2" "unat x ^ 3 \<le> (2 ^ 18) ^ 3" 
    using power_mono [OF assms(2), of 2] power_mono [OF assms(2), of 3] by simp_all
  then have "unat (x * x) = unat x ^ 2"
    using unat_mult_no_wrap [of x x] by (simp add: power2_eq_square)
  then have cube: "unat (x * x * x) = unat x ^ 3"
    using unat_mult_no_wrap [of "x * x" x] le by (simp add: power2_eq_square power3_eq_cube)
  then have nz: "x * x * x \<noteq> 0" using assms(1) by (simp add: word_nonzero_unat)
  obtain q e where q: "cdiv64_64 a (x * x * x) = Some q" "unat q = unat a div unat x ^ 3 + e" "e \<le> 2"
    "unat x < 1625 \<longrightarrow> e = 0"
  proof (cases "unat x < 1625")
    case True
    then have "unat x ^ 3 \<le> 1624 ^ 3" by (intro power_mono) auto
    then have "cdiv64_64 a (x * x * x) = Some (a div (x * x * x))"
      using nz by (simp add: cdiv64_64_eq div64_64_small cube)
    moreover have "unat (a div (x * x * x)) = unat a div unat x ^ 3" unfolding unat_div cube ..
    ultimately show ?thesis by (intro that [of _ 0]) auto
  next
    case False
    obtain q where "div64_64 a (x * x * x) = Some q" "unat a div unat x ^ 3 \<le> unat q"
      "unat q \<le> unat a div unat x ^ 3 + 2" using div64_64_bounds [OF nz, of a] unfolding cube .
    then show ?thesis using False by (intro that [of q "unat q - unat a div unat x ^ 3"]) (auto simp: cdiv64_64_eq)
  qed
  define x' where "x' = (3 * x + q) div 4"
  have "unat (3 * x) = 3 * unat x" using unat_mult_no_wrap [of 3 x] assms(2) by simp
  then have x': "unat x' = (3 * unat x + unat a div unat x ^ 3 + e) div 4"
    using unat_add_no_wrap [of "3 * x" q] assms(2,3) q(2,3) by (simp add: x'_def unat_div add.assoc)
  then have "unat x' \<le> (3 * 2 ^ 18 + 2 ^ 22 + 2) div 4"
    using assms(2,3) q(3) by (simp only:)
  then have "unat x' < 2 ^ 30" by simp
  then have "sint (ucast (x - x') :: cint) = int (unat x) - int (unat x')"
    using assms(2) by (intro sint_difference) auto
  then have "qroot_loop a x = (if 1 < \<bar>int (unat x) - int (unat x')\<bar> then qroot_loop a x' else Some x')"
    using q(1) by (simp add: qroot_loop.simps [of a x] Let_def flip: x'_def)
  then show ?thesis using x' q(3,4) by blast
qed

section \<open>The iteration ends near the root\<close>

lemma qroot_loop_above:
  assumes "3 \<le> r" "r ^ 4 \<le> unat a" "unat a < (r + 1) ^ 4"
  shows "r \<le> unat x \<Longrightarrow> unat x \<le> 2 ^ 18 \<Longrightarrow>
    \<exists>y. qroot_loop a x = Some y \<and> r \<le> unat y \<and> unat y \<le> r + 3"
proof (induction "unat x" arbitrary: x rule: less_induct)
  case less
  define d where "d = unat a div unat x ^ 3"
  have d: "4 * r \<le> 3 * unat x + d" using newton_lower [of "unat x" r "unat a"] less.prems assms(1,2)
    by (simp add: d_def)
  have root: "d \<le> r + 6" "7 \<le> r \<Longrightarrow> d \<le> r + 4" if "unat x = r"
    using newton_at_root [OF assms(1,3)] that by (simp_all add: d_def)
  have up: "d < unat x" if "r < unat x" using newton_upper [OF that assms(3)] by (simp add: d_def)
  have "d \<le> 2 ^ 22" using root(1) up less.prems by (cases "unat x = r") auto
  moreover have "0 < unat x" using less.prems assms(1) by simp
  ultimately obtain x' e where x': "unat x' = (3 * unat x + d + e) div 4" "e \<le> 2" "unat x < 1625 \<longrightarrow> e = 0"
    "qroot_loop a x = (if 1 < \<bar>int (unat x) - int (unat x')\<bar> then qroot_loop a x' else Some x')"
    using qroot_loop_turn [of x a] less.prems(2) unfolding d_def by blast
  have lo: "r \<le> unat x'" using d unfolding x'(1) by linarith
  show ?case
  proof (cases "unat x = r")
    case True
    then have "unat x' \<le> r + 1"
      using root x'(1-3) by (cases "7 \<le> r") linarith+
    moreover from this have "\<not> 1 < \<bar>int (unat x) - int (unat x')\<bar>" using lo True by linarith
    ultimately show ?thesis using lo unfolding x'(4) by (simp only: if_False) auto
  next
    case False
    then have gt: "r < unat x" using less.prems by simp
    have le: "unat x' \<le> unat x" using up [OF gt] x'(1,2) by linarith
    show ?thesis
    proof (cases "1 < \<bar>int (unat x) - int (unat x')\<bar>")
      case True
      then have "unat x' < unat x" using le by linarith
      from less.hyps [OF this lo] le less.prems(2) show ?thesis
        unfolding x'(4) by (simp only: True if_True)
    next
      case exit: False
      have "unat x \<le> r + 3"
      proof (rule ccontr)
        assume "\<not> unat x \<le> r + 3"
        then obtain m where m: "unat x = r + 4 + m" using le_Suc_ex [of "r + 4" "unat x"] by auto
        have "unat x \<le> d + 6" using exit le x'(1,2) by linarith
        then have "(unat x - 6) * unat x ^ 3 \<le> d * unat x ^ 3" by (intro mult_le_mono1) simp
        also have "\<dots> \<le> unat a" by (simp add: d_def)
        finally have "(unat x - 6) * unat x ^ 3 < (r + 1) ^ 4" using assms(3) by linarith
        moreover have "(r + 1) ^ 4 \<le> (unat x - 6) * unat x ^ 3"
        proof -
          have "(r - 2) * (r + 4) ^ 3 \<le> (unat x - 6) * unat x ^ 3"
            unfolding m by (intro mult_le_mono power_mono) auto
          moreover have "(r + 1) ^ 4 \<le> (r - 2) * (r + 4) ^ 3"
          proof -
            obtain t where t: "r = t + 3" using assms(1) by (metis add.commute le_Suc_ex)
            show ?thesis unfolding t by (simp add: power4_eq_xxxx power3_eq_cube algebra_simps)
          qed
          ultimately show ?thesis by linarith
        qed
        ultimately show False by linarith
      qed
      then show ?thesis using lo le unfolding x'(4) by (simp only: exit if_False) auto
    qed
  qed
qed

text \<open>The first estimate is a power of two between a quarter of the root and twice it.\<close>

definition qroot_start :: "u64 \<Rightarrow> u32" where
  "qroot_start a = ucast (push_bit (fls64 a div 4) (1 :: cint))"

lemma qroot_eq: "qroot a = qroot_loop a (qroot_start a)"
  by (simp add: qroot_def qroot_start_def)

lemma qroot_start:
  "unat (qroot_start a) = 2 ^ (fls64 a div 4)" "fls64 a div 4 \<le> 16"
  "unat a div unat (qroot_start a) ^ 3 < 2 ^ (fls64 a div 4 + 3)"
proof -
  let ?q = "fls64 a div 4"
  have le: "fls64 a \<le> 64" using fls64_bounds(4) [of a] by (cases "a = 0") auto
  then show q: "?q \<le> 16" by simp
  then have "unat (push_bit ?q (1 :: cint)) = 2 ^ ?q"
    using power_strict_increasing [of ?q 32 "2 :: nat"] unat_shiftl_no_wrap [of "1 :: cint" ?q] by simp
  moreover from this have "unat (push_bit ?q (1 :: cint)) < 2 ^ 31"
    using power_strict_increasing [of ?q 31 "2 :: nat"] q by simp
  ultimately show start: "unat (qroot_start a) = 2 ^ ?q" by (simp add: qroot_start_def unat_ucast_32_64)
  have "unat a < 2 ^ fls64 a" using fls64_bounds(2) [of a] by (cases "a = 0") auto
  also have "\<dots> \<le> 2 ^ (?q + 3 + ?q * 3)" by (rule power_increasing) auto
  also have "\<dots> = 2 ^ (?q + 3) * (2 ^ ?q) ^ 3" by (simp only: power_add power_mult)
  finally show "unat a div unat (qroot_start a) ^ 3 < 2 ^ (?q + 3)"
    unfolding start by (rule less_mult_imp_div_less)
qed

lemma qroot_small:
  assumes "unat a < 81"
  shows "\<exists>y. qroot a = Some y \<and> unat y = (if unat a < 8 then (3 + unat a) div 4
    else if unat a < 80 then (6 + unat a div 8) div 4 else 3)"
proof -
  let ?x = "qroot_start a"
  have turn: "\<exists>x'. unat x' = (3 * unat x + unat a div unat x ^ 3) div 4 \<and>
      qroot_loop a x = (if 1 < \<bar>int (unat x) - int (unat x')\<bar> then qroot_loop a x' else Some x')"
    if "0 < unat x" "unat x \<le> 4" for x
    using qroot_loop_turn [of x a] that assms div_le_dividend [of "unat a" "unat x ^ 3"] by auto
  have f0: "2 ^ (fls64 a - 1) \<le> unat a" "unat a < 2 ^ fls64 a" if "a \<noteq> 0" using fls64_bounds [OF that] by blast+
  show ?thesis
  proof (cases "unat a < 8")
    case True
    have "fls64 a < 4"
    proof (cases "a = 0")
      case False
      then have "2 ^ (fls64 a - 1) < (2 :: nat) ^ 3" using f0 True by simp
      then have "fls64 a - 1 < 3" by (rule power_less_imp_less_exp [rotated]) simp
      then show ?thesis by linarith
    qed simp
    then have x: "unat ?x = 1" using qroot_start(1) [of a] by simp
    then have "0 < unat ?x" "unat ?x \<le> 4" by simp_all
    from turn [OF this]
    obtain x' where x': "unat x' = (3 * unat ?x + unat a div unat ?x ^ 3) div 4"
      "qroot_loop a ?x = (if 1 < \<bar>int (unat ?x) - int (unat x')\<bar> then qroot_loop a x' else Some x')"
      by blast
    then have val: "unat x' = (3 + unat a) div 4" using x by simp
    then have "\<not> 1 < \<bar>int (unat ?x) - int (unat x')\<bar>" using True x by linarith
    then have "qroot a = Some x'" using x'(2) by (simp only: if_False qroot_eq)
    then show ?thesis using True val by simp
  next
    case False
    then have a0: "a \<noteq> 0" by auto
    have "2 ^ (fls64 a - 1) < (2 :: nat) ^ 7" using f0 [OF a0] assms by simp
    then have "fls64 a - 1 < 7" by (rule power_less_imp_less_exp [rotated]) simp
    then have "fls64 a \<le> 7" by linarith
    moreover have "(2 :: nat) ^ 3 < 2 ^ fls64 a" using f0 [OF a0] False by simp
    then have "3 < fls64 a" by (rule power_less_imp_less_exp [rotated]) simp
    ultimately have "fls64 a div 4 = 1" by linarith
    then have x: "unat ?x = 2" using qroot_start(1) [of a] by simp
    then have "0 < unat ?x" "unat ?x \<le> 4" by simp_all
    from turn [OF this]
    obtain x' where x': "unat x' = (3 * unat ?x + unat a div unat ?x ^ 3) div 4"
      "qroot_loop a ?x = (if 1 < \<bar>int (unat ?x) - int (unat x')\<bar> then qroot_loop a x' else Some x')"
      by blast
    then have val: "unat x' = (6 + unat a div 8) div 4" using x by simp
    show ?thesis
    proof (cases "unat a < 80")
      case True
      then have "\<not> 1 < \<bar>int (unat ?x) - int (unat x')\<bar>" using val x False by linarith
      then have "qroot a = Some x'" using x'(2) by (simp only: if_False qroot_eq)
      then show ?thesis using True False val by simp
    next
      case eighty: False
      then have a: "unat a = 80" using assms by simp
      then have four: "unat x' = 4" using val by simp
      then have "0 < unat x'" "unat x' \<le> 4" by simp_all
      from turn [OF this]
      obtain y where y: "unat y = (3 * unat x' + unat a div unat x' ^ 3) div 4"
        "qroot_loop a x' = (if 1 < \<bar>int (unat x') - int (unat y)\<bar> then qroot_loop a y else Some y)"
        by blast
      then have three: "unat y = 3" using four a by simp
      have "1 < \<bar>int (unat ?x) - int (unat x')\<bar>" "\<not> 1 < \<bar>int (unat x') - int (unat y)\<bar>"
        unfolding x four three by simp_all
      then have "qroot a = Some y"
        using x'(2) y(2) by (simp only: if_True if_False qroot_eq)
      then show ?thesis using three eighty False by simp
    qed
  qed
qed

lemma qroot_bounds:
  assumes r: "r ^ 4 \<le> unat a" "unat a < (r + 1) ^ 4"
  shows "\<exists>y. qroot a = Some y \<and> r \<le> unat y \<and> unat y \<le> r + 3"
proof (cases "unat a < 81")
  case True
  then have "r ^ 4 < 3 ^ 4" using r(1) by simp
  then have "r < 3" by (rule power_less_imp_less_base) simp
  then consider "r = 0" | "r = 1" | "r = 2" by linarith
  then have "r \<le> (if unat a < 8 then (3 + unat a) div 4 else if unat a < 80 then (6 + unat a div 8) div 4 else 3)"
    using r(1) by cases (simp_all, linarith+)
  then show ?thesis using qroot_small [OF True] by fastforce
next
  case False
  then have "3 ^ 4 < (r + 1) ^ 4" using r(2) by simp
  then have r3: "3 \<le> r" using power_less_imp_less_base [of 3 4 "r + 1"] by simp
  let ?x = "qroot_start a" and ?q = "fls64 a div 4"
  have x: "0 < unat ?x" "unat ?x \<le> 2 ^ 16" "unat a div unat ?x ^ 3 < 2 ^ 19"
    using qroot_start [of a] power_increasing [of ?q 16 "2 :: nat"] power_increasing [of "?q + 3" 19 "2 :: nat"]
    by simp_all
  have "unat ?x \<le> 2 ^ 18" "unat a div unat ?x ^ 3 \<le> 2 ^ 22" using x(2,3) by simp_all
  from qroot_loop_turn [OF x(1) this]
  obtain x' e where x': "unat x' = (3 * unat ?x + unat a div unat ?x ^ 3 + e) div 4" "e \<le> 2"
    "qroot_loop a ?x = (if 1 < \<bar>int (unat ?x) - int (unat x')\<bar> then qroot_loop a x' else Some x')"
    by blast
  have lo: "r \<le> unat x'" using newton_lower [OF x(1) r(1)] unfolding x'(1) by linarith
  have hi: "unat x' \<le> 2 ^ 18" using x(2,3) x'(2) unfolding x'(1) by simp
  show ?thesis
  proof (cases "r \<le> unat ?x")
    case True
    then show ?thesis using qroot_loop_above [OF r3 r, of ?x] x(2) by (simp add: qroot_eq)
  next
    case below: False
    show ?thesis
    proof (cases "1 < \<bar>int (unat ?x) - int (unat x')\<bar>")
      case True
      then show ?thesis using qroot_loop_above [OF r3 r lo hi] x'(3) by (simp add: qroot_eq)
    next
      case False
      then have "qroot a = Some x'" using x'(3) by (simp add: qroot_eq)
      moreover have "unat x' \<le> r + 3" using False below by linarith
      ultimately show ?thesis using lo by blast
    qed
  qed
qed

lemma root_exists:
  obtains r :: nat where "r ^ 4 \<le> n" "n < (r + 1) ^ 4"
proof -
  have "\<exists>r :: nat. r ^ 4 \<le> n \<and> n < (r + 1) ^ 4"
  proof (induction n)
    case 0
    show ?case by (rule exI [of _ 0]) simp
  next
    case (Suc n)
    then obtain r :: nat where r: "r ^ 4 \<le> n" "n < (r + 1) ^ 4" by blast
    have "(r + 1) ^ 4 < (r + 1 + 1) ^ 4" by (rule power_strict_mono) auto
    with r show ?case by (cases "Suc n < (r + 1) ^ 4") (force intro: exI [of _ r] exI [of _ "r + 1"])+
  qed
  then show ?thesis using that by blast
qed

lemma qroot_total: "\<exists>y. qroot a = Some y"
  using root_exists [of "unat a"] qroot_bounds [of _ a] by metis

section \<open>The windows\<close>

lemma compound_round_total:
  "\<exists>early tp'. compound_round tp = Some (early, tp') \<and> snd_cwnd tp' = snd_cwnd tp \<and>
     c_cwnd (icsk_ca_priv tp') = c_cwnd (icsk_ca_priv tp) \<and>
     (early \<longleftrightarrow> mss_cache tp = 0 \<or>
        2 < c_cntRTT (icsk_ca_priv tp) \<and> c_minRTT (icsk_ca_priv tp) = 0)"
proof -
  have dwnd: "\<exists>d. compound_dwnd w diff dw = Some d" for w diff dw
    using qroot_total [of "w * w * w"] by (auto simp: compound_dwnd_def Let_def)
  show ?thesis
  proof (cases "mss_cache tp = 0 \<or> 2 < c_cntRTT (icsk_ca_priv tp) \<and> c_minRTT (icsk_ca_priv tp) = 0")
    case True
    then show ?thesis by (auto simp: compound_round_def Let_def udiv_def)
  next
    case False
    define w where "w = (c_beg_snd_nxt (icsk_ca_priv tp) - c_beg_snd_una (icsk_ca_priv tp)) div mss_cache tp"
    define diff where "diff = push_bit V_PARAM_SHIFT w -
      push_bit V_PARAM_SHIFT (w * c_baseRTT (icsk_ca_priv tp)) div c_minRTT (icsk_ca_priv tp)"
    obtain d where "compound_dwnd w diff (c_dwnd (icsk_ca_priv tp)) = Some d" using dwnd by blast
    then show ?thesis
      using False by (cases "2 < c_cntRTT (icsk_ca_priv tp)")
        (auto simp: compound_round_def Let_def udiv_def simp flip: w_def diff_def)
  qed
qed

lemma compound_reno_frame:
  "snd_cwnd (compound_reno tp) = snd_cwnd tp" "mss_cache (compound_reno tp) = mss_cache tp"
  "c_cntRTT (icsk_ca_priv (compound_reno tp)) = c_cntRTT (icsk_ca_priv tp)"
  "c_minRTT (icsk_ca_priv (compound_reno tp)) = c_minRTT (icsk_ca_priv tp)"
  "c_dwnd (icsk_ca_priv (compound_reno tp)) = c_dwnd (icsk_ca_priv tp)"
  "c_cwnd (icsk_ca_priv (compound_reno tp)) \<in> {c_cwnd (icsk_ca_priv tp), c_cwnd (icsk_ca_priv tp) + 1}"
  "c_beg_snd_nxt (icsk_ca_priv (compound_reno tp)) = c_beg_snd_nxt (icsk_ca_priv tp)"
  by (simp_all add: compound_reno_def Let_def)

section \<open>Properties\<close>

text \<open>
  Property C40. The Newton iteration of \<open>qroot\<close> ends for every 64-bit argument, and its result is
  at least the integer fourth root and at most three above it. The loop compares consecutive
  estimates only, so nothing in its exit test says so.
\<close>

theorem qroot_near_root:
  assumes "r ^ 4 \<le> unat a" "unat a < (r + 1) ^ 4"
  shows "\<exists>y. qroot a = Some y \<and> r \<le> unat y \<and> unat y \<le> r + 3"
  by (rule qroot_bounds [OF assms])

theorem qroot_near_root_witness:
  "\<exists>y. qroot (1000 * 1000 * 1000) = Some y \<and> 177 \<le> unat y \<and> unat y \<le> 180"
  using qroot_near_root [of 177 "1000 * 1000 * 1000"] by simp

text \<open>
  Compound TCP handles every acknowledgement on every socket state, and unless it
  returns early (the window is not the limit, no segment size, no round trip time) the new
  window is the sum of its two components, the loss component having grown by at most one
  segment. The sum is not compared with \<open>snd_cwnd_clamp\<close>.
\<close>

theorem compound_window_is_sum:
  "\<exists>tp'. tcp_compound_cong_avoid k ack rtt in_flight flag tp = Some tp' \<and>
     (tcp_is_cwnd_limited tp in_flight \<and> mss_cache tp \<noteq> 0 \<and> c_minRTT (icsk_ca_priv tp) \<noteq> 0 \<longrightarrow>
        snd_cwnd tp' = c_cwnd (icsk_ca_priv tp') + c_dwnd (icsk_ca_priv tp') \<and>
        c_cwnd (icsk_ca_priv tp') \<in> {c_cwnd (compound_sync tp), c_cwnd (compound_sync tp) + 1})"
proof -
  define tp1 where "tp1 = tp\<lparr>icsk_ca_priv := compound_sync tp\<rparr>"
  have tp1: "mss_cache tp1 = mss_cache tp" "c_minRTT (icsk_ca_priv tp1) = c_minRTT (icsk_ca_priv tp)"
    "icsk_ca_priv tp1 = compound_sync tp" "tcp_is_cwnd_limited tp1 in_flight = tcp_is_cwnd_limited tp in_flight"
    by (simp_all add: tp1_def compound_sync_def Let_def tcp_is_cwnd_limited_def)
  obtain early tp2 where 2: "compound_round (compound_reno tp1) = Some (early, tp2)"
    "c_cwnd (icsk_ca_priv tp2) = c_cwnd (icsk_ca_priv (compound_reno tp1))"
    "early \<longleftrightarrow> mss_cache tp = 0 \<or> 2 < c_cntRTT (icsk_ca_priv tp1) \<and> c_minRTT (icsk_ca_priv tp) = 0"
    using compound_round_total [of "compound_reno tp1"] unfolding compound_reno_frame tp1(1,2) by blast
  have eq: "tcp_compound_cong_avoid k ack rtt in_flight flag tp =
      (if \<not> tcp_is_cwnd_limited tp in_flight then Some tp1
       else do {
         (early, tp) \<leftarrow> (if after ack (c_beg_snd_nxt (icsk_ca_priv (compound_reno tp1)))
           then compound_round (compound_reno tp1) else Some (False, compound_reno tp1));
         Some (if early then tp
               else tp\<lparr>snd_cwnd := c_cwnd (icsk_ca_priv tp) + c_dwnd (icsk_ca_priv tp)\<rparr>)
       })"
    unfolding tcp_compound_cong_avoid_def Let_def tp1_def [symmetric] tp1(4) ..
  have grow: "c_cwnd (icsk_ca_priv (compound_reno tp1)) \<in> {c_cwnd (compound_sync tp), c_cwnd (compound_sync tp) + 1}"
    using compound_reno_frame(6) [of tp1] unfolding tp1(3) .
  show ?thesis unfolding eq using 2 grow by (cases early) auto
qed

definition ex_compound :: compound where
  "ex_compound = \<lparr>c_beg_snd_nxt = 20000, c_beg_snd_una = 10000, c_beg_snd_cwnd = 40, c_doing_vegas_now = True,
     c_cntRTT = 5, c_minRTT = 100, c_baseRTT = 90, c_cwnd = 30, c_dwnd = 10\<rparr>"

theorem compound_window_is_sum_witness:
  "\<exists>tp'. tcp_compound_cong_avoid ex_kernel 25000 100 40 0 (ex_sock ex_compound) = Some tp' \<and>
     snd_cwnd tp' = c_cwnd (icsk_ca_priv tp') + c_dwnd (icsk_ca_priv tp') \<and>
     c_cwnd (icsk_ca_priv tp') \<in> {30, 31}"
proof -
  have "tcp_is_cwnd_limited (ex_sock ex_compound) 40" "mss_cache (ex_sock ex_compound) \<noteq> 0"
    "c_minRTT (icsk_ca_priv (ex_sock ex_compound)) \<noteq> 0" "c_cwnd (compound_sync (ex_sock ex_compound)) = 30"
    by (simp_all add: ex_sock_def ex_compound_def tcp_is_cwnd_limited_def compound_sync_def)
  then show ?thesis
    using compound_window_is_sum [of ex_kernel 25000 100 40 0 "ex_sock ex_compound"] by auto
qed

end
