(* ===== verification/Tcp_Westwood.thy ===== *)
theory Tcp_Westwood
  imports Tcp_Cong
begin

text \<open>
  \<open>tcp/linux/src/tcp_westwood.c\<close>, Westwood+: a Reno sender that, after a loss, sets its window
  from a filtered estimate of the bandwidth instead of halving it. The lemmas show that the
  filter stays between its inputs, how the acknowledged bytes are accounted over duplicate and
  partial acknowledgements, and when an event faults. \<open>tcp_westwood_info\<close> (netlink, its body
  commented out) is not modelled.
\<close>

section \<open>State\<close>

record westwood =
  ww_bw_ns_est :: u32
  ww_bw_est :: u32
  ww_rtt_win_sx :: u32
  ww_bk :: u32
  ww_snd_una :: u32
  ww_cumul_ack :: u32
  ww_accounted :: u32
  ww_rtt :: u32
  ww_rtt_min :: u32
  ww_first_ack :: bool
  ww_reset_rtt_min :: bool

definition TCP_WESTWOOD_RTT_MIN :: u32 where "TCP_WESTWOOD_RTT_MIN = HZ div 20"
definition TCP_WESTWOOD_INIT_RTT :: u32 where "TCP_WESTWOOD_INIT_RTT = 20 * HZ"

definition tcp_westwood_init :: "kernel \<Rightarrow> westwood tcp_sock \<Rightarrow> westwood tcp_sock option" where
  "tcp_westwood_init k tp = Some (tp\<lparr>icsk_ca_priv :=
     \<lparr>ww_bw_ns_est = 0, ww_bw_est = 0, ww_rtt_win_sx = tcp_time_stamp k, ww_bk = 0,
      ww_snd_una = snd_una tp, ww_cumul_ack = 0, ww_accounted = 0,
      ww_rtt = TCP_WESTWOOD_INIT_RTT, ww_rtt_min = TCP_WESTWOOD_INIT_RTT,
      ww_first_ack = True, ww_reset_rtt_min = True\<rparr>\<rparr>)"

section \<open>The bandwidth filter\<close>

definition westwood_do_filter :: "u32 \<Rightarrow> u32 \<Rightarrow> u32" where
  "westwood_do_filter a b = drop_bit 3 (7 * a + b)"

definition westwood_filter :: "westwood \<Rightarrow> u32 \<Rightarrow> westwood option" where
  "westwood_filter w delta = do {
     sample \<leftarrow> udiv (ww_bk w) delta;
     Some (if ww_bw_ns_est w = 0 \<and> ww_bw_est w = 0
           then w\<lparr>ww_bw_ns_est := sample, ww_bw_est := sample\<rparr>
           else let ns = westwood_do_filter (ww_bw_ns_est w) sample
                in w\<lparr>ww_bw_ns_est := ns, ww_bw_est := westwood_do_filter (ww_bw_est w) ns\<rparr>)
   }"

definition tcp_westwood_pkts_acked ::
  "kernel \<Rightarrow> u32 \<Rightarrow> s64 \<Rightarrow> westwood tcp_sock \<Rightarrow> westwood tcp_sock option" where
  "tcp_westwood_pkts_acked k cnt t_last tp = Some (
     if 0 < cnt then tp\<lparr>icsk_ca_priv := (icsk_ca_priv tp)\<lparr>ww_rtt := drop_bit 3 (srtt tp)\<rparr>\<rparr> else tp)"

text \<open>\<open>delta\<close> is declared \<open>s32\<close>; compared with the unsigned \<open>max_t(u32, ...)\<close> it is unsigned.\<close>

definition westwood_update_window :: "kernel \<Rightarrow> westwood tcp_sock \<Rightarrow> westwood option" where
  "westwood_update_window k tp =
     (let w = icsk_ca_priv tp;
          delta = tcp_time_stamp k - ww_rtt_win_sx w;
          w = (if ww_first_ack w then w\<lparr>ww_snd_una := snd_una tp, ww_first_ack := False\<rparr> else w)
      in if ww_rtt w \<noteq> 0 \<and> max (ww_rtt w) TCP_WESTWOOD_RTT_MIN < delta
         then do {
           w \<leftarrow> westwood_filter w delta;
           Some (w\<lparr>ww_bk := 0, ww_rtt_win_sx := tcp_time_stamp k\<rparr>)
         }
         else Some w)"

definition update_rtt_min :: "westwood \<Rightarrow> westwood" where
  "update_rtt_min w =
     (if ww_reset_rtt_min w then w\<lparr>ww_rtt_min := ww_rtt w, ww_reset_rtt_min := False\<rparr>
      else w\<lparr>ww_rtt_min := min (ww_rtt w) (ww_rtt_min w)\<rparr>)"

definition westwood_fast_bw :: "kernel \<Rightarrow> westwood tcp_sock \<Rightarrow> westwood tcp_sock option" where
  "westwood_fast_bw k tp = do {
     w \<leftarrow> westwood_update_window k tp;
     let w = w\<lparr>ww_bk := ww_bk w + (snd_una tp - ww_snd_una w), ww_snd_una := snd_una tp\<rparr>;
     Some (tp\<lparr>icsk_ca_priv := update_rtt_min w\<rparr>)
   }"

text \<open>The number of bytes an acknowledgement stands for, and the structure it leaves.\<close>

definition westwood_acked_count :: "westwood tcp_sock \<Rightarrow> westwood \<Rightarrow> u32 \<times> westwood" where
  "westwood_acked_count tp w =
     (let w = w\<lparr>ww_cumul_ack := snd_una tp - ww_snd_una w\<rparr>;
          w = (if ww_cumul_ack w = 0
               then w\<lparr>ww_accounted := ww_accounted w + mss_cache tp, ww_cumul_ack := mss_cache tp\<rparr>
               else w);
          w = (if mss_cache tp < ww_cumul_ack w
               then (if ww_cumul_ack w \<le> ww_accounted w
                     then w\<lparr>ww_accounted := ww_accounted w - ww_cumul_ack w, ww_cumul_ack := mss_cache tp\<rparr>
                     else w\<lparr>ww_cumul_ack := ww_cumul_ack w - ww_accounted w, ww_accounted := 0\<rparr>)
               else w);
          w = w\<lparr>ww_snd_una := snd_una tp\<rparr>
      in (ww_cumul_ack w, w))"

section \<open>Events\<close>

definition tcp_westwood_bw_rttmin :: "westwood tcp_sock \<Rightarrow> u32 option" where
  "tcp_westwood_bw_rttmin tp = do {
     q \<leftarrow> udiv (ww_bw_est (icsk_ca_priv tp) * ww_rtt_min (icsk_ca_priv tp)) (mss_cache tp);
     Some (max q 2)
   }"

definition westwood_slow_bw :: "kernel \<Rightarrow> westwood tcp_sock \<Rightarrow> westwood tcp_sock option" where
  "westwood_slow_bw k tp = do {
     w \<leftarrow> westwood_update_window k tp;
     let (n, w) = westwood_acked_count tp w;
     Some (tp\<lparr>icsk_ca_priv := update_rtt_min (w\<lparr>ww_bk := ww_bk w + n\<rparr>)\<rparr>)
   }"

definition tcp_westwood_event ::
  "kernel \<Rightarrow> tcp_ca_event \<Rightarrow> westwood tcp_sock \<Rightarrow> westwood tcp_sock option" where
  "tcp_westwood_event k event tp =
     (case event of
        CA_EVENT_FAST_ACK \<Rightarrow> westwood_fast_bw k tp
      | CA_EVENT_COMPLETE_CWR \<Rightarrow> do {
          v \<leftarrow> tcp_westwood_bw_rttmin tp;
          Some (tp\<lparr>snd_ssthresh := v, snd_cwnd := v\<rparr>)
        }
      | CA_EVENT_FRTO \<Rightarrow> do {
          v \<leftarrow> tcp_westwood_bw_rttmin tp;
          Some (tp\<lparr>snd_ssthresh := v, icsk_ca_priv := (icsk_ca_priv tp)\<lparr>ww_reset_rtt_min := True\<rparr>\<rparr>)
        }
      | CA_EVENT_SLOW_ACK \<Rightarrow> westwood_slow_bw k tp
      | _ \<Rightarrow> Some tp)"

definition tcp_westwood :: "westwood tcp_congestion_ops" where
  "tcp_westwood = null_ops\<lparr>ops_init := Some tcp_westwood_init, ops_ssthresh := Some tcp_reno_ssthresh,
     ops_cong_avoid := Some tcp_reno_cong_avoid, ops_min_cwnd := Some tcp_westwood_bw_rttmin,
     ops_cwnd_event := Some tcp_westwood_event, ops_pkts_acked := Some tcp_westwood_pkts_acked,
     ops_name := ''westwood''\<rparr>"

section \<open>The filter and the window update\<close>

lemma westwood_do_filter_between:
  assumes "unat a < 2 ^ 60" "unat b < 2 ^ 60"
  shows "min (unat a) (unat b) \<le> unat (westwood_do_filter a b)"
    and "unat (westwood_do_filter a b) \<le> max (unat a) (unat b)"
proof -
  have "unat (7 * a) = 7 * unat a" using unat_mult_no_wrap [of 7 a] assms(1) by simp
  then have "unat (7 * a + b) = 7 * unat a + unat b" using unat_add_no_wrap [of "7 * a" b] assms by simp
  then have "unat (westwood_do_filter a b) = (7 * unat a + unat b) div 8"
    by (simp add: westwood_do_filter_def unat_shiftr)
  then show "min (unat a) (unat b) \<le> unat (westwood_do_filter a b)"
    "unat (westwood_do_filter a b) \<le> max (unat a) (unat b)" by (auto simp: min_def max_def)
qed

text \<open>The divisor is the length of the measurement, longer than 50 jiffies.\<close>

lemma westwood_update_window_total: "\<exists>w. westwood_update_window k tp = Some w"
proof (cases "max (ww_rtt (icsk_ca_priv tp)) TCP_WESTWOOD_RTT_MIN < tcp_time_stamp k - ww_rtt_win_sx (icsk_ca_priv tp)")
  case True
  then have "tcp_time_stamp k - ww_rtt_win_sx (icsk_ca_priv tp) \<noteq> 0" by auto
  then show ?thesis by (auto simp: westwood_update_window_def Let_def westwood_filter_def udiv_def)
next
  case False
  then show ?thesis by (auto simp: westwood_update_window_def Let_def)
qed

section \<open>Properties\<close>

text \<open>
  While estimates and samples are below \<open>2 ^ 60\<close> bytes per jiffy, filtering a sample
  \<open>bk / delta\<close> moves both estimates to values that lie between the smallest and the largest of
  the old estimates and the sample: the filter neither overshoots nor overflows.
\<close>

theorem westwood_filter_between:
  assumes "westwood_filter w delta = Some w'"
    and "unat (ww_bw_ns_est w) < 2 ^ 60" "unat (ww_bw_est w) < 2 ^ 60" "unat (ww_bk w div delta) < 2 ^ 60"
  shows "\<forall>v \<in> {unat (ww_bw_ns_est w'), unat (ww_bw_est w')}.
    min (unat (ww_bk w div delta)) (min (unat (ww_bw_ns_est w)) (unat (ww_bw_est w))) \<le> v \<and>
    v \<le> max (unat (ww_bk w div delta)) (max (unat (ww_bw_ns_est w)) (unat (ww_bw_est w)))"
proof (cases "ww_bw_ns_est w = 0 \<and> ww_bw_est w = 0")
  case True
  then show ?thesis using assms(1) by (auto simp: westwood_filter_def udiv_def split: if_splits)
next
  case False
  define ns where "ns = westwood_do_filter (ww_bw_ns_est w) (ww_bk w div delta)"
  note 1 = westwood_do_filter_between [OF assms(2,4), folded ns_def]
  then have "unat ns < 2 ^ 60" using assms(2,4) by simp
  note 2 = westwood_do_filter_between [OF assms(3) this]
  have "w' = w\<lparr>ww_bw_ns_est := ns, ww_bw_est := westwood_do_filter (ww_bw_est w) ns\<rparr>"
    using assms(1) False by (auto simp: westwood_filter_def udiv_def ns_def Let_def split: if_splits)
  then show ?thesis using 1 2 by auto
qed

definition ex_westwood :: westwood where
  "ex_westwood = \<lparr>ww_bw_ns_est = 800, ww_bw_est = 640, ww_rtt_win_sx = 19000, ww_bk = 300000,
     ww_snd_una = 9000, ww_cumul_ack = 0, ww_accounted = 0, ww_rtt = 100, ww_rtt_min = 80,
     ww_first_ack = False, ww_reset_rtt_min = False\<rparr>"

theorem westwood_filter_between_witness:
  "\<exists>w'. westwood_filter ex_westwood 1000 = Some w' \<and> 300 \<le> unat (ww_bw_est w') \<and> unat (ww_bw_est w') \<le> 800"
proof -
  let ?w = "ex_westwood\<lparr>ww_bw_ns_est := 737, ww_bw_est := 652\<rparr>"
  have 1: "westwood_filter ex_westwood 1000 = Some ?w"
    by (simp add: westwood_filter_def ex_westwood_def udiv_def westwood_do_filter_def drop_bit_eq_div)
  have "unat (ww_bw_ns_est ex_westwood) < 2 ^ 60" "unat (ww_bw_est ex_westwood) < 2 ^ 60"
    "unat (ww_bk ex_westwood div 1000) < 2 ^ 60" by (simp_all add: ex_westwood_def)
  from westwood_filter_between [OF 1 this] show ?thesis using 1 by (simp add: ex_westwood_def)
qed

text \<open>
  The accounting of acknowledged bytes: what is counted, plus what had been counted
  in advance on duplicate acknowledgements, is the progress of \<open>snd_una\<close> plus what remains
  counted in advance. The one exception is an advance longer than a segment that the duplicates
  have paid for in full: a further segment is counted for it.
\<close>

theorem westwood_acked_accounting:
  "let (n, w') = westwood_acked_count tp w; d = snd_una tp - ww_snd_una w in
     n + ww_accounted w = d + ww_accounted w' +
       (if d \<noteq> 0 \<and> mss_cache tp < d \<and> d \<le> ww_accounted w then mss_cache tp else 0) \<and>
     ww_snd_una w' = snd_una tp \<and> ww_bk w' = ww_bk w"
  by (simp add: westwood_acked_count_def Let_def)

text \<open>
  The events fault on no state except that the end of a congestion response, and a
  spurious timeout, divide by a segment size of zero; a response that ends sets the window and
  the threshold to the same value, at least two segments.
\<close>

theorem westwood_event_faults_iff:
  "(tcp_westwood_event k e tp = None \<longleftrightarrow>
      mss_cache tp = 0 \<and> (e = CA_EVENT_COMPLETE_CWR \<or> e = CA_EVENT_FRTO)) \<and>
   (\<exists>v. 2 \<le> v \<and> tcp_westwood_event k CA_EVENT_COMPLETE_CWR tp =
      (if mss_cache tp = 0 then None else Some (tp\<lparr>snd_ssthresh := v, snd_cwnd := v\<rparr>)))"
proof -
  obtain w where "westwood_update_window k tp = Some w" using westwood_update_window_total by blast
  then have "\<exists>t. westwood_fast_bw k tp = Some t" "\<exists>t. westwood_slow_bw k tp = Some t"
    by (auto simp: westwood_fast_bw_def westwood_slow_bw_def Let_def split: prod.splits)
  then have "tcp_westwood_event k e tp = None \<longleftrightarrow>
      mss_cache tp = 0 \<and> (e = CA_EVENT_COMPLETE_CWR \<or> e = CA_EVENT_FRTO)"
    by (cases e) (auto simp: tcp_westwood_event_def tcp_westwood_bw_rttmin_def udiv_def)
  moreover have "\<exists>v. 2 \<le> v \<and> tcp_westwood_event k CA_EVENT_COMPLETE_CWR tp =
      (if mss_cache tp = 0 then None else Some (tp\<lparr>snd_ssthresh := v, snd_cwnd := v\<rparr>))"
    by (rule exI [of _ "max (ww_bw_est (icsk_ca_priv tp) * ww_rtt_min (icsk_ca_priv tp) div mss_cache tp) 2"])
      (simp add: tcp_westwood_event_def tcp_westwood_bw_rttmin_def udiv_def)
  ultimately show ?thesis by blast
qed

end
