(* ===== verification/Cong_Registry.thy ===== *)
theory Cong_Registry
  imports Tcp_Cong
begin

unbundle bit_operations_syntax

text \<open>
  The list of congestion control modules: the registration half of \<open>tcp/linux/src/tcp_cong.c\<close>,
  the list macros of \<open>ns-linux-util.h\<close>, \<open>set_linux_file_name\<close> of \<open>ns-linux-c.c\<close>, and
  \<open>CongestionControlManager\<close> of \<open>tcp/tcp-linux.cc\<close>, which caches the list in an array. The
  lemmas show that names stay unique over any sequence of operations, that the cached array is
  never stale when it is used, and what each operation answers on every branch.
\<close>

section \<open>The list and its macros\<close>

text \<open>
  The structures live at addresses; \<open>cong_list\<close> is the order of \<open>ns_tcp_cong_list\<close> from its
  \<open>next\<close> on. \<open>last_added\<close> is \<open>None\<close> while it points to the list head. Removing a structure that
  is not in the list follows stale or null links, and is a fault.
\<close>

record 'ca registry =
  ca_at :: "nat \<Rightarrow> 'ca tcp_congestion_ops"
  file_name :: "nat \<Rightarrow> string option"
  cong_list :: "nat list"
  last_added :: "nat option"
  cc_list_changed :: bool

definition list_add_rcu :: "nat \<Rightarrow> 'ca registry \<Rightarrow> 'ca registry" where
  "list_add_rcu a reg = reg\<lparr>cong_list := a # cong_list reg, last_added := Some a, cc_list_changed := True\<rparr>"

definition list_add_tail_rcu :: "nat \<Rightarrow> 'ca registry \<Rightarrow> 'ca registry" where
  "list_add_tail_rcu a reg =
     reg\<lparr>cong_list := cong_list reg @ [a], last_added := Some a, cc_list_changed := True\<rparr>"

definition list_del_rcu :: "nat \<Rightarrow> 'ca registry \<Rightarrow> 'ca registry option" where
  "list_del_rcu a reg =
     (if a \<in> set (cong_list reg)
      then Some (reg\<lparr>cong_list := remove1 a (cong_list reg), cc_list_changed := True\<rparr>) else None)"

definition list_move :: "nat \<Rightarrow> 'ca registry \<Rightarrow> 'ca registry option" where
  "list_move a reg = do { reg \<leftarrow> list_del_rcu a reg; Some (list_add_rcu a reg) }"

definition set_linux_file_name :: "string \<Rightarrow> 'ca registry \<Rightarrow> 'ca registry" where
  "set_linux_file_name name reg =
     (case last_added reg of None \<Rightarrow> reg | Some a \<Rightarrow> reg\<lparr>file_name := (file_name reg)(a := Some name)\<rparr>)"

section \<open>Registration\<close>

definition EINVAL :: int where "EINVAL = 1"
definition EEXIST :: int where "EEXIST = 2"
definition ENOENT :: int where "ENOENT = 3"
definition EBUSY :: int where "EBUSY = 4"
definition ENOMEM :: int where "ENOMEM = 5"
definition EPERM :: int where "EPERM = 6"

lemmas errno_defs = EINVAL_def EEXIST_def ENOENT_def EBUSY_def ENOMEM_def EPERM_def

text \<open>\<open>#define try_module_get(x) 0\<close> and \<open>#define capable(x) 1\<close>.\<close>

definition try_module_get :: "nat \<Rightarrow> bool" where "try_module_get a = False"
definition capable :: bool where "capable = True"

definition tcp_ca_find :: "string \<Rightarrow> 'ca registry \<Rightarrow> nat option" where
  "tcp_ca_find name reg = find (\<lambda>a. ops_name (ca_at reg a) = name) (cong_list reg)"

definition tcp_register_congestion_control :: "nat \<Rightarrow> 'ca registry \<Rightarrow> int \<times> 'ca registry" where
  "tcp_register_congestion_control a reg =
     (if ops_ssthresh (ca_at reg a) = None \<or> ops_cong_avoid (ca_at reg a) = None then (- EINVAL, reg)
      else if tcp_ca_find (ops_name (ca_at reg a)) reg \<noteq> None then (- EEXIST, reg)
      else (0, list_add_tail_rcu a reg))"

definition tcp_unregister_congestion_control :: "nat \<Rightarrow> 'ca registry \<Rightarrow> 'ca registry option" where
  "tcp_unregister_congestion_control a reg = list_del_rcu a reg"

text \<open>The constructor that \<open>module_init\<close> makes of a module's registration.\<close>

definition module_register :: "nat \<Rightarrow> string \<Rightarrow> 'ca registry \<Rightarrow> 'ca registry" where
  "module_register a protocol reg =
     set_linux_file_name protocol (snd (tcp_register_congestion_control a reg))"

section \<open>Defaults and permissions\<close>

definition set_flags :: "(u32 \<Rightarrow> u32) \<Rightarrow> nat \<Rightarrow> 'ca registry \<Rightarrow> 'ca registry" where
  "set_flags f a reg =
     reg\<lparr>ca_at := (ca_at reg)(a := (ca_at reg a)\<lparr>ops_flags := f (ops_flags (ca_at reg a))\<rparr>)\<rparr>"

definition allow :: "nat \<Rightarrow> 'ca registry \<Rightarrow> 'ca registry" where
  "allow = set_flags (\<lambda>f. f OR TCP_CONG_NON_RESTRICTED)"

definition restrict_all :: "'ca registry \<Rightarrow> 'ca registry" where
  "restrict_all reg = fold (set_flags (\<lambda>f. f AND NOT TCP_CONG_NON_RESTRICTED)) (cong_list reg) reg"

definition tcp_set_default_congestion_control :: "string \<Rightarrow> 'ca registry \<Rightarrow> (int \<times> 'ca registry) option" where
  "tcp_set_default_congestion_control name reg =
     (case tcp_ca_find name reg of
        None \<Rightarrow> Some (- ENOENT, reg)
      | Some a \<Rightarrow> do { reg \<leftarrow> list_move a (allow a reg); Some (0, reg) })"

text \<open>The 16 bytes of \<open>strncpy(name, ca->name, TCP_CA_NAME_MAX)\<close>; an empty list is a fault, for
  the head is then read as a structure (\<open>BUG_ON\<close> is empty).\<close>

definition TCP_CA_NAME_MAX :: nat where "TCP_CA_NAME_MAX = 16"

definition tcp_get_default_congestion_control :: "'ca registry \<Rightarrow> string option" where
  "tcp_get_default_congestion_control reg =
     (case cong_list reg of [] \<Rightarrow> None
      | a # _ \<Rightarrow> Some (take TCP_CA_NAME_MAX (ops_name (ca_at reg a) @ replicate TCP_CA_NAME_MAX (CHR 0x00))))"

text \<open>The tokens of successive calls of \<open>strsep(&s, '' '')\<close>, and those the loops
  \<open>while ((name = strsep(...)) && *name)\<close> see: they stop at an empty one.\<close>

fun strsep_tokens :: "string \<Rightarrow> string \<Rightarrow> string list" where
  "strsep_tokens tok [] = [tok]"
| "strsep_tokens tok (c # s) =
     (if c = CHR '' '' then tok # strsep_tokens [] s else strsep_tokens (tok @ [c]) s)"

definition named :: "string \<Rightarrow> string list" where
  "named val = takeWhile (\<lambda>t. t \<noteq> []) (strsep_tokens [] val)"

definition allow_named :: "string \<Rightarrow> 'ca registry \<Rightarrow> 'ca registry" where
  "allow_named name reg = (case tcp_ca_find name reg of None \<Rightarrow> reg | Some a \<Rightarrow> allow a reg)"

text \<open>\<open>dup\<close> tells whether \<open>kstrdup\<close> found the memory for its copy.\<close>

definition tcp_set_allowed_congestion_control :: "bool \<Rightarrow> string \<Rightarrow> 'ca registry \<Rightarrow> int \<times> 'ca registry" where
  "tcp_set_allowed_congestion_control dup val reg =
     (if \<not> dup then (- ENOMEM, reg)
      else if \<exists>n \<in> set (named val). tcp_ca_find n reg = None then (- ENOENT, reg)
      else (0, fold allow_named (named val) (restrict_all reg)))"

section \<open>Listing the names\<close>

text \<open>
  \<open>snprintf(buf + offs, sz, ...)\<close> of a formatted string \<open>s\<close>: nothing is written when \<open>sz\<close> is
  zero, else as much of \<open>s\<close> as fits and a null byte; the result is the length of \<open>s\<close> in both
  cases. Writing outside the buffer is a fault.
\<close>

definition snprintf_at :: "string \<Rightarrow> nat \<Rightarrow> u64 \<Rightarrow> string \<Rightarrow> (nat \<times> string) option" where
  "snprintf_at buf offs sz s =
     (if sz = 0 then Some (length s, buf)
      else let out = take (unat sz - 1) s @ [CHR 0x00] in
        if offs + length out \<le> length buf
        then Some (length s, take offs buf @ out @ drop (offs + length out) buf) else None)"

fun print_names :: "u64 \<Rightarrow> string list \<Rightarrow> u64 \<Rightarrow> string \<Rightarrow> string option" where
  "print_names maxlen [] offs buf = Some buf"
| "print_names maxlen (name # names) offs buf = do {
     (n, buf) \<leftarrow> snprintf_at buf (unat offs) (maxlen - offs) ((if offs = 0 then '''' else '' '') @ name);
     print_names maxlen names (offs + of_nat n) buf
   }"

definition tcp_get_available_congestion_control :: "'ca registry \<Rightarrow> u64 \<Rightarrow> string \<Rightarrow> string option" where
  "tcp_get_available_congestion_control reg maxlen buf =
     print_names maxlen (map (\<lambda>a. ops_name (ca_at reg a)) (cong_list reg)) 0 buf"

definition tcp_get_allowed_congestion_control :: "'ca registry \<Rightarrow> u64 \<Rightarrow> string \<Rightarrow> string option" where
  "tcp_get_allowed_congestion_control reg maxlen buf =
     (case buf of [] \<Rightarrow> None
      | _ # rest \<Rightarrow> print_names maxlen
          (map (\<lambda>a. ops_name (ca_at reg a))
             (filter (\<lambda>a. ops_flags (ca_at reg a) AND TCP_CONG_NON_RESTRICTED \<noteq> 0) (cong_list reg)))
          0 (CHR 0x00 # rest))"

section \<open>The choice of a socket\<close>

text \<open>\<open>icsk_ca_ops\<close> is an address, \<open>None\<close> when null; using a null pointer is a fault.\<close>

definition call_init :: "kernel \<Rightarrow> 'ca tcp_congestion_ops \<Rightarrow> 'ca tcp_sock \<Rightarrow> 'ca tcp_sock option" where
  "call_init k ops tp = (case ops_init ops of None \<Rightarrow> Some tp | Some f \<Rightarrow> f k tp)"

definition tcp_init_congestion_control ::
  "kernel \<Rightarrow> nat \<Rightarrow> 'ca registry \<Rightarrow> nat option \<times> 'ca tcp_sock \<Rightarrow> (nat option \<times> 'ca tcp_sock) option" where
  "tcp_init_congestion_control k init_ops reg sk =
     (let icsk = (if fst sk = Some init_ops
                  then (case find try_module_get (cong_list reg) of Some a \<Rightarrow> Some a | None \<Rightarrow> fst sk)
                  else fst sk)
      in do { a \<leftarrow> icsk; tp \<leftarrow> call_init k (ca_at reg a) (snd sk); Some (icsk, tp) })"

definition tcp_cleanup_congestion_control ::
  "kernel \<Rightarrow> 'ca registry \<Rightarrow> nat option \<times> 'ca tcp_sock \<Rightarrow> 'ca tcp_sock option" where
  "tcp_cleanup_congestion_control k reg sk = do {
     a \<leftarrow> fst sk;
     (case ops_release (ca_at reg a) of None \<Rightarrow> Some (snd sk) | Some f \<Rightarrow> f k (snd sk))
   }"

definition TCP_CLOSE :: cint where "TCP_CLOSE = 0"

definition tcp_set_congestion_control ::
  "kernel \<Rightarrow> string \<Rightarrow> 'ca registry \<Rightarrow> nat option \<times> 'ca tcp_sock \<Rightarrow> (int \<times> nat option \<times> 'ca tcp_sock) option" where
  "tcp_set_congestion_control k name reg sk =
     (let ca = tcp_ca_find name reg in
      if ca = fst sk then Some (0, sk)
      else case ca of
        None \<Rightarrow> Some (- ENOENT, sk)
      | Some a \<Rightarrow>
          if \<not> (ops_flags (ca_at reg a) AND TCP_CONG_NON_RESTRICTED \<noteq> 0 \<or> capable) then Some (- EPERM, sk)
          else if \<not> try_module_get a then Some (- EBUSY, sk)
          else do {
            tp \<leftarrow> tcp_cleanup_congestion_control k reg sk;
            tp \<leftarrow> (if sk_state tp \<noteq> TCP_CLOSE then call_init k (ca_at reg a) tp else Some tp);
            Some (0, Some a, tp)
          })"

section \<open>The cache of the manager\<close>

text \<open>\<open>reno\<close> is the address of \<open>tcp_reno\<close>, which is always entry 0 of the array.\<close>

definition scan :: "nat \<Rightarrow> 'ca registry \<Rightarrow> nat list \<times> 'ca registry" where
  "scan reno reg = (reno # cong_list reg, reg\<lparr>cc_list_changed := False\<rparr>)"

definition get_ops ::
  "nat \<Rightarrow> string \<Rightarrow> nat list \<times> 'ca registry \<Rightarrow> nat option \<times> nat list \<times> 'ca registry" where
  "get_ops reno name m =
     (let m = (if cc_list_changed (snd m) then scan reno (snd m) else m)
      in (find (\<lambda>a. ops_name (ca_at (snd m) a) = name) (fst m), m))"

section \<open>Lookup\<close>

definition ca_name :: "'ca registry \<Rightarrow> nat \<Rightarrow> string" where
  "ca_name reg a = ops_name (ca_at reg a)"

definition registry_ok :: "'ca registry \<Rightarrow> bool" where
  "registry_ok reg \<longleftrightarrow> distinct (map (ca_name reg) (cong_list reg)) \<and>
     (\<forall>a \<in> set (cong_list reg). ops_ssthresh (ca_at reg a) \<noteq> None \<and> ops_cong_avoid (ca_at reg a) \<noteq> None)"

lemma ca_name_changed [simp]: "ca_name (reg\<lparr>cc_list_changed := b\<rparr>) = ca_name reg"
  by (simp add: ca_name_def fun_eq_iff)

lemma tcp_ca_find_eq: "tcp_ca_find name reg = find (\<lambda>a. ca_name reg a = name) (cong_list reg)"
  by (simp add: tcp_ca_find_def ca_name_def)

lemma set_flags_frame [simp]:
  "ca_name (set_flags f a reg) = ca_name reg" "cong_list (set_flags f a reg) = cong_list reg"
  "ops_ssthresh (ca_at (set_flags f a reg) b) = ops_ssthresh (ca_at reg b)"
  "ops_cong_avoid (ca_at (set_flags f a reg) b) = ops_cong_avoid (ca_at reg b)"
  "cc_list_changed (set_flags f a reg) = cc_list_changed reg"
  "last_added (set_flags f a reg) = last_added reg" "file_name (set_flags f a reg) = file_name reg"
  by (auto simp: set_flags_def ca_name_def fun_eq_iff)

lemma set_flags_at:
  "ops_flags (ca_at (set_flags f a reg) b) = (if b = a then f (ops_flags (ca_at reg a)) else ops_flags (ca_at reg b))"
  by (simp add: set_flags_def)

lemma list_add_frame [simp]:
  "ca_at (list_add_rcu a reg) = ca_at reg" "ca_name (list_add_rcu a reg) = ca_name reg"
  "ca_at (list_add_tail_rcu a reg) = ca_at reg" "ca_name (list_add_tail_rcu a reg) = ca_name reg"
  "cong_list (list_add_rcu a reg) = a # cong_list reg" "cong_list (list_add_tail_rcu a reg) = cong_list reg @ [a]"
  "cc_list_changed (list_add_rcu a reg)" "cc_list_changed (list_add_tail_rcu a reg)"
  by (auto simp: list_add_rcu_def list_add_tail_rcu_def ca_name_def fun_eq_iff)

text \<open>Whatever keeps the flags out of it: the structures agree on what \<open>registry_ok\<close> reads.\<close>

lemma registry_ok_cong:
  assumes "registry_ok reg" "ca_name reg' = ca_name reg"
    and "\<And>a. ops_ssthresh (ca_at reg' a) = ops_ssthresh (ca_at reg a)"
    and "\<And>a. ops_cong_avoid (ca_at reg' a) = ops_cong_avoid (ca_at reg a)"
    and "distinct (cong_list reg')" "set (cong_list reg') \<subseteq> set (cong_list reg)"
  shows "registry_ok reg'"
proof -
  have "inj_on (ca_name reg) (set (cong_list reg'))"
    using assms(1,6) by (auto simp: registry_ok_def distinct_map intro: inj_on_subset)
  then show ?thesis using assms by (auto simp: registry_ok_def distinct_map)
qed

lemma registry_ok_distinct: "registry_ok reg \<Longrightarrow> distinct (cong_list reg)"
  by (simp add: registry_ok_def distinct_map)

lemma register_ok:
  assumes "registry_ok reg"
  shows "registry_ok (snd (tcp_register_congestion_control a reg))"
  using assms
  by (auto simp: tcp_register_congestion_control_def tcp_ca_find_eq find_key_None registry_ok_def
      simp flip: ca_name_def)

lemma list_del_ok:
  assumes "registry_ok reg" "list_del_rcu a reg = Some reg'"
  shows "registry_ok reg'"
  by (rule registry_ok_cong [OF assms(1)])
    (use assms(2) registry_ok_distinct [OF assms(1)] in
      \<open>auto simp: list_del_rcu_def ca_name_def fun_eq_iff split: if_splits dest: notin_set_remove1\<close>)

lemma allow_frame [simp]:
  "ca_name (allow a reg) = ca_name reg" "cong_list (allow a reg) = cong_list reg"
  "ops_ssthresh (ca_at (allow a reg) b) = ops_ssthresh (ca_at reg b)"
  "ops_cong_avoid (ca_at (allow a reg) b) = ops_cong_avoid (ca_at reg b)"
  "cc_list_changed (allow a reg) = cc_list_changed reg"
  by (simp_all add: allow_def)

lemma allow_ok: "registry_ok reg \<Longrightarrow> registry_ok (allow a reg)"
  by (rule registry_ok_cong [of reg]) (simp_all add: registry_ok_distinct)

lemma list_move_eq:
  "list_move a reg = (if a \<in> set (cong_list reg)
     then Some (reg\<lparr>cong_list := a # remove1 a (cong_list reg), last_added := Some a, cc_list_changed := True\<rparr>)
     else None)"
  by (simp add: list_move_def list_del_rcu_def list_add_rcu_def)

lemma set_default_ok:
  assumes "registry_ok reg" "tcp_set_default_congestion_control name reg = Some (r, reg')"
  shows "registry_ok reg'"
proof (cases "tcp_ca_find name reg")
  case None
  then show ?thesis using assms by (simp add: tcp_set_default_congestion_control_def)
next
  case (Some a)
  then have reg': "reg' = (allow a reg)\<lparr>cong_list := a # remove1 a (cong_list reg), last_added := Some a,
      cc_list_changed := True\<rparr>" and a: "a \<in> set (cong_list reg)"
    using assms(2) by (auto simp: tcp_set_default_congestion_control_def list_move_eq split: if_splits)
  show ?thesis
    by (rule registry_ok_cong [OF assms(1)])
      (use a registry_ok_distinct [OF assms(1)] in
        \<open>auto simp: reg' ca_name_def fun_eq_iff allow_def set_flags_def dest: notin_set_remove1\<close>)
qed

section \<open>Permissions\<close>

lemma fold_set_flags_frame [simp]:
  "ca_name (fold (set_flags f) as reg) = ca_name reg" "cong_list (fold (set_flags f) as reg) = cong_list reg"
  "ops_ssthresh (ca_at (fold (set_flags f) as reg) b) = ops_ssthresh (ca_at reg b)"
  "ops_cong_avoid (ca_at (fold (set_flags f) as reg) b) = ops_cong_avoid (ca_at reg b)"
  "cc_list_changed (fold (set_flags f) as reg) = cc_list_changed reg"
  by (induction as arbitrary: reg) simp_all

lemma restrict_all_frame [simp]:
  "ca_name (restrict_all reg) = ca_name reg" "cong_list (restrict_all reg) = cong_list reg"
  "ops_ssthresh (ca_at (restrict_all reg) b) = ops_ssthresh (ca_at reg b)"
  "ops_cong_avoid (ca_at (restrict_all reg) b) = ops_cong_avoid (ca_at reg b)"
  "cc_list_changed (restrict_all reg) = cc_list_changed reg"
  by (simp_all add: restrict_all_def)

lemma and_not_and [simp]: "((f :: u32) AND NOT m) AND m = 0"
  by (auto simp: bit_eq_iff bit_simps)

lemma fold_restrict_at:
  "a \<in> set as \<Longrightarrow> ops_flags (ca_at (fold (set_flags (\<lambda>f. f AND NOT TCP_CONG_NON_RESTRICTED)) as reg) a)
     AND TCP_CONG_NON_RESTRICTED = 0"
proof (induction as arbitrary: reg rule: rev_induct)
  case (snoc b as)
  then show ?case by (cases "a = b") (auto simp: set_flags_at)
qed simp

lemma allow_named_frame [simp]:
  "ca_name (allow_named n reg) = ca_name reg" "cong_list (allow_named n reg) = cong_list reg"
  "ops_ssthresh (ca_at (allow_named n reg) b) = ops_ssthresh (ca_at reg b)"
  "ops_cong_avoid (ca_at (allow_named n reg) b) = ops_cong_avoid (ca_at reg b)"
  "cc_list_changed (allow_named n reg) = cc_list_changed reg"
  by (simp_all add: allow_named_def split: option.split)

lemma fold_allow_named_frame [simp]:
  "ca_name (fold allow_named ns reg) = ca_name reg" "cong_list (fold allow_named ns reg) = cong_list reg"
  "ops_ssthresh (ca_at (fold allow_named ns reg) b) = ops_ssthresh (ca_at reg b)"
  "ops_cong_avoid (ca_at (fold allow_named ns reg) b) = ops_cong_avoid (ca_at reg b)"
  "cc_list_changed (fold allow_named ns reg) = cc_list_changed reg"
  by (induction ns arbitrary: reg) simp_all

lemma or_allowed: "(f OR TCP_CONG_NON_RESTRICTED) AND TCP_CONG_NON_RESTRICTED \<noteq> 0"
proof -
  have "(f OR TCP_CONG_NON_RESTRICTED) AND TCP_CONG_NON_RESTRICTED = TCP_CONG_NON_RESTRICTED"
    by (auto simp: bit_eq_iff bit_simps)
  then show ?thesis by (simp add: TCP_CONG_NON_RESTRICTED_def)
qed

lemma allow_named_at:
  assumes "registry_ok reg" "a \<in> set (cong_list reg)"
  shows "ops_flags (ca_at (allow_named n reg) a) AND TCP_CONG_NON_RESTRICTED \<noteq> 0 \<longleftrightarrow>
    n = ca_name reg a \<or> ops_flags (ca_at reg a) AND TCP_CONG_NON_RESTRICTED \<noteq> 0"
proof (cases "n = ca_name reg a")
  case True
  then have "tcp_ca_find n reg = Some a"
    using assms find_key_distinct [of "ca_name reg" "cong_list reg" a]
    by (simp add: tcp_ca_find_eq registry_ok_def)
  then show ?thesis using True or_allowed by (simp add: allow_named_def allow_def set_flags_at)
next
  case False
  then have "tcp_ca_find n reg \<noteq> Some a" using find_key_Some [of "ca_name reg" n "cong_list reg" a] by (auto simp: tcp_ca_find_eq)
  then have "ops_flags (ca_at (allow_named n reg) a) = ops_flags (ca_at reg a)"
    by (cases "tcp_ca_find n reg") (simp_all add: allow_named_def allow_def set_flags_at)
  then show ?thesis using False by simp
qed

lemma fold_allow_named_at:
  assumes "registry_ok reg" "a \<in> set (cong_list reg)"
  shows "ops_flags (ca_at (fold allow_named ns reg) a) AND TCP_CONG_NON_RESTRICTED \<noteq> 0 \<longleftrightarrow>
    ca_name reg a \<in> set ns \<or> ops_flags (ca_at reg a) AND TCP_CONG_NON_RESTRICTED \<noteq> 0"
  using assms
proof (induction ns arbitrary: reg)
  case (Cons n ns)
  have "registry_ok (allow_named n reg)"
    by (rule registry_ok_cong [OF Cons.prems(1)]) (simp_all add: registry_ok_distinct [OF Cons.prems(1)])
  then show ?case using Cons by (auto simp: allow_named_at)
qed simp

lemma set_allowed_ok:
  "registry_ok reg \<Longrightarrow> registry_ok (snd (tcp_set_allowed_congestion_control dup val reg))"
  by (rule registry_ok_cong [of reg]) (simp_all add: tcp_set_allowed_congestion_control_def registry_ok_distinct)

section \<open>The cache is never stale\<close>

inductive reg_step :: "'ca registry \<Rightarrow> 'ca registry \<Rightarrow> bool" where
  register: "reg_step reg (module_register a protocol reg)"
| unregister: "tcp_unregister_congestion_control a reg = Some reg' \<Longrightarrow> reg_step reg reg'"
| set_default: "tcp_set_default_congestion_control name reg = Some (r, reg') \<Longrightarrow> reg_step reg reg'"
| set_allowed: "reg_step reg (snd (tcp_set_allowed_congestion_control dup val reg))"

text \<open>What a cache of the members needs of the owner: a flag raised by every step that changes
  them and lowered by none.\<close>

locale change_flag =
  fixes step :: "'r \<Rightarrow> 'r \<Rightarrow> bool" and members :: "'r \<Rightarrow> 'm list" and changed :: "'r \<Rightarrow> bool"
  assumes flag_kept: "step r r' \<Longrightarrow> changed r \<Longrightarrow> changed r'"
    and flag_raised: "step r r' \<Longrightarrow> \<not> changed r' \<Longrightarrow> members r' = members r"
begin

lemma cache_current:
  "rtranclp step r r' \<Longrightarrow> \<not> changed r \<longrightarrow> c = members r \<Longrightarrow> \<not> changed r' \<longrightarrow> c = members r'"
  by (induction rule: rtranclp_induct) (use flag_kept flag_raised in metis)+

end

lemma set_linux_file_name_frame [simp]:
  "cong_list (set_linux_file_name p reg) = cong_list reg" "ca_at (set_linux_file_name p reg) = ca_at reg"
  "cc_list_changed (set_linux_file_name p reg) = cc_list_changed reg"
  "ca_name (set_linux_file_name p reg) = ca_name reg"
  by (auto simp: set_linux_file_name_def ca_name_def fun_eq_iff split: option.split)

interpretation registry: change_flag reg_step cong_list cc_list_changed
proof (unfold_locales, goal_cases)
  case (1 r r')
  then show ?case
    by cases (auto simp: module_register_def tcp_register_congestion_control_def
        tcp_unregister_congestion_control_def tcp_set_default_congestion_control_def
        tcp_set_allowed_congestion_control_def list_del_rcu_def list_move_eq
        split: option.splits if_splits)
next
  case (2 r r')
  then show ?case
    by cases (auto simp: module_register_def tcp_register_congestion_control_def
        tcp_unregister_congestion_control_def tcp_set_default_congestion_control_def
        tcp_set_allowed_congestion_control_def list_del_rcu_def list_move_eq
        split: option.splits if_splits)
qed

lemma reg_step_ok: "reg_step reg reg' \<Longrightarrow> registry_ok reg \<Longrightarrow> registry_ok reg'"
proof (induction rule: reg_step.induct)
  case (register reg a protocol)
  have "registry_ok (snd (tcp_register_congestion_control a reg))" using register by (rule register_ok)
  from registry_ok_cong [OF this] show ?case
    by (simp add: module_register_def registry_ok_distinct [OF \<open>registry_ok (snd _)\<close>])
qed (auto simp: tcp_unregister_congestion_control_def intro: list_del_ok set_default_ok set_allowed_ok)

text \<open>Everything the simulator does with the list and its cache, from the empty list on.\<close>

inductive manager_reach :: "nat \<Rightarrow> nat list \<times> 'ca registry \<Rightarrow> bool" for reno where
  start: "cong_list reg = [] \<Longrightarrow> manager_reach reno (scan reno reg)"
| step: "manager_reach reno (c, reg) \<Longrightarrow> reg_step reg reg' \<Longrightarrow> manager_reach reno (c, reg')"
| lookup: "manager_reach reno m \<Longrightarrow> manager_reach reno (snd (get_ops reno name m))"

lemma manager_reach_inv:
  "manager_reach reno m \<Longrightarrow>
     registry_ok (snd m) \<and> (\<not> cc_list_changed (snd m) \<longrightarrow> fst m = reno # cong_list (snd m))"
proof (induction rule: manager_reach.induct)
  case (start reg)
  then show ?case by (simp add: scan_def registry_ok_def)
next
  case (step c reg reg')
  then have "\<not> cc_list_changed reg' \<longrightarrow> tl c = cong_list reg'"
    using registry.cache_current [OF r_into_rtranclp [of reg_step reg reg'], of "tl c"] by auto
  moreover have "\<not> cc_list_changed reg' \<longrightarrow> c = reno # tl c"
    using step registry.flag_kept [of reg reg'] by auto
  ultimately show ?case using step reg_step_ok by auto
next
  case (lookup m name)
  then show ?case by (auto simp: get_ops_def scan_def Let_def registry_ok_def)
qed

section \<open>Names and buffers\<close>

definition spaced :: "string list \<Rightarrow> string" where
  "spaced names = concat (map (\<lambda>n. '' '' @ n) names)"

fun joined :: "string list \<Rightarrow> string" where
  "joined [] = []"
| "joined (n # ns) = n @ spaced ns"

lemma spaced_simps [simp]: "spaced [] = []" "spaced (n # ns) = CHR '' '' # n @ spaced ns"
  by (simp_all add: spaced_def)

lemma length_spaced_butlast: "length (spaced (butlast ns)) \<le> length (spaced ns)"
  by (induction ns) auto

lemma snprintf_at_in:
  assumes "length buf = unat maxlen" "unat offs \<le> unat maxlen"
  obtains buf' where "snprintf_at buf (unat offs) (maxlen - offs) s = Some (length s, buf')"
    "length buf' = length buf"
proof -
  have sub: "unat (maxlen - offs) = unat maxlen - unat offs" using assms(2) by (simp add: unat_sub word_le_nat_alt)
  show ?thesis
  proof (cases "maxlen - offs = 0")
    case True
    then show ?thesis using that by (simp add: snprintf_at_def)
  next
    case False
    then have pos: "0 < unat (maxlen - offs)" by (simp add: unat_gt_0)
    define out where "out = take (unat (maxlen - offs) - 1) s @ [CHR 0x00]"
    have "length out \<le> unat maxlen - unat offs" using pos by (simp add: out_def flip: sub)
    then have fit: "unat offs + length out \<le> length buf" using assms by linarith
    then have "snprintf_at buf (unat offs) (maxlen - offs) s =
        Some (length s, take (unat offs) buf @ out @ drop (unat offs + length out) buf)"
      using False unfolding snprintf_at_def Let_def out_def [symmetric] by simp
    then show ?thesis using that fit by simp
  qed
qed

lemma snprintf_at_out:
  assumes "length buf = unat maxlen" "unat maxlen < unat offs"
  shows "snprintf_at buf (unat offs) (maxlen - offs) s = None"
  using assms by (auto simp: snprintf_at_def Let_def)

lemma print_names_None:
  assumes "length buf = unat maxlen" "0 < unat offs" "unat offs + length (spaced names) < 2 ^ 64"
  shows "print_names maxlen names offs buf = None \<longleftrightarrow>
    names \<noteq> [] \<and> unat maxlen < unat offs + length (spaced (butlast names))"
  using assms
proof (induction names arbitrary: offs buf)
  case (Cons n ns)
  have nz: "offs \<noteq> 0" using Cons.prems(2) by auto
  show ?case
  proof (cases "unat offs \<le> unat maxlen")
    case True
    obtain buf' where buf': "snprintf_at buf (unat offs) (maxlen - offs) (CHR '' '' # n) = Some (Suc (length n), buf')"
      "length buf' = length buf" using snprintf_at_in [OF Cons.prems(1) True, of "CHR '' '' # n"] by auto
    have "unat (of_nat (Suc (length n)) :: u64) = Suc (length n)"
      using Cons.prems(3) by (intro unat_of_nat_below) simp
    then have next_offs: "unat (offs + of_nat (Suc (length n))) = unat offs + Suc (length n)"
      using Cons.prems(3) by (subst unat_add_no_wrap) simp_all
    have "print_names maxlen (n # ns) offs buf = print_names maxlen ns (offs + of_nat (Suc (length n))) buf'"
      using buf'(1) nz by simp
    then show ?thesis using Cons.IH [of buf' "offs + of_nat (Suc (length n))"] Cons.prems(1,3) buf'(2) True
      unfolding next_offs by (cases ns) auto
  next
    case False
    then have "print_names maxlen (n # ns) offs buf = None"
      using snprintf_at_out [OF Cons.prems(1), of offs] nz by (simp del: of_nat_Suc)
    then show ?thesis using False by simp
  qed
qed simp

lemma snprintf_at_fits:
  assumes "length (pre @ CHR 0x00 # post) = unat maxlen" "length pre + length s < unat maxlen"
    and "unat offs = length pre"
  shows "\<exists>post'. snprintf_at (pre @ CHR 0x00 # post) (unat offs) (maxlen - offs) s =
      Some (length s, pre @ s @ CHR 0x00 # post') \<and> length (pre @ s @ CHR 0x00 # post') = unat maxlen"
proof -
  have sub: "unat (maxlen - offs) = unat maxlen - length pre"
    using assms by (simp add: unat_sub word_le_nat_alt)
  then have "maxlen - offs \<noteq> 0" "length s \<le> unat (maxlen - offs) - 1"
    using assms(2) by auto
  then show ?thesis using assms
    by (intro exI [of _ "drop (length s) post"]) (simp add: snprintf_at_def Let_def)
qed

lemma print_names_fits:
  assumes "length (pre @ CHR 0x00 # post) = unat maxlen" "length pre + length (spaced names) < unat maxlen"
    and "unat offs = length pre" "pre \<noteq> []"
  shows "\<exists>post'. print_names maxlen names offs (pre @ CHR 0x00 # post) =
      Some (pre @ spaced names @ CHR 0x00 # post')"
  using assms
proof (induction names arbitrary: pre post offs)
  case (Cons n ns)
  have nz: "offs \<noteq> 0" using Cons.prems(3,4) by auto
  obtain post' where 1: "snprintf_at (pre @ CHR 0x00 # post) (unat offs) (maxlen - offs) (CHR '' '' # n) =
      Some (Suc (length n), (pre @ CHR '' '' # n) @ CHR 0x00 # post')"
    "length ((pre @ CHR '' '' # n) @ CHR 0x00 # post') = unat maxlen"
    using snprintf_at_fits [OF Cons.prems(1) _ Cons.prems(3), of "CHR '' '' # n"] Cons.prems(2) by auto
  have "unat maxlen < 2 ^ 64" using unat_bound [of maxlen] by simp
  moreover have "length pre + Suc (length n) < unat maxlen" using Cons.prems(2) by simp
  ultimately have bd: "length pre + Suc (length n) < 2 ^ 64" by (rule order_less_trans [rotated])
  then have "unat (of_nat (Suc (length n)) :: u64) = Suc (length n)"
    by (intro unat_of_nat_below) simp
  with bd have "unat (offs + of_nat (Suc (length n))) = length (pre @ CHR '' '' # n)"
    using Cons.prems(3) by (subst unat_add_no_wrap) (simp_all del: of_nat_Suc)
  from Cons.IH [OF 1(2) _ this] show ?case
    using Cons.prems(2) 1(1) nz by (simp del: of_nat_Suc)
qed simp

section \<open>Properties\<close>

text \<open>
  Property C35. From an empty list on, whatever modules are registered, removed, made the default
  or restricted, and whenever names are looked up: no two registered modules have the same name,
  every registered module has the two required operations, and \<open>get_ops\<close> answers from the
  present list (with Reno in front), although it reads a cached array.
\<close>

theorem get_ops_current:
  assumes "manager_reach reno (c, reg)"
  shows "fst (get_ops reno name (c, reg)) = find (\<lambda>a. ca_name reg a = name) (reno # cong_list reg) \<and>
    distinct (map (ca_name reg) (cong_list reg)) \<and>
    (\<forall>a \<in> set (cong_list reg). ops_ssthresh (ca_at reg a) \<noteq> None \<and> ops_cong_avoid (ca_at reg a) \<noteq> None)"
proof -
  note inv = manager_reach_inv [OF assms, unfolded fst_conv snd_conv]
  then have "fst (get_ops reno name (c, reg)) = find (\<lambda>a. ca_name reg a = name) (reno # cong_list reg)"
    unfolding get_ops_def Let_def scan_def ca_name_def [symmetric]
    by (cases "cc_list_changed reg") simp_all
  then show ?thesis using inv unfolding registry_ok_def by blast
qed

definition ex_registry :: "unit registry" where
  "ex_registry = \<lparr>ca_at = (\<lambda>_. tcp_reno), file_name = (\<lambda>_. None), cong_list = [], last_added = None,
     cc_list_changed = False\<rparr>"

theorem get_ops_current_witness:
  "fst (get_ops 7 ''reno'' ([7], module_register 7 ''tcp_cong.c'' ex_registry)) = Some 7"
proof -
  have "manager_reach 7 (scan 7 ex_registry)" by (rule start) (simp add: ex_registry_def)
  then have "manager_reach 7 ([7], ex_registry)" by (simp add: scan_def ex_registry_def)
  from step [OF this register]
  have r: "manager_reach 7 ([7], module_register 7 ''tcp_cong.c'' ex_registry)" .
  have "ca_name (module_register 7 ''tcp_cong.c'' ex_registry) 7 = ''reno''"
    by (simp add: module_register_def tcp_register_congestion_control_def tcp_ca_find_def ex_registry_def
        ca_name_def tcp_reno_def null_ops_def)
  then show ?thesis using get_ops_current [OF r, of "''reno''"] by simp
qed

text \<open>
  Setting the allowed modules is all or nothing. With an unknown name in the string
  (or no memory) the list is left as it was; otherwise exactly the modules named, up to the first
  empty token, carry the flag afterwards, and the list keeps its order.
\<close>

theorem set_allowed_exact:
  assumes "registry_ok reg" "tcp_set_allowed_congestion_control dup val reg = (r, reg')"
  shows "(r \<noteq> 0 \<and> reg' = reg \<and> (dup \<longrightarrow> \<not> set (named val) \<subseteq> ca_name reg ` set (cong_list reg))) \<or>
    (r = 0 \<and> cong_list reg' = cong_list reg \<and> set (named val) \<subseteq> ca_name reg ` set (cong_list reg) \<and>
     (\<forall>a \<in> set (cong_list reg). ops_flags (ca_at reg' a) AND TCP_CONG_NON_RESTRICTED \<noteq> 0 \<longleftrightarrow>
        ca_name reg a \<in> set (named val)))"
proof (cases "dup \<and> (\<forall>n \<in> set (named val). tcp_ca_find n reg \<noteq> None)")
  case False
  then have "r \<noteq> 0 \<and> reg' = reg" using assms(2)
    by (auto simp: tcp_set_allowed_congestion_control_def errno_defs split: if_splits)
  moreover have "\<not> set (named val) \<subseteq> ca_name reg ` set (cong_list reg)" if dup
    using False that by (auto simp: tcp_ca_find_eq find_key_None)
  ultimately show ?thesis by blast
next
  case True
  then have r: "r = 0" "reg' = fold allow_named (named val) (restrict_all reg)"
    using assms(2) by (auto simp: tcp_set_allowed_congestion_control_def split: if_splits)
  have sub: "set (named val) \<subseteq> ca_name reg ` set (cong_list reg)"
    using True by (auto simp: tcp_ca_find_eq find_key_None)
  have "registry_ok (restrict_all reg)"
    by (rule registry_ok_cong [OF assms(1)]) (simp_all add: registry_ok_distinct [OF assms(1)])
  from fold_allow_named_at [OF this]
  have "\<forall>a \<in> set (cong_list reg). ops_flags (ca_at reg' a) AND TCP_CONG_NON_RESTRICTED \<noteq> 0 \<longleftrightarrow>
      ca_name reg a \<in> set (named val)"
    unfolding r(2) restrict_all_frame using fold_restrict_at by (metis restrict_all_def)
  then show ?thesis using r(1) sub by (simp add: r(2))
qed

theorem set_allowed_exact_witness:
  "\<exists>r reg'. tcp_set_allowed_congestion_control True ''reno vegas'' ex_registry = (r, reg') \<and> reg' = ex_registry"
proof -
  have ok: "registry_ok ex_registry" by (simp add: registry_ok_def ex_registry_def)
  obtain r reg' where eq: "tcp_set_allowed_congestion_control True ''reno vegas'' ex_registry = (r, reg')"
    by fastforce
  have "named ''reno vegas'' \<noteq> []" by (simp add: named_def)
  then show ?thesis using set_allowed_exact [OF ok eq] eq by (auto simp: ex_registry_def)
qed

text \<open>
  No socket can change its module through \<open>tcp_set_congestion_control\<close>: because
  \<open>try_module_get\<close> is defined as 0, the call answers success only when the module is the present
  one, \<open>-ENOENT\<close> for an unknown name and \<open>-EBUSY\<close> for every other, and leaves the socket as it is.
\<close>

theorem set_congestion_control_busy:
  "\<exists>r. tcp_set_congestion_control k name reg sk = Some (r, sk) \<and>
     r = (if tcp_ca_find name reg = fst sk then 0
          else if tcp_ca_find name reg = None then - ENOENT else - EBUSY)"
  by (auto simp: tcp_set_congestion_control_def Let_def try_module_get_def capable_def split: option.split)

text \<open>
  \<open>tcp_get_available_congestion_control\<close> writes outside its buffer exactly when the
  names before the last one, with their separators, are longer than the buffer: \<open>snprintf\<close> returns
  the length it would have needed, and \<open>maxlen - offs\<close> then wraps to a huge limit.
\<close>

theorem get_available_overflows_iff:
  assumes "length buf = unat maxlen"
    and "\<forall>a \<in> set (cong_list reg). ca_name reg a \<noteq> []"
    and "length (joined (map (ca_name reg) (cong_list reg))) < 2 ^ 64"
  shows "tcp_get_available_congestion_control reg maxlen buf = None \<longleftrightarrow>
    unat maxlen < length (joined (butlast (map (ca_name reg) (cong_list reg))))"
proof (cases "map (ca_name reg) (cong_list reg)")
  case Nil
  then show ?thesis by (simp add: tcp_get_available_congestion_control_def)
next
  case (Cons n ns)
  have n: "unat (of_nat (length n) :: u64) = length n"
    using assms(3) unfolding Cons by (intro unat_of_nat_below) simp
  have "n \<in> ca_name reg ` set (cong_list reg)" using Cons by (metis list.set_intros(1) list.set_map)
  then have pos: "0 < length n" using assms(2) by auto
  obtain buf' where buf': "snprintf_at buf (unat (0 :: u64)) (maxlen - 0) n = Some (length n, buf')"
    "length buf' = length buf" using snprintf_at_in [OF assms(1), of 0 n] by auto
  have "tcp_get_available_congestion_control reg maxlen buf = print_names maxlen ns (of_nat (length n)) buf'"
    using buf'(1) Cons unfolding tcp_get_available_congestion_control_def ca_name_def [symmetric] by simp
  then show ?thesis
    using print_names_None [of buf' maxlen "of_nat (length n)" ns] assms(1,3) buf'(2) pos n Cons
    by (cases ns) auto
qed

theorem get_available_overflows_iff_witness:
  "tcp_get_available_congestion_control
     (ex_registry\<lparr>cong_list := [1, 2, 3]\<rparr>) 8 (replicate 8 (CHR ''x'')) = None"
proof -
  have "length (replicate 8 (CHR ''x'')) = unat (8 :: u64)"
    "\<forall>a \<in> set (cong_list (ex_registry\<lparr>cong_list := [1, 2, 3]\<rparr>)). ca_name (ex_registry\<lparr>cong_list := [1, 2, 3]\<rparr>) a \<noteq> []"
    "length (joined (map (ca_name (ex_registry\<lparr>cong_list := [1, 2, 3]\<rparr>)) (cong_list (ex_registry\<lparr>cong_list := [1, 2, 3]\<rparr>)))) < 2 ^ 64"
    by (simp_all add: ca_name_def ex_registry_def tcp_reno_def null_ops_def)
  from get_available_overflows_iff [OF this] show ?thesis
    by (simp add: ca_name_def ex_registry_def tcp_reno_def null_ops_def)
qed

text \<open>
  When the buffer is large enough, \<open>tcp_get_available_congestion_control\<close> fills it
  with the names in list order, separated by single spaces and followed by a null byte.
\<close>

theorem get_available_lists_names:
  assumes "length buf = unat maxlen" "cong_list reg \<noteq> []"
    and "\<forall>a \<in> set (cong_list reg). ca_name reg a \<noteq> []"
    and "length (joined (map (ca_name reg) (cong_list reg))) < unat maxlen"
  shows "\<exists>post. tcp_get_available_congestion_control reg maxlen buf =
    Some (joined (map (ca_name reg) (cong_list reg)) @ CHR 0x00 # post)"
proof -
  obtain n ns where Cons: "map (ca_name reg) (cong_list reg) = n # ns" using assms(2) by (cases "cong_list reg") auto
  have "n \<in> ca_name reg ` set (cong_list reg)" using Cons by (metis list.set_intros(1) list.set_map)
  then have pos: "n \<noteq> []" using assms(3) by auto
  have fit: "length n + length (spaced ns) < unat maxlen" using assms(4) unfolding Cons by simp
  then have "length n < 18446744073709551616" using unat_lt_64 [of maxlen] by linarith
  then have n: "unat (of_nat (length n) :: u64) = length n"
    by (intro unat_of_nat_below) simp
  define post where "post = drop (Suc (length n)) buf"
  have eq: "snprintf_at buf (unat (0 :: u64)) (maxlen - 0) n = Some (length n, n @ CHR 0x00 # post)"
    "length (n @ CHR 0x00 # post) = unat maxlen"
    using assms(1) fit by (auto simp: snprintf_at_def Let_def post_def)
  have "tcp_get_available_congestion_control reg maxlen buf =
      print_names maxlen ns (of_nat (length n)) (n @ CHR 0x00 # post)"
    using eq(1) Cons unfolding tcp_get_available_congestion_control_def ca_name_def [symmetric] by simp
  then show ?thesis using print_names_fits [OF eq(2) fit n pos] unfolding Cons by simp
qed

theorem get_available_lists_names_witness:
  "\<exists>post. tcp_get_available_congestion_control (ex_registry\<lparr>cong_list := [1, 2]\<rparr>) 20 (replicate 20 (CHR ''x'')) =
     Some (''reno reno'' @ CHR 0x00 # post)"
proof -
  have "length (replicate 20 (CHR ''x'')) = unat (20 :: u64)" "cong_list (ex_registry\<lparr>cong_list := [1, 2]\<rparr>) \<noteq> []"
    "\<forall>a \<in> set (cong_list (ex_registry\<lparr>cong_list := [1, 2]\<rparr>)). ca_name (ex_registry\<lparr>cong_list := [1, 2]\<rparr>) a \<noteq> []"
    "length (joined (map (ca_name (ex_registry\<lparr>cong_list := [1, 2]\<rparr>)) (cong_list (ex_registry\<lparr>cong_list := [1, 2]\<rparr>)))) < unat (20 :: u64)"
    by (simp_all add: ca_name_def ex_registry_def tcp_reno_def null_ops_def)
  from get_available_lists_names [OF this] show ?thesis
    by (simp add: ca_name_def ex_registry_def tcp_reno_def null_ops_def)
qed

end
