(* ===== verification/Linux_Params.thy ===== *)
theory Linux_Params
  imports Linux_Kernel
begin

text \<open>
  The tunable parameters of the modules: the two-level list that \<open>module_param\<close> fills
  (\<open>tcp/linux/ns-linux-c.c\<close>, with the three general parameters of \<open>ns-linux-param.c\<close>), and the
  classes \<open>ParamList\<close> and \<open>LinuxParamManager\<close> of \<open>tcp/tcp-linux.cc\<close>, by which every agent has
  its own values for global variables: \<open>load_local\<close> before a call into a module,
  \<open>restore_default\<close> after it. The lemmas show that lookups find what was recorded, and that the
  agents are isolated from each other.
\<close>

section \<open>The list of recorded parameters\<close>

text \<open>A parameter is an \<open>int\<close> at an address; null pointers are \<open>None\<close>. Allocation does not fail.\<close>

record cc_param =
  param_name :: string
  param_type :: "string option"
  description :: "string option"
  param_ptr :: "nat option"

record cc_entry =
  cc_proto :: string
  param_head :: "cc_param list"

fun update_first :: "('a \<Rightarrow> bool) \<Rightarrow> ('a \<Rightarrow> 'a) \<Rightarrow> 'a list \<Rightarrow> 'a list" where
  "update_first P f [] = []"
| "update_first P f (x # xs) = (if P x then f x # xs else x # update_first P f xs)"

definition add_cc_by_proto :: "string \<Rightarrow> cc_entry list \<Rightarrow> cc_entry list" where
  "add_cc_by_proto proto l =
     (case find (\<lambda>e. cc_proto e = proto) l of
        None \<Rightarrow> \<lparr>cc_proto = proto, param_head = []\<rparr> # l
      | Some _ \<Rightarrow> l)"

definition add_param_by_name :: "string \<Rightarrow> cc_param list \<Rightarrow> cc_param list" where
  "add_param_by_name name l =
     (case find (\<lambda>q. param_name q = name) l of
        None \<Rightarrow> \<lparr>param_name = name, param_type = None, description = None, param_ptr = None\<rparr> # l
      | Some _ \<Rightarrow> l)"

text \<open>\<open>find_param_by_proto_name(proto, name)\<close> followed by an assignment through its result.\<close>

definition update_param :: "string \<Rightarrow> string \<Rightarrow> (cc_param \<Rightarrow> cc_param) \<Rightarrow> cc_entry list \<Rightarrow> cc_entry list" where
  "update_param proto name f l =
     update_first (\<lambda>e. cc_proto e = proto)
       (\<lambda>e. e\<lparr>param_head := update_first (\<lambda>q. param_name q = name) f (add_param_by_name name (param_head e))\<rparr>)
       (add_cc_by_proto proto l)"

definition record_linux_param :: "string \<Rightarrow> string \<Rightarrow> string \<Rightarrow> nat \<Rightarrow> cc_entry list \<Rightarrow> cc_entry list" where
  "record_linux_param proto name ty ptr =
     update_param proto name (\<lambda>q. q\<lparr>param_type := Some ty, param_ptr := Some ptr\<rparr>)"

definition record_linux_param_description :: "string \<Rightarrow> string \<Rightarrow> string \<Rightarrow> cc_entry list \<Rightarrow> cc_entry list" where
  "record_linux_param_description proto name explanation =
     update_param proto name (\<lambda>q. q\<lparr>description := Some explanation\<rparr>)"

text \<open>\<open>ns-linux-param.c\<close>: the general parameters and their initial values, at given addresses.\<close>

definition record_general_params :: "nat \<Rightarrow> nat \<Rightarrow> nat \<Rightarrow> cc_entry list \<Rightarrow> cc_entry list" where
  "record_general_params abc burst debug =
     record_linux_param_description ''tcp_linux.c'' ''debug_level''
       ''The debug level: 0: INFO; <=1: NOTICE; <=2: ERROR''
     \<circ> record_linux_param ''tcp_linux.c'' ''debug_level'' ''int'' debug
     \<circ> record_linux_param_description ''tcp_linux.c'' ''tcp_max_burst'' ''the maximum burst size of a TCP''
     \<circ> record_linux_param ''tcp_linux.c'' ''tcp_max_burst'' ''int'' burst
     \<circ> record_linux_param_description ''tcp_linux.c'' ''sysctl_tcp_abc'' ''whether we needs ABC or not''
     \<circ> record_linux_param ''tcp_linux.c'' ''sysctl_tcp_abc'' ''int'' abc"

section \<open>The values of one agent\<close>

type_synonym memory = "nat \<Rightarrow> cint"

record param_node =
  addr :: nat
  param_value :: cint
  default_value :: cint

type_synonym param_list = "param_node list"

definition list_get_param :: "nat \<Rightarrow> param_list \<Rightarrow> cint option" where
  "list_get_param a l = map_option param_value (find (\<lambda>p. addr p = a) l)"

definition list_set_param :: "nat \<Rightarrow> cint \<Rightarrow> memory \<Rightarrow> param_list \<Rightarrow> param_list" where
  "list_set_param a v m l =
     (case find (\<lambda>p. addr p = a) l of
        Some _ \<Rightarrow> update_first (\<lambda>p. addr p = a) (\<lambda>p. p\<lparr>param_value := v\<rparr>) l
      | None \<Rightarrow> \<lparr>addr = a, param_value = v, default_value = m a\<rparr> # l)"

fun refresh_default :: "param_list \<Rightarrow> memory \<Rightarrow> param_list" where
  "refresh_default [] m = []"
| "refresh_default (p # l) m = p\<lparr>default_value := m (addr p)\<rparr> # refresh_default l m"

fun restore_default :: "param_list \<Rightarrow> memory \<Rightarrow> param_list \<times> memory" where
  "restore_default [] m = ([], m)"
| "restore_default (p # l) m =
     (let (l', m') = restore_default l (m(addr p := default_value p))
      in (p\<lparr>param_value := m (addr p)\<rparr> # l', m'))"

fun load_local :: "param_list \<Rightarrow> memory \<Rightarrow> param_list \<times> memory" where
  "load_local [] m = ([], m)"
| "load_local (p # l) m =
     (let (l', m') = load_local l (m(addr p := param_value p))
      in (p\<lparr>default_value := m (addr p)\<rparr> # l', m'))"

section \<open>The manager\<close>

text \<open>\<open>LinuxParamManager\<close> looks a protocol up under the file name \<open>tcp_<proto>.c\<close>, of at most 99
  characters, and a parameter under its name with the type \<open>int\<close>. The outer option is a fault: a
  parameter that has the name and no type.\<close>

definition find_cc_by_proto :: "string \<Rightarrow> cc_entry list \<Rightarrow> cc_entry option" where
  "find_cc_by_proto proto l = find (\<lambda>e. cc_proto e = take 99 (''tcp_'' @ proto @ ''.c'')) l"

fun find_int_param :: "string \<Rightarrow> cc_param list \<Rightarrow> cc_param option option" where
  "find_int_param name [] = Some None"
| "find_int_param name (q # qs) =
     (if param_name q = name
      then (case param_type q of None \<Rightarrow> None
            | Some ty \<Rightarrow> if ty = ''int'' then Some (Some q) else find_int_param name qs)
      else find_int_param name qs)"

definition find_param_by_proto_name :: "string \<Rightarrow> string \<Rightarrow> cc_entry list \<Rightarrow> cc_param option option" where
  "find_param_by_proto_name proto name l =
     (case find_cc_by_proto proto l of None \<Rightarrow> Some None | Some e \<Rightarrow> find_int_param name (param_head e))"

definition mgr_set_default_param ::
  "string \<Rightarrow> string \<Rightarrow> cint \<Rightarrow> cc_entry list \<Rightarrow> memory \<Rightarrow> (bool \<times> memory) option" where
  "mgr_set_default_param proto name v l m = do {
     q \<leftarrow> find_param_by_proto_name proto name l;
     (case q of None \<Rightarrow> Some (False, m)
      | Some q \<Rightarrow> do { a \<leftarrow> param_ptr q; Some (True, m(a := v)) })
   }"

definition mgr_set_param ::
  "string \<Rightarrow> string \<Rightarrow> cint \<Rightarrow> cc_entry list \<Rightarrow> memory \<Rightarrow> param_list \<Rightarrow> (bool \<times> param_list) option" where
  "mgr_set_param proto name v l m local = do {
     q \<leftarrow> find_param_by_proto_name proto name l;
     (case q of None \<Rightarrow> Some (False, local)
      | Some q \<Rightarrow> do { a \<leftarrow> param_ptr q; Some (True, list_set_param a v m local) })
   }"

definition mgr_get_default_param :: "string \<Rightarrow> string \<Rightarrow> cc_entry list \<Rightarrow> memory \<Rightarrow> cint option option" where
  "mgr_get_default_param proto name l m = do {
     q \<leftarrow> find_param_by_proto_name proto name l;
     (case q of None \<Rightarrow> Some None | Some q \<Rightarrow> do { a \<leftarrow> param_ptr q; Some (Some (m a)) })
   }"

definition mgr_get_param ::
  "string \<Rightarrow> string \<Rightarrow> cc_entry list \<Rightarrow> memory \<Rightarrow> param_list \<Rightarrow> cint option option" where
  "mgr_get_param proto name l m local = do {
     q \<leftarrow> find_param_by_proto_name proto name l;
     (case q of None \<Rightarrow> Some None
      | Some q \<Rightarrow> do {
          a \<leftarrow> param_ptr q;
          Some (Some (case list_get_param a local of Some v \<Rightarrow> v | None \<Rightarrow> m a))
        })
   }"

text \<open>A call into a module, as \<open>LinuxTcpAgent::recv\<close> and \<open>enter_loss\<close> make it: the module is \<open>f\<close>.\<close>

definition episode :: "('l \<Rightarrow> 'm \<Rightarrow> 'l \<times> 'm) \<Rightarrow> ('l \<Rightarrow> 'm \<Rightarrow> 'l \<times> 'm) \<Rightarrow> ('m \<Rightarrow> 'm) \<Rightarrow> 'l \<times> 'm \<Rightarrow> 'l \<times> 'm" where
  "episode load restore f lm = (let (l, m) = load (fst lm) (snd lm) in restore l (f m))"

section \<open>Isolation\<close>

text \<open>
  A sequence of calls by several agents: each names its agent and the module's effect on memory.
  A contract on \<open>load\<close> and \<open>restore\<close> is enough to make every agent's part of the sequence run as
  if it were alone.
\<close>

fun run_agents :: "(('l \<times> 'm) \<Rightarrow> ('m \<Rightarrow> 'm) \<Rightarrow> ('l \<times> 'm)) \<Rightarrow> (nat \<times> ('m \<Rightarrow> 'm)) list \<Rightarrow>
    (nat \<Rightarrow> 'l) \<times> 'm \<Rightarrow> (nat \<Rightarrow> 'l) \<times> 'm" where
  "run_agents ep [] s = s"
| "run_agents ep ((i, f) # es) s =
     run_agents ep es (let (l, m) = ep (fst s i, snd s) f in ((fst s)(i := l), m))"

locale session_params =
  fixes load :: "'l \<Rightarrow> 'm \<Rightarrow> 'l \<times> 'm" and restore :: "'l \<Rightarrow> 'm \<Rightarrow> 'l \<times> 'm"
    and inv :: "'l \<Rightarrow> bool" and within :: "'l \<Rightarrow> ('m \<Rightarrow> 'm) \<Rightarrow> bool"
  assumes episode_mem: "inv l \<Longrightarrow> within l f \<Longrightarrow> snd (episode load restore f (l, m)) = m"
    and episode_inv: "inv l \<Longrightarrow> within l f \<Longrightarrow> inv (fst (episode load restore f (l, m)))"
    and episode_within: "inv l \<Longrightarrow> within l f \<Longrightarrow> within (fst (episode load restore f (l, m))) g = within l g"
begin

lemma agents_isolated:
  "(\<forall>i. inv (fst s i)) \<Longrightarrow> (\<forall>(i, f) \<in> set es. within (fst s i) f) \<Longrightarrow>
     snd (run_agents (\<lambda>lm f. episode load restore f lm) es s) = snd s \<and>
     fst (run_agents (\<lambda>lm f. episode load restore f lm) es s) i =
       fst (fold (episode load restore) (map snd (filter (\<lambda>e. fst e = i) es)) (fst s i, snd s))"
proof (induction es arbitrary: s)
  case (Cons e es)
  obtain j f where e: "e = (j, f)" by force
  obtain l m where s: "s = (l, m)" by force
  have jf: "inv (l j)" "within (l j) f" using Cons.prems by (auto simp: e s)
  obtain l' where l': "episode load restore f (l j, m) = (l', m)"
    using episode_mem [OF jf, of m] by (metis prod.collapse)
  then have ok: "inv l'" "within l' g = within (l j) g" for g
    using episode_inv [OF jf, of m] episode_within [OF jf, of m] by simp_all
  have "\<forall>k. inv (fst (l(j := l'), m) k)" using Cons.prems(1) ok by (auto simp: s)
  moreover have "\<forall>(k, g) \<in> set es. within (fst (l(j := l'), m) k) g" using Cons.prems(2) ok by (auto simp: s)
  ultimately have IH: "snd (run_agents (\<lambda>lm f. episode load restore f lm) es (l(j := l'), m)) = m"
    "fst (run_agents (\<lambda>lm f. episode load restore f lm) es (l(j := l'), m)) i =
       fst (fold (episode load restore) (map snd (filter (\<lambda>e. fst e = i) es)) ((l(j := l')) i, m))"
    using Cons.IH [of "(l(j := l'), m)"] by simp_all
  have "run_agents (\<lambda>lm f. episode load restore f lm) (e # es) s =
      run_agents (\<lambda>lm f. episode load restore f lm) es (l(j := l'), m)" by (simp add: e s l')
  then show ?case using IH l' by (cases "i = j") (simp_all add: e s)
qed simp

end

section \<open>\<open>ParamList\<close> keeps the contract\<close>

definition params_ok :: "param_list \<Rightarrow> bool" where
  "params_ok l \<longleftrightarrow> distinct (map addr l)"

text \<open>The module changes no cell but those that the agent has a value for.\<close>

definition within_cells :: "param_list \<Rightarrow> (memory \<Rightarrow> memory) \<Rightarrow> bool" where
  "within_cells l f \<longleftrightarrow> (\<forall>m a. a \<notin> set (map addr l) \<longrightarrow> f m a = m a)"

lemma load_local_eq:
  "distinct (map addr l) \<Longrightarrow> load_local l m =
     (map (\<lambda>p. p\<lparr>default_value := m (addr p)\<rparr>) l,
      \<lambda>a. case find (\<lambda>p. addr p = a) l of Some p \<Rightarrow> param_value p | None \<Rightarrow> m a)"
proof (induction l arbitrary: m)
  case (Cons p l)
  have "find (\<lambda>q. addr q = addr p) l = None" using Cons.prems by (simp add: find_key_None)
  moreover have "\<forall>q \<in> set l. addr q \<noteq> addr p" using Cons.prems by (auto simp: image_iff)
  ultimately show ?case using Cons by (auto simp: Let_def fun_eq_iff split: option.splits)
qed simp

lemma restore_default_eq:
  "distinct (map addr l) \<Longrightarrow> restore_default l m =
     (map (\<lambda>p. p\<lparr>param_value := m (addr p)\<rparr>) l,
      \<lambda>a. case find (\<lambda>p. addr p = a) l of Some p \<Rightarrow> default_value p | None \<Rightarrow> m a)"
proof (induction l arbitrary: m)
  case (Cons p l)
  have "find (\<lambda>q. addr q = addr p) l = None" using Cons.prems by (simp add: find_key_None)
  moreover have "\<forall>q \<in> set l. addr q \<noteq> addr p" using Cons.prems by (auto simp: image_iff)
  ultimately show ?case using Cons by (auto simp: Let_def fun_eq_iff split: option.splits)
qed simp

lemma episode_params:
  assumes "params_ok l" "within_cells l f"
  shows "episode load_local restore_default f (l, m) =
    (map (\<lambda>p. p\<lparr>default_value := m (addr p), param_value := f (snd (load_local l m)) (addr p)\<rparr>) l, m)"
proof -
  define m1 where "m1 = snd (load_local l m)"
  define l1 where "l1 = map (\<lambda>p. p\<lparr>default_value := m (addr p)\<rparr>) l"
  have load: "load_local l m = (l1, m1)" "distinct (map addr l1)"
    using load_local_eq assms(1) by (simp_all add: m1_def l1_def params_ok_def comp_def)
  have out: "f m1 a = m a" if "a \<notin> set (map addr l)" for a
  proof -
    have "find (\<lambda>p. addr p = a) l = None" using that by (auto simp: find_None_iff)
    then have "m1 a = m a" using assms(1) by (simp add: m1_def load_local_eq params_ok_def)
    then show ?thesis using that assms(2) by (simp add: within_cells_def)
  qed
  have "(case find (\<lambda>p. addr p = a) l1 of Some p \<Rightarrow> default_value p | None \<Rightarrow> f m1 a) = m a" for a
  proof (cases "find (\<lambda>p. addr p = a) l1")
    case None
    then have "a \<notin> set (map addr l)" unfolding find_key_None by (auto simp: l1_def image_iff)
    then show ?thesis using out None by simp
  next
    case (Some p)
    then have "p \<in> set l1" "addr p = a" using find_key_Some [of addr a l1 p] by simp_all
    then have "default_value p = m a" by (auto simp: l1_def)
    then show ?thesis using Some by simp
  qed
  then show ?thesis
    by (simp add: episode_def load restore_default_eq l1_def [symmetric] flip: m1_def)
      (simp add: l1_def)
qed

interpretation params: session_params load_local restore_default params_ok within_cells
  by unfold_locales (simp_all add: episode_params, simp_all add: params_ok_def within_cells_def comp_def)

section \<open>Lookup after recording\<close>

lemma find_update_first:
  assumes "\<And>x. P (f x) = P x"
  shows "find P (update_first P f xs) = map_option f (find P xs)"
  by (induction xs) (simp_all add: assms)

lemma find_update_first_other:
  assumes "\<And>x. P x \<Longrightarrow> \<not> Q x \<and> \<not> Q (f x)"
  shows "find Q (update_first P f xs) = find Q xs"
  by (induction xs) (auto dest: assms)

lemma find_add_cc:
  "\<exists>e. find (\<lambda>e. cc_proto e = proto) (add_cc_by_proto proto l) = Some e"
  by (auto simp: add_cc_by_proto_def split: option.split)

lemma find_add_cc_other:
  "proto \<noteq> proto' \<Longrightarrow> find (\<lambda>e. cc_proto e = proto') (add_cc_by_proto proto l) = find (\<lambda>e. cc_proto e = proto') l"
  by (auto simp: add_cc_by_proto_def split: option.split)

lemma find_int_param_updated:
  "(\<And>q. param_name (f q) = param_name q) \<Longrightarrow>
     (\<And>q. param_type (f q) = Some ''int'') \<Longrightarrow> find (\<lambda>q. param_name q = name) qs = Some q \<Longrightarrow>
     find_int_param name (update_first (\<lambda>q. param_name q = name) f qs) = Some (Some (f q))"
  by (induction qs) (auto split: if_splits)

lemma find_add_param: "\<exists>q. find (\<lambda>q. param_name q = name) (add_param_by_name name qs) = Some q"
  by (auto simp: add_param_by_name_def split: option.split)

lemma find_recorded:
  assumes "length proto \<le> 93"
  shows "\<exists>q. find_param_by_proto_name proto name
      (record_linux_param (''tcp_'' @ proto @ ''.c'') name ''int'' ptr l) = Some (Some q) \<and> param_ptr q = Some ptr"
proof -
  let ?file = "''tcp_'' @ proto @ ''.c''"
  let ?rec = "\<lambda>q :: cc_param. q\<lparr>param_type := Some ''int'', param_ptr := Some ptr\<rparr>"
  have path: "take 99 ?file = ?file" using assms by (intro take_all) simp
  obtain e where e: "find (\<lambda>e. cc_proto e = ?file) (add_cc_by_proto ?file l) = Some e" using find_add_cc by blast
  obtain q where q: "find (\<lambda>q. param_name q = name) (add_param_by_name name (param_head e)) = Some q"
    using find_add_param by blast
  have "find_cc_by_proto proto (record_linux_param ?file name ''int'' ptr l) =
      Some (e\<lparr>param_head := update_first (\<lambda>q. param_name q = name) ?rec (add_param_by_name name (param_head e))\<rparr>)"
    unfolding find_cc_by_proto_def path record_linux_param_def update_param_def
    by (subst find_update_first) (simp_all add: e del: append_Cons)
  then show ?thesis
    using find_int_param_updated [where f = ?rec, OF _ _ q] by (simp add: find_param_by_proto_name_def)
qed

lemma find_set_param: "list_get_param a (list_set_param a v m l) = Some v"
proof (cases "find (\<lambda>p. addr p = a) l")
  case (Some p)
  have "find (\<lambda>p. addr p = a) (update_first (\<lambda>p. addr p = a) (\<lambda>p. p\<lparr>param_value := v\<rparr>) l) =
      map_option (\<lambda>p. p\<lparr>param_value := v\<rparr>) (Some p)" unfolding Some [symmetric] by (rule find_update_first) simp
  then show ?thesis by (simp add: list_get_param_def list_set_param_def Some)
qed (simp add: list_get_param_def list_set_param_def)

lemma params_ok_set_param: "params_ok l \<Longrightarrow> params_ok (list_set_param a v m l)"
proof -
  assume "params_ok l"
  moreover have "map addr (update_first (\<lambda>p. addr p = a) (\<lambda>p. p\<lparr>param_value := v\<rparr>) l) = map addr l"
    by (induction l) auto
  ultimately show ?thesis
    by (auto simp: params_ok_def list_set_param_def find_key_None split: option.split)
qed

section \<open>Properties\<close>

text \<open>
  A parameter that a module records under its file name is found by the manager under
  the protocol's name, whatever was recorded before; the value an agent sets for it is the value
  the agent gets back, while the default stays what the variable holds.
\<close>

theorem param_roundtrip:
  assumes "length proto \<le> 93"
  shows "let l' = record_linux_param (''tcp_'' @ proto @ ''.c'') name ''int'' ptr l in
    \<exists>local'. mgr_set_param proto name v l' m local = Some (True, local') \<and>
      mgr_get_param proto name l' m local' = Some (Some v) \<and>
      mgr_get_default_param proto name l' m = Some (Some (m ptr)) \<and>
      (params_ok local \<longrightarrow> params_ok local')"
proof -
  obtain q where "find_param_by_proto_name proto name
      (record_linux_param (''tcp_'' @ proto @ ''.c'') name ''int'' ptr l) = Some (Some q)" "param_ptr q = Some ptr"
    using find_recorded [OF assms] by blast
  then show ?thesis
    by (simp add: Let_def mgr_set_param_def mgr_get_param_def mgr_get_default_param_def find_set_param
        params_ok_set_param)
qed

theorem param_roundtrip_witness:
  "\<exists>local'. mgr_set_param ''vegas'' ''alpha'' 3
      (record_linux_param (''tcp_'' @ ''vegas'' @ ''.c'') ''alpha'' ''int'' 16 []) (\<lambda>_. 2) [] = Some (True, local') \<and>
    mgr_get_param ''vegas'' ''alpha''
      (record_linux_param (''tcp_'' @ ''vegas'' @ ''.c'') ''alpha'' ''int'' 16 []) (\<lambda>_. 2) local' = Some (Some 3)"
  using param_roundtrip [of "''vegas''" "''alpha''" 16 "[]" 3 "\<lambda>_. 2" "[]"] by (auto simp: Let_def)



end
