(* ===== verification/C_Double.thy ===== *)
theory C_Double
  imports Complex_Main C_Prelude
begin

text \<open>
  The \<open>double\<close> of the C++ files: IEEE 754 binary64 with the default rounding, to nearest and
  ties to even. A finite double is the real number it denotes and every operation is the exact
  operation followed by the rounding \<open>dbl\<close>. The exponent range is not bounded: the infinities,
  the NaNs and the loss of precision below \<open>2 powr - 1022\<close> are outside the model, the times and
  rates of the simulator being between a nanosecond and some terabits per second.

  A conversion to an integer type drops the fraction; where the result does not fit the type the
  C++ behaviour is undefined, which is \<open>None\<close> here.
\<close>

section \<open>Rounding\<close>

definition round_even :: "real \<Rightarrow> int" where
  \<comment> \<open>the nearest integer; of two equally near ones the even one\<close>
  "round_even x = (let n = \<lfloor>x\<rfloor>; d = x - of_int n in
     if d < 1 / 2 then n else if 1 / 2 < d then n + 1 else if even n then n else n + 1)"

definition ulp_exp :: "real \<Rightarrow> int" where
  \<comment> \<open>the weight of the last of the 53 digits of \<open>x\<close>\<close>
  "ulp_exp x = \<lfloor>log 2 \<bar>x\<bar>\<rfloor> - 52"

definition dbl :: "real \<Rightarrow> real" where
  "dbl x = (if x = 0 then 0 else of_int (round_even (x / 2 powr ulp_exp x)) * 2 powr ulp_exp x)"

definition dadd :: "real \<Rightarrow> real \<Rightarrow> real" where "dadd a b = dbl (a + b)"
definition dsub :: "real \<Rightarrow> real \<Rightarrow> real" where "dsub a b = dbl (a - b)"
definition dmul :: "real \<Rightarrow> real \<Rightarrow> real" where "dmul a b = dbl (a * b)"
definition ddiv :: "real \<Rightarrow> real \<Rightarrow> real" where "ddiv a b = dbl (a / b)"

lemmas double_ops = dadd_def dsub_def dmul_def ddiv_def

lemma round_even_of_int [simp]: "round_even (of_int n) = n"
  by (simp add: round_even_def)

lemma round_even_near: "\<bar>of_int (round_even x) - x\<bar> \<le> 1 / 2"
proof -
  have "of_int \<lfloor>x\<rfloor> \<le> x" "x < of_int \<lfloor>x\<rfloor> + 1" using floor_correct [of x] by simp_all
  then show ?thesis by (auto simp: round_even_def Let_def abs_le_iff)
qed

lemma round_even_mono:
  assumes "x \<le> y"
  shows "round_even x \<le> round_even y"
proof (cases "\<lfloor>x\<rfloor> = \<lfloor>y\<rfloor>")
  case True
  then show ?thesis using assms by (auto simp: round_even_def Let_def)
next
  case False
  then have less: "\<lfloor>x\<rfloor> + 1 \<le> \<lfloor>y\<rfloor>" using floor_mono [OF assms] by simp
  have "round_even x \<le> \<lfloor>x\<rfloor> + 1" by (simp add: round_even_def Let_def)
  also have "\<dots> \<le> \<lfloor>y\<rfloor>" by (rule less)
  also have "\<dots> \<le> round_even y" by (simp add: round_even_def Let_def)
  finally show ?thesis .
qed

lemma round_even_minus: "round_even (- x) = - round_even x"
proof (cases "x \<in> \<int>")
  case True
  then obtain n where "x = of_int n" by (auto elim: Ints_cases)
  then show ?thesis using round_even_of_int [of "- n"] by simp
next
  case False
  then have "of_int \<lfloor>x\<rfloor> \<noteq> x" by (metis Ints_of_int)
  then have "of_int \<lfloor>x\<rfloor> < x" "x < of_int \<lfloor>x\<rfloor> + 1" using floor_correct [of x] by linarith+
  then have "of_int (- \<lfloor>x\<rfloor> - 1) \<le> - x \<and> - x < of_int (- \<lfloor>x\<rfloor> - 1) + 1"
    unfolding of_int_diff of_int_minus of_int_1 by linarith
  then have ceil: "\<lfloor>- x\<rfloor> = - \<lfloor>x\<rfloor> - 1" by (intro floor_unique) blast+
  show ?thesis unfolding round_even_def Let_def ceil by auto
qed

lemma dbl_0 [simp]: "dbl 0 = 0"
  by (simp add: dbl_def)

lemma dbl_minus: "dbl (- x) = - dbl x"
  by (simp add: dbl_def ulp_exp_def round_even_minus)

lemma ulp_bounds:
  assumes "0 < x"
  shows "2 powr 52 \<le> x / 2 powr ulp_exp x" "x / 2 powr ulp_exp x < 2 powr 53"
proof -
  have "2 powr \<lfloor>log 2 x\<rfloor> \<le> x \<and> x < 2 powr (\<lfloor>log 2 x\<rfloor> + 1)"
    using assms floor_log_eq_powr_iff [of x 2 "\<lfloor>log 2 x\<rfloor>"] by simp
  moreover have "real_of_int \<lfloor>log 2 x\<rfloor> = ulp_exp x + 52"
    using assms by (simp add: ulp_exp_def)
  ultimately have "2 powr (real_of_int (ulp_exp x) + 52) \<le> x \<and> x < 2 powr (real_of_int (ulp_exp x) + 53)"
    by (simp add: add.commute)
  then show "2 powr 52 \<le> x / 2 powr ulp_exp x" "x / 2 powr ulp_exp x < 2 powr 53"
    by (simp_all add: powr_add field_simps)
qed

lemma round_even_in_range:
  assumes "0 < x"
  shows "2 ^ 52 \<le> round_even (x / 2 powr ulp_exp x)" "round_even (x / 2 powr ulp_exp x) \<le> 2 ^ 53"
proof -
  have lo: "real_of_int (2 ^ 52) \<le> x / 2 powr ulp_exp x" and hi: "x / 2 powr ulp_exp x \<le> real_of_int (2 ^ 53)"
    using ulp_bounds [OF assms] by simp_all
  show "2 ^ 52 \<le> round_even (x / 2 powr ulp_exp x)"
    using round_even_mono [OF lo] by (metis round_even_of_int)
  show "round_even (x / 2 powr ulp_exp x) \<le> 2 ^ 53"
    using round_even_mono [OF hi] by (metis round_even_of_int)
qed

lemma round_even_in_range_real:
  assumes "0 < x"
  shows "2 ^ 52 \<le> real_of_int (round_even (x / 2 powr ulp_exp x))"
    "real_of_int (round_even (x / 2 powr ulp_exp x)) \<le> 2 ^ 53"
  using round_even_in_range [OF assms]
  by (metis of_int_le_iff of_int_numeral of_int_power)+

lemma dbl_pos: "0 < x \<Longrightarrow> 0 < dbl x"
  using round_even_in_range(1) [of x] by (simp add: dbl_def)

lemma dbl_mono_pos:
  assumes "0 < x" "x \<le> y"
  shows "dbl x \<le> dbl y"
proof (cases "ulp_exp x = ulp_exp y")
  case True
  have "round_even (x / 2 powr ulp_exp y) \<le> round_even (y / 2 powr ulp_exp y)"
    using assms by (intro round_even_mono divide_right_mono) auto
  then show ?thesis using assms True by (simp add: dbl_def mult_right_mono)
next
  case False
  have "ulp_exp x \<le> ulp_exp y" using assms by (simp add: ulp_exp_def floor_mono)
  then have less: "real_of_int (ulp_exp x) + 53 \<le> real_of_int (ulp_exp y) + 52" using False by linarith
  have "dbl x \<le> 2 ^ 53 * 2 powr ulp_exp x"
    using assms round_even_in_range_real(2) [of x]
    by (simp add: dbl_def mult_right_mono)
  also have "\<dots> = 2 powr (real_of_int (ulp_exp x) + 53)" by (simp add: powr_add)
  also have "\<dots> \<le> 2 powr (real_of_int (ulp_exp y) + 52)" using less by simp
  also have "\<dots> = 2 ^ 52 * 2 powr ulp_exp y" by (simp add: powr_add)
  also have "\<dots> \<le> dbl y"
    using assms round_even_in_range_real(1) [of y]
    by (simp add: dbl_def mult_right_mono)
  finally show ?thesis .
qed

lemma dbl_nonneg [simp]: "0 \<le> x \<Longrightarrow> 0 \<le> dbl x"
  using dbl_pos [of x] by (cases "x = 0") auto

lemma dbl_nonpos: "x \<le> 0 \<Longrightarrow> dbl x \<le> 0"
  using dbl_nonneg [of "- x"] by (simp add: dbl_minus)

lemma dbl_mono: "x \<le> y \<Longrightarrow> dbl x \<le> dbl y"
proof -
  assume "x \<le> y"
  then consider "0 < x" | "y < 0" | "x \<le> 0" "0 \<le> y" by linarith
  then show ?thesis
  proof cases
    case 1 then show ?thesis using \<open>x \<le> y\<close> by (rule dbl_mono_pos)
  next
    case 2 then show ?thesis using dbl_mono_pos [of "- y" "- x"] \<open>x \<le> y\<close> by (simp add: dbl_minus)
  next
    case 3 then show ?thesis using dbl_nonneg [of y] dbl_nonpos [of x] by linarith
  qed
qed

lemma dbl_error: "\<bar>dbl x - x\<bar> \<le> \<bar>x\<bar> / 2 ^ 53"
proof -
  have pos: "\<bar>dbl x - x\<bar> \<le> x / 2 ^ 53" if "0 < x" for x
  proof -
    let ?u = "2 powr real_of_int (ulp_exp x)"
    have "dbl x - x = (of_int (round_even (x / ?u)) - x / ?u) * ?u"
      using that by (simp add: dbl_def left_diff_distrib)
    then have "\<bar>dbl x - x\<bar> = \<bar>of_int (round_even (x / ?u)) - x / ?u\<bar> * ?u"
      by (simp add: abs_mult)
    also have "\<dots> \<le> 1 / 2 * ?u" by (intro mult_right_mono round_even_near) simp
    also have "\<dots> \<le> x / 2 ^ 53" using ulp_bounds(1) [OF that] by (simp add: field_simps)
    finally show ?thesis .
  qed
  consider "x = 0" | "0 < x" | "0 < - x" by linarith
  then show ?thesis
  proof cases
    case 3 then show ?thesis using pos [OF 3] by (simp add: dbl_minus abs_real_def split: if_splits)
  qed (use pos in auto)
qed

lemma dbl_upper: "0 \<le> x \<Longrightarrow> dbl x \<le> x * (1 + 1 / 2 ^ 53)"
  and dbl_lower: "0 \<le> x \<Longrightarrow> x * (1 - 1 / 2 ^ 53) \<le> dbl x"
proof -
  assume "0 \<le> x"
  then have "dbl x - x \<le> x / 2 ^ 53" "x - dbl x \<le> x / 2 ^ 53" using dbl_error [of x] by linarith+
  then show "dbl x \<le> x * (1 + 1 / 2 ^ 53)" "x * (1 - 1 / 2 ^ 53) \<le> dbl x"
    by (simp_all add: distrib_left right_diff_distrib)
qed

section \<open>Numbers a double holds exactly\<close>

lemma dbl_scaled:
  assumes "\<bar>m\<bar> \<le> 2 ^ 53"
  shows "dbl (of_int m * 2 powr of_int k) = of_int m * 2 powr of_int k"
proof (cases "m = 0")
  case False
  let ?x = "of_int m * 2 powr of_int k :: real"
  let ?l = "\<lfloor>log 2 \<bar>of_int m\<bar>\<rfloor>"
  have l0: "0 \<le> ?l" using False by simp
  have exp: "ulp_exp ?x = ?l + k - 52"
    using False by (simp add: ulp_exp_def abs_mult log_mult)
  have "\<exists>n. ?x / 2 powr ulp_exp ?x = of_int n"
  proof (cases "?l \<le> 52")
    case True
    have "?x / 2 powr ulp_exp ?x = of_int m * 2 powr (52 - ?l)"
      unfolding exp by (simp add: powr_diff [symmetric] field_simps powr_add [symmetric])
    also have "\<dots> = of_int m * 2 ^ nat (52 - ?l)"
      using True powr_realpow [of "2 :: real" "nat (52 - ?l)"] by simp
    also have "\<dots> = of_int (m * 2 ^ nat (52 - ?l))" by simp
    finally show ?thesis by blast
  next
    case False
    have "53 \<le> real_of_int ?l" using False by linarith
    then have "(2 :: real) powr 53 \<le> 2 powr ?l" by (intro powr_mono) simp_all
    also have "\<dots> \<le> \<bar>of_int m\<bar>"
      using \<open>m \<noteq> 0\<close> floor_log_eq_powr_iff [of "\<bar>of_int m\<bar>" 2 ?l] by simp
    finally have "(2 :: real) ^ 53 \<le> \<bar>of_int m\<bar>" by simp
    then have "(2 :: int) ^ 53 \<le> \<bar>m\<bar>" by (metis of_int_abs of_int_le_iff of_int_numeral of_int_power)
    then have m: "\<bar>m\<bar> = 2 ^ 53" using assms by simp
    then have mr: "\<bar>real_of_int m\<bar> = 2 ^ 53" by (metis of_int_abs of_int_numeral of_int_power)
    have "?l = 53" unfolding mr by (simp add: log_pow_cancel [of "2 :: real" 53, simplified])
    then have "?x / 2 powr ulp_exp ?x = of_int m / 2"
      unfolding exp by (simp add: powr_add powr_diff field_simps)
    also have "\<dots> = of_int (m div 2)"
    proof -
      have "m = 2 ^ 53 \<or> m = - (2 ^ 53)" using m by arith
      then show ?thesis by (elim disjE) simp_all
    qed
    finally show ?thesis by blast
  qed
  then obtain n where n: "?x / 2 powr ulp_exp ?x = of_int n" ..
  then have "dbl ?x = of_int n * 2 powr ulp_exp ?x" using False by (simp add: dbl_def)
  also have "\<dots> = ?x" unfolding n [symmetric] by simp
  finally show ?thesis .
qed simp

lemma dbl_of_int [simp]: "\<bar>m\<bar> \<le> 2 ^ 53 \<Longrightarrow> dbl (of_int m) = of_int m"
  using dbl_scaled [of m 0] by simp

lemma dbl_numeral [simp]: "numeral n \<le> (2 :: int) ^ 53 \<Longrightarrow> dbl (numeral n) = numeral n"
  using dbl_of_int [of "numeral n"] by simp

lemma dbl_1 [simp]: "dbl 1 = 1"
  using dbl_of_int [of 1] by simp

lemma dbl_neg_numeral [simp]: "numeral n \<le> (2 :: int) ^ 53 \<Longrightarrow> dbl (- numeral n) = - numeral n"
  by (simp add: dbl_minus)

lemma dbl_idem [simp]: "dbl (dbl x) = dbl x"
proof -
  have pos: "dbl (dbl x) = dbl x" if "0 < x" for x
    using dbl_scaled [of "round_even (x / 2 powr ulp_exp x)" "ulp_exp x"] round_even_in_range [OF that] that
    by (simp add: dbl_def [of x])
  consider "x = 0" | "0 < x" | "0 < - x" by linarith
  then show ?thesis using pos [of x] pos [of "- x"] by cases (auto simp: dbl_minus)
qed

section \<open>Conversions to integers\<close>

definition trunc :: "real \<Rightarrow> int" where
  "trunc x = (if 0 \<le> x then \<lfloor>x\<rfloor> else \<lceil>x\<rceil>)"

definition double_to_u64 :: "real \<Rightarrow> u64 option" where
  "double_to_u64 x = (if 0 \<le> trunc x \<and> trunc x < 2 ^ 64 then Some (word_of_int (trunc x)) else None)"

definition double_to_int :: "real \<Rightarrow> int option" where
  "double_to_int x = (if - (2 ^ 31) \<le> trunc x \<and> trunc x < 2 ^ 31 then Some (trunc x) else None)"

lemma trunc_of_int [simp]: "trunc (of_int n) = n"
  by (simp add: trunc_def)

lemma trunc_numeral [simp]: "trunc (numeral n) = numeral n" "trunc 0 = 0" "trunc 1 = 1"
  by (simp_all add: trunc_def)

lemma trunc_mono: "x \<le> y \<Longrightarrow> trunc x \<le> trunc y"
proof -
  assume "x \<le> y"
  then show ?thesis
    using floor_mono [of x y] ceiling_mono [of x y] zero_le_floor [of y]
    by (cases "0 \<le> x"; cases "0 \<le> y") (auto simp: trunc_def intro: order_trans [where y = 0])
qed

lemma trunc_nonneg: "0 \<le> x \<Longrightarrow> 0 \<le> trunc x"
  by (simp add: trunc_def)

lemma trunc_le: "0 \<le> x \<Longrightarrow> of_int (trunc x) \<le> x"
  by (simp add: trunc_def)

lemma double_to_u64_None: "double_to_u64 x = None \<longleftrightarrow> trunc x < 0 \<or> 2 ^ 64 \<le> trunc x"
  by (auto simp: double_to_u64_def)

lemma double_to_u64_unat:
  assumes "double_to_u64 x = Some d"
  shows "uint d = trunc x"
  using assms by (auto simp: double_to_u64_def uint_word_of_int take_bit_eq_mod split: if_splits)

lemma double_to_u64_mono:
  assumes "double_to_u64 x = Some a" "double_to_u64 y = Some b" "x \<le> y"
  shows "a \<le> b"
  using trunc_mono [OF assms(3)] double_to_u64_unat [OF assms(1)] double_to_u64_unat [OF assms(2)]
  by (simp add: word_le_def)

end
