(* ===== verification/Ns_Packet.thy ===== *)
theory Ns_Packet
  imports C_Double
begin

text \<open>
  The packets of the simulator: the headers of \<open>common/packet.h\<close> (\<open>hdr_cmn\<close>), \<open>common/ip.h\<close>,
  \<open>common/flags.h\<close> and \<open>r2p2-hdr.h\<close> (\<open>hdr_r2p2\<close>), as far as the queues and switches read them,
  and the Ethernet sizes of \<open>r2p2.h\<close>. A packet is a record of these header fields.

  A C \<open>int\<close> of these C++ files is an \<open>int\<close>: its overflow is undefined there and outside the model.
  The unsigned 64-bit counters, which wrap, are of type \<open>u64\<close>; \<open>word_of_int\<close> is the conversion of
  an \<open>int\<close> to them, which turns a negative number into a huge one, as in C++.
\<close>

section \<open>Headers\<close>

datatype packet_t = PT_TCP | PT_UDP | PT_XPASS_CREDIT_REQUEST | PT_XPASS_CREDIT_STOP
  | PT_XPASS_CREDIT | PT_XPASS_DATA | PT_XPASS_NACK | PT_other nat

datatype msg_type = REQUEST | REPLY | REQRDY | R2P2_FEEDBACK | DROP | SACK | FREEZE | UNFREEZE
  | GRANT | GRANT_REQ | NUMBER_OF_TYPES

record packet =
  pkt_uid :: int
  pkt_ptype :: packet_t
  pkt_size :: int
  pkt_iface :: int
  pkt_src :: int
  pkt_dst :: int
  pkt_prio :: int
  pkt_ce :: u8
  pkt_msg_type :: msg_type
  pkt_seq :: int
  pkt_credit :: int
  pkt_unsol_credit :: int
  pkt_fid :: int

section \<open>Sizes on the wire\<close>

definition INTER_PKT_GAP_SIZE :: int where "INTER_PKT_GAP_SIZE = 12"
definition ETHERNET_PREAMBLE_SIZE :: int where "ETHERNET_PREAMBLE_SIZE = 8"
definition MIN_ETHERNET_FRAME :: int where "MIN_ETHERNET_FRAME = 64"
definition MIN_ETHERNET_FRAME_ON_WIRE :: int where "MIN_ETHERNET_FRAME_ON_WIRE = 84"
definition MAX_ETHERNET_FRAME :: int where "MAX_ETHERNET_FRAME = 1518"
definition MAX_ETHERNET_FRAME_ON_WIRE :: int where "MAX_ETHERNET_FRAME_ON_WIRE = 1538"

lemmas ethernet_sizes = INTER_PKT_GAP_SIZE_def ETHERNET_PREAMBLE_SIZE_def MIN_ETHERNET_FRAME_def
  MIN_ETHERNET_FRAME_ON_WIRE_def MAX_ETHERNET_FRAME_def MAX_ETHERNET_FRAME_ON_WIRE_def

definition bytes_of :: "packet list \<Rightarrow> int" where
  \<comment> \<open>the byte count of a queue of packets\<close>
  "bytes_of ps = (\<Sum>p\<leftarrow>ps. pkt_size p)"

lemma bytes_of_simps [simp]:
  "bytes_of [] = 0" "bytes_of (p # ps) = pkt_size p + bytes_of ps" "bytes_of (ps @ qs) = bytes_of ps + bytes_of qs"
  by (simp_all add: bytes_of_def)

definition ex_packet :: packet where
  \<comment> \<open>a packet for the examples: a full data frame as it is on the wire\<close>
  "ex_packet = \<lparr>pkt_uid = 1, pkt_ptype = PT_UDP, pkt_size = 1538, pkt_iface = 0, pkt_src = 1, pkt_dst = 2,
     pkt_prio = 0, pkt_ce = 0, pkt_msg_type = REQUEST, pkt_seq = 0, pkt_credit = 0, pkt_unsol_credit = 0,
     pkt_fid = 0\<rparr>"

end
