(* ===== verification/Packet_Queue.thy ===== *)
theory Packet_Queue
  imports Ns_Packet
begin

text \<open>
  The packet queue \<open>PacketQueue\<close> of \<open>queue/queue.h\<close> and \<open>queue/queue.cc\<close>: packets linked through
  their \<open>next_\<close> field, with the first and the last of them and the counters of packets and bytes.
  Packets are addresses into a \<open>heap\<close>; the null pointer is \<open>None\<close>.

  \<open>queue_of h q xs\<close> says that \<open>q\<close> holds the packets \<open>xs\<close> in the heap \<open>h\<close>. Under it every operation
  is the plain operation on lists, and touches no other queue of the same heap, which is why the
  disciplines built from packet queues (\<open>PPass_Queue\<close>, \<open>XPass_Drop_Tail\<close>) can take them as lists.
\<close>

section \<open>The class\<close>

type_synonym ptr = nat

record heap =
  pkt_at :: "ptr \<Rightarrow> packet"
  next_of :: "ptr \<Rightarrow> ptr option"

record packet_queue =
  q_head :: "ptr option"
  q_tail :: "ptr option"
  q_len :: int
  q_bytes :: int
  q_iter :: "ptr option"

definition new_packet_queue :: packet_queue where
  "new_packet_queue = \<lparr>q_head = None, q_tail = None, q_len = 0, q_bytes = 0, q_iter = None\<rparr>"

definition set_next :: "ptr \<Rightarrow> ptr option \<Rightarrow> heap \<Rightarrow> heap" where
  "set_next p v h = h\<lparr>next_of := (next_of h)(p := v)\<rparr>"

definition size_at :: "heap \<Rightarrow> ptr \<Rightarrow> int" where
  "size_at h p = pkt_size (pkt_at h p)"

definition pq_enque :: "ptr \<Rightarrow> heap \<Rightarrow> packet_queue \<Rightarrow> ptr option \<times> heap \<times> packet_queue" where
  "pq_enque p h q = (let pt = q_tail q;
     (h, q) = (case q_tail q of
         None \<Rightarrow> (h, q\<lparr>q_head := Some p, q_tail := Some p\<rparr>)
       | Some t \<Rightarrow> (set_next t (Some p) h, q\<lparr>q_tail := Some p\<rparr>));
     h = set_next p None h
   in (pt, h, q\<lparr>q_len := q_len q + 1, q_bytes := q_bytes q + size_at h p\<rparr>))"

definition pq_deque :: "heap \<Rightarrow> packet_queue \<Rightarrow> ptr option \<times> packet_queue" where
  "pq_deque h q = (case q_head q of
       None \<Rightarrow> (None, q)
     | Some p \<Rightarrow> (let
         q = q\<lparr>q_head := next_of h p\<rparr>;
         q = (if Some p = q_tail q then q\<lparr>q_head := None, q_tail := None\<rparr> else q)
       in (Some p, q\<lparr>q_len := q_len q - 1, q_bytes := q_bytes q - size_at h p\<rparr>)))"

function lookup_from :: "heap \<Rightarrow> ptr option \<Rightarrow> int \<Rightarrow> ptr option" where
  "lookup_from h None n = None"
| "lookup_from h (Some p) n = (if n - 1 < 0 then Some p else lookup_from h (next_of h p) (n - 1))"
  by pat_completeness auto
termination by (relation "measure (\<lambda>(h, p, n). nat n)") auto

definition pq_lookup :: "int \<Rightarrow> heap \<Rightarrow> packet_queue \<Rightarrow> ptr option" where
  "pq_lookup n h q = lookup_from h (q_head q) n"

definition pq_enqueHead :: "ptr \<Rightarrow> heap \<Rightarrow> packet_queue \<Rightarrow> heap \<times> packet_queue" where
  "pq_enqueHead p h q = (let
     q = (if q_head q = None then q\<lparr>q_tail := Some p\<rparr> else q);
     h = set_next p (q_head q) h
   in (h, q\<lparr>q_head := Some p, q_len := q_len q + 1, q_bytes := q_bytes q + size_at h p\<rparr>))"

definition pq_resetIterator :: "packet_queue \<Rightarrow> packet_queue" where
  "pq_resetIterator q = q\<lparr>q_iter := q_head q\<rparr>"

definition pq_getNext :: "heap \<Rightarrow> packet_queue \<Rightarrow> ptr option \<times> packet_queue" where
  "pq_getNext h q = (case q_iter q of
     None \<Rightarrow> (None, q)
   | Some p \<Rightarrow> (Some p, q\<lparr>q_iter := next_of h p\<rparr>))"

definition pq_unlink :: "ptr \<Rightarrow> ptr \<Rightarrow> heap \<Rightarrow> packet_queue \<Rightarrow> heap \<times> packet_queue" where
  \<comment> \<open>takes \<open>p\<close> out, which comes after \<open>pp\<close>\<close>
  "pq_unlink pp p h q = (let
     q = (if Some p = q_tail q then q\<lparr>q_tail := Some pp\<rparr> else q);
     h = set_next pp (next_of h p) h
   in (h, q\<lparr>q_len := q_len q - 1, q_bytes := q_bytes q - size_at h p\<rparr>))"

partial_function (option) remove_from ::
  "ptr \<Rightarrow> ptr option \<Rightarrow> ptr option \<Rightarrow> heap \<Rightarrow> packet_queue \<Rightarrow> (heap \<times> packet_queue) option" where
  "remove_from target pp p h q = (case p of
     None \<Rightarrow> None \<comment> \<open>\<open>abort\<close>\<close>
   | Some a \<Rightarrow>
       if a = target then
         (case pp of None \<Rightarrow> Some (h, snd (pq_deque h q)) | Some b \<Rightarrow> Some (pq_unlink b a h q))
       else remove_from target p (next_of h a) h q)"

definition pq_remove :: "ptr \<Rightarrow> heap \<Rightarrow> packet_queue \<Rightarrow> (heap \<times> packet_queue) option" where
  "pq_remove target h q = remove_from target None (q_head q) h q"

definition pq_remove_after :: "ptr option \<Rightarrow> ptr option \<Rightarrow> heap \<Rightarrow> packet_queue \<Rightarrow> (heap \<times> packet_queue) option" where
  "pq_remove_after pkt prev h q = (case pkt of
     None \<Rightarrow> Some (h, q)
   | Some p \<Rightarrow>
       if q_head q = Some p then Some (h, snd (pq_deque h q))
       else (case prev of
           None \<Rightarrow> None \<comment> \<open>a null pointer is followed\<close>
         | Some pp \<Rightarrow> Some (pq_unlink pp p h q)))"

section \<open>The list a queue holds\<close>

fun linked :: "heap \<Rightarrow> ptr option \<Rightarrow> ptr list \<Rightarrow> bool" where
  "linked h p [] \<longleftrightarrow> p = None"
| "linked h p (a # as) \<longleftrightarrow> p = Some a \<and> linked h (next_of h a) as"

definition queue_of :: "heap \<Rightarrow> packet_queue \<Rightarrow> ptr list \<Rightarrow> bool" where
  "queue_of h q xs \<longleftrightarrow> linked h (q_head q) xs \<and> q_tail q = (if xs = [] then None else Some (last xs))
     \<and> q_len q = int (length xs) \<and> q_bytes q = (\<Sum>p\<leftarrow>xs. size_at h p)"

lemma size_at_set_next [simp]: "size_at (set_next p v h) = size_at h"
  by (simp add: size_at_def set_next_def fun_eq_iff)

lemma next_of_set_next [simp]: "next_of (set_next p v h) = (next_of h)(p := v)"
  by (simp add: set_next_def)

lemma pkt_at_set_next [simp]: "pkt_at (set_next p v h) = pkt_at h"
  by (simp add: set_next_def)

lemma linked_unique: "linked h p xs \<Longrightarrow> linked h p ys \<Longrightarrow> xs = ys"
proof (induction xs arbitrary: p ys)
  case Nil then show ?case by (cases ys) auto
next
  case (Cons a xs) then show ?case by (cases ys) auto
qed

lemma linked_append: "linked h p (xs @ a # ys) \<Longrightarrow> linked h (Some a) (a # ys)"
  by (induction xs arbitrary: p) auto

lemma linked_distinct: "linked h p xs \<Longrightarrow> distinct xs"
proof (induction xs arbitrary: p)
  case (Cons a xs)
  have "a \<notin> set xs"
  proof
    assume "a \<in> set xs"
    then obtain us vs where xs: "xs = us @ a # vs" by (meson split_list)
    then have "linked h (Some a) (a # vs)" using Cons.prems linked_append [of h p "a # us" a vs] by simp
    moreover have "linked h (Some a) (a # xs)" using Cons.prems by simp
    ultimately have "vs = xs" using linked_unique by blast
    then show False using xs by simp
  qed
  then show ?case using Cons by auto
qed simp

lemma linked_frame [simp]: "a \<notin> set xs \<Longrightarrow> linked (set_next a v h) p xs = linked h p xs"
  by (induction xs arbitrary: p) auto

lemma queue_of_distinct: "queue_of h q xs \<Longrightarrow> distinct xs"
  by (auto simp: queue_of_def intro: linked_distinct)

lemma queue_of_new [simp]: "queue_of h new_packet_queue []"
  by (simp add: queue_of_def new_packet_queue_def)

lemma queue_of_frame: "a \<notin> set xs \<Longrightarrow> queue_of (set_next a v h) q xs = queue_of h q xs"
  by (simp add: queue_of_def)

section \<open>Every operation is its list operation\<close>

lemma linked_snoc:
  assumes "linked h p xs" "xs \<noteq> []" "a \<notin> set xs"
  shows "linked (set_next a None (set_next (last xs) (Some a) h)) p (xs @ [a])"
  using assms
proof (induction xs arbitrary: p)
  case (Cons b xs)
  show ?case
  proof (cases "xs = []")
    case False
    have "b \<noteq> last xs" using Cons.prems linked_distinct [of h p "b # xs"] False by auto
    then show ?thesis using Cons False by auto
  qed (use Cons in auto)
qed simp

lemma enque_list:
  assumes "queue_of h q xs" "p \<notin> set xs" "pq_enque p h q = (pt, h', q')"
  shows "queue_of h' q' (xs @ [p])" "pt = (if xs = [] then None else Some (last xs))"
    "size_at h' = size_at h" "\<And>a. a \<notin> insert p (set xs) \<Longrightarrow> next_of h' a = next_of h a"
proof -
  show "pt = (if xs = [] then None else Some (last xs))"
    using assms by (auto simp: pq_enque_def queue_of_def Let_def)
  show "size_at h' = size_at h"
    using assms(3) by (auto simp: pq_enque_def Let_def split: option.splits)
  show "next_of h' a = next_of h a" if "a \<notin> insert p (set xs)" for a
    using assms that by (cases "xs = []") (auto simp: pq_enque_def queue_of_def Let_def)
  show "queue_of h' q' (xs @ [p])"
  proof (cases "xs = []")
    case False
    then show ?thesis using assms linked_snoc [of h "q_head q" xs p]
      by (auto simp: pq_enque_def queue_of_def Let_def)
  qed (use assms in \<open>auto simp: pq_enque_def queue_of_def Let_def\<close>)
qed

lemma deque_list:
  assumes "queue_of h q xs"
  shows "case xs of [] \<Rightarrow> pq_deque h q = (None, q) | p # ys \<Rightarrow> fst (pq_deque h q) = Some p \<and> queue_of h (snd (pq_deque h q)) ys"
proof (cases xs)
  case (Cons p ys)
  then have "p \<notin> set ys" using queue_of_distinct [OF assms] by simp
  then have "ys \<noteq> [] \<Longrightarrow> last ys \<noteq> p" by auto
  then show ?thesis using assms Cons by (cases "ys = []") (auto simp: pq_deque_def queue_of_def Let_def)
qed (use assms in \<open>simp add: pq_deque_def queue_of_def\<close>)

lemma enqueHead_list:
  assumes "queue_of h q xs" "p \<notin> set xs" "pq_enqueHead p h q = (h', q')"
  shows "queue_of h' q' (p # xs)" "size_at h' = size_at h" "\<And>a. a \<noteq> p \<Longrightarrow> next_of h' a = next_of h a"
  using assms by (cases xs; auto simp: pq_enqueHead_def queue_of_def Let_def)+

lemma lookup_from_list: "linked h p xs \<Longrightarrow> lookup_from h p (int n) = (if n < length xs then Some (xs ! n) else None)"
proof (induction xs arbitrary: p n)
  case (Cons a xs)
  then show ?case by (cases n) auto
qed simp

lemma lookup_list: "queue_of h q xs \<Longrightarrow> pq_lookup (int n) h q = (if n < length xs then Some (xs ! n) else None)"
  by (simp add: pq_lookup_def queue_of_def lookup_from_list)

lemma remove_from_simps [simp]:
  "remove_from target pp None h q = None"
  "remove_from target pp (Some a) h q = (if a = target then
       (case pp of None \<Rightarrow> Some (h, snd (pq_deque h q)) | Some b \<Rightarrow> Some (pq_unlink b a h q))
     else remove_from target (Some a) (next_of h a) h q)"
  by (simp_all add: remove_from.simps [of target pp])

lemma remove_from_missing:
  "linked h p ys \<Longrightarrow> target \<notin> set ys \<Longrightarrow> remove_from target pp p h q = None"
proof (induction ys arbitrary: pp p)
  case (Cons a ys)
  then show ?case by simp
qed simp

lemma linked_unlink:
  assumes "linked h p (us @ b # a # vs)"
  shows "linked (set_next b (next_of h a) h) p (us @ b # vs)"
  using assms
proof (induction us arbitrary: p)
  case Nil
  then have "b \<notin> set vs" using linked_distinct [OF Nil] by auto
  then show ?case using Nil by auto
next
  case (Cons c us)
  then have "c \<noteq> b" using linked_distinct [OF Cons.prems] by auto
  then show ?case using Cons by auto
qed

lemma unlink_list:
  assumes "queue_of h q (us @ b # a # vs)"
  shows "queue_of (fst (pq_unlink b a h q)) (snd (pq_unlink b a h q)) (us @ b # vs)"
proof -
  have "a \<notin> set vs" using queue_of_distinct [OF assms] by auto
  then have "vs \<noteq> [] \<Longrightarrow> last vs \<noteq> a" by auto
  then show ?thesis using assms linked_unlink [of h "q_head q" us b a vs]
    by (cases "vs = []") (auto simp: pq_unlink_def queue_of_def Let_def)
qed

lemma remove_from_found:
  assumes "linked h p (ws @ a # vs)" "a \<notin> set ws"
  shows "remove_from a pp p h q = (case (if ws = [] then pp else Some (last ws)) of
      None \<Rightarrow> Some (h, snd (pq_deque h q)) | Some b \<Rightarrow> Some (pq_unlink b a h q))"
  using assms
proof (induction ws arbitrary: pp p)
  case (Cons c ws)
  then show ?case by simp
qed (simp split: option.splits)

lemma remove_list:
  assumes "queue_of h q xs"
  shows "a \<in> set xs \<Longrightarrow> \<exists>h' q'. pq_remove a h q = Some (h', q') \<and> queue_of h' q' (remove1 a xs)
      \<and> size_at h' = size_at h \<and> (\<forall>b. b \<notin> set xs \<longrightarrow> next_of h' b = next_of h b)"
    and "a \<notin> set xs \<Longrightarrow> pq_remove a h q = None"
proof -
  have lk: "linked h (q_head q) xs" using assms by (simp add: queue_of_def)
  show "pq_remove a h q = None" if "a \<notin> set xs"
    using remove_from_missing [OF lk that] by (simp add: pq_remove_def)
  assume "a \<in> set xs"
  then obtain ws vs where xs: "xs = ws @ a # vs" "a \<notin> set ws" by (meson split_list_first)
  note found = remove_from_found [OF lk [unfolded xs(1)] xs(2), of None q]
  show "\<exists>h' q'. pq_remove a h q = Some (h', q') \<and> queue_of h' q' (remove1 a xs)
      \<and> size_at h' = size_at h \<and> (\<forall>b. b \<notin> set xs \<longrightarrow> next_of h' b = next_of h b)"
  proof (cases ws rule: rev_cases)
    case Nil
    then show ?thesis using found deque_list [OF assms] xs by (simp add: pq_remove_def)
  next
    case (snoc us b)
    then have "queue_of h q (us @ b # a # vs)" using assms xs by simp
    note q' = unlink_list [OF this]
    have "remove1 a xs = us @ b # vs" using xs snoc by (simp add: remove1_append)
    then show ?thesis using found snoc q' xs
      by (cases "pq_unlink b a h q") (auto simp: pq_remove_def pq_unlink_def Let_def)
  qed
qed

lemma remove_after_list:
  assumes "queue_of h q (us @ b # a # vs)"
  shows "\<exists>h' q'. pq_remove_after (Some a) (Some b) h q = Some (h', q') \<and> queue_of h' q' (us @ b # vs)"
proof -
  have "q_head q \<noteq> Some a"
    using assms queue_of_distinct [OF assms] by (cases us) (auto simp: queue_of_def)
  then show ?thesis using unlink_list [OF assms]
    by (cases "pq_unlink b a h q") (simp add: pq_remove_after_def)
qed

lemma iterate_list:
  assumes "queue_of h q (us @ a # vs)" "q_iter q = Some a"
  shows "pq_getNext h q = (Some a, q\<lparr>q_iter := (case vs of [] \<Rightarrow> None | b # _ \<Rightarrow> Some b)\<rparr>)"
  using linked_append [of h "q_head q" us a vs] assms
  by (cases vs) (auto simp: pq_getNext_def queue_of_def)

section \<open>Refinement of the list by the linked packets\<close>

text \<open>
  A client calls the operations in any order. On lists the calls have a contract: a packet is not
  put into the queue twice, and only a packet of the queue is removed; \<open>None\<close> is a breach of it.
\<close>

datatype queue_call = Enque ptr | EnqueHead ptr | Deque | Remove ptr | Lookup nat

fun list_op :: "queue_call \<Rightarrow> ptr list \<Rightarrow> (ptr option \<times> ptr list) option" where
  "list_op (Enque p) xs = (if p \<in> set xs then None else Some (if xs = [] then None else Some (last xs), xs @ [p]))"
| "list_op (EnqueHead p) xs = (if p \<in> set xs then None else Some (None, p # xs))"
| "list_op Deque xs = Some (case xs of [] \<Rightarrow> (None, []) | p # ys \<Rightarrow> (Some p, ys))"
| "list_op (Remove p) xs = (if p \<in> set xs then Some (None, remove1 p xs) else None)"
| "list_op (Lookup n) xs = Some (if n < length xs then Some (xs ! n) else None, xs)"

fun queue_op :: "queue_call \<Rightarrow> heap \<times> packet_queue \<Rightarrow> (ptr option \<times> heap \<times> packet_queue) option" where
  "queue_op (Enque p) (h, q) = Some (pq_enque p h q)"
| "queue_op (EnqueHead p) (h, q) = Some (None, pq_enqueHead p h q)"
| "queue_op Deque (h, q) = (case pq_deque h q of (p, q) \<Rightarrow> Some (p, h, q))"
| "queue_op (Remove p) (h, q) = map_option (\<lambda>s. (None, s)) (pq_remove p h q)"
| "queue_op (Lookup n) (h, q) = Some (pq_lookup (int n) h q, h, q)"

fun list_run :: "queue_call list \<Rightarrow> ptr list \<Rightarrow> (ptr option list \<times> ptr list) option" where
  "list_run [] xs = Some ([], xs)"
| "list_run (c # cs) xs = do {
     (r, xs) \<leftarrow> list_op c xs;
     (rs, xs) \<leftarrow> list_run cs xs;
     Some (r # rs, xs) }"

fun queue_run :: "queue_call list \<Rightarrow> heap \<times> packet_queue \<Rightarrow> (ptr option list \<times> heap \<times> packet_queue) option" where
  "queue_run [] s = Some ([], s)"
| "queue_run (c # cs) s = do {
     (r, s) \<leftarrow> queue_op c s;
     (rs, s) \<leftarrow> queue_run cs s;
     Some (r # rs, s) }"

fun entering :: "queue_call \<Rightarrow> ptr set" where
  "entering (Enque p) = {p}"
| "entering (EnqueHead p) = {p}"
| "entering _ = {}"

definition untouched :: "ptr set \<Rightarrow> heap \<Rightarrow> heap \<Rightarrow> bool" where
  \<comment> \<open>from \<open>h\<close> to \<open>h'\<close> no packet changed but in its link, and that only in \<open>A\<close>\<close>
  "untouched A h h' \<longleftrightarrow> size_at h' = size_at h \<and> (\<forall>a. a \<notin> A \<longrightarrow> next_of h' a = next_of h a)"

lemma untouched_trans:
  "untouched A h h' \<Longrightarrow> untouched B h' h'' \<Longrightarrow> A \<union> B \<subseteq> C \<Longrightarrow> untouched C h h''"
  unfolding untouched_def by (metis UnI1 UnI2 subsetD)

lemma linked_untouched:
  "(\<forall>a\<in>set ys. next_of h' a = next_of h a) \<Longrightarrow> linked h' p ys = linked h p ys"
  by (induction ys arbitrary: p) auto

lemma queue_of_untouched:
  "untouched A h h' \<Longrightarrow> set ys \<inter> A = {} \<Longrightarrow> queue_of h' q ys = queue_of h q ys"
  using linked_untouched [of ys h' h "q_head q"] by (auto simp: untouched_def queue_of_def)

lemma queue_op_refines:
  assumes "queue_of h q xs" "list_op c xs = Some (r, ys)"
  shows "\<exists>h' q'. queue_op c (h, q) = Some (r, h', q') \<and> queue_of h' q' ys
    \<and> untouched (set xs \<union> entering c) h h' \<and> set ys \<subseteq> set xs \<union> entering c"
proof (cases c)
  case (Enque p)
  obtain pt h' q' where e: "pq_enque p h q = (pt, h', q')" by (metis prod_cases3)
  have p: "p \<notin> set xs" and r: "r = (if xs = [] then None else Some (last xs))" and ys: "ys = xs @ [p]"
    using assms(2) Enque by (auto split: if_splits)
  from enque_list [OF assms(1) p e] show ?thesis
    using Enque e unfolding r ys by (auto simp: untouched_def)
next
  case (EnqueHead p)
  obtain h' q' where e: "pq_enqueHead p h q = (h', q')" by fastforce
  have p: "p \<notin> set xs" and r: "r = None" and ys: "ys = p # xs"
    using assms(2) EnqueHead by (auto split: if_splits)
  from enqueHead_list [OF assms(1) p e] show ?thesis
    using EnqueHead e unfolding r ys by (auto simp: untouched_def)
next
  case Deque
  then show ?thesis using deque_list [OF assms(1)] assms
    by (cases xs; cases "pq_deque h q") (auto simp: untouched_def)
next
  case (Remove p)
  then have "p \<in> set xs" and ys: "r = None" "ys = remove1 p xs" using assms(2) by (auto split: if_splits)
  from remove_list(1) [OF assms(1) this(1)] show ?thesis
    using Remove ys set_remove1_subset [of p xs] by (fastforce simp: untouched_def)
next
  case (Lookup n)
  then show ?thesis using assms lookup_list [OF assms(1), of n] by (auto simp: untouched_def)
qed

lemma queue_run_refines:
  assumes "queue_of h q xs" "list_run cs xs = Some (rs, ys)"
  shows "\<exists>h' q'. queue_run cs (h, q) = Some (rs, h', q') \<and> queue_of h' q' ys
    \<and> untouched (set xs \<union> \<Union> (entering ` set cs)) h h'"
  using assms
proof (induction cs arbitrary: h q xs rs)
  case Nil
  then show ?case by (auto simp: untouched_def)
next
  case (Cons c cs)
  from Cons.prems(2) obtain r zs rs' where c: "list_op c xs = Some (r, zs)"
    and run: "list_run cs zs = Some (rs', ys)" and rs: "rs = r # rs'"
    by (auto simp: bind_eq_Some_conv)
  from queue_op_refines [OF Cons.prems(1) c] obtain h1 q1 where
    1: "queue_op c (h, q) = Some (r, h1, q1)" "queue_of h1 q1 zs" "untouched (set xs \<union> entering c) h h1"
      "set zs \<subseteq> set xs \<union> entering c" by blast
  from Cons.IH [OF 1(2) run] obtain h2 q2 where
    2: "queue_run cs (h1, q1) = Some (rs', h2, q2)" "queue_of h2 q2 ys"
      "untouched (set zs \<union> \<Union> (entering ` set cs)) h1 h2" by blast
  have "untouched (set xs \<union> \<Union> (entering ` set (c # cs))) h h2"
    by (rule untouched_trans [OF 1(3) 2(3)]) (use 1(4) in auto)
  then show ?case using 1 2 rs by auto
qed

text \<open>
  Property C24. The linked queue refines the plain list: whatever sequence of operations a client
  calls within the contract, the queue returns the packets the list returns, its counters are the
  number and the bytes of the packets it holds, and no other queue of the same heap changes.
\<close>
theorem packet_queue_refines_list:
  assumes "queue_of h q xs" "list_run cs xs = Some (rs, ys)"
    and "queue_of h q2 zs" "set zs \<inter> (set xs \<union> \<Union> (entering ` set cs)) = {}"
  shows "\<exists>h' q'. queue_run cs (h, q) = Some (rs, h', q') \<and> queue_of h' q' ys
    \<and> q_len q' = int (length ys) \<and> q_bytes q' = bytes_of (map (pkt_at h) ys) \<and> queue_of h' q2 zs"
proof -
  from queue_run_refines [OF assms(1,2)] obtain h' q' where
    run: "queue_run cs (h, q) = Some (rs, h', q')" "queue_of h' q' ys"
      "untouched (set xs \<union> \<Union> (entering ` set cs)) h h'" by blast
  moreover have "queue_of h' q2 zs" using queue_of_untouched [OF run(3) assms(4)] assms(3) by simp
  moreover have "q_bytes q' = bytes_of (map (pkt_at h) ys)"
    using run(2,3) by (simp add: queue_of_def untouched_def bytes_of_def size_at_def [abs_def] comp_def)
  ultimately show ?thesis by (auto simp: queue_of_def)
qed

definition ex_heap :: heap where
  "ex_heap = \<lparr>pkt_at = (\<lambda>a. ex_packet\<lparr>pkt_uid := int a\<rparr>), next_of = (\<lambda>a. None)\<rparr>"

theorem packet_queue_refines_list_witness:
  "\<exists>h' q'. queue_run [Enque 1, Enque 2, EnqueHead 3, Remove 1, Deque, Lookup 0] (ex_heap, new_packet_queue)
      = Some ([None, Some 1, None, None, Some 3, Some 2], h', q')
    \<and> queue_of h' q' [2] \<and> q_len q' = 1 \<and> q_bytes q' = 1538 \<and> queue_of h' new_packet_queue []"
  using packet_queue_refines_list [of ex_heap new_packet_queue "[]"
      "[Enque 1, Enque 2, EnqueHead 3, Remove 1, Deque, Lookup 0]"
      "[None, Some 1, None, None, Some 3, Some 2]" "[2]" new_packet_queue "[]"]
  by (simp add: ex_heap_def ex_packet_def)

end
