(* ===== verification/PPass_State.thy ===== *)
theory PPass_State
  imports Ns_Packet
begin

text \<open>
  The phantom queue \<open>PPassState\<close> of \<open>queue/ppass-state.h\<close> and \<open>queue/ppass-state.cc\<close>: a 64-bit
  length that saturates at both ends, the time of its last update, and its Tcl commands.
\<close>

section \<open>The class\<close>

record ppass_state =
  ps_qlen :: u64
  ps_last_time :: real

definition new_ppass_state :: ppass_state where
  "new_ppass_state = \<lparr>ps_qlen = 0, ps_last_time = 0\<rparr>"

definition reset_qlen :: "u64 \<Rightarrow> ppass_state \<Rightarrow> ppass_state" where
  "reset_qlen v s = s\<lparr>ps_qlen := v\<rparr>"

definition increase_qlen :: "u64 \<Rightarrow> ppass_state \<Rightarrow> ppass_state" where
  "increase_qlen delta s = (if delta > 0 then
      (let mx = - 1 in
       if ps_qlen s > mx - delta then s\<lparr>ps_qlen := mx\<rparr> else s\<lparr>ps_qlen := ps_qlen s + delta\<rparr>)
    else s)"

definition decrease_qlen :: "u64 \<Rightarrow> ppass_state \<Rightarrow> ppass_state" where
  "decrease_qlen delta s = (if delta \<ge> ps_qlen s then s\<lparr>ps_qlen := 0\<rparr> else s\<lparr>ps_qlen := ps_qlen s - delta\<rparr>)"

definition get_lasttime :: "ppass_state \<Rightarrow> real" where
  "get_lasttime s = ps_last_time s"

definition set_lasttime :: "real \<Rightarrow> ppass_state \<Rightarrow> ppass_state" where
  "set_lasttime t s = s\<lparr>ps_last_time := t\<rparr>"

section \<open>Its Tcl commands\<close>

text \<open>
  \<open>parse_uint64\<close> is \<open>strtoull\<close> in base ten followed by the checks of the code: white space and one
  sign may come first, there is at least one digit, the number fits 64 bits (else \<open>errno\<close> is set),
  and nothing follows. \<open>strtoull\<close> accepts a minus sign and negates the number modulo \<open>2 ^ 64\<close>.
\<close>

definition digit_value :: "char \<Rightarrow> nat" where
  "digit_value c = of_char c - 48"

definition is_digit :: "char \<Rightarrow> bool" where
  "is_digit c \<longleftrightarrow> (48 :: nat) \<le> of_char c \<and> (of_char c :: nat) \<le> 57"

definition is_space :: "char \<Rightarrow> bool" where
  "is_space c \<longleftrightarrow> (of_char c :: nat) = 32 \<or> (9 :: nat) \<le> of_char c \<and> (of_char c :: nat) \<le> 13"

definition digits_value :: "string \<Rightarrow> nat" where
  "digits_value = foldl (\<lambda>n c. 10 * n + digit_value c) 0"

definition parse_digits :: "bool \<Rightarrow> string \<Rightarrow> u64 option" where
  "parse_digits neg cs = (let n = digits_value cs in
     if cs \<noteq> [] \<and> list_all is_digit cs \<and> n < 2 ^ 64
     then Some (if neg then - of_nat n else of_nat n) else None)"

definition parse_uint64 :: "string \<Rightarrow> u64 option" where
  "parse_uint64 text = (case dropWhile is_space text of
     CHR ''-'' # cs \<Rightarrow> parse_digits True cs
   | CHR ''+'' # cs \<Rightarrow> parse_digits False cs
   | cs \<Rightarrow> parse_digits False cs)"

fun print_digits :: "nat \<Rightarrow> string" where
  "print_digits n = (if n < 10 then [char_of (n + 48)] else print_digits (n div 10) @ [char_of (n mod 10 + 48)])"

declare print_digits.simps [simp del]

definition print_uint64 :: "u64 \<Rightarrow> string" where
  \<comment> \<open>\<open>resultf\<close> with the format \<open>%llu\<close>\<close>
  "print_uint64 v = print_digits (unat v)"

datatype tcl_reply = TCL_OK string | TCL_ERROR | Inherited

definition ppass_state_command :: "string list \<Rightarrow> ppass_state \<Rightarrow> tcl_reply \<times> ppass_state" where
  \<comment> \<open>\<open>args\<close> is \<open>argv\<close> without the name of the object; \<open>Inherited\<close> passes the command to \<open>TclObject\<close>\<close>
  "ppass_state_command args s = (case args of
     [cmd] \<Rightarrow> if cmd = ''get'' then (TCL_OK (print_uint64 (ps_qlen s)), s) else (Inherited, s)
   | [cmd, arg] \<Rightarrow> (case parse_uint64 arg of
       None \<Rightarrow> (TCL_ERROR, s)
     | Some v \<Rightarrow>
         if cmd = ''reset'' \<or> cmd = ''set'' then (TCL_OK [], reset_qlen v s)
         else if cmd = ''incr'' then (let s = increase_qlen v s in (TCL_OK (print_uint64 (ps_qlen s)), s))
         else if cmd = ''decr'' then (let s = decrease_qlen v s in (TCL_OK (print_uint64 (ps_qlen s)), s))
         else (Inherited, s))
   | _ \<Rightarrow> (Inherited, s))"

section \<open>A counter that saturates\<close>

lemma unat_max_u64: "unat (- 1 :: u64) = 2 ^ 64 - 1"
  by (simp add: unsigned_minus_1_eq_mask mask_eq_exp_minus_1)

lemma unat_increase: "unat (ps_qlen (increase_qlen d s)) = min (unat (ps_qlen s) + unat d) (2 ^ 64 - 1)"
proof -
  have m: "unat (- 1 - d) = 2 ^ 64 - 1 - unat d"
    using unat_sub [of d "- 1"] unat_max_u64 unat_lt_64 [of d]
    by (simp add: word_le_nat_alt less_Suc_eq_le [symmetric] del: unat_lt_64)
  show ?thesis
  proof (cases "ps_qlen s > - 1 - d")
    case True
    then have "unat (ps_qlen s) + unat d \<ge> 2 ^ 64 - 1"
      using m by (simp add: word_less_nat_alt) 
    then show ?thesis using True unat_lt_64 [of "ps_qlen s"]
      by (cases "d = 0") (auto simp: increase_qlen_def Let_def unat_max_u64 min_def word_neq_0_conv)
  next
    case False
    then have le: "unat (ps_qlen s) + unat d \<le> 2 ^ 64 - 1"
      using m unat_lt_64 [of d] by (simp add: word_less_nat_alt del: unat_lt_64)
    then have "unat (ps_qlen s + d) = unat (ps_qlen s) + unat d" by (intro unat_add_no_wrap) simp
    then show ?thesis using False le
      by (cases "d = 0") (auto simp: increase_qlen_def Let_def min_def word_neq_0_conv)
  qed
qed

lemma unat_decrease: "unat (ps_qlen (decrease_qlen d s)) = unat (ps_qlen s) - unat d"
  by (auto simp: decrease_qlen_def word_le_nat_alt unat_sub)

lemma last_time_simps [simp]:
  "ps_last_time (increase_qlen d s) = ps_last_time s" "ps_last_time (decrease_qlen d s) = ps_last_time s"
  "ps_last_time (reset_qlen d s) = ps_last_time s" "ps_last_time (set_lasttime t s) = t"
  "ps_qlen (set_lasttime t s) = ps_qlen s" "ps_qlen (reset_qlen d s) = d"
  by (simp_all add: increase_qlen_def decrease_qlen_def reset_qlen_def set_lasttime_def Let_def)

section \<open>Printing and parsing\<close>

lemma digit_char: "n < 10 \<Longrightarrow> digit_value (char_of (n + 48)) = n \<and> is_digit (char_of (n + 48))"
  by (simp add: digit_value_def is_digit_def)

lemma digits_value_snoc: "digits_value (cs @ [c]) = 10 * digits_value cs + digit_value c"
  by (simp add: digits_value_def)

lemma print_digits_ok: "digits_value (print_digits n) = n \<and> list_all is_digit (print_digits n) \<and> print_digits n \<noteq> []"
proof (induction n rule: print_digits.induct)
  case (1 n)
  show ?case
  proof (cases "n < 10")
    case True
    then show ?thesis using digit_char [of n] by (simp add: print_digits.simps digits_value_def)
  next
    case False
    then show ?thesis using 1 digit_char [of "n mod 10"]
      by (simp add: print_digits.simps [of n] digits_value_snoc)
  qed
qed

lemma parse_digits_print: "parse_digits b (print_digits n) = (if n < 2 ^ 64 then Some (if b then - of_nat n else of_nat n) else None)"
  using print_digits_ok [of n] by (simp add: parse_digits_def)

lemma parse_uint64_print: "parse_uint64 (print_uint64 v) = Some v"
proof -
  obtain c cs where p: "print_digits (unat v) = c # cs" and c: "is_digit c"
    using print_digits_ok [of "unat v"] by (cases "print_digits (unat v)") auto
  have "\<not> is_space c" "c \<noteq> CHR ''-''" "c \<noteq> CHR ''+''"
    using c by (auto simp: is_digit_def is_space_def)
  then have "parse_uint64 (print_uint64 v) = parse_digits False (print_digits (unat v))"
    unfolding parse_uint64_def print_uint64_def p by (auto split: char.splits bool.splits)
  then show ?thesis using unat_lt_64 [of v] by (simp add: parse_digits_print)
qed

text \<open>
  Printing and parsing are inverse: the number that \<open>get\<close> prints is one that \<open>set\<close>
  accepts, and it gives any state the same length, whatever the length is.
\<close>
theorem ppass_get_set_roundtrip:
  "\<exists>txt. ppass_state_command [''get''] s = (TCL_OK txt, s)
    \<and> (\<forall>s2. ppass_state_command [''set'', txt] s2 = (TCL_OK [], s2\<lparr>ps_qlen := ps_qlen s\<rparr>))"
  by (simp add: ppass_state_command_def parse_uint64_print reset_qlen_def)

lemma ppass_set_accepts:
  "fst (ppass_state_command [''set'', txt] s) = TCL_ERROR \<longleftrightarrow> parse_uint64 txt = None"
  by (simp add: ppass_state_command_def split: option.splits)

lemma parse_examples:
  "parse_uint64 '' 12'' = Some 12" "parse_uint64 ''12 '' = None" "parse_uint64 [] = None"
  "parse_uint64 ''18446744073709551616'' = None" "parse_uint64 ''-1'' = Some (- 1)"
  by (simp_all add: parse_uint64_def parse_digits_def digits_value_def digit_value_def is_digit_def is_space_def)

end
