(* ===== verification/Queue_Base.thy ===== *)
theory Queue_Base
  imports Packet_Queue "HOL-Library.Multiset"
begin

text \<open>
  The class \<open>Queue\<close> of \<open>queue/queue.h\<close> and \<open>queue/queue.cc\<close>, the base of all queueing disciplines.
  A queue stands before a link; \<open>blocked\<close> says that a packet is on the link. A derived class has
  the virtual methods \<open>enque\<close> and \<open>deque\<close>, here parameters: they get the time of the scheduler, and
  \<open>enque\<close> also answers the packets it dropped. The fields of the derived class are in \<open>own\<close>. What a
  method hands to the link is part of its result, and \<open>None\<close> is an exception, a failed assertion or
  an access outside an array.

  The locale \<open>queue_discipline\<close> is what the base class needs of a derived one; its lemmas hold for
  every run of the queue. The disciplines interpret it.
\<close>

section \<open>The class\<close>

record 'd queue =
  own :: 'd
  qlim :: int
  blocked :: bool
  unblock_on_resume :: bool
  true_ave :: real
  total_time :: real
  last_change :: real
  old_util :: real
  util_weight :: real
  util_check_intv :: real
  period_begin :: real
  cur_util :: real
  buf_slot :: int
  util_buf :: "real list"
  util_records :: int

definition queue_updateStats :: "real \<Rightarrow> int \<Rightarrow> 'd queue \<Rightarrow> 'd queue" where
  "queue_updateStats now queuesize s = (let newtime = dsub now (total_time s) in
     if newtime > 0 then
       s\<lparr>true_ave := ddiv (dadd (dmul (total_time s) (true_ave s)) (dmul newtime (of_int queuesize))) now,
         total_time := now\<rparr>
     else s)"

definition link_state :: "bool \<Rightarrow> real" where
  "link_state b = (if b then 1 else 0)"

fun util_loop :: "nat \<Rightarrow> real \<Rightarrow> real \<Rightarrow> real \<Rightarrow> real \<Rightarrow> 'd queue \<Rightarrow> 'd queue option" where
  \<comment> \<open>the loop runs while the guard, a counter, allows it; the first argument is what is left of it\<close>
  "util_loop left int_end link intv tot_intv s =
    (if dadd tot_intv intv > util_check_intv s then
       (case left of
          0 \<Rightarrow> Some s
        | Suc left' \<Rightarrow>
            if 0 \<le> buf_slot s \<and> nat (buf_slot s) < length (util_buf s) then
              util_loop left' int_end link (dsub intv (util_check_intv s)) tot_intv
                (s\<lparr>period_begin := int_end, util_buf := (util_buf s)[nat (buf_slot s) := cur_util s],
                   buf_slot := (buf_slot s + 1) mod util_records s, cur_util := link\<rparr>)
            else None)
     else Some s)"

declare util_loop.simps [simp del]

definition queue_utilUpdate :: "real \<Rightarrow> real \<Rightarrow> bool \<Rightarrow> 'd queue \<Rightarrow> 'd queue option" where
  "queue_utilUpdate int_begin int_end lnk s = (let
     link = link_state lnk;
     decay = dbl (exp (dmul (- util_weight s) (dsub int_end int_begin)));
     s = s\<lparr>old_util := dadd link (dmul (dsub (old_util s) link) decay)\<rparr>
   in if util_records s = 0 then Some s
      else let
        intv = dsub int_end int_begin;
        tot_intv = dsub int_begin (period_begin s)
      in if intv \<noteq> 0 \<or> tot_intv \<noteq> 0 then
           util_loop (nat (util_records s)) int_end link intv tot_intv
             (s\<lparr>cur_util := ddiv (dadd (dmul link intv) (dmul (cur_util s) tot_intv)) (dadd intv tot_intv)\<rparr>)
         else Some s)"

definition note_change :: "real \<Rightarrow> 'd queue \<Rightarrow> 'd queue option" where
  "note_change now s = map_option (\<lambda>s. s\<lparr>last_change := now\<rparr>)
     (queue_utilUpdate (last_change s) now (blocked s) s)"

definition queue_utilization :: "real \<Rightarrow> 'd queue \<Rightarrow> (real \<times> 'd queue) option" where
  "queue_utilization now s = map_option (\<lambda>s. (old_util s, s)) (note_change now s)"

definition queue_peak_utilization :: "real \<Rightarrow> 'd queue \<Rightarrow> (real \<times> 'd queue) option" where
  "queue_peak_utilization now s = (if util_records s = 0 then queue_utilization now s
     else do {
       s \<leftarrow> note_change now s;
       if nat (util_records s) \<le> length (util_buf s) then
         Some (fold max (take (nat (util_records s)) (util_buf s)) 0, s)
       else None })"

type_synonym 'd deque_fn = "real \<Rightarrow> 'd queue \<Rightarrow> (packet option \<times> 'd queue) option"
type_synonym 'd enque_fn = "real \<Rightarrow> packet \<Rightarrow> 'd queue \<Rightarrow> ('d queue \<times> packet list) option"

definition queue_poll :: "'d deque_fn \<Rightarrow> real \<Rightarrow> 'd queue \<Rightarrow> (packet option \<times> 'd queue) option" where
  \<comment> \<open>the second half of \<open>recv\<close>: if the link is idle, take a packet and send it\<close>
  "queue_poll deque now s = (if blocked s then Some (None, s)
     else do {
       (r, s) \<leftarrow> deque now s;
       case r of
         None \<Rightarrow> Some (None, s)
       | Some p \<Rightarrow> do { s \<leftarrow> note_change now s; Some (Some p, s\<lparr>blocked := True\<rparr>) } })"

definition queue_recv :: "'d enque_fn \<Rightarrow> 'd deque_fn \<Rightarrow> real \<Rightarrow> packet \<Rightarrow> 'd queue
    \<Rightarrow> (packet option \<times> packet list \<times> 'd queue) option" where
  "queue_recv enque deque now p s = do {
     (s, drops) \<leftarrow> enque now p s;
     (sent, s) \<leftarrow> queue_poll deque now s;
     Some (sent, drops, s) }"

definition queue_resume :: "'d deque_fn \<Rightarrow> real \<Rightarrow> 'd queue \<Rightarrow> (packet option \<times> 'd queue) option" where
  "queue_resume deque now s = do {
     (r, s) \<leftarrow> deque now s;
     case r of
       Some p \<Rightarrow> Some (Some p, s)
     | None \<Rightarrow> do { s \<leftarrow> note_change now s; Some (None, s\<lparr>blocked := \<not> unblock_on_resume s\<rparr>) } }"

partial_function (option) drain :: "'d deque_fn \<Rightarrow> real \<Rightarrow> 'd queue \<Rightarrow> (packet list \<times> 'd queue) option" where
  "drain deque now s = do {
     (r, s) \<leftarrow> deque now s;
     case r of
       None \<Rightarrow> Some ([], s)
     | Some p \<Rightarrow> do { (ps, s) \<leftarrow> drain deque now s; Some (p # ps, s) } }"

definition queue_reset :: "'d deque_fn \<Rightarrow> real \<Rightarrow> 'd queue \<Rightarrow> (packet list \<times> 'd queue) option" where
  "queue_reset deque now s = drain deque now (s\<lparr>total_time := 0, true_ave := 0\<rparr>)"

definition new_queue :: "int \<Rightarrow> 'd \<Rightarrow> 'd queue" where
  \<comment> \<open>a queue with the given limit; utilization is not recorded\<close>
  "new_queue limit d = \<lparr>own = d, qlim = limit, blocked = False, unblock_on_resume = True, true_ave = 0, total_time = 0,
     last_change = 0, old_util = 0, util_weight = 0, util_check_intv = 0, period_begin = 0, cur_util = 0,
     buf_slot = 0, util_buf = [], util_records = 0\<rparr>"

section \<open>Utilization\<close>

definition util_ok :: "'d queue \<Rightarrow> bool" where
  "util_ok s \<longleftrightarrow> 0 \<le> util_records s \<and> length (util_buf s) = nat (util_records s)
     \<and> (util_records s \<noteq> 0 \<longrightarrow> 0 \<le> buf_slot s \<and> buf_slot s < util_records s)
     \<and> 0 \<le> util_weight s \<and> 0 \<le> old_util s \<and> old_util s \<le> 1"

lemma new_queue_simps [simp]: "own (new_queue n d) = d" "qlim (new_queue n d) = n" "\<not> blocked (new_queue n d)"
  "unblock_on_resume (new_queue n d)" "last_change (new_queue n d) = 0" "util_ok (new_queue n d)"
  by (simp_all add: new_queue_def util_ok_def)

abbreviation same_discipline :: "'d queue \<Rightarrow> 'd queue \<Rightarrow> bool" where
  "same_discipline s s' \<equiv> own s' = own s \<and> qlim s' = qlim s \<and> blocked s' = blocked s
     \<and> unblock_on_resume s' = unblock_on_resume s"

lemma util_loop_total:
  assumes "util_ok s" "util_records s \<noteq> 0"
  shows "\<exists>s'. util_loop n e l i t s = Some s' \<and> util_ok s' \<and> same_discipline s s'"
  using assms
proof (induction n arbitrary: i s)
  case 0
  then show ?case by (simp add: util_loop.simps)
next
  case (Suc n)
  let ?s = "s\<lparr>period_begin := e, util_buf := (util_buf s)[nat (buf_slot s) := cur_util s],
      buf_slot := (buf_slot s + 1) mod util_records s, cur_util := l\<rparr>"
  have "util_ok ?s" "util_records ?s \<noteq> 0" using Suc.prems by (auto simp: util_ok_def)
  from Suc.IH [OF this, of "dsub i (util_check_intv s)"] show ?case
    using Suc.prems by (subst util_loop.simps) (auto simp: util_ok_def)
qed

lemma decay_range:
  assumes "0 \<le> w" "b \<le> e"
  shows "0 \<le> dbl (exp (dmul (- w) (dsub e b)))" "dbl (exp (dmul (- w) (dsub e b))) \<le> 1"
proof -
  have "dmul (- w) (dsub e b) \<le> 0"
    unfolding dmul_def dsub_def using assms by (intro dbl_nonpos) (simp add: mult_nonneg_nonneg)
  then show "dbl (exp (dmul (- w) (dsub e b))) \<le> 1"
    using dbl_mono [of "exp (dmul (- w) (dsub e b))" 1] by simp
qed simp

lemma smoothed_range:
  assumes "0 \<le> u" "u \<le> 1" "0 \<le> d" "d \<le> 1"
  shows "0 \<le> dadd (link_state b) (dmul (dsub u (link_state b)) d)"
    "dadd (link_state b) (dmul (dsub u (link_state b)) d) \<le> 1"
proof -
  let ?x = "dsub u (link_state b)"
  have x: "link_state b - 1 \<le> 0" "- link_state b \<le> ?x" "?x \<le> 1 - link_state b"
    using assms dbl_mono [of u 1] dbl_nonneg [of u] dbl_mono [of "-1" "u - 1"] dbl_nonpos [of "u - 1"] dbl_minus [of 1]
    by (auto simp: link_state_def dsub_def)
  have xd: "- link_state b \<le> ?x * d" "?x * d \<le> 1 - link_state b"
  proof -
    have "\<bar>?x * d\<bar> \<le> \<bar>?x\<bar>" using assms(3,4) by (simp add: abs_mult mult_left_le)
    moreover have "0 \<le> ?x \<Longrightarrow> 0 \<le> ?x * d" "?x \<le> 0 \<Longrightarrow> ?x * d \<le> 0"
      using assms(3) by (simp_all add: mult_nonpos_nonneg)
    ultimately show "- link_state b \<le> ?x * d" "?x * d \<le> 1 - link_state b"
      using x by (auto simp: abs_le_iff link_state_def split: if_splits)
  qed
  then have "- link_state b \<le> dmul ?x d" "dmul ?x d \<le> 1 - link_state b"
    using dbl_mono [OF xd(1)] dbl_mono [OF xd(2)] dbl_minus [of 1]
    by (auto simp: link_state_def dmul_def)
  then show "0 \<le> dadd (link_state b) (dmul ?x d)" "dadd (link_state b) (dmul ?x d) \<le> 1"
    using dbl_mono [of "link_state b + dmul ?x d" 1] by (auto simp: dadd_def)
qed

lemma utilUpdate_ok:
  assumes "util_ok s" "b \<le> e"
  shows "\<exists>s'. queue_utilUpdate b e l s = Some s' \<and> util_ok s' \<and> same_discipline s s'"
proof -
  let ?d = "dbl (exp (dmul (- util_weight s) (dsub e b)))"
  let ?s = "s\<lparr>old_util := dadd (link_state l) (dmul (dsub (old_util s) (link_state l)) ?d)\<rparr>"
  have d: "0 \<le> ?d" "?d \<le> 1" using decay_range [of "util_weight s" b e] assms by (auto simp: util_ok_def)
  have ok: "util_ok ?s"
    using assms(1) smoothed_range [OF _ _ d, of "old_util s" l] by (auto simp: util_ok_def)
  show ?thesis
  proof (cases "util_records s = 0 \<or> (dsub e b = 0 \<and> dsub b (period_begin s) = 0)")
    case True
    then show ?thesis using ok by (auto simp: queue_utilUpdate_def Let_def)
  next
    case False
    define c where "c = ddiv (dadd (dmul (link_state l) (dsub e b)) (dmul (cur_util s) (dsub b (period_begin s))))
      (dadd (dsub e b) (dsub b (period_begin s)))"
    have "util_ok (?s\<lparr>cur_util := c\<rparr>)" "util_records (?s\<lparr>cur_util := c\<rparr>) \<noteq> 0"
      using ok False by (auto simp: util_ok_def)
    from util_loop_total [OF this] show ?thesis
      using False by (auto simp: queue_utilUpdate_def Let_def c_def)
  qed
qed

lemma note_change_ok:
  assumes "util_ok s" "last_change s \<le> now"
  shows "\<exists>s'. note_change now s = Some s' \<and> util_ok s' \<and> same_discipline s s' \<and> last_change s' = now"
  using utilUpdate_ok [OF assms, of "blocked s"] by (auto simp: note_change_def util_ok_def)

lemma util_loop_same: "util_loop n e l i t s = Some s' \<Longrightarrow> same_discipline s s'"
proof (induction n arbitrary: i s)
  case 0
  then show ?case by (simp add: util_loop.simps split: if_splits)
next
  case (Suc n)
  let ?s = "s\<lparr>period_begin := e, util_buf := (util_buf s)[nat (buf_slot s) := cur_util s],
      buf_slot := (buf_slot s + 1) mod util_records s, cur_util := l\<rparr>"
  have "s' = s \<or> util_loop n e l (dsub i (util_check_intv s)) t ?s = Some s'"
    using Suc.prems by (subst (asm) util_loop.simps) (simp split: if_splits)
  then show ?case
  proof
    assume "util_loop n e l (dsub i (util_check_intv s)) t ?s = Some s'"
    from Suc.IH [OF this] show ?thesis by simp
  qed simp
qed

lemma note_change_same: "note_change now s = Some s' \<Longrightarrow> same_discipline s s'"
  by (auto simp: note_change_def queue_utilUpdate_def Let_def dest!: util_loop_same split: if_splits)

section \<open>Runs of a queue before its link\<close>

datatype link_event = Arrive real packet | Resume real | Expire real

fun event_time :: "link_event \<Rightarrow> real" where
  "event_time (Arrive t p) = t"
| "event_time (Resume t) = t"
| "event_time (Expire t) = t"

fun do_event :: "'d enque_fn \<Rightarrow> 'd deque_fn \<Rightarrow> link_event \<Rightarrow> 'd queue \<Rightarrow> (packet list \<times> packet list \<times> 'd queue) option" where
  \<comment> \<open>packets sent, packets dropped, and the queue after the event\<close>
  "do_event enque deque (Arrive t p) s =
     map_option (\<lambda>(r, ds, s). (case r of None \<Rightarrow> [] | Some q \<Rightarrow> [q], ds, s)) (queue_recv enque deque t p s)"
| "do_event enque deque (Resume t) s =
     map_option (\<lambda>(r, s). (case r of None \<Rightarrow> [] | Some q \<Rightarrow> [q], [], s)) (queue_resume deque t s)"
| "do_event enque deque (Expire t) s =
     map_option (\<lambda>(r, s). (case r of None \<Rightarrow> [] | Some q \<Rightarrow> [q], [], s)) (queue_poll deque t s)"

fun link_run :: "'d enque_fn \<Rightarrow> 'd deque_fn \<Rightarrow> link_event list \<Rightarrow> 'd queue \<Rightarrow> (packet list \<times> packet list \<times> 'd queue) option" where
  "link_run enque deque [] s = Some ([], [], s)"
| "link_run enque deque (e # es) s = do {
     (ps, ds, s) \<leftarrow> do_event enque deque e s;
     (ps', ds', s) \<leftarrow> link_run enque deque es s;
     Some (ps @ ps', ds @ ds', s) }"

definition arrivals :: "link_event list \<Rightarrow> packet list" where
  "arrivals es = concat (map (\<lambda>e. case e of Arrive t p \<Rightarrow> [p] | _ \<Rightarrow> []) es)"

definition resumes :: "link_event list \<Rightarrow> nat" where
  "resumes es = length (filter (\<lambda>e. case e of Resume t \<Rightarrow> True | _ \<Rightarrow> False) es)"

definition uids :: "packet list \<Rightarrow> int multiset" where
  "uids ps = image_mset pkt_uid (mset ps)"

lemma uids_simps [simp]: "uids [] = {#}" "uids (p # ps) = add_mset (pkt_uid p) (uids ps)" "uids (ps @ qs) = uids ps + uids qs"
  by (simp_all add: uids_def)

lemma uids_empty_iff [simp]: "uids ps = {#} \<longleftrightarrow> ps = []"
  by (simp add: uids_def)

lemma size_uids [simp]: "size (uids ps) = length ps"
  by (simp add: uids_def)

lemma arrivals_simps [simp]: "arrivals [] = []"
  "arrivals (e # es) = (case e of Arrive t p \<Rightarrow> [p] | _ \<Rightarrow> []) @ arrivals es"
  by (simp_all add: arrivals_def)

lemma resumes_simps [simp]: "resumes [] = 0"
  "resumes (e # es) = (case e of Resume t \<Rightarrow> 1 | _ \<Rightarrow> 0) + resumes es"
  by (simp_all add: resumes_def split: link_event.split)

definition arrivals_fit :: "(real \<Rightarrow> packet \<Rightarrow> bool) \<Rightarrow> link_event list \<Rightarrow> bool" where
  "arrivals_fit F es \<longleftrightarrow> list_all (\<lambda>e. case e of Arrive t p \<Rightarrow> F t p | _ \<Rightarrow> True) es"

lemma arrivals_fit_simps [simp]: "arrivals_fit F []"
  "arrivals_fit F (e # es) \<longleftrightarrow> (case e of Arrive t p \<Rightarrow> F t p | _ \<Rightarrow> True) \<and> arrivals_fit F es"
  by (simp_all add: arrivals_fit_def)

abbreviation sent_of :: "packet option \<Rightarrow> packet list" where
  "sent_of r \<equiv> (case r of None \<Rightarrow> [] | Some p \<Rightarrow> [p])"

definition same_link :: "'d queue \<Rightarrow> 'd queue \<Rightarrow> bool" where
  \<comment> \<open>the fields of the base class that a discipline does not write\<close>
  "same_link s s' \<longleftrightarrow> blocked s' = blocked s \<and> unblock_on_resume s' = unblock_on_resume s
     \<and> last_change s' = last_change s \<and> util_ok s' = util_ok s"

lemma same_link_refl [simp]: "same_link s s"
  by (simp add: same_link_def)

lemma same_link_own [simp]: "same_link s (s\<lparr>own := d\<rparr>)"
  by (simp add: same_link_def util_ok_def)

lemma same_link_trans: "same_link a b \<Longrightarrow> same_link b c \<Longrightarrow> same_link a c"
  by (simp add: same_link_def)

lemma updateStats_own [simp]: "own (queue_updateStats t n s) = own s" "qlim (queue_updateStats t n s) = qlim s"
  by (simp_all add: queue_updateStats_def Let_def)

lemma updateStats_same_link [simp]: "same_link s (queue_updateStats t n s)"
  by (simp add: queue_updateStats_def Let_def same_link_def util_ok_def)

lemma note_change_own: "note_change now s = Some s' \<Longrightarrow> util_ok s \<Longrightarrow> last_change s \<le> now
    \<Longrightarrow> util_ok s' \<and> same_discipline s s' \<and> last_change s' = now"
  using note_change_ok [of s now] by auto

text \<open>What both methods of a discipline keep holds throughout every run.\<close>

definition discipline_keeps :: "'d enque_fn \<Rightarrow> 'd deque_fn \<Rightarrow> (real \<Rightarrow> packet \<Rightarrow> bool) \<Rightarrow> (int \<Rightarrow> 'd \<Rightarrow> bool) \<Rightarrow> bool" where
  "discipline_keeps enque deque F I \<longleftrightarrow>
     (\<forall>t p s s' ds. F t p \<longrightarrow> I (qlim s) (own s) \<longrightarrow> enque t p s = Some (s', ds) \<longrightarrow> I (qlim s') (own s'))
   \<and> (\<forall>t s s' r. I (qlim s) (own s) \<longrightarrow> deque t s = Some (r, s') \<longrightarrow> I (qlim s') (own s'))"

lemma poll_invariant:
  assumes "discipline_keeps enque deque F I" "I (qlim s) (own s)" "queue_poll deque t s = Some (r, s')"
  shows "I (qlim s') (own s')"
  using assms unfolding discipline_keeps_def
  by (fastforce simp: queue_poll_def bind_eq_Some_conv dest: note_change_same split: if_splits option.splits)

lemma resume_invariant:
  assumes "discipline_keeps enque deque F I" "I (qlim s) (own s)" "queue_resume deque t s = Some (r, s')"
  shows "I (qlim s') (own s')"
  using assms unfolding discipline_keeps_def
  by (fastforce simp: queue_resume_def bind_eq_Some_conv dest: note_change_same split: option.splits)

lemma run_invariant:
  assumes "discipline_keeps enque deque F I"
    and "link_run enque deque es s = Some (ps, ds, s')" "I (qlim s) (own s)"
    and "arrivals_fit F es"
  shows "I (qlim s') (own s')"
  using assms(2-)
proof (induction es arbitrary: s ps ds)
  case (Cons e es)
  from Cons.prems(1) obtain ps1 ds1 s1 ps2 ds2 where 1: "do_event enque deque e s = Some (ps1, ds1, s1)"
    and 2: "link_run enque deque es s1 = Some (ps2, ds2, s')"
    by (auto simp: bind_eq_Some_conv)
  have "I (qlim s1) (own s1)"
  proof (cases e)
    case (Arrive t p)
    then obtain s0 r where e: "enque t p s = Some (s0, ds1)" "queue_poll deque t s0 = Some (r, s1)"
      using 1 by (auto simp: queue_recv_def bind_eq_Some_conv)
    have "F t p" using Cons.prems(3) Arrive by simp
    then have "I (qlim s0) (own s0)" using assms(1) Cons.prems(2) e(1) unfolding discipline_keeps_def by blast
    then show ?thesis using poll_invariant [OF assms(1)] e(2) by blast
  next
    case (Resume t)
    then show ?thesis using 1 Cons.prems(2) resume_invariant [OF assms(1)] by auto
  next
    case (Expire t)
    then show ?thesis using 1 Cons.prems(2) poll_invariant [OF assms(1)] by auto
  qed
  then show ?case using Cons.IH [OF 2] Cons.prems(3) by simp
qed simp

section \<open>What the base class needs of a discipline\<close>

locale queue_discipline =
  fixes enque :: "'d enque_fn" and deque :: "'d deque_fn"
    and held :: "'d \<Rightarrow> packet list" and ok :: "'d \<Rightarrow> bool"
    and fits :: "real \<Rightarrow> packet \<Rightarrow> bool" and accepts :: "real \<Rightarrow> packet \<Rightarrow> 'd \<Rightarrow> bool"
  assumes enque_keeps: "ok (own s) \<Longrightarrow> fits t p \<Longrightarrow> enque t p s = Some (s', ds) \<Longrightarrow>
      ok (own s') \<and> uids (held (own s')) + uids ds = add_mset (pkt_uid p) (uids (held (own s))) \<and> same_link s s'"
    and deque_keeps: "ok (own s) \<Longrightarrow> deque t s = Some (r, s') \<Longrightarrow>
      ok (own s') \<and> uids (sent_of r) + uids (held (own s')) = uids (held (own s)) \<and> same_link s s'"
    and enque_total: "ok (own s) \<Longrightarrow> accepts t p (own s) \<Longrightarrow> enque t p s \<noteq> None"
    and deque_total: "ok (own s) \<Longrightarrow> deque t s \<noteq> None"
begin

definition link_ok :: "'d queue \<Rightarrow> bool" where
  "link_ok s \<longleftrightarrow> ok (own s) \<and> util_ok s"

lemma poll_keeps:
  assumes "link_ok s" "last_change s \<le> t" "queue_poll deque t s = Some (r, s')"
  shows "link_ok s' \<and> uids (sent_of r) + uids (held (own s')) = uids (held (own s)) \<and> last_change s' \<le> t
    \<and> length (sent_of r) + of_bool (blocked s) = of_bool (blocked s') \<and> unblock_on_resume s' = unblock_on_resume s
    \<and> (blocked s \<or> r \<noteq> None \<longrightarrow> blocked s')"
proof (cases "blocked s")
  case False
  with assms(3) obtain s1 where d: "deque t s = Some (r, s1)" and
    s': "case r of None \<Rightarrow> s' = s1 | Some p \<Rightarrow> \<exists>s2. note_change t s1 = Some s2 \<and> s' = s2\<lparr>blocked := True\<rparr>"
    by (auto simp: queue_poll_def bind_eq_Some_conv split: option.splits)
  from deque_keeps [OF _ d] assms(1) have k: "ok (own s1)" "same_link s s1"
    "uids (sent_of r) + uids (held (own s1)) = uids (held (own s))" by (auto simp: link_ok_def)
  then have s1: "util_ok s1" "last_change s1 \<le> t" "\<not> blocked s1" "unblock_on_resume s1 = unblock_on_resume s"
    using assms(1,2) False by (auto simp: same_link_def link_ok_def)
  show ?thesis
  proof (cases r)
    case None
    then show ?thesis using s' k s1 False by (auto simp: link_ok_def)
  next
    case (Some p)
    then obtain s2 where "note_change t s1 = Some s2" "s' = s2\<lparr>blocked := True\<rparr>" using s' by auto
    then show ?thesis using note_change_own [of t s1 s2] k s1 Some False by (auto simp: link_ok_def util_ok_def)
  qed
qed (use assms in \<open>auto simp: queue_poll_def\<close>)

lemma resume_keeps:
  assumes "link_ok s" "last_change s \<le> t" "queue_resume deque t s = Some (r, s')"
  shows "link_ok s' \<and> uids (sent_of r) + uids (held (own s')) = uids (held (own s)) \<and> last_change s' \<le> t
    \<and> length (sent_of r) + of_bool (blocked s) \<le> 1 + (of_bool (blocked s') :: nat)
    \<and> unblock_on_resume s' = unblock_on_resume s
    \<and> (r = None \<longrightarrow> blocked s' = (\<not> unblock_on_resume s)) \<and> (r \<noteq> None \<longrightarrow> blocked s' = blocked s)"
proof -
  from assms(3) obtain s1 where d: "deque t s = Some (r, s1)" and
    s': "case r of Some p \<Rightarrow> s' = s1 | None \<Rightarrow> \<exists>s2. note_change t s1 = Some s2 \<and> s' = s2\<lparr>blocked := \<not> unblock_on_resume s2\<rparr>"
    by (auto simp: queue_resume_def bind_eq_Some_conv split: option.splits)
  from deque_keeps [OF _ d] assms(1) have k: "ok (own s1)" "same_link s s1"
    "uids (sent_of r) + uids (held (own s1)) = uids (held (own s))" by (auto simp: link_ok_def)
  then have s1: "util_ok s1" "last_change s1 \<le> t" "blocked s1 = blocked s" "unblock_on_resume s1 = unblock_on_resume s"
    using assms(1,2) by (auto simp: same_link_def link_ok_def)
  show ?thesis
  proof (cases r)
    case (Some p)
    then show ?thesis using s' k s1 by (auto simp: link_ok_def)
  next
    case None
    then obtain s2 where "note_change t s1 = Some s2" "s' = s2\<lparr>blocked := \<not> unblock_on_resume s2\<rparr>" using s' by auto
    then show ?thesis using note_change_own [of t s1 s2] k s1 None by (auto simp: link_ok_def util_ok_def)
  qed
qed

lemma event_keeps:
  assumes "link_ok s" "last_change s \<le> event_time e" "do_event enque deque e s = Some (ps, ds, s')" "arrivals_fit fits [e]"
  shows "link_ok s' \<and> last_change s' \<le> event_time e
    \<and> uids ps + uids ds + uids (held (own s')) = uids (arrivals [e]) + uids (held (own s))
    \<and> length ps + of_bool (blocked s) \<le> resumes [e] + of_bool (blocked s')
    \<and> unblock_on_resume s' = unblock_on_resume s"
proof (cases e)
  case (Arrive t p)
  with assms(3) obtain s1 r where e: "enque t p s = Some (s1, ds)" and r: "queue_poll deque t s1 = Some (r, s')"
    and ps: "ps = sent_of r"
    by (auto simp: queue_recv_def bind_eq_Some_conv)
  from enque_keeps [OF _ _ e] assms(1,4) Arrive have k: "ok (own s1)" "same_link s s1"
    "uids (held (own s1)) + uids ds = add_mset (pkt_uid p) (uids (held (own s)))" by (auto simp: link_ok_def arrivals_fit_def)
  then have "link_ok s1" "last_change s1 \<le> t" using assms(1,2) Arrive by (auto simp: same_link_def link_ok_def)
  note pk = poll_keeps [OF this r]
  have "uids ps + uids ds + uids (held (own s')) = uids (held (own s1)) + uids ds"
    using pk ps by (metis union_assoc union_commute)
  then show ?thesis using pk k Arrive ps by (auto simp: same_link_def)
next
  case (Resume t)
  then obtain r where "queue_resume deque t s = Some (r, s')" "ps = sent_of r" "ds = []" using assms(3) by auto
  then show ?thesis using resume_keeps [of s t r s'] assms(1,2) Resume by auto
next
  case (Expire t)
  then obtain r where "queue_poll deque t s = Some (r, s')" "ps = sent_of r" "ds = []" using assms(3) by auto
  then show ?thesis using poll_keeps [of s t r s'] assms(1,2) Expire by auto
qed

lemma run_keeps:
  assumes "link_ok s" "sorted (last_change s # map event_time es)" "link_run enque deque es s = Some (ps, ds, s')"
    and "arrivals_fit fits es"
  shows "link_ok s'"
    and "uids (arrivals es) + uids (held (own s)) = uids ps + uids ds + uids (held (own s'))"
    and "length ps + of_bool (blocked s) \<le> resumes es + of_bool (blocked s')"
proof -
  have "link_ok s' \<and> uids (arrivals es) + uids (held (own s)) = uids ps + uids ds + uids (held (own s'))
    \<and> length ps + of_bool (blocked s) \<le> resumes es + of_bool (blocked s')"
    using assms
  proof (induction es arbitrary: s ps ds)
    case (Cons e es)
    have fit: "arrivals_fit fits [e]" "arrivals_fit fits es" using Cons.prems(4) by (auto simp: arrivals_fit_def)
    from Cons.prems(3) obtain ps1 ds1 s1 ps2 ds2 where 1: "do_event enque deque e s = Some (ps1, ds1, s1)"
      and 2: "link_run enque deque es s1 = Some (ps2, ds2, s')" and eq: "ps = ps1 @ ps2" "ds = ds1 @ ds2"
      by (auto simp: bind_eq_Some_conv)
    have "last_change s \<le> event_time e" using Cons.prems(2) by simp
    note k = event_keeps [OF Cons.prems(1) this 1 fit(1)]
    have "sorted (last_change s1 # map event_time es)" using Cons.prems(2) k by fastforce
    from Cons.IH [OF _ this 2 fit(2)] k have ih: "link_ok s'"
      "uids (arrivals es) + uids (held (own s1)) = uids ps2 + uids ds2 + uids (held (own s'))"
      "length ps2 + of_bool (blocked s1) \<le> resumes es + of_bool (blocked s')" by auto
    have "uids (arrivals (e # es)) + uids (held (own s)) =
        uids (arrivals es) + (uids (arrivals [e]) + uids (held (own s)))" by simp
    also have "uids (arrivals [e]) + uids (held (own s)) = uids ps1 + uids ds1 + uids (held (own s1))"
      using k by (auto simp only:)
    also have "uids (arrivals es) + \<dots> = uids ps1 + uids ds1 + (uids (arrivals es) + uids (held (own s1)))" by simp
    also have "\<dots> = uids ps + uids ds + uids (held (own s'))" unfolding ih(2) eq by simp
    finally show ?case using ih k eq by simp
  qed simp
  then show "link_ok s'" "uids (arrivals es) + uids (held (own s)) = uids ps + uids ds + uids (held (own s'))"
    "length ps + of_bool (blocked s) \<le> resumes es + of_bool (blocked s')" by blast+
qed

lemma poll_total:
  assumes "link_ok s" "last_change s \<le> t"
  shows "queue_poll deque t s \<noteq> None"
proof -
  obtain r s1 where d: "deque t s = Some (r, s1)" using deque_total assms(1) by (fastforce simp: link_ok_def)
  from deque_keeps [OF _ d] assms have "util_ok s1" "last_change s1 \<le> t"
    by (auto simp: link_ok_def same_link_def)
  from note_change_ok [OF this] show ?thesis using d by (auto simp: queue_poll_def split: option.splits)
qed

lemma recv_total:
  assumes "link_ok s" "last_change s \<le> t" "fits t p" "accepts t p (own s)"
  shows "queue_recv enque deque t p s \<noteq> None"
proof -
  obtain s1 ds where e: "enque t p s = Some (s1, ds)"
    using enque_total assms by (fastforce simp: link_ok_def)
  from enque_keeps [OF _ assms(3) e] assms have "link_ok s1" "last_change s1 \<le> t"
    by (auto simp: link_ok_def same_link_def)
  from poll_total [OF this] show ?thesis using e by (auto simp: queue_recv_def)
qed

end

locale work_conserving = queue_discipline +
  assumes deque_works: "ok (own s) \<Longrightarrow> deque t s = Some (None, s') \<Longrightarrow> held (own s) = []"
begin

lemma poll_idle:
  assumes "link_ok s" "last_change s \<le> t" "queue_poll deque t s = Some (r, s')"
  shows "blocked s' \<or> held (own s') = []"
proof (cases "blocked s \<or> r \<noteq> None")
  case True
  then show ?thesis using poll_keeps [OF assms] by (auto split: option.splits)
next
  case False
  then have "deque t s = Some (None, s')"
    using assms(3) by (auto simp: queue_poll_def bind_eq_Some_conv split: option.splits)
  then have "held (own s) = []" using deque_works assms(1) by (auto simp: link_ok_def)
  then show ?thesis using poll_keeps [OF assms] by auto
qed

text \<open>While the link is idle no packet waits.\<close>
lemma run_idle:
  assumes "link_ok s" "sorted (last_change s # map event_time es)" "link_run enque deque es s = Some (ps, ds, s')"
    and "arrivals_fit fits es"
    and "blocked s \<or> held (own s) = []"
  shows "blocked s' \<or> held (own s') = []"
  using assms
proof (induction es arbitrary: s ps ds)
  case (Cons e es)
  have fit: "arrivals_fit fits [e]" "arrivals_fit fits es" using Cons.prems(4) by (auto simp: arrivals_fit_def)
  from Cons.prems(3) obtain ps1 ds1 s1 ps2 ds2 where 1: "do_event enque deque e s = Some (ps1, ds1, s1)"
    and 2: "link_run enque deque es s1 = Some (ps2, ds2, s')"
    by (auto simp: bind_eq_Some_conv)
  have t: "last_change s \<le> event_time e" using Cons.prems(2) by simp
  note k = event_keeps [OF Cons.prems(1) t 1 fit(1)]
  have "blocked s1 \<or> held (own s1) = []"
  proof (cases e)
    case (Arrive t p)
    with 1 obtain s0 r where e: "enque t p s = Some (s0, ds1)" and r: "queue_poll deque t s0 = Some (r, s1)"
      by (auto simp: queue_recv_def bind_eq_Some_conv)
    from enque_keeps [OF _ _ e] Cons.prems(1) have "link_ok s0" "last_change s0 \<le> t"
      using t Arrive fit(1) by (auto simp: link_ok_def same_link_def arrivals_fit_def)
    then show ?thesis using poll_idle r by blast
  next
    case (Resume t')
    then obtain r where r: "queue_resume deque t' s = Some (r, s1)" using 1 by auto
    have rk: "link_ok s" "last_change s \<le> t'" using Cons.prems(1) t Resume by auto
    note k = resume_keeps [OF rk r]
    show ?thesis
    proof (cases r)
      case None
      then obtain s0 where "deque t' s = Some (None, s0)"
        using r by (auto simp: queue_resume_def bind_eq_Some_conv split: option.splits)
      then have "held (own s) = []" using deque_works Cons.prems(1) by (auto simp: link_ok_def)
      then show ?thesis using k by auto
    next
      case (Some p)
      then show ?thesis using k Cons.prems(5) by (cases "held (own s) = []") auto
    qed
  next
    case (Expire t')
    then show ?thesis using 1 poll_idle [of s t'] Cons.prems(1) t by auto
  qed
  moreover have "sorted (last_change s1 # map event_time es)" using Cons.prems(2) k by fastforce
  ultimately show ?case using Cons.IH [OF _ _ 2 fit(2)] k by blast
qed simp

text \<open>Everything that waits is sent when the link has been resumed as often.\<close>
lemma resumes_deliver:
  assumes "link_ok s" "last_change s \<le> t"
  shows "\<exists>ps s'. link_run enque deque (replicate (length (held (own s))) (Resume t)) s = Some (ps, [], s')
    \<and> uids ps = uids (held (own s)) \<and> held (own s') = []"
  using assms
proof (induction "length (held (own s))" arbitrary: s)
  case 0
  then show ?case by simp
next
  case (Suc n)
  obtain r s1 where d: "deque t s = Some (r, s1)" using deque_total Suc.prems(1) by (fastforce simp: link_ok_def)
  have "r \<noteq> None" using deque_works d Suc.hyps(2) Suc.prems(1) by (fastforce simp: link_ok_def)
  then obtain p where r: "r = Some p" by blast
  have res: "queue_resume deque t s = Some (Some p, s1)" using d r by (simp add: queue_resume_def)
  note k = resume_keeps [OF Suc.prems res]
  then have held: "uids (held (own s)) = add_mset (pkt_uid p) (uids (held (own s1)))" by simp
  then have len: "length (held (own s)) = Suc (length (held (own s1)))" by (metis size_add_mset size_uids)
  then have n: "n = length (held (own s1))" using Suc.hyps(2) by simp
  from Suc.hyps(1) [OF n] k obtain ps s' where
    "link_run enque deque (replicate n (Resume t)) s1 = Some (ps, [], s')"
    "uids ps = uids (held (own s1))" "held (own s') = []" unfolding n by blast
  then show ?case using res held len n by auto
qed

text \<open>A reset ends, and drops all the packets.\<close>
lemma drain_ends:
  assumes "ok (own s)"
  shows "\<exists>ps s'. drain deque t s = Some (ps, s') \<and> uids ps = uids (held (own s)) \<and> held (own s') = []"
  using assms
proof (induction "length (held (own s))" arbitrary: s rule: less_induct)
  case less
  obtain r s1 where d: "deque t s = Some (r, s1)" using deque_total less.prems by fastforce
  note k = deque_keeps [OF less.prems d]
  show ?case
  proof (cases r)
    case None
    then show ?thesis using d k deque_works [OF less.prems] by (subst drain.simps) fastforce
  next
    case (Some p)
    then have held: "uids (held (own s)) = add_mset (pkt_uid p) (uids (held (own s1)))" using k by simp
    then have "length (held (own s)) = Suc (length (held (own s1)))" by (metis size_add_mset size_uids)
    then obtain ps s' where "drain deque t s1 = Some (ps, s')" "uids ps = uids (held (own s1))" "held (own s') = []"
      using less.hyps [of s1] k by auto
    then show ?thesis using d Some held by (subst drain.simps) auto
  qed
qed

end

end
