(* ===== verification/PPass_Queue.thy ===== *)
theory PPass_Queue
  imports PPass_State Queue_Base
begin

text \<open>
  The discipline \<open>PPassQueue\<close> of \<open>queue/ppass-queue.h\<close> and \<open>queue/ppass-queue.cc\<close>: credit packets
  (\<open>GRANT\<close>) in a queue of their own that is served first, data packets in a drop-tail queue, and a
  phantom queue, shared with the other direction, that credit fills and time drains and that marks
  the data packets which pass while it is above its threshold.

  The two queues are lists (\<open>Packet_Queue\<close> says why) and the pointer to the phantom queue is an
  optional \<open>ppass_state\<close>, which the methods read and answer changed.
\<close>

section \<open>The class\<close>

record ppass_queue =
  q_0 :: "packet list"
  q_1 :: "packet list"
  shared_state :: "ppass_state option"
  qib :: bool
  mean_pktsize :: int
  bw_gbps :: real
  rho :: real
  PThr :: int
  summarystats :: bool

definition on_wire :: "packet \<Rightarrow> bool" where
  "on_wire p \<longleftrightarrow> MIN_ETHERNET_FRAME_ON_WIRE \<le> pkt_size p \<and> pkt_size p \<le> MAX_ETHERNET_FRAME_ON_WIRE"

definition take_gap :: "real \<Rightarrow> packet \<Rightarrow> packet option" where
  \<comment> \<open>the gap and the preamble are not queued; the assertions say nothing at 10 s sharp\<close>
  "take_gap now p = (if now \<ge> 10 then
      (if now \<le> 10 \<or> on_wire p then
         (let p = p\<lparr>pkt_size := pkt_size p - (INTER_PKT_GAP_SIZE + ETHERNET_PREAMBLE_SIZE)\<rparr> in
          if now \<le> 10 \<or> MIN_ETHERNET_FRAME \<le> pkt_size p \<and> pkt_size p \<le> MAX_ETHERNET_FRAME then Some p else None)
       else None)
    else Some p)"

definition give_gap :: "real \<Rightarrow> packet \<Rightarrow> packet option" where
  "give_gap now p = (if now \<ge> 10 then
      (if now \<le> 10 \<or> pkt_size p \<le> MAX_ETHERNET_FRAME then
         (let p = p\<lparr>pkt_size := pkt_size p + (INTER_PKT_GAP_SIZE + ETHERNET_PREAMBLE_SIZE)\<rparr> in
          if now \<le> 10 \<or> pkt_size p \<le> MAX_ETHERNET_FRAME_ON_WIRE then Some p else None)
       else None)
    else Some p)"

definition ppass_drain :: "real \<Rightarrow> ppass_queue \<Rightarrow> ppass_state \<Rightarrow> u64 option" where
  \<comment> \<open>what left the phantom queue since its last update\<close>
  "ppass_drain now d st = double_to_u64 (ddiv (dmul (dmul (dmul (rho d) (dsub now (get_lasttime st)))
      (dmul (dmul (dmul (bw_gbps d) 1000) 1000) 1000)) 1460) 1500)"

definition ppass_stats :: "real \<Rightarrow> ppass_queue queue \<Rightarrow> ppass_queue queue" where
  "ppass_stats now s = (let d = own s in
     if summarystats d then
       queue_updateStats now (if qib d then bytes_of (q_0 d) + bytes_of (q_1 d)
         else int (length (q_0 d)) + int (length (q_1 d))) s
     else s)"

definition ppass_full :: "int \<Rightarrow> packet \<Rightarrow> ppass_queue \<Rightarrow> bool" where
  \<comment> \<open>\<open>do_drop\<close>\<close>
  "ppass_full limit p d \<longleftrightarrow> (let qlimBytes = limit * mean_pktsize d in
     \<not> qib d \<and> int (length (q_1 d)) + 1 \<ge> limit \<or> qib d \<and> bytes_of (q_1 d) + pkt_size p \<ge> qlimBytes)"

definition ppass_data :: "real \<Rightarrow> packet \<Rightarrow> ppass_queue \<Rightarrow> ppass_state \<Rightarrow> (packet \<times> ppass_state) option" where
  \<comment> \<open>a data packet passes the phantom queue\<close>
  "ppass_data now p d st = (let
     st = (if pkt_unsol_credit p > 0 then increase_qlen (word_of_int (pkt_size p)) st else st)
   in do {
     delta \<leftarrow> ppass_drain now d st;
     let st = (if delta > ps_qlen st then reset_qlen 0 st else decrease_qlen delta st);
     let st = set_lasttime now st;
     Some (if ps_qlen st > word_of_int (PThr d * mean_pktsize d) then p\<lparr>pkt_ce := 1\<rparr> else p, st) })"

definition ppass_enque :: "real \<Rightarrow> packet option \<Rightarrow> ppass_queue queue \<Rightarrow> (ppass_queue queue \<times> packet list) option" where
  "ppass_enque now pkt s = (case shared_state (own s) of
     None \<Rightarrow> None
   | Some st \<Rightarrow> (case pkt of
       None \<Rightarrow> Some (s, [])
     | Some p \<Rightarrow> do {
         p \<leftarrow> take_gap now p;
         let s = ppass_stats now s;
         let d = own s;
         if pkt_msg_type p = GRANT then
           Some (s\<lparr>own := d\<lparr>shared_state := Some (increase_qlen (word_of_int (pkt_credit p)) st), q_0 := q_0 d @ [p]\<rparr>\<rparr>, [])
         else if ppass_full (qlim s) p d then Some (s, [p])
         else do {
           (p, st) \<leftarrow> ppass_data now p d st;
           Some (s\<lparr>own := d\<lparr>shared_state := Some st, q_1 := q_1 d @ [p]\<rparr>\<rparr>, []) } }))"

definition ppass_deque :: "real \<Rightarrow> ppass_queue queue \<Rightarrow> (packet option \<times> ppass_queue queue) option" where
  "ppass_deque now s = (if shared_state (own s) = None then None
   else let s = ppass_stats now s; d = own s;
     (pkt, d) = (case q_0 d of
         p # ps \<Rightarrow> (Some p, d\<lparr>q_0 := ps\<rparr>)
       | [] \<Rightarrow> (case q_1 d of [] \<Rightarrow> (None, d) | p # ps \<Rightarrow> (Some p, d\<lparr>q_1 := ps\<rparr>)))
   in case pkt of
     None \<Rightarrow> Some (None, s\<lparr>own := d\<rparr>)
   | Some p \<Rightarrow> do { p \<leftarrow> give_gap now p; Some (Some p, s\<lparr>own := d\<rparr>) })"

definition ppass_set_state :: "ppass_state option \<Rightarrow> ppass_queue \<Rightarrow> ppass_queue option" where
  \<comment> \<open>the command \<open>set-ppass-state\<close>; an unknown object is an error\<close>
  "ppass_set_state obj d = (case obj of None \<Rightarrow> None | Some st \<Rightarrow> Some (d\<lparr>shared_state := Some st\<rparr>))"

definition ppass_recv :: "real \<Rightarrow> packet \<Rightarrow> ppass_queue queue \<Rightarrow> (packet option \<times> packet list \<times> ppass_queue queue) option" where
  "ppass_recv = queue_recv (\<lambda>now p. ppass_enque now (Some p)) ppass_deque"

definition ppass_reset :: "real \<Rightarrow> ppass_queue queue \<Rightarrow> (packet list \<times> ppass_queue queue) option" where
  "ppass_reset = queue_reset ppass_deque"

section \<open>The methods, branch by branch\<close>

lemma stats_same [simp]: "own (ppass_stats now s) = own s" "qlim (ppass_stats now s) = qlim s"
  by (simp_all add: ppass_stats_def Let_def)

lemma stats_link [simp]: "same_link s (ppass_stats now s)"
  by (simp add: ppass_stats_def Let_def)

lemma take_gap_Some: "take_gap now p = Some p' \<Longrightarrow> p' = p\<lparr>pkt_size := pkt_size p'\<rparr>
    \<and> pkt_size p' = pkt_size p - (if now \<ge> 10 then 20 else 0) \<and> (now > 10 \<longrightarrow> 64 \<le> pkt_size p' \<and> pkt_size p' \<le> 1518)"
  by (auto simp: take_gap_def Let_def ethernet_sizes split: if_splits)

lemma take_gap_total: "(now > 10 \<Longrightarrow> on_wire p) \<Longrightarrow> take_gap now p \<noteq> None"
  by (auto simp: take_gap_def on_wire_def ethernet_sizes Let_def)

lemma give_gap_Some: "give_gap now p = Some p' \<Longrightarrow> p' = p\<lparr>pkt_size := pkt_size p'\<rparr>
    \<and> pkt_size p' = pkt_size p + (if now \<ge> 10 then 20 else 0)"
  by (auto simp: give_gap_def Let_def ethernet_sizes split: if_splits)

lemma give_gap_total: "pkt_size p \<le> 1518 \<Longrightarrow> \<exists>p'. give_gap now p = Some p'"
  by (auto simp: give_gap_def ethernet_sizes Let_def)

lemma drain_increase [simp]: "ppass_drain now d (increase_qlen v st) = ppass_drain now d st"
  by (simp add: ppass_drain_def get_lasttime_def)

lemma data_Some:
  assumes "ppass_data now p d st = Some (p', st')"
  shows "pkt_uid p' = pkt_uid p" "pkt_size p' = pkt_size p" "ps_last_time st' = now"
  using assms by (auto simp: ppass_data_def Let_def bind_eq_Some_conv split: if_splits)

lemma enque_cases [consumes 1, case_names grant dropped data]:
  assumes "ppass_enque now (Some p) s = Some (s', ds)"
  obtains (grant) p1 st where "take_gap now p = Some p1" "pkt_msg_type p = GRANT" "ds = []" "shared_state (own s) = Some st"
      "own s' = (own s)\<lparr>shared_state := Some (increase_qlen (word_of_int (pkt_credit p)) st), q_0 := q_0 (own s) @ [p1]\<rparr>"
      "same_link s s'"
  | (dropped) p1 where "take_gap now p = Some p1" "pkt_msg_type p \<noteq> GRANT" "ppass_full (qlim s) p1 (own s)" "ds = [p1]"
      "own s' = own s" "same_link s s'"
  | (data) p1 p2 st st' where "take_gap now p = Some p1" "pkt_msg_type p \<noteq> GRANT" "\<not> ppass_full (qlim s) p1 (own s)" "ds = []"
      "shared_state (own s) = Some st" "ppass_data now p1 (own s) st = Some (p2, st')"
      "own s' = (own s)\<lparr>shared_state := Some st', q_1 := q_1 (own s) @ [p2]\<rparr>" "same_link s s'"
proof -
  from assms obtain st p1 where st: "shared_state (own s) = Some st" and p1: "take_gap now p = Some p1"
    by (auto simp: ppass_enque_def bind_eq_Some_conv split: option.splits)
  have keep: "pkt_msg_type p1 = pkt_msg_type p" "pkt_credit p1 = pkt_credit p"
    using take_gap_Some [OF p1] by (metis packet.select_convs(9) packet.surjective packet.update_convs(3),
      metis packet.select_convs(11) packet.surjective packet.update_convs(3))
  have link: "same_link s ((ppass_stats now s)\<lparr>own := d\<rparr>)" for d
    using same_link_trans [OF stats_link same_link_own] .
  show thesis
  proof (cases "pkt_msg_type p = GRANT")
    case True
    then show thesis using assms st p1 keep link by (intro grant) (auto simp: ppass_enque_def Let_def)
  next
    case False
    show thesis
    proof (cases "ppass_full (qlim s) p1 (own s)")
      case True
      then show thesis using assms st p1 keep False by (intro dropped) (auto simp: ppass_enque_def Let_def)
    next
      case nf: False
      obtain p2 st' where "ppass_data now p1 (own s) st = Some (p2, st')"
        using assms st p1 keep False nf by (auto simp: ppass_enque_def Let_def bind_eq_Some_conv)
      then show thesis using assms st p1 keep False nf link by (intro data) (auto simp: ppass_enque_def Let_def)
    qed
  qed
qed

section \<open>The discipline behind a link\<close>

definition ppass_held :: "ppass_queue \<Rightarrow> packet list" where
  "ppass_held d = q_0 d @ q_1 d"

definition ppass_ok :: "ppass_queue \<Rightarrow> bool" where
  "ppass_ok d \<longleftrightarrow> shared_state d \<noteq> None \<and> (\<forall>p\<in>set (ppass_held d). 0 \<le> pkt_size p \<and> pkt_size p \<le> MAX_ETHERNET_FRAME)"

definition ppass_fits :: "real \<Rightarrow> packet \<Rightarrow> bool" where
  \<comment> \<open>a packet is measured with its gap from 10 s on, and without it before\<close>
  "ppass_fits t p \<longleftrightarrow> (let gap = (if t \<ge> 10 then INTER_PKT_GAP_SIZE + ETHERNET_PREAMBLE_SIZE else 0)
     in gap \<le> pkt_size p \<and> pkt_size p \<le> MAX_ETHERNET_FRAME + gap)"

definition ppass_accepts :: "real \<Rightarrow> packet \<Rightarrow> ppass_queue \<Rightarrow> bool" where
  \<comment> \<open>the assertions hold, and the drained amount fits a 64-bit number\<close>
  "ppass_accepts t p d \<longleftrightarrow> (t > 10 \<longrightarrow> on_wire p)
     \<and> (pkt_msg_type p \<noteq> GRANT \<longrightarrow> (\<exists>st. shared_state d = Some st \<and> ppass_drain t d st \<noteq> None))"

abbreviation ppass_enq :: "ppass_queue enque_fn" where
  "ppass_enq \<equiv> \<lambda>now p. ppass_enque now (Some p)"

lemma ppass_deque_Some:
  assumes "ppass_deque t s = Some (r, s')"
  shows "same_link s s' \<and> qlim s' = qlim s \<and> (case r of
      None \<Rightarrow> q_0 (own s) = [] \<and> q_1 (own s) = [] \<and> own s' = own s
    | Some p \<Rightarrow> \<exists>q qs. give_gap t q = Some p \<and>
        (q_0 (own s) = q # qs \<and> own s' = (own s)\<lparr>q_0 := qs\<rparr>
       \<or> q_0 (own s) = [] \<and> q_1 (own s) = q # qs \<and> own s' = (own s)\<lparr>q_1 := qs\<rparr>))"
proof -
  have link: "same_link s ((ppass_stats t s)\<lparr>own := d\<rparr>)" for d
    using same_link_trans [OF stats_link same_link_own] .
  show ?thesis
    using assms link
    by (cases "q_0 (own s)"; cases "q_1 (own s)")
      (auto simp: ppass_deque_def Let_def bind_eq_Some_conv split: if_splits)
qed

interpretation ppass: work_conserving ppass_enq ppass_deque ppass_held ppass_ok ppass_fits ppass_accepts
proof (unfold_locales, goal_cases)
  case (1 s t p s' ds)
  have size: "take_gap t p = Some p1 \<Longrightarrow> pkt_uid p1 = pkt_uid p \<and> 0 \<le> pkt_size p1 \<and> pkt_size p1 \<le> MAX_ETHERNET_FRAME" for p1
    using take_gap_Some [of t p p1] 1(2)
    by (auto simp: ppass_fits_def Let_def ethernet_sizes)
  from 1(3) show ?case
  proof (cases rule: enque_cases)
    case (grant p1 st)
    then show ?thesis using size [of p1] 1(1) by (auto simp: ppass_ok_def ppass_held_def)
  next
    case (dropped p1)
    then show ?thesis using size [of p1] 1(1) by (auto simp: ppass_ok_def)
  next
    case (data p1 p2 st st')
    then show ?thesis using size [of p1] data_Some [OF data(6)] 1(1) by (auto simp: ppass_ok_def ppass_held_def)
  qed
next
  case (2 s t r s')
  note d = ppass_deque_Some [OF 2(2)]
  show ?case
  proof (cases r)
    case None
    then show ?thesis using d 2(1) by (auto simp: ppass_held_def)
  next
    case (Some p)
    with d obtain q qs where q: "give_gap t q = Some p" and
      own: "q_0 (own s) = q # qs \<and> own s' = (own s)\<lparr>q_0 := qs\<rparr>
       \<or> q_0 (own s) = [] \<and> q_1 (own s) = q # qs \<and> own s' = (own s)\<lparr>q_1 := qs\<rparr>" by auto
    have "pkt_uid p = pkt_uid q" using give_gap_Some [OF q] by (metis packet.select_convs(1) packet.surjective packet.update_convs(3))
    moreover have "shared_state (own s') = shared_state (own s)" using own by auto
    moreover have "uids (ppass_held (own s)) = add_mset (pkt_uid q) (uids (ppass_held (own s')))"
      "set (ppass_held (own s')) \<subseteq> set (ppass_held (own s))"
      using own by (auto simp: ppass_held_def)
    ultimately show ?thesis using d 2(1) Some by (auto simp: ppass_ok_def)
  qed
next
  case (3 s t p)
  then obtain st p1 where "shared_state (own s) = Some st" "take_gap t p = Some p1"
    using take_gap_total [of t p] by (auto simp: ppass_ok_def ppass_accepts_def)
  moreover from this have "pkt_msg_type p1 = pkt_msg_type p"
    using take_gap_Some by (metis packet.select_convs(9) packet.surjective packet.update_convs(3))
  ultimately show ?case using 3 by (auto simp: ppass_enque_def Let_def ppass_data_def ppass_accepts_def)
next
  case (4 s t)
  have "\<exists>p'. give_gap t p = Some p'" if "p \<in> set (ppass_held (own s))" for p
    using 4 that give_gap_total [of p t] by (auto simp: ppass_ok_def ethernet_sizes)
  then show ?case using 4
    by (cases "q_0 (own s)"; cases "q_1 (own s)") (fastforce simp: ppass_deque_def Let_def ppass_ok_def ppass_held_def)+
next
  case (5 s t s')
  then show ?case using ppass_deque_Some [OF 5(2)] by (auto simp: ppass_held_def)
qed

section \<open>Results\<close>

text \<open>
  Property C1. No packet is lost or duplicated: over any run of the queue behind its link, the
  packets that arrived or were there are those sent, those dropped and those still held, and the
  link never carries two packets at once.
\<close>
theorem ppass_conserves_packets:
  assumes "link_run ppass_enq ppass_deque es s = Some (sent, drops, s')"
    and "ppass_ok (own s)" "util_ok s" "sorted (last_change s # map event_time es)" "arrivals_fit ppass_fits es"
  shows "uids (arrivals es) + uids (ppass_held (own s)) = uids sent + uids drops + uids (ppass_held (own s'))
    \<and> length sent + of_bool (blocked s) \<le> resumes es + of_bool (blocked s')"
  using ppass.run_keeps [of s es sent drops s'] assms by (simp add: ppass.link_ok_def)


lemma ppass_deque_held:
  assumes "ppass_ok (own s)" "ppass_held (own s) = q # qs"
  shows "\<exists>p s'. give_gap t q = Some p \<and> ppass_deque t s = Some (Some p, s') \<and> ppass_held (own s') = qs
    \<and> ppass_ok (own s')"
proof -
  obtain r s' where d: "ppass_deque t s = Some (r, s')" using ppass.deque_total [OF assms(1), of t] by auto
  have "ppass_ok (own s')" using ppass.deque_keeps [OF assms(1) d] by blast
  then show ?thesis using ppass_deque_Some [OF d] assms(2) d
    by (cases r) (auto simp: ppass_held_def)
qed

text \<open>
  Property C23. Delivery: as often as the link asks, it gets the packets that wait, first all credit
  in the order of arrival and then all data in the order of arrival, each with its gap restored; so
  every packet is sent after at most as many requests as there are packets.
\<close>
theorem ppass_delivers_in_order:
  assumes "ppass_ok (own s)" "n \<le> length (ppass_held (own s))"
  shows "\<exists>s'. link_run ppass_enq ppass_deque (replicate n (Resume t)) s
      = Some (map (\<lambda>q. the (give_gap t q)) (take n (q_0 (own s) @ q_1 (own s))), [], s')
    \<and> q_0 (own s') @ q_1 (own s') = drop n (q_0 (own s) @ q_1 (own s))"
  using assms
proof (induction n arbitrary: s)
  case 0
  then show ?case by simp
next
  case (Suc n)
  then obtain q qs where held: "ppass_held (own s) = q # qs" by (cases "ppass_held (own s)") auto
  from ppass_deque_held [OF Suc.prems(1) held, of t] obtain p s1 where
    1: "give_gap t q = Some p" "ppass_deque t s = Some (Some p, s1)" "ppass_held (own s1) = qs" "ppass_ok (own s1)"
    by blast
  have "n \<le> length (ppass_held (own s1))" using Suc.prems(2) held 1(3) by simp
  from Suc.IH [OF 1(4) this] show ?case using 1 held by (auto simp: queue_resume_def ppass_held_def)
qed

text \<open>
  The phantom queue as it is meant: a level, a natural number with a ceiling, and the time it was
  last brought up to date. Credit raises the level; a data packet raises it if it was sent without
  credit, and then the level falls by what the line has drained since the last data packet.
\<close>

definition phantom_max :: nat where "phantom_max = 2 ^ 64 - 1"

definition phantom_raise :: "nat \<Rightarrow> nat \<times> real \<Rightarrow> nat \<times> real" where
  "phantom_raise n = (\<lambda>(level, t). (min (level + n) phantom_max, t))"

definition phantom_fall :: "nat \<Rightarrow> real \<Rightarrow> nat \<times> real \<Rightarrow> nat \<times> real" where
  "phantom_fall n now = (\<lambda>(level, t). (level - n, now))"

definition phantom_of :: "ppass_state \<Rightarrow> nat \<times> real" where
  "phantom_of st = (unat (ps_qlen st), ps_last_time st)"

lemma phantom_of_simps:
  "phantom_of (increase_qlen d st) = phantom_raise (unat d) (phantom_of st)"
  "phantom_of (set_lasttime t (decrease_qlen d st)) = phantom_fall (unat d) t (phantom_of st)"
  by (simp_all add: phantom_of_def phantom_raise_def phantom_fall_def phantom_max_def unat_increase unat_decrease)

lemma reset_is_decrease: "d > ps_qlen st \<Longrightarrow> reset_qlen 0 st = decrease_qlen d st"
  by (simp add: reset_qlen_def decrease_qlen_def)

lemma ppass_data_phantom:
  assumes "ppass_data now p d st = Some (q, st')"
  obtains drained where "ppass_drain now d st = Some drained"
    "phantom_of st' = phantom_fall (unat drained) now
      (phantom_raise (if pkt_unsol_credit p > 0 then unat (word_of_int (pkt_size p) :: u64) else 0) (phantom_of st))"
    "q = (if ps_qlen st' > word_of_int (PThr d * mean_pktsize d) then p\<lparr>pkt_ce := 1\<rparr> else p)"
proof -
  let ?st = "if pkt_unsol_credit p > 0 then increase_qlen (word_of_int (pkt_size p)) st else st"
  have "ppass_drain now d ?st = ppass_drain now d st" by simp
  with assms obtain drained where dr: "ppass_drain now d st = Some drained"
    and st': "st' = set_lasttime now (decrease_qlen drained ?st)"
    and q: "q = (if ps_qlen st' > word_of_int (PThr d * mean_pktsize d) then p\<lparr>pkt_ce := 1\<rparr> else p)"
    unfolding ppass_data_def Let_def
    by (auto simp only: bind_eq_Some_conv reset_is_decrease if_cancel option.inject prod.inject cong: if_cong)
  have "phantom_raise 0 (phantom_of st) = phantom_of st"
    using unat_lt_64 [of "ps_qlen st"] by (simp add: phantom_raise_def phantom_of_def phantom_max_def min_def del: unat_lt_64)
  then show thesis using that [OF dr] q by (auto simp: st' phantom_of_simps)
qed

text \<open>
  Property C2. Refinement of the phantom queue: whatever packet arrives, the shared 64-bit state
  changes as the abstract level does. Credit raises it and leaves its clock; a dropped packet leaves
  it alone; a data packet that enters lets it drain up to now, after it was raised by the size of
  the packet if the sender had no credit for it.
\<close>
theorem ppass_refines_phantom:
  assumes "ppass_enque now (Some p) s = Some (s', drops)" "shared_state (own s) = Some st"
  shows "\<exists>st'. shared_state (own s') = Some st' \<and>
    (if pkt_msg_type p = GRANT then
       phantom_of st' = phantom_raise (unat (word_of_int (pkt_credit p) :: u64)) (phantom_of st)
     else if drops \<noteq> [] then phantom_of st' = phantom_of st
     else \<exists>drained queued. ppass_drain now (own s) st = Some drained \<and> q_1 (own s') = q_1 (own s) @ [queued]
       \<and> phantom_of st' = phantom_fall (unat drained) now (phantom_raise
           (if pkt_unsol_credit p > 0 then unat (word_of_int (pkt_size queued) :: u64) else 0) (phantom_of st)))"
  using assms(1)
proof (cases rule: enque_cases)
  case (grant p1 st1)
  then show ?thesis using assms(2) by (simp add: phantom_of_simps)
next
  case (dropped p1)
  then show ?thesis using assms(2) by simp
next
  case (data p1 p2 st1 st2)
  have "pkt_unsol_credit p1 = pkt_unsol_credit p"
    using take_gap_Some [OF data(1)] by (metis packet.select_convs(12) packet.surjective packet.update_convs(3))
  then show ?thesis using data assms(2) data_Some(2) [OF data(6)] ppass_data_phantom [OF data(6)] by fastforce
qed


definition ppass_within :: "int \<Rightarrow> ppass_queue \<Rightarrow> bool" where
  "ppass_within limit d \<longleftrightarrow> (\<forall>p\<in>set (q_1 d). 0 \<le> pkt_size p) \<and> (q_1 d = [] \<or>
     (if qib d then bytes_of (q_1 d) < limit * mean_pktsize d else int (length (q_1 d)) < limit))"

lemma ppass_keeps_within: "discipline_keeps ppass_enq ppass_deque ppass_fits ppass_within"
  unfolding discipline_keeps_def
proof (intro conjI allI impI, goal_cases)
  case (1 t p s s' ds)
  from 1(3) have qlim: "qlim s' = qlim s"
    by (auto simp: ppass_enque_def Let_def bind_eq_Some_conv split: option.splits if_splits)
  from 1(3) show ?case
  proof (cases rule: enque_cases)
    case (data p1 p2 st st')
    have "0 \<le> pkt_size p1" using take_gap_Some [OF data(1)] 1(1) by (auto simp: ppass_fits_def Let_def ethernet_sizes)
    then show ?thesis using data qlim 1(2) data_Some(2) [OF data(6)]
      by (auto simp: ppass_within_def ppass_full_def Let_def)
  qed (use 1 qlim in \<open>auto simp: ppass_within_def\<close>)
next
  case (2 t s s' r)
  have nonneg: "(\<forall>p\<in>set qs. 0 \<le> pkt_size p) \<Longrightarrow> 0 \<le> bytes_of qs" for qs by (induction qs) auto
  show ?case using ppass_deque_Some [OF 2(2)] 2(1) by (cases r) (auto simp: ppass_within_def split: if_splits)
qed

text \<open>
  The buffer limit: throughout every run that starts with an empty data queue, the data
  queue stays below \<open>limit_\<close> packets, or below \<open>limit_\<close> times \<open>mean_pktsize_\<close> bytes when it is measured
  in bytes. Credit packets do not count.
\<close>
theorem ppass_data_within_limit:
  assumes "link_run ppass_enq ppass_deque es s = Some (sent, drops, s')"
    and "q_1 (own s) = []" "arrivals_fit ppass_fits es"
  shows "q_1 (own s') = [] \<or> (if qib (own s') then bytes_of (q_1 (own s')) < qlim s' * mean_pktsize (own s')
    else int (length (q_1 (own s'))) < qlim s')"
proof -
  have "ppass_within (qlim s) (own s)" using assms(2) by (simp add: ppass_within_def)
  from run_invariant [OF ppass_keeps_within assms(1) this assms(3)] show ?thesis
    by (simp add: ppass_within_def)
qed

text \<open>
  The amount that drains in a second of a line of one gigabit is counted in bits, while the level
  counts bytes: the queue empties eight times too fast. (The switch, \<open>PPass_Switch\<close>, counts bytes.)
\<close>
lemma ppass_drains_bits:
  assumes "rho d = 1" "bw_gbps d = 1"
  shows "ppass_drain 3 d new_ppass_state = Some 2920000000"
  using assms by (simp add: ppass_drain_def get_lasttime_def new_ppass_state_def double_ops double_to_u64_def)

section \<open>Examples\<close>

definition ex_ppass :: ppass_queue where
  \<comment> \<open>a line of one gigabit, counted in bytes, with an empty phantom queue\<close>
  "ex_ppass = \<lparr>q_0 = [], q_1 = [], shared_state = Some new_ppass_state, qib = True, mean_pktsize = 1500,
     bw_gbps = 1, rho = 1, PThr = 0, summarystats = False\<rparr>"

definition ex_data :: packet where
  "ex_data = ex_packet\<lparr>pkt_size := 1500, pkt_unsol_credit := 1\<rparr>"

definition ex_grant :: packet where
  "ex_grant = ex_packet\<lparr>pkt_uid := 2, pkt_size := 64, pkt_msg_type := GRANT, pkt_credit := 1500\<rparr>"

lemmas ex_ppass_defs = ex_ppass_def ex_data_def ex_grant_def ex_packet_def new_ppass_state_def

definition ex_events :: "link_event list" where
  "ex_events = [Arrive 3 ex_data, Arrive 3 ex_data, Arrive 3 ex_grant, Resume 3, Arrive 3 (ex_data\<lparr>pkt_size := 1518\<rparr>)]"

lemma ex_take_gap [simp]: "take_gap 3 p = Some p" "give_gap 3 p = Some p"
  by (simp_all add: take_gap_def give_gap_def)

lemma ex_note_change: "util_records s = 0 \<Longrightarrow> note_change t s = Some (s\<lparr>old_util := dadd (link_state (blocked s))
    (dmul (dsub (old_util s) (link_state (blocked s))) (dbl (exp (dmul (- util_weight s) (dsub t (last_change s)))))),
    last_change := t\<rparr>)"
  by (simp add: note_change_def queue_utilUpdate_def Let_def)

lemma ex_run: "\<exists>s'. link_run ppass_enq ppass_deque ex_events (new_queue 2 ex_ppass)
    = Some ([ex_data, ex_grant], [ex_data\<lparr>pkt_size := 1518\<rparr>], s')
  \<and> q_0 (own s') = [] \<and> q_1 (own s') = [ex_data\<lparr>pkt_ce := 1\<rparr>] \<and> blocked s'"
  by (simp add: ex_events_def new_queue_def queue_recv_def queue_resume_def queue_poll_def ex_note_change
      ppass_enque_def ppass_deque_def ppass_stats_def ppass_full_def ppass_data_def ppass_drain_def get_lasttime_def
      double_ops double_to_u64_def increase_qlen_def decrease_qlen_def reset_qlen_def set_lasttime_def Let_def ex_ppass_defs)

theorem ppass_conserves_packets_witness:
  "\<exists>s'. link_run ppass_enq ppass_deque ex_events (new_queue 2 ex_ppass)
      = Some ([ex_data, ex_grant], [ex_data\<lparr>pkt_size := 1518\<rparr>], s')
    \<and> uids (arrivals ex_events) = {#1, 2, 1#} + uids (ppass_held (own s')) \<and> length [ex_data, ex_grant] \<le> resumes ex_events + 1"
proof -
  obtain s' where run: "link_run ppass_enq ppass_deque ex_events (new_queue 2 ex_ppass)
      = Some ([ex_data, ex_grant], [ex_data\<lparr>pkt_size := 1518\<rparr>], s')" "blocked s'"
    using ex_run by blast
  have fit: "arrivals_fit ppass_fits ex_events"
    by (simp add: ex_events_def ppass_fits_def ethernet_sizes ex_ppass_defs)
  have times: "sorted (last_change (new_queue 2 ex_ppass) # map event_time ex_events)" by (simp add: ex_events_def)
  have ok: "ppass_ok ex_ppass" by (simp add: ppass_ok_def ppass_held_def ex_ppass_defs)
  show ?thesis
    using ppass_conserves_packets [OF run(1) _ _ times fit] ok run
    by (simp add: ppass_held_def ex_ppass_defs)
qed


theorem ppass_delivers_in_order_witness:
  "\<exists>s'. link_run ppass_enq ppass_deque (replicate 2 (Resume 3)) (new_queue 2 (ex_ppass\<lparr>q_0 := [ex_grant], q_1 := [ex_data]\<rparr>))
      = Some ([ex_grant, ex_data], [], s') \<and> q_0 (own s') @ q_1 (own s') = []"
  using ppass_delivers_in_order [of "new_queue 2 (ex_ppass\<lparr>q_0 := [ex_grant], q_1 := [ex_data]\<rparr>)" 2 3]
  by (simp add: ppass_ok_def ppass_held_def ethernet_sizes ex_ppass_defs)

theorem ppass_refines_phantom_witness:
  "\<exists>s' st'. ppass_enque 3 (Some ex_grant) (new_queue 2 ex_ppass) = Some (s', []) \<and> shared_state (own s') = Some st'
    \<and> phantom_of st' = (1500, 0)"
proof -
  obtain s' where run: "ppass_enque 3 (Some ex_grant) (new_queue 2 ex_ppass) = Some (s', [])"
    by (simp add: ppass_enque_def ppass_stats_def Let_def ex_ppass_defs)
  have "shared_state (own (new_queue 2 ex_ppass)) = Some new_ppass_state" by (simp add: ex_ppass_def)
  from ppass_refines_phantom [OF run this] show ?thesis
    using run by (auto simp: phantom_raise_def phantom_of_def phantom_max_def ex_ppass_defs)
qed


theorem ppass_data_within_limit_witness:
  "\<exists>sent drops s'. link_run ppass_enq ppass_deque ex_events (new_queue 2 ex_ppass) = Some (sent, drops, s')
    \<and> q_1 (own s') \<noteq> [] \<and> (if qib (own s') then bytes_of (q_1 (own s')) < qlim s' * mean_pktsize (own s')
      else int (length (q_1 (own s'))) < qlim s')"
proof -
  obtain sent drops s' where run: "link_run ppass_enq ppass_deque ex_events (new_queue 2 ex_ppass) = Some (sent, drops, s')"
    "q_1 (own s') \<noteq> []"
    using ex_run by auto
  have "q_1 (own (new_queue 2 ex_ppass)) = []" "arrivals_fit ppass_fits ex_events"
    by (simp_all add: ex_events_def ppass_fits_def ethernet_sizes ex_ppass_defs)
  from ppass_data_within_limit [OF run(1) this] run show ?thesis by auto
qed

end
