(* ===== verification/Classifier.thy ===== *)
theory Classifier
  imports Ns_Packet
begin

text \<open>
  The class \<open>Classifier\<close> of \<open>classifier/classifier.h\<close> and \<open>classifier/classifier.cc\<close>: the table of a
  node that maps the slot of a packet to the object the packet goes to. Objects are addresses into
  an object graph, which the switches follow to the interface of the outgoing link. An access
  outside the table, or through a null pointer, is \<open>None\<close>. The derived classes extend the record.
\<close>

unbundle bit_operations_syntax

section \<open>Objects\<close>

type_synonym obj = nat

datatype nsobject = Connector "obj option" | NetworkInterface int "obj option" | Other_object

fun connector_target :: "nsobject \<Rightarrow> obj option option" where
  \<comment> \<open>the cast to \<open>Connector\<close>, of which \<open>NetworkInterface\<close> is a subclass, and its target\<close>
  "connector_target (Connector t) = Some t"
| "connector_target (NetworkInterface l t) = Some t"
| "connector_target Other_object = None"

fun interface_label :: "nsobject \<Rightarrow> int option" where
  "interface_label (NetworkInterface l t) = Some l"
| "interface_label _ = None"

section \<open>The table\<close>

record classifier =
  slots :: "obj option list"
  maxslot :: int
  shift :: int
  mask :: int
  nsize :: int

definition nslot :: "'a classifier_scheme \<Rightarrow> int" where
  "nslot c = int (length (slots c))"

definition mshift :: "'a classifier_scheme \<Rightarrow> int \<Rightarrow> int" where
  "mshift c v = drop_bit (nat (shift c)) v AND mask c"

definition slot_at :: "'a classifier_scheme \<Rightarrow> int \<Rightarrow> obj option option" where
  \<comment> \<open>\<open>slot_[i]\<close>\<close>
  "slot_at c i = (if 0 \<le> i \<and> i < nslot c then Some (slots c ! nat i) else None)"

definition slot_get :: "'a classifier_scheme \<Rightarrow> int \<Rightarrow> obj option" where
  \<comment> \<open>the method \<open>slot\<close>, which tests its argument\<close>
  "slot_get c i = (if i \<ge> 0 \<and> i < nslot c then slots c ! nat i else None)"

partial_function (option) double_until :: "int \<Rightarrow> int \<Rightarrow> int option" where
  "double_until n slot = (if n \<le> slot then double_until (2 * n) slot else Some n)"

definition classifier_alloc :: "int \<Rightarrow> 'a classifier_scheme \<Rightarrow> 'a classifier_scheme option" where
  "classifier_alloc slot c = (let
     start = (if slots c = [] then (if nsize c \<noteq> 0 then nsize c else 32) else nslot c)
   in do {
     n \<leftarrow> double_until start slot;
     Some (c\<lparr>slots := slots c @ replicate (nat n - length (slots c)) None\<rparr>) })"

definition classifier_install :: "int \<Rightarrow> obj option \<Rightarrow> 'a classifier_scheme \<Rightarrow> 'a classifier_scheme option" where
  "classifier_install slot p c = do {
     c \<leftarrow> (if slot \<ge> nslot c then classifier_alloc slot c else Some c);
     if slot < 0 then None
     else Some (let c = c\<lparr>slots := (slots c)[nat slot := p]\<rparr> in
       if slot \<ge> maxslot c then c\<lparr>maxslot := slot\<rparr> else c) }"

fun lower_maxslot :: "nat \<Rightarrow> obj option list \<Rightarrow> int" where
  \<comment> \<open>\<open>while (--maxslot_ >= 0 && slot_[maxslot_] == 0)\<close>, from \<open>maxslot_ = n\<close>\<close>
  "lower_maxslot 0 ss = - 1"
| "lower_maxslot (Suc n) ss = (if ss ! n = None then lower_maxslot n ss else int n)"

definition classifier_clear :: "int \<Rightarrow> 'a classifier_scheme \<Rightarrow> 'a classifier_scheme option" where
  "classifier_clear slot c = (if 0 \<le> slot \<and> slot < nslot c then
      Some (let c = c\<lparr>slots := (slots c)[nat slot := None]\<rparr> in
        if slot = maxslot c then c\<lparr>maxslot := lower_maxslot (nat slot) (slots c)\<rparr> else c)
    else None)"

fun free_slot :: "obj option \<Rightarrow> obj option list \<Rightarrow> nat" where
  \<comment> \<open>the first slot that is empty or holds the given object, else the length of the table\<close>
  "free_slot a [] = 0"
| "free_slot a (s # ss) = (if s = None \<or> s = a then 0 else Suc (free_slot a ss))"

definition classifier_getnxt :: "obj option \<Rightarrow> 'a classifier_scheme \<Rightarrow> (int \<times> 'a classifier_scheme) option" where
  "classifier_getnxt a c = (let i = free_slot a (slots c) in
     if i < length (slots c) then Some (int i, c)
     else do { c' \<leftarrow> classifier_alloc (nslot c) c; Some (nslot c, c') })"

definition install_next :: "obj option \<Rightarrow> 'a classifier_scheme \<Rightarrow> (int \<times> 'a classifier_scheme) option" where
  "install_next p c = (let slot = maxslot c + 1 in map_option (\<lambda>c. (slot, c)) (classifier_install slot p c))"

definition follow :: "(obj \<Rightarrow> nsobject) \<Rightarrow> obj option \<Rightarrow> obj option" where
  \<comment> \<open>the target of an object that is a connector; null otherwise\<close>
  "follow objs a = (case a of None \<Rightarrow> None | Some x \<Rightarrow> (case connector_target (objs x) of None \<Rightarrow> None | Some t \<Rightarrow> t))"

definition get_iface :: "(obj \<Rightarrow> nsobject) \<Rightarrow> int \<Rightarrow> 'a classifier_scheme \<Rightarrow> int option option" where
  \<comment> \<open>the label of the interface behind a slot: slot, queue, interface; the inner \<open>None\<close> is the null pointer\<close>
  "get_iface objs slot c = (if slot < 0 \<or> slot > maxslot c then Some None
   else do {
     a \<leftarrow> slot_at c slot;
     Some (case follow objs (follow objs a) of None \<Rightarrow> None | Some n \<Rightarrow> interface_label (objs n)) })"

section \<open>The table is kept in order\<close>

definition classifier_ok :: "'a classifier_scheme \<Rightarrow> bool" where
  \<comment> \<open>no object above \<open>maxslot_\<close>, which is inside the table\<close>
  "classifier_ok c \<longleftrightarrow> - 1 \<le> maxslot c \<and> maxslot c < nslot c \<and> 0 \<le> nsize c
     \<and> (\<forall>i<length (slots c). maxslot c < int i \<longrightarrow> slots c ! i = None)"

lemma double_until_ends:
  assumes "0 < n"
  shows "\<exists>m. double_until n slot = Some m \<and> n \<le> m \<and> slot < m"
  using assms
proof (induction "nat (slot + 1 - n)" arbitrary: n rule: less_induct)
  case less
  show ?case
  proof (cases "n \<le> slot")
    case True
    then obtain m where "double_until (2 * n) slot = Some m" "2 * n \<le> m" "slot < m"
      using less.hyps [of "2 * n"] less.prems by auto
    then show ?thesis using True less.prems by (subst double_until.simps) auto
  qed (subst double_until.simps, simp)
qed

lemma alloc_ok:
  assumes "classifier_ok c"
  shows "\<exists>k. classifier_alloc slot c = Some (c\<lparr>slots := slots c @ replicate k None\<rparr>)
    \<and> slot < int (length (slots c) + k)"
proof -
  let ?start = "if slots c = [] then (if nsize c \<noteq> 0 then nsize c else 32) else nslot c"
  have "0 < ?start" using assms by (auto simp: classifier_ok_def nslot_def)
  then obtain m where m: "double_until ?start slot = Some m" "?start \<le> m" "slot < m"
    using double_until_ends by blast
  have "nslot c \<le> m" using m(2) assms by (auto simp: nslot_def classifier_ok_def split: if_splits)
  then show ?thesis using m
    by (intro exI [of _ "nat m - length (slots c)"]) (auto simp: classifier_alloc_def Let_def nslot_def simp del: if_split)
qed

lemma install_works:
  assumes "classifier_ok c" "0 \<le> slot"
  shows "\<exists>c'. classifier_install slot p c = Some c' \<and> classifier_ok c' \<and> slot_get c' slot = p
    \<and> (\<forall>i. i \<noteq> slot \<longrightarrow> slot_get c' i = slot_get c i) \<and> maxslot c' = max (maxslot c) slot"
proof -
  obtain k where k: "(if slot \<ge> nslot c then classifier_alloc slot c else Some c)
      = Some (c\<lparr>slots := slots c @ replicate k None\<rparr>)" "slot < int (length (slots c) + k)"
  proof (cases "slot \<ge> nslot c")
    case True
    then show ?thesis using alloc_ok [OF assms(1), of slot] that by auto
  next
    case False
    then show ?thesis using that [of 0] by (simp add: nslot_def)
  qed
  let ?c = "c\<lparr>slots := (slots c @ replicate k None)[nat slot := p]\<rparr>"
  define c' where "c' = (if slot \<ge> maxslot c then ?c\<lparr>maxslot := slot\<rparr> else ?c)"
  have inst: "classifier_install slot p c = Some c'"
    using k assms(2) by (simp add: classifier_install_def c'_def Let_def)
  have slots': "slots c' = (slots c @ replicate k None)[nat slot := p]" "maxslot c' = max (maxslot c) slot"
    "nsize c' = nsize c"
    by (auto simp: c'_def)
  have "classifier_ok c'"
    using assms k(2) unfolding classifier_ok_def nslot_def slots'
    by (auto simp: nth_list_update nth_append)
  moreover have "slot_get c' slot = p" using assms(2) k(2) by (simp add: slot_get_def nslot_def slots')
  moreover have "slot_get c' i = slot_get c i" if "i \<noteq> slot" for i
    using that assms(2) k(2) by (auto simp: slot_get_def nslot_def slots' nth_list_update nth_append)
  ultimately show ?thesis using inst slots' by blast
qed

lemma lower_maxslot_range: "- 1 \<le> lower_maxslot n ss \<and> lower_maxslot n ss < int n"
  by (induction n) auto

lemma lower_maxslot_empty: "lower_maxslot n ss < int i \<Longrightarrow> i < n \<Longrightarrow> ss ! i = None"
proof (induction n)
  case (Suc n)
  then show ?case by (cases "i = n") (auto split: if_splits)
qed simp

lemma clear_works:
  assumes "classifier_ok c" "0 \<le> slot" "slot < nslot c"
  shows "\<exists>c'. classifier_clear slot c = Some c' \<and> classifier_ok c' \<and> slot_get c' slot = None
    \<and> (\<forall>i. i \<noteq> slot \<longrightarrow> slot_get c' i = slot_get c i)"
proof -
  let ?s = "(slots c)[nat slot := None]"
  define c' where "c' = (if slot = maxslot c then c\<lparr>slots := ?s, maxslot := lower_maxslot (nat slot) ?s\<rparr> else c\<lparr>slots := ?s\<rparr>)"
  have clear: "classifier_clear slot c = Some c'" using assms by (auto simp: classifier_clear_def c'_def Let_def)
  have "classifier_ok c'"
  proof (cases "slot = maxslot c")
    case True
    have "?s ! i = None" if "i < length (slots c)" "lower_maxslot (nat slot) ?s < int i" for i
    proof -
      consider "int i < slot" | "int i = slot" | "slot < int i" by linarith
      then show ?thesis
      proof cases
        case 1 then show ?thesis using lower_maxslot_empty [OF that(2)] by simp
      next
        case 2 then show ?thesis using that by auto
      next
        case 3 then show ?thesis using that assms(1) True by (auto simp: classifier_ok_def nth_list_update)
      qed
    qed
    then show ?thesis using assms True lower_maxslot_range [of "nat slot" ?s]
      by (auto simp: classifier_ok_def nslot_def c'_def)
  next
    case False
    then show ?thesis using assms by (auto simp: classifier_ok_def nslot_def c'_def nth_list_update)
  qed
  moreover have "slot_get c' slot = None" "\<forall>i. i \<noteq> slot \<longrightarrow> slot_get c' i = slot_get c i"
    using assms by (auto simp: slot_get_def nslot_def c'_def nth_list_update)
  ultimately show ?thesis using clear by blast
qed

lemma free_slot_free: "free_slot a ss < length ss \<Longrightarrow> ss ! free_slot a ss = None \<or> ss ! free_slot a ss = a"
  by (induction ss) auto

lemma free_slot_le: "free_slot a ss \<le> length ss"
  by (induction ss) auto

lemma getnxt_free:
  assumes "classifier_ok c"
  shows "\<exists>i c'. classifier_getnxt a c = Some (i, c') \<and> classifier_ok c' \<and> 0 \<le> i \<and> i < nslot c'
    \<and> (slot_get c i = None \<or> slot_get c i = a) \<and> (\<forall>j. slot_get c' j = slot_get c j)"
proof (cases "free_slot a (slots c) < length (slots c)")
  case True
  then show ?thesis using assms free_slot_free [OF True]
    by (auto simp: classifier_getnxt_def nslot_def slot_get_def)
next
  case False
  obtain k where k: "classifier_alloc (nslot c) c = Some (c\<lparr>slots := slots c @ replicate k None\<rparr>)"
    "nslot c < int (length (slots c) + k)" using alloc_ok [OF assms] by blast
  then show ?thesis using False assms
    by (auto simp: classifier_getnxt_def nslot_def slot_get_def nth_append classifier_ok_def)
qed

end
