(* ===== verification/PPass_Switch.thy ===== *)
theory PPass_Switch
  imports Classifier
begin

text \<open>
  The switch of PhantomPass: the class \<open>DestHashClassifier\<close> of \<open>classifier/classifier-hash.h\<close> and
  \<open>classifier/classifier-hash.cc\<close> (with the part of its base \<open>HashClassifier\<close> that it uses), and
  the \<open>Integrator\<close> of \<open>tools/integrator.cc\<close>. For every interface the switch keeps a phantom queue: credit that
  comes in raises it, packets that go out raise it if they will pull data or were not paid by
  credit, and time drains it. A data packet is marked while both the phantom queue and the real
  queue of its interface are above their thresholds.

  The Tcl hash table and the map of the ports are partial maps; the byte length of an egress queue,
  another object of the simulation, is the function \<open>qbytes\<close>.
\<close>

section \<open>The classes\<close>

record integrator =
  lastx :: real
  lasty :: real
  int_sum :: real

definition newPoint :: "real \<Rightarrow> real \<Rightarrow> integrator \<Rightarrow> integrator" where
  "newPoint x y i = i\<lparr>int_sum := dadd (int_sum i) (dmul (dsub x (lastx i)) (lasty i)), lastx := x, lasty := y\<rparr>"

record port_status =
  pqlen :: u64
  port_last_time :: real
  egress_queue :: "nat option"
  peer_id :: int
  pqlenInt :: "integrator option"

definition new_port_status :: port_status where
  "new_port_status = \<lparr>pqlen = 0, port_last_time = 0, egress_queue = None, peer_id = - 1, pqlenInt = None\<rparr>"

record dest_hash = classifier +
  hash_default :: int
  hash_table :: "int \<Rightarrow> int option"
  enable_ppass :: bool
  pthr :: int
  line_rate_gbps :: real
  drain_rho :: real
  p_egress_queue_thresh_byte :: int
  port_status_map :: "int \<Rightarrow> port_status option"
  sample_interval :: real
  sample_open :: bool
  sample_header_written :: bool
  sample_timer :: "real option"

definition port_of :: "int \<Rightarrow> dest_hash \<Rightarrow> port_status" where
  \<comment> \<open>\<open>port_status_map_[label]\<close>, which makes a new entry where there is none\<close>
  "port_of l c = (case port_status_map c l of None \<Rightarrow> new_port_status | Some st \<Rightarrow> st)"

definition set_port :: "int \<Rightarrow> port_status \<Rightarrow> dest_hash \<Rightarrow> dest_hash" where
  "set_port l st c = c\<lparr>port_status_map := (port_status_map c)(l \<mapsto> st)\<rparr>"

definition u64_to_double :: "u64 \<Rightarrow> real" where
  "u64_to_double w = dbl (of_int (uint w))"

definition pqlen_limit :: "dest_hash \<Rightarrow> u64" where
  "pqlen_limit c = word_of_int (pthr c) * 10"

definition log_pqlen :: "real \<Rightarrow> port_status \<Rightarrow> port_status option" where
  \<comment> \<open>\<open>pqlenInt_->newPoint(now, pqlen_)\<close>, a call through a pointer\<close>
  "log_pqlen now st = (case pqlenInt st of
     None \<Rightarrow> None
   | Some i \<Rightarrow> Some (st\<lparr>pqlenInt := Some (newPoint now (u64_to_double (pqlen st)) i)\<rparr>))"

section \<open>Packets through the switch\<close>

definition ppass_ingress :: "real \<Rightarrow> int \<Rightarrow> packet \<Rightarrow> dest_hash \<Rightarrow> dest_hash option" where
  "ppass_ingress now label p c = (let
     st = port_of label c;
     st = (if pkt_msg_type p = GRANT then st\<lparr>pqlen := pqlen st + word_of_int (pkt_credit p)\<rparr> else st);
     limit = pqlen_limit c;
     st = st\<lparr>pqlen := min (pqlen st) limit\<rparr>
   in do { st \<leftarrow> log_pqlen now st; Some (set_port label st c) })"

definition egress_interval :: "real \<Rightarrow> port_status \<Rightarrow> real" where
  "egress_interval now st = (if port_last_time st = 0 then 0 else dsub now (port_last_time st))"

definition egress_drain :: "real \<Rightarrow> dest_hash \<Rightarrow> port_status \<Rightarrow> u64 option" where
  "egress_drain now c st = double_to_u64
     (dmul (dmul (dmul (drain_rho c) (egress_interval now st)) (line_rate_gbps c)) 125000000)"

definition is_data_pkt :: "packet \<Rightarrow> bool" where
  "is_data_pkt p \<longleftrightarrow> pkt_msg_type p = REQUEST \<or> pkt_msg_type p = GRANT_REQ \<or> pkt_msg_type p = REPLY"

definition pulls_data :: "packet \<Rightarrow> bool" where
  \<comment> \<open>the packets that raise the phantom queue of the interface they leave by\<close>
  "pulls_data p \<longleftrightarrow> pkt_msg_type p = GRANT \<or> pkt_unsol_credit p > 0 \<or> pkt_msg_type p = GRANT_REQ"

definition egress_raise :: "packet \<Rightarrow> port_status \<Rightarrow> port_status" where
  "egress_raise p st = (if pulls_data p then st\<lparr>pqlen := pqlen st + word_of_int (pkt_size p)\<rparr> else st)"

definition ppass_egress :: "(nat \<Rightarrow> int) \<Rightarrow> real \<Rightarrow> int \<Rightarrow> packet \<Rightarrow> dest_hash \<Rightarrow> (packet \<times> dest_hash) option" where
  "ppass_egress qbytes now label p c = (let
     st = egress_raise p (port_of label c)
   in do {
     delta \<leftarrow> egress_drain now c st;
     let level = (if delta > pqlen st then 0 else pqlen st - delta);
     let st = st\<lparr>port_last_time := now, pqlen := level\<rparr>;
     q \<leftarrow> egress_queue st;
     let p = (if is_data_pkt p \<and> level > word_of_int (pthr c) \<and> qbytes q > p_egress_queue_thresh_byte c
              then p\<lparr>pkt_ce := 1\<rparr> else p);
     let st = st\<lparr>pqlen := min (pqlen st) (pqlen_limit c)\<rparr>;
     st \<leftarrow> log_pqlen now st;
     Some (p, set_port label st c) })"

definition hash_lookup :: "packet \<Rightarrow> dest_hash \<Rightarrow> int" where
  \<comment> \<open>\<open>lookup\<close> shifts the address, and \<open>hashkey\<close> does so again\<close>
  "hash_lookup p c = (case hash_table c (mshift c (mshift c (pkt_dst p))) of None \<Rightarrow> - 1 | Some s \<Rightarrow> s)"

definition dest_slot :: "packet \<Rightarrow> dest_hash \<Rightarrow> int" where
  "dest_slot p c = (let slot = hash_lookup p c in
     if slot \<ge> 0 \<and> slot \<le> maxslot c then slot
     else if hash_default c \<ge> 0 then hash_default c
     else - 1)"

definition dest_classify :: "(nat \<Rightarrow> int) \<Rightarrow> (obj \<Rightarrow> nsobject) \<Rightarrow> real \<Rightarrow> packet \<Rightarrow> dest_hash \<Rightarrow> (int \<times> packet \<times> dest_hash) option" where
  "dest_classify qbytes objs now p c = (let ret_slot = dest_slot p c in
     if enable_ppass c \<and> pkt_ptype p = PT_UDP then do {
       c \<leftarrow> ppass_ingress now (pkt_iface p) p c;
       out_iface \<leftarrow> get_iface objs ret_slot c;
       (p, c) \<leftarrow> (case out_iface of None \<Rightarrow> Some (p, c) | Some iface_out \<Rightarrow> ppass_egress qbytes now iface_out p c);
       Some (ret_slot, p, c) }
     else Some (ret_slot, p, c))"

section \<open>Configuration and sampling\<close>

definition dest_do_install :: "int \<Rightarrow> obj option \<Rightarrow> dest_hash \<Rightarrow> dest_hash option" where
  "dest_do_install d target c = do {
     (slot, c) \<leftarrow> classifier_getnxt target c;
     c \<leftarrow> classifier_install slot target c;
     Some (c\<lparr>hash_table := (hash_table c)(mshift c d \<mapsto> slot)\<rparr>) }"

definition set_egress_queue :: "int \<Rightarrow> nat option \<Rightarrow> dest_hash \<Rightarrow> bool \<times> dest_hash" where
  \<comment> \<open>these commands answer whether they succeed; a failed one has changed the entry too\<close>
  "set_egress_queue l q c = (q \<noteq> None, set_port l ((port_of l c)\<lparr>egress_queue := q\<rparr>) c)"

definition set_peer_id :: "int \<Rightarrow> int \<Rightarrow> dest_hash \<Rightarrow> bool \<times> dest_hash" where
  "set_peer_id l peer c = (True, set_port l ((port_of l c)\<lparr>peer_id := peer\<rparr>) c)"

definition set_pqlen_integrator :: "int \<Rightarrow> integrator option \<Rightarrow> dest_hash \<Rightarrow> bool \<times> dest_hash" where
  "set_pqlen_integrator l i c = (i \<noteq> None, set_port l ((port_of l c)\<lparr>pqlenInt := i\<rparr>) c)"

definition do_enable_ppass :: "dest_hash \<Rightarrow> dest_hash" where
  "do_enable_ppass c = c\<lparr>enable_ppass := True\<rparr>"

definition port_labels :: "dest_hash \<Rightarrow> int list" where
  \<comment> \<open>the keys of the map in the order of an iteration\<close>
  "port_labels c = sorted_list_of_set (dom (port_status_map c))"

definition sample_port :: "real \<Rightarrow> real \<Rightarrow> port_status \<Rightarrow> (real \<times> port_status) option" where
  "sample_port now interval st = (case pqlenInt st of
     None \<Rightarrow> None
   | Some i \<Rightarrow> (let i = newPoint now (lasty i) i in
       Some (ddiv (int_sum i) interval, st\<lparr>pqlenInt := Some (i\<lparr>int_sum := 0\<rparr>)\<rparr>)))"

fun sample_ports :: "real \<Rightarrow> int list \<Rightarrow> dest_hash \<Rightarrow> (real list \<times> dest_hash) option" where
  "sample_ports now [] c = Some ([], c)"
| "sample_ports now (l # ls) c = do {
     (x, st) \<leftarrow> sample_port now (sample_interval c) (port_of l c);
     (xs, c) \<leftarrow> sample_ports now ls (set_port l st c);
     Some (x # xs, c) }"

datatype sample_row = Header "int list" | Row real "real list"

definition sample_qlen :: "real \<Rightarrow> dest_hash \<Rightarrow> (sample_row list \<times> dest_hash) option" where
  \<comment> \<open>the lines written to the sample file\<close>
  "sample_qlen now c = (if \<not> sample_open c then Some ([], c)
   else do {
     let header = (if sample_header_written c then [] else [Header (map (\<lambda>l. peer_id (port_of l c)) (port_labels c))]);
     (xs, c) \<leftarrow> sample_ports now (port_labels c) (c\<lparr>sample_header_written := True\<rparr>);
     Some (header @ [Row (dsub now 10) xs], c\<lparr>sample_timer := Some (dadd now (sample_interval c))\<rparr>) })"

section \<open>Lemmas\<close>

lemma port_of_set [simp]: "port_of l (set_port l' st c) = (if l = l' then st else port_of l c)"
  by (simp add: port_of_def set_port_def)

lemma set_port_rest [simp]: "pthr (set_port l st c) = pthr c" "maxslot (set_port l st c) = maxslot c"
  "slots (set_port l st c) = slots c" "drain_rho (set_port l st c) = drain_rho c"
  "line_rate_gbps (set_port l st c) = line_rate_gbps c" "hash_table (set_port l st c) = hash_table c"
  "p_egress_queue_thresh_byte (set_port l st c) = p_egress_queue_thresh_byte c"
  "enable_ppass (set_port l st c) = enable_ppass c" "pqlen_limit (set_port l st c) = pqlen_limit c"
  by (simp_all add: set_port_def pqlen_limit_def)

lemma log_pqlen_Some: "log_pqlen now st = Some st' \<Longrightarrow> pqlen st' = pqlen st \<and> egress_queue st' = egress_queue st
    \<and> port_last_time st' = port_last_time st \<and> pqlenInt st' \<noteq> None \<and> peer_id st' = peer_id st"
  by (auto simp: log_pqlen_def split: option.splits)

lemma log_pqlen_total: "pqlenInt st \<noteq> None \<Longrightarrow> log_pqlen now st \<noteq> None"
  by (auto simp: log_pqlen_def)

definition pqlens_capped :: "dest_hash \<Rightarrow> bool" where
  "pqlens_capped c \<longleftrightarrow> (\<forall>l. pqlen (port_of l c) \<le> pqlen_limit c)"

lemma ingress_Some:
  assumes "ppass_ingress now l p c = Some c'"
  shows "\<exists>st'. c' = set_port l st' c \<and> egress_queue st' = egress_queue (port_of l c)
    \<and> port_last_time st' = port_last_time (port_of l c) \<and> pqlenInt st' \<noteq> None
    \<and> pqlen st' = min (if pkt_msg_type p = GRANT then pqlen (port_of l c) + word_of_int (pkt_credit p) else pqlen (port_of l c)) (pqlen_limit c)"
  using assms by (auto simp: ppass_ingress_def Let_def bind_eq_Some_conv dest!: log_pqlen_Some split: if_splits)

lemma drain_same [simp]: "egress_drain now c (st\<lparr>pqlen := v\<rparr>) = egress_drain now c st"
  by (simp add: egress_drain_def egress_interval_def)

lemma egress_Some:
  assumes "ppass_egress qbytes now l p c = Some (p', c')"
  shows "\<exists>st' delta q. c' = set_port l st' c \<and> egress_drain now c (port_of l c) = Some delta
    \<and> egress_queue (port_of l c) = Some q \<and> egress_queue st' = Some q \<and> port_last_time st' = now
    \<and> (let raised = (if pulls_data p then pqlen (port_of l c) + word_of_int (pkt_size p) else pqlen (port_of l c));
          level = (if delta > raised then 0 else raised - delta)
      in pqlen st' = min level (pqlen_limit c)
       \<and> p' = (if is_data_pkt p \<and> level > word_of_int (pthr c) \<and> qbytes q > p_egress_queue_thresh_byte c then p\<lparr>pkt_ce := 1\<rparr> else p))"
proof -
  let ?st = "egress_raise p (port_of l c)"
  have st: "egress_drain now c ?st = egress_drain now c (port_of l c)" "egress_queue ?st = egress_queue (port_of l c)"
    "pqlen ?st = (if pulls_data p then pqlen (port_of l c) + word_of_int (pkt_size p) else pqlen (port_of l c))"
    by (auto simp: egress_raise_def)
  from assms obtain delta q st' where
    dr: "egress_drain now c ?st = Some delta" and q: "egress_queue ?st = Some q" and c': "c' = set_port l st' c" and
    lg: "log_pqlen now (?st\<lparr>port_last_time := now, pqlen := min (if delta > pqlen ?st then 0 else pqlen ?st - delta) (pqlen_limit c)\<rparr>)
      = Some st'" and
    p': "p' = (if is_data_pkt p \<and> (if delta > pqlen ?st then 0 else pqlen ?st - delta) > word_of_int (pthr c)
        \<and> qbytes q > p_egress_queue_thresh_byte c then p\<lparr>pkt_ce := 1\<rparr> else p)"
    unfolding ppass_egress_def Let_def by (force simp: bind_eq_Some_conv)
  have "pqlen st' = min (if delta > pqlen ?st then 0 else pqlen ?st - delta) (pqlen_limit c)"
    "egress_queue st' = Some q" "port_last_time st' = now"
    using log_pqlen_Some [OF lg] q by simp_all
  then show ?thesis using dr q c' p' unfolding st Let_def by blast
qed

lemma ingress_capped: "ppass_ingress now l p c = Some c' \<Longrightarrow> pqlens_capped c \<Longrightarrow> pqlens_capped c'"
  by (drule ingress_Some) (auto simp: pqlens_capped_def)

lemma egress_capped: "ppass_egress qbytes now l p c = Some (p', c') \<Longrightarrow> pqlens_capped c \<Longrightarrow> pqlens_capped c'"
  by (drule egress_Some) (auto simp: pqlens_capped_def Let_def)

section \<open>The level as a number\<close>

lemma uint_word_of_nonneg: "0 \<le> (i :: int) \<Longrightarrow> i < 2 ^ 64 \<Longrightarrow> unat (word_of_int i :: u64) = nat i"
  by (simp add: unsigned_of_int take_bit_int_eq_self)

lemma pqlen_limit_unat:
  assumes "0 \<le> pthr c" "pthr c < 2 ^ 31"
  shows "unat (pqlen_limit c) = 10 * nat (pthr c)"
proof -
  have t: "unat (word_of_int (pthr c) :: u64) = nat (pthr c)"
    using assms by (intro uint_word_of_nonneg) simp_all
  have "nat (pthr c) < 2 ^ 31" using assms by simp
  then have "unat (word_of_int (pthr c) :: u64) * unat (10 :: u64) < 2 ^ 64" unfolding t by simp
  from unat_mult_no_wrap [of "word_of_int (pthr c) :: u64" 10] this t show ?thesis
    by (simp add: pqlen_limit_def)
qed

definition level_after :: "nat \<Rightarrow> packet \<Rightarrow> nat \<Rightarrow> nat" where
  \<comment> \<open>the level a port is meant to have when a packet has left by it, before the ceiling\<close>
  "level_after level p drained = level + (if pulls_data p then nat (pkt_size p) else 0) - drained"

text \<open>
  Property C4. Refinement of the level of a port by its 64-bit counter: while the levels are below
  their ceiling, a packet that leaves changes the counter as a number that it raises by its size if
  it pulls data, that time lowers to zero at most, and that stops at ten thresholds; the packet is
  marked exactly if it carries data, that number is above the threshold and the real queue is long.
\<close>
theorem switch_egress_refines_level:
  assumes "ppass_egress qbytes now l p c = Some (p', c')" "pqlens_capped c"
    and "0 \<le> pthr c" "pthr c < 2 ^ 31" "0 \<le> pkt_size p" "pkt_size p < 2 ^ 31"
  shows "\<exists>drained q. egress_drain now c (port_of l c) = Some drained \<and> egress_queue (port_of l c) = Some q
    \<and> (let level = level_after (unat (pqlen (port_of l c))) p (unat drained) in
        unat (pqlen (port_of l c')) = min level (10 * nat (pthr c))
      \<and> p' = (if is_data_pkt p \<and> level > nat (pthr c) \<and> qbytes q > p_egress_queue_thresh_byte c
               then p\<lparr>pkt_ce := 1\<rparr> else p))"
proof -
  let ?old = "pqlen (port_of l c)"
  let ?raised = "if pulls_data p then ?old + word_of_int (pkt_size p) else ?old"
  from egress_Some [OF assms(1)] obtain st' delta q where
    c': "c' = set_port l st' c" and dr: "egress_drain now c (port_of l c) = Some delta"
    and q: "egress_queue (port_of l c) = Some q"
    and st0: "pqlen st' = min (if delta > ?raised then 0 else ?raised - delta) (pqlen_limit c)"
    and p0: "p' = (if is_data_pkt p \<and> (if delta > ?raised then 0 else ?raised - delta) > word_of_int (pthr c)
        \<and> qbytes q > p_egress_queue_thresh_byte c then p\<lparr>pkt_ce := 1\<rparr> else p)"
    unfolding Let_def by blast
  define new where "new = (if delta > ?raised then 0 else ?raised - delta)"
  have st': "pqlen st' = min new (pqlen_limit c)"
    and p': "p' = (if is_data_pkt p \<and> new > word_of_int (pthr c) \<and> qbytes q > p_egress_queue_thresh_byte c
        then p\<lparr>pkt_ce := 1\<rparr> else p)"
    using st0 p0 unfolding new_def by simp_all
  have limit: "unat (pqlen_limit c) = 10 * nat (pthr c)" using assms(3,4) by (rule pqlen_limit_unat)
  have "?old \<le> pqlen_limit c" using assms(2) by (simp add: pqlens_capped_def)
  then have old: "unat ?old \<le> 10 * nat (pthr c)" using limit by (simp add: word_le_nat_alt)
  have sz: "unat (word_of_int (pkt_size p) :: u64) = nat (pkt_size p)"
    using assms(5,6) by (intro uint_word_of_nonneg) simp_all
  have th: "unat (word_of_int (pthr c) :: u64) = nat (pthr c)"
    using assms(3,4) by (intro uint_word_of_nonneg) simp_all
  have "nat (pkt_size p) < 2 ^ 31" "nat (pthr c) < 2 ^ 31" using assms(4,6) by simp_all
  then have "unat ?old + unat (word_of_int (pkt_size p) :: u64) < 2 ^ 64" using old sz by simp
  then have raised: "unat ?raised = unat ?old + (if pulls_data p then nat (pkt_size p) else 0)"
    using sz by (simp add: unat_add_no_wrap)
  have level: "unat new = level_after (unat ?old) p (unat delta)"
  proof (cases "delta > ?raised")
    case True
    then show ?thesis using raised unfolding new_def by (simp add: level_after_def word_less_nat_alt)
  next
    case False
    then have "delta \<le> ?raised" by simp
    then have "unat (?raised - delta) = unat ?raised - unat delta" by (simp add: unat_sub word_le_nat_alt)
    then show ?thesis using False raised unfolding new_def by (simp add: level_after_def)
  qed
  have "unat (pqlen (port_of l c')) = min (level_after (unat ?old) p (unat delta)) (10 * nat (pthr c))"
    unfolding c' port_of_set using st' level limit by (simp add: unat_min)
  moreover have "new > word_of_int (pthr c) \<longleftrightarrow> level_after (unat ?old) p (unat delta) > nat (pthr c)"
    unfolding word_less_nat_alt level th ..
  ultimately show ?thesis using dr q p' unfolding Let_def by auto
qed

section \<open>Runs of the switch\<close>

fun switch_run :: "(nat \<Rightarrow> int) \<Rightarrow> (obj \<Rightarrow> nsobject) \<Rightarrow> (real \<times> packet) list \<Rightarrow> dest_hash \<Rightarrow> (packet list \<times> dest_hash) option" where
  "switch_run qbytes objs [] c = Some ([], c)"
| "switch_run qbytes objs ((t, p) # es) c = do {
     (slot, p, c) \<leftarrow> dest_classify qbytes objs t p c;
     (ps, c) \<leftarrow> switch_run qbytes objs es c;
     Some (p # ps, c) }"

lemma classify_cases:
  assumes "dest_classify qbytes objs now p c = Some (slot, p', c')"
  obtains "c' = c" "p' = p"
  | c1 where "ppass_ingress now (pkt_iface p) p c = Some c1" "get_iface objs slot c1 = Some None" "c' = c1" "p' = p"
  | c1 l where "ppass_ingress now (pkt_iface p) p c = Some c1" "get_iface objs slot c1 = Some (Some l)"
      "ppass_egress qbytes now l p c1 = Some (p', c')"
proof (cases "enable_ppass c \<and> pkt_ptype p = PT_UDP")
  case False
  then have "c' = c" "p' = p" using assms unfolding dest_classify_def Let_def if_not_P [OF False] by simp_all
  then show thesis by (rule that(1))
next
  case True
  with assms obtain c1 r where i: "ppass_ingress now (pkt_iface p) p c = Some c1"
    "get_iface objs slot c1 = Some r"
    "(case r of None \<Rightarrow> Some (p, c1) | Some l \<Rightarrow> ppass_egress qbytes now l p c1) = Some (p', c')"
    by (auto simp: dest_classify_def Let_def bind_eq_Some_conv)
  show thesis
  proof (cases r)
    case None
    then show thesis using i by (intro that(2) [of c1]) simp_all
  next
    case (Some l)
    then show thesis using i by (intro that(3) [of c1 l]) simp_all
  qed
qed

lemma classify_capped:
  assumes "dest_classify qbytes objs now p c = Some (slot, p', c')" "pqlens_capped c"
  shows "pqlens_capped c'"
  using assms(1) by (cases rule: classify_cases) (use assms(2) in \<open>auto dest: ingress_capped egress_capped\<close>)

lemma classify_pthr:
  assumes "dest_classify qbytes objs now p c = Some (slot, p', c')"
  shows "pqlen_limit c' = pqlen_limit c"
  using assms by (cases rule: classify_cases) (auto dest!: ingress_Some egress_Some simp: Let_def)

text \<open>
  Property C5. Whatever packets pass the switch, in whatever order, no phantom queue ever exceeds
  ten thresholds, so the credit of a burst cannot keep a port marking for longer than that much
  takes to drain.
\<close>
theorem switch_levels_capped:
  assumes "switch_run qbytes objs es c = Some (ps, c')" "pqlens_capped c"
  shows "\<forall>l. pqlen (port_of l c') \<le> pqlen_limit c"
proof -
  have "pqlens_capped c' \<and> pqlen_limit c' = pqlen_limit c"
    using assms
  proof (induction es arbitrary: c ps)
    case (Cons e es)
    obtain t p where e: "e = (t, p)" by fastforce
    from Cons.prems(1) obtain slot p1 c1 ps1 where 1: "dest_classify qbytes objs t p c = Some (slot, p1, c1)"
      and 2: "switch_run qbytes objs es c1 = Some (ps1, c')" by (auto simp: e bind_eq_Some_conv)
    show ?case using Cons.IH [OF 2] classify_capped [OF 1] classify_pthr [OF 1] Cons.prems(2) by simp
  qed simp
  then show ?thesis by (auto simp: pqlens_capped_def)
qed

text \<open>
  Property C27. A packet that passes the switch touches the phantom queues of the interface it came
  in by and of the interface behind its slot, and no other; and only its mark may change.
\<close>
theorem switch_isolates_ports:
  assumes "dest_classify qbytes objs now p c = Some (slot, p', c')"
  shows "slot = dest_slot p c \<and> (p' = p \<or> p' = p\<lparr>pkt_ce := 1\<rparr>)
    \<and> (\<forall>l. l \<noteq> pkt_iface p \<and> get_iface objs slot c \<noteq> Some (Some l) \<longrightarrow> port_of l c' = port_of l c)"
proof -
  have slot: "slot = dest_slot p c"
    using assms by (auto simp: dest_classify_def Let_def bind_eq_Some_conv split: if_splits option.splits)
  from assms show ?thesis
  proof (cases rule: classify_cases)
    case 1
    then show ?thesis using slot by simp
  next
    case (2 c1)
    then show ?thesis using slot by (auto dest!: ingress_Some)
  next
    case (3 c1 l)
    from ingress_Some [OF 3(1)] obtain st1 where c1: "c1 = set_port (pkt_iface p) st1 c" by blast
    from egress_Some [OF 3(3)] obtain st2 where c': "c' = set_port l st2 c1" "p' = p \<or> p' = p\<lparr>pkt_ce := 1\<rparr>"
      by (auto simp: Let_def)
    have "get_iface objs slot c1 = get_iface objs slot c" by (simp add: c1 get_iface_def slot_at_def nslot_def)
    then show ?thesis using slot c' 3(2) by (auto simp: c1)
  qed
qed

definition port_ready :: "dest_hash \<Rightarrow> int \<Rightarrow> bool" where
  \<comment> \<open>the port has been given its egress queue and its integrator\<close>
  "port_ready c l \<longleftrightarrow> egress_queue (port_of l c) \<noteq> None \<and> pqlenInt (port_of l c) \<noteq> None"

lemma ingress_total: "ppass_ingress now l p c = None \<longleftrightarrow> pqlenInt (port_of l c) = None"
  by (auto simp: ppass_ingress_def Let_def log_pqlen_def split: option.splits if_splits)

lemma egress_total:
  "ppass_egress qbytes now l p c = None \<longleftrightarrow> \<not> port_ready c l \<or> egress_drain now c (port_of l c) = None"
proof -
  have "egress_drain now c (egress_raise p (port_of l c)) = egress_drain now c (port_of l c)"
    "egress_queue (egress_raise p (port_of l c)) = egress_queue (port_of l c)"
    "pqlenInt (egress_raise p (port_of l c)) = pqlenInt (port_of l c)"
    by (simp_all add: egress_raise_def)
  then show ?thesis
    by (cases "egress_drain now c (port_of l c)"; cases "egress_queue (port_of l c)")
      (auto simp: ppass_egress_def Let_def log_pqlen_def port_ready_def split: option.splits)
qed



lemma switch_drains_bytes:
  assumes "drain_rho c = 1" "line_rate_gbps c = 1" "port_last_time st = 1"
  shows "egress_drain 2 c st = Some 125000000"
  using assms by (simp add: egress_drain_def egress_interval_def double_ops double_to_u64_def)

section \<open>Examples\<close>

definition ex_objs :: "obj \<Rightarrow> nsobject" where
  \<comment> \<open>slot, queue and interface 5 of an outgoing link\<close>
  "ex_objs a = (if a = 0 then Connector (Some 1) else if a = 1 then Connector (Some 2)
     else if a = 2 then NetworkInterface 5 None else Other_object)"

definition ex_port :: port_status where
  "ex_port = new_port_status\<lparr>port_last_time := 1, egress_queue := Some 0,
     pqlenInt := Some \<lparr>lastx = 1, lasty = 0, int_sum = 0\<rparr>\<rparr>"

definition ex_switch :: dest_hash where
  \<comment> \<open>destination 2 is behind interface 5; packets come in by interface 7\<close>
  "ex_switch = \<lparr>slots = [Some 0], maxslot = 0, shift = 0, mask = 255, nsize = 0, hash_default = - 1,
     hash_table = [2 \<mapsto> 0], enable_ppass = True, pthr = 1000, line_rate_gbps = 1, drain_rho = 1,
     p_egress_queue_thresh_byte = 0, port_status_map = [5 \<mapsto> ex_port, 7 \<mapsto> ex_port],
     sample_interval = 1, sample_open = False, sample_header_written = False, sample_timer = None\<rparr>"

definition ex_request :: packet where
  "ex_request = ex_packet\<lparr>pkt_size := 1518, pkt_iface := 7, pkt_unsol_credit := 1\<rparr>"

lemmas ex_switch_defs = ex_switch_def ex_port_def new_port_status_def ex_request_def ex_packet_def ex_objs_def

lemma ex_drain [simp]: "drain_rho c = 1 \<Longrightarrow> line_rate_gbps c = 1 \<Longrightarrow> port_last_time st = 1 \<Longrightarrow> egress_drain 1 c st = Some 0"
  by (simp add: egress_drain_def egress_interval_def double_ops double_to_u64_def)

lemma ex_capped: "pqlens_capped ex_switch" "classifier_ok ex_switch"
  by (auto simp: pqlens_capped_def pqlen_limit_def port_of_def classifier_ok_def nslot_def ex_switch_defs)

lemma ex_egress: "\<exists>c'. ppass_egress (\<lambda>q. 1) 1 5 ex_request ex_switch = Some (ex_request\<lparr>pkt_ce := 1\<rparr>, c')"
  by (simp add: ppass_egress_def egress_raise_def pulls_data_def is_data_pkt_def port_of_def log_pqlen_def Let_def ex_switch_defs)

theorem switch_egress_refines_level_witness:
  "\<exists>c'. ppass_egress (\<lambda>q. 1) 1 5 ex_request ex_switch = Some (ex_request\<lparr>pkt_ce := 1\<rparr>, c')
    \<and> unat (pqlen (port_of 5 c')) = 1518"
proof -
  obtain c' where eg: "ppass_egress (\<lambda>q. 1) 1 5 ex_request ex_switch = Some (ex_request\<lparr>pkt_ce := 1\<rparr>, c')"
    using ex_egress by blast
  have dr: "egress_drain 1 ex_switch (port_of 5 ex_switch) = Some 0"
    by (intro ex_drain) (simp_all add: port_of_def ex_switch_defs)
  have b: "0 \<le> pthr ex_switch" "pthr ex_switch < 2 ^ 31" "0 \<le> pkt_size ex_request" "pkt_size ex_request < 2 ^ 31"
    by (simp_all add: ex_switch_defs)
  from switch_egress_refines_level [OF eg ex_capped(1) b] obtain drained where
    d: "egress_drain 1 ex_switch (port_of 5 ex_switch) = Some drained" and
    l: "unat (pqlen (port_of 5 c')) = min (level_after (unat (pqlen (port_of 5 ex_switch))) ex_request (unat drained)) (10 * nat (pthr ex_switch))"
    unfolding Let_def by blast
  have "drained = 0" using d dr by simp
  then have "unat (pqlen (port_of 5 c')) = 1518"
    unfolding l by (simp add: level_after_def pulls_data_def port_of_def ex_switch_defs)
  then show ?thesis using eg by blast
qed

lemma ex_classify: "\<exists>c'. dest_classify (\<lambda>q. 1) ex_objs 1 ex_request ex_switch = Some (0, ex_request\<lparr>pkt_ce := 1\<rparr>, c')"
  by (simp add: dest_classify_def dest_slot_def hash_lookup_def mshift_def ppass_ingress_def get_iface_def slot_at_def
      nslot_def follow_def set_port_def pqlen_limit_def ppass_egress_def egress_raise_def pulls_data_def is_data_pkt_def
      port_of_def log_pqlen_def Let_def ex_switch_defs)

theorem switch_levels_capped_witness:
  "\<exists>ps c'. switch_run (\<lambda>q. 1) ex_objs [(1, ex_request)] ex_switch = Some (ps, c') \<and> (\<forall>l. pqlen (port_of l c') \<le> 10000)"
proof -
  obtain ps c' where run: "switch_run (\<lambda>q. 1) ex_objs [(1, ex_request)] ex_switch = Some (ps, c')"
    using ex_classify by auto
  have "pqlen_limit ex_switch = 10000" by (simp add: pqlen_limit_def ex_switch_defs)
  then show ?thesis using switch_levels_capped [OF run ex_capped(1)] run by auto
qed

theorem switch_isolates_ports_witness:
  "\<exists>c'. dest_classify (\<lambda>q. 1) ex_objs 1 ex_request ex_switch = Some (0, ex_request\<lparr>pkt_ce := 1\<rparr>, c')
    \<and> port_of 6 c' = new_port_status"
proof -
  obtain c' where run: "dest_classify (\<lambda>q. 1) ex_objs 1 ex_request ex_switch = Some (0, ex_request\<lparr>pkt_ce := 1\<rparr>, c')"
    using ex_classify by blast
  have "port_of 6 ex_switch = new_port_status" "pkt_iface ex_request = 7" "get_iface ex_objs 0 ex_switch = Some (Some 5)"
    by (simp_all add: port_of_def get_iface_def slot_at_def nslot_def follow_def ex_switch_defs)
  then show ?thesis using switch_isolates_ports [OF run] run by simp
qed



end
