(* ===== verification/Multi_Path.thy ===== *)
theory Multi_Path
  imports PPass_Switch
begin

text \<open>
  The multipath forwarder \<open>MultiPathForwarder\<close> of \<open>classifier/classifier-mpath.cc\<close>, which spreads the
  packets for a destination over the links that lead there: by a hash that is the same in both
  directions (ExpressPass), by a hash of the flow, or in turn; and, with a PhantomPass switch
  attached, by a hash that sends credit and the data it pulls over the same link.

  Parameters: \<open>first_rand\<close> is the first \<open>rand()\<close> after \<open>srand\<close> of a seed, and \<open>sort_slots\<close> is
  \<open>qsort\<close> on the pointers of the table.
\<close>

section \<open>The class\<close>

record multi_path = classifier +
  mp_ns :: int
  nodeid :: int
  nodetype :: int
  symmetric :: bool
  sorted_maxslot :: int
  perflow :: bool
  checkpathid :: bool

partial_function (option) scan_slots :: "int \<Rightarrow> int \<Rightarrow> multi_path \<Rightarrow> int \<Rightarrow> (int \<times> int) option" where
  \<comment> \<open>\<open>do cl = ns++, ns %= m while (slot_[cl] == 0 && ns != fail)\<close>\<close>
  "scan_slots m fail f ns = (if m = 0 then None
   else (let cl = ns; ns = (ns + 1) mod m in do {
     a \<leftarrow> slot_at f cl;
     if a = None \<and> ns \<noteq> fail then scan_slots m fail f ns else Some (cl, ns) }))"

definition le_bytes :: "32 word \<Rightarrow> 8 word list" where
  \<comment> \<open>an \<open>int\<close> as it lies in memory\<close>
  "le_bytes w = [ucast w, ucast (drop_bit 8 w), ucast (drop_bit 16 w), ucast (drop_bit 24 w)]"

definition int_bytes :: "int list \<Rightarrow> 8 word list" where
  "int_bytes is = concat (map (\<lambda>i. le_bytes (word_of_int i)) is)"

definition hash_bytes :: "8 word list \<Rightarrow> 32 word" where
  \<comment> \<open>\<open>HashString\<close> on bytes, which are signed\<close>
  "hash_bytes = foldl (\<lambda>r b. r + (push_bit 3 r + scast b)) 0"

definition hash_ints :: "(32 word \<Rightarrow> 32 word) \<Rightarrow> int list \<Rightarrow> 32 word" where
  \<comment> \<open>\<open>HashString\<close> on integers, the version of ExpressPass\<close>
  "hash_ints first_rand is = first_rand (foldl (\<lambda>r i. r XOR first_rand (word_of_int i)) 0 is)"

definition mod_slots :: "32 word \<Rightarrow> int \<Rightarrow> int" where
  \<comment> \<open>\<open>ms_ %= (maxslot_ + 1)\<close>, in unsigned arithmetic; a zero divisor is tested by the caller\<close>
  "mod_slots h m = uint (h mod word_of_int m)"

definition sort_table :: "(obj option list \<Rightarrow> obj option list) \<Rightarrow> multi_path \<Rightarrow> multi_path" where
  "sort_table sort_slots f = (if sorted_maxslot f = - 1 \<or> maxslot f > sorted_maxslot f then
      (let n = nat (maxslot f + 1) in
       f\<lparr>slots := sort_slots (take n (slots f)) @ drop n (slots f), sorted_maxslot := maxslot f\<rparr>)
    else f)"

definition base_classify :: "(32 word \<Rightarrow> 32 word) \<Rightarrow> (obj option list \<Rightarrow> obj option list) \<Rightarrow> packet \<Rightarrow> multi_path
    \<Rightarrow> (int \<times> multi_path) option" where
  "base_classify first_rand sort_slots p f = (let m = maxslot f + 1; src = mshift f (pkt_src p); dst = mshift f (pkt_dst p) in
     if symmetric f then
       (let f = sort_table sort_slots f;
            h = hash_ints first_rand [pkt_fid p, nodetype f, if src < dst then src else dst, if src > dst then src else dst]
        in if m = 0 then None
           else do { (cl, _) \<leftarrow> scan_slots m (mod_slots h m) f (mod_slots h m); Some (cl, f) })
     else if perflow f \<or> checkpathid f then
       (let h = hash_bytes (int_bytes [nodeid f, src, dst, pkt_fid p]);
            h = (if checkpathid f then h + word_of_int (pkt_prio p) else h)
        in if m = 0 then None
           else do { (cl, _) \<leftarrow> scan_slots m (mod_slots h m) f (mod_slots h m); Some (cl, f) })
     else do {
       (cl, ns) \<leftarrow> scan_slots m (mp_ns f) f (mp_ns f);
       Some (cl, f\<lparr>mp_ns := ns\<rparr>) })"

definition crc_bit :: "32 word \<Rightarrow> 32 word" where
  "crc_bit c = drop_bit 1 c XOR (0xEDB88320 AND (- (c AND 1)))"

definition crc_byte :: "32 word \<Rightarrow> 8 word \<Rightarrow> 32 word" where
  "crc_byte c b = (crc_bit ^^ 8) (c XOR ucast b)"

definition crc32 :: "32 word \<Rightarrow> 8 word list \<Rightarrow> 32 word" where
  "crc32 crc data = NOT (foldl crc_byte (NOT crc) data)"

definition pair_slot :: "int \<Rightarrow> packet \<Rightarrow> int" where
  \<comment> \<open>the slot of a credit or request packet out of \<open>m\<close>\<close>
  "pair_slot m p = (let (src, dst) = (if pkt_msg_type p = REQUEST then (pkt_dst p, pkt_src p) else (pkt_src p, pkt_dst p))
     in mod_slots (crc32 0 (int_bytes [src, dst, pkt_seq p])) m)"

definition multi_classify :: "(32 word \<Rightarrow> 32 word) \<Rightarrow> (obj option list \<Rightarrow> obj option list) \<Rightarrow> (nat \<Rightarrow> int)
    \<Rightarrow> (obj \<Rightarrow> nsobject) \<Rightarrow> real \<Rightarrow> packet \<Rightarrow> multi_path \<Rightarrow> dest_hash option
    \<Rightarrow> (int \<times> packet \<times> multi_path \<times> dest_hash option) option" where
  "multi_classify first_rand sort_slots qbytes objs now p f dh = do {
     (cl, f) \<leftarrow> base_classify first_rand sort_slots p f;
     case dh of
       Some c \<Rightarrow>
         if pkt_ptype p = PT_UDP then
           (let paired = (pkt_msg_type p = GRANT \<or> pkt_msg_type p = REQUEST);
                cl = (if paired then pair_slot (maxslot f + 1) p else cl)
            in do {
              iface \<leftarrow> get_iface objs cl f;
              case iface of
                Some l \<Rightarrow> do { (p, c) \<leftarrow> ppass_egress qbytes now l p c; Some (cl, p, f, Some c) }
              | None \<Rightarrow> Some (cl, p, f, dh) })
         else Some (cl, p, f, dh)
     | None \<Rightarrow> Some (cl, p, f, dh) }"

section \<open>The search for an installed slot\<close>

definition installed :: "multi_path \<Rightarrow> int \<Rightarrow> bool" where
  "installed f i \<longleftrightarrow> 0 \<le> i \<and> i \<le> maxslot f \<and> slot_get f i \<noteq> None"

lemma slot_at_inside: "classifier_ok f \<Longrightarrow> 0 \<le> i \<Longrightarrow> i \<le> maxslot f \<Longrightarrow> slot_at f i = Some (slot_get f i)"
  by (simp add: slot_at_def slot_get_def classifier_ok_def)

lemma mod_inside: "0 < m \<Longrightarrow> m = maxslot f + 1 \<Longrightarrow> 0 \<le> x mod m \<and> x mod m \<le> maxslot f"
  using pos_mod_bound [of m x] pos_mod_sign [of m x] by linarith

lemma scan_slots_finds:
  assumes "classifier_ok f" "m = maxslot f + 1" "0 < m"
    and "j \<le> d" "int d < m" "slot_get f ((fail + int d) mod m) \<noteq> None"
    and "\<forall>k. j \<le> k \<and> k < d \<longrightarrow> slot_get f ((fail + int k) mod m) = None" "0 \<le> fail" "fail < m"
  shows "scan_slots m fail f ((fail + int j) mod m) = Some ((fail + int d) mod m, (fail + int d + 1) mod m)"
  using assms(4-7)
proof (induction "d - j" arbitrary: j)
  case 0
  let ?i = "(fail + int j) mod m"
  have at: "slot_at f ?i = Some (slot_get f ?i)" using mod_inside [OF assms(3,2)] by (intro slot_at_inside assms(1)) simp_all
  have "j = d" using 0 by simp
  then show ?case using 0 at assms(3) by (subst scan_slots.simps) (auto simp: Let_def mod_simps)
next
  case (Suc n)
  let ?i = "(fail + int j) mod m"
  have at: "slot_at f ?i = Some (slot_get f ?i)" using mod_inside [OF assms(3,2)] by (intro slot_at_inside assms(1)) simp_all
  have j: "j < d" using Suc.hyps(2) by simp
  have i1: "(?i + 1) mod m = (fail + int (Suc j)) mod m" by (simp add: mod_simps ac_simps)
  have "(fail + int (Suc j)) mod m \<noteq> fail"
  proof
    assume "(fail + int (Suc j)) mod m = fail"
    then have "(fail + int (Suc j)) mod m = fail mod m" using assms(8,9) by simp
    then have "m dvd int (Suc j)" by (metis add_diff_cancel_left' mod_eq_dvd_iff)
    then show False using zdvd_imp_le [of m "int (Suc j)"] j Suc.prems(2) by simp
  qed
  then have "scan_slots m fail f ?i = scan_slots m fail f ((fail + int (Suc j)) mod m)"
    using at Suc.prems(4) j assms(3) i1 by (subst scan_slots.simps) (simp add: Let_def)
  also have "\<dots> = Some ((fail + int d) mod m, (fail + int d + 1) mod m)"
    using Suc.hyps(2) j Suc.prems by (intro Suc.hyps(1)) auto
  finally show ?case .
qed

lemma scan_slots_first:
  assumes "classifier_ok f" "m = maxslot f + 1" "0 \<le> ns" "ns < m" "installed f i"
  obtains d where "int d \<le> (i - ns) mod m" "installed f ((ns + int d) mod m)"
    "scan_slots m ns f ns = Some ((ns + int d) mod m, (ns + int d + 1) mod m)"
proof -
  have m: "0 < m" using assms(3,4) by simp
  let ?P = "\<lambda>d. slot_get f ((ns + int d) mod m) \<noteq> None"
  let ?di = "nat ((i - ns) mod m)"
  have di: "int ?di = (i - ns) mod m" using m by simp
  then have "(ns + int ?di) mod m = i" using assms(2,5) by (simp add: mod_simps installed_def)
  then have Pi: "?P ?di" using assms(5) by (simp add: installed_def)
  define d where "d = (LEAST d. ?P d)"
  have d: "?P d" "d \<le> ?di" "\<forall>k. 0 \<le> k \<and> k < d \<longrightarrow> slot_get f ((ns + int k) mod m) = None"
    unfolding d_def using LeastI [of ?P, OF Pi] Least_le [of ?P, OF Pi] not_less_Least by blast+
  have "int ?di < m" using di m by simp
  then have dm: "int d < m" using d(2) by linarith
  from scan_slots_finds [OF assms(1,2) m _ dm d(1) d(3) assms(3,4)]
  have "scan_slots m ns f ns = Some ((ns + int d) mod m, (ns + int d + 1) mod m)"
    using assms(3,4) by simp
  moreover have "installed f ((ns + int d) mod m)" using d(1) mod_inside [OF m assms(2)] by (simp add: installed_def)
  moreover have "int d \<le> (i - ns) mod m" using d(2) di by linarith
  ultimately show thesis using that by blast
qed

section \<open>Which link a packet takes\<close>

lemma eight_times: "(f ^^ 8) x = f (f (f (f (f (f (f (f x)))))))"
  by (simp add: eval_nat_numeral)

text \<open>The check value of the checksum, as published for CRC-32.\<close>
lemma crc32_check: "crc32 0 [0x31, 0x32, 0x33, 0x34, 0x35, 0x36, 0x37, 0x38, 0x39] = 0xCBF43926"
  by (simp add: crc32_def crc_byte_def eight_times crc_bit_def)

lemma base_classify_maxslot: "base_classify fr ss p f = Some (cl, f') \<Longrightarrow> maxslot f' = maxslot f"
  by (auto simp: base_classify_def sort_table_def Let_def bind_eq_Some_conv split: if_splits)

lemma multi_classify_paired:
  assumes "multi_classify fr ss qbytes objs now p f (Some c) = Some (cl, p', f', dh)"
    and "pkt_ptype p = PT_UDP" "pkt_msg_type p = GRANT \<or> pkt_msg_type p = REQUEST"
  shows "cl = pair_slot (maxslot f + 1) p"
  using assms
  by (auto simp: multi_classify_def Let_def bind_eq_Some_conv dest!: base_classify_maxslot split: option.splits)

text \<open>
  Property C3. Credit and the data it pulls take the same link: a credit packet from one host to
  another and a request packet of the other host back, with the same sequence number, get the same
  slot, in any two forwarders with as many slots, whatever else the forwarders have seen.
\<close>
theorem multipath_pairs_credit_and_data:
  assumes "multi_classify fr ss qbytes objs t1 g f1 (Some c1) = Some (slot1, g', f1', dh1)"
    and "multi_classify fr2 ss2 qbytes2 objs2 t2 r f2 (Some c2) = Some (slot2, r', f2', dh2)"
    and "pkt_msg_type g = GRANT" "pkt_msg_type r = REQUEST" "pkt_ptype g = PT_UDP" "pkt_ptype r = PT_UDP"
    and "pkt_src r = pkt_dst g" "pkt_dst r = pkt_src g" "pkt_seq r = pkt_seq g" "maxslot f2 = maxslot f1"
  shows "slot1 = slot2"
  using multi_classify_paired [OF assms(1)] multi_classify_paired [OF assms(2)] assms(3-)
  by (simp add: pair_slot_def)

text \<open>The hash of ExpressPass does not see the direction of a packet.\<close>
lemma symmetric_both_ways:
  assumes "symmetric f" "pkt_src q = pkt_dst p" "pkt_dst q = pkt_src p" "pkt_fid q = pkt_fid p"
  shows "base_classify fr ss q f = base_classify fr ss p f"
proof -
  have "mshift f (pkt_dst p) = mshift f (pkt_src p) \<or> mshift f (pkt_dst p) < mshift f (pkt_src p)
    \<or> mshift f (pkt_src p) < mshift f (pkt_dst p)" by arith
  then show ?thesis using assms by (auto simp: base_classify_def Let_def)
qed

fun turn_run :: "(32 word \<Rightarrow> 32 word) \<Rightarrow> (obj option list \<Rightarrow> obj option list) \<Rightarrow> packet list \<Rightarrow> multi_path
    \<Rightarrow> (int list \<times> multi_path) option" where
  "turn_run fr ss [] f = Some ([], f)"
| "turn_run fr ss (p # ps) f = do {
     (cl, f) \<leftarrow> base_classify fr ss p f;
     (cls, f) \<leftarrow> turn_run fr ss ps f;
     Some (cl # cls, f) }"

definition in_turn :: "multi_path \<Rightarrow> bool" where
  \<comment> \<open>the forwarder has no hash mode set and its counter is in the table\<close>
  "in_turn f \<longleftrightarrow> \<not> symmetric f \<and> \<not> perflow f \<and> \<not> checkpathid f \<and> classifier_ok f
     \<and> 0 \<le> mp_ns f \<and> mp_ns f \<le> maxslot f"

lemma in_turn_step:
  assumes "in_turn f" "installed f i"
  obtains d where "int d \<le> (i - mp_ns f) mod (maxslot f + 1)" "installed f ((mp_ns f + int d) mod (maxslot f + 1))"
    "base_classify fr ss p f = Some ((mp_ns f + int d) mod (maxslot f + 1), f\<lparr>mp_ns := (mp_ns f + int d + 1) mod (maxslot f + 1)\<rparr>)"
proof -
  have "classifier_ok f" "0 \<le> mp_ns f" "mp_ns f < maxslot f + 1" using assms(1) by (auto simp: in_turn_def)
  from scan_slots_first [OF this(1) refl this(2,3) assms(2)] obtain d where
    "int d \<le> (i - mp_ns f) mod (maxslot f + 1)" "installed f ((mp_ns f + int d) mod (maxslot f + 1))"
    "scan_slots (maxslot f + 1) (mp_ns f) f (mp_ns f)
      = Some ((mp_ns f + int d) mod (maxslot f + 1), (mp_ns f + int d + 1) mod (maxslot f + 1))" by blast
  then show thesis using assms(1) by (intro that) (auto simp: base_classify_def in_turn_def Let_def)
qed

lemma turns_total:
  assumes "in_turn f" "installed f i"
  shows "\<exists>cls f'. turn_run fr ss ps f = Some (cls, f') \<and> list_all (installed f) cls"
  using assms
proof (induction ps arbitrary: f)
  case (Cons p ps)
  let ?m = "maxslot f + 1"
  have m: "0 < ?m" using Cons.prems(1) by (simp add: in_turn_def)
  obtain d where d: "installed f ((mp_ns f + int d) mod ?m)"
    "base_classify fr ss p f = Some ((mp_ns f + int d) mod ?m, f\<lparr>mp_ns := (mp_ns f + int d + 1) mod ?m\<rparr>)"
    using in_turn_step [OF Cons.prems] by blast
  let ?f = "f\<lparr>mp_ns := (mp_ns f + int d + 1) mod ?m\<rparr>"
  have f': "in_turn ?f" "installed ?f = installed f"
    using Cons.prems(1) mod_inside [OF m refl]
    by (auto simp: in_turn_def installed_def [abs_def] classifier_ok_def nslot_def slot_get_def)
  then obtain cls g where "turn_run fr ss ps ?f = Some (cls, g)" "list_all (installed ?f) cls"
    using Cons.IH [of ?f] Cons.prems(2) by auto
  then show ?case using d f'(2) by (auto simp: list_all_iff)
qed simp

lemma turns_reach:
  assumes "in_turn f" "installed f i" "(i - mp_ns f) mod (maxslot f + 1) < int (length ps)"
  shows "\<exists>cls f'. turn_run fr ss ps f = Some (cls, f') \<and> i \<in> set cls \<and> list_all (installed f) cls"
  using assms
proof (induction ps arbitrary: f)
  case Nil
  have "0 < maxslot f + 1" using Nil.prems(1) by (simp add: in_turn_def)
  from pos_mod_sign [OF this, of "i - mp_ns f"] show ?case using Nil.prems(3) by simp
next
  case (Cons p ps)
  let ?m = "maxslot f + 1"
  have m: "0 < ?m" using Cons.prems(1) by (simp add: in_turn_def)
  obtain d where d: "int d \<le> (i - mp_ns f) mod ?m" "installed f ((mp_ns f + int d) mod ?m)"
    "base_classify fr ss p f = Some ((mp_ns f + int d) mod ?m, f\<lparr>mp_ns := (mp_ns f + int d + 1) mod ?m\<rparr>)"
    using in_turn_step [OF Cons.prems(1,2)] by blast
  let ?f = "f\<lparr>mp_ns := (mp_ns f + int d + 1) mod ?m\<rparr>"
  have f': "in_turn ?f" "installed ?f = installed f"
    using Cons.prems(1) mod_inside [OF m refl]
    by (auto simp: in_turn_def installed_def [abs_def] classifier_ok_def nslot_def slot_get_def)
  show ?case
  proof (cases "(i - mp_ns ?f) mod ?m < int (length ps)")
    case True
    from Cons.IH [OF f'(1)] True Cons.prems(2) f'(2) obtain cls g where
      "turn_run fr ss ps ?f = Some (cls, g)" "i \<in> set cls" "list_all (installed ?f) cls" by auto
    then show ?thesis using d f'(2) by (auto simp: list_all_iff)
  next
    case False
    have i: "0 \<le> i" "i < ?m" using Cons.prems(2) by (auto simp: installed_def)
    have "(i - mp_ns ?f) mod ?m = ((i - mp_ns f) mod ?m - int d - 1) mod ?m"
      by (simp add: mod_simps algebra_simps)
    moreover have "(i - mp_ns f) mod ?m < ?m" using m by (rule pos_mod_bound)
    ultimately have "int d = (i - mp_ns f) mod ?m"
      using False d(1) Cons.prems(3) by (cases "int d = (i - mp_ns f) mod ?m") simp_all
    then have "(mp_ns f + int d) mod ?m = i" using i by (simp add: mod_simps)
    moreover obtain cls g where "turn_run fr ss ps ?f = Some (cls, g)" "list_all (installed ?f) cls"
      using turns_total [OF f'(1), of i fr ss ps] f'(2) Cons.prems(2) by auto
    ultimately show ?thesis using d f'(2) by (auto simp: list_all_iff)
  qed
qed

text \<open>
  Property C32. No link starves and none is chosen in vain: while packets are forwarded in turn, every
  installed slot is chosen within as many packets as the table has slots, and only installed slots
  are chosen.
\<close>
theorem multipath_turns_reach_every_slot:
  assumes "in_turn f" "installed f i" "int (length ps) = maxslot f + 1"
  shows "\<exists>cls f'. turn_run fr ss ps f = Some (cls, f') \<and> i \<in> set cls \<and> (\<forall>cl\<in>set cls. installed f cl)"
proof -
  have "0 < maxslot f + 1" using assms(1) by (simp add: in_turn_def)
  from pos_mod_bound [OF this, of "i - mp_ns f"] have "(i - mp_ns f) mod (maxslot f + 1) < int (length ps)"
    unfolding assms(3) .
  from turns_reach [OF assms(1,2) this] show ?thesis by (auto simp: list_all_iff)
qed

section \<open>Examples\<close>

definition ex_paths :: multi_path where
  \<comment> \<open>three slots, the second one empty\<close>
  "ex_paths = \<lparr>slots = [Some 0, None, Some 3], maxslot = 2, shift = 0, mask = 255, nsize = 0, mp_ns = 1,
     nodeid = 0, nodetype = 0, symmetric = False, sorted_maxslot = - 1, perflow = False, checkpathid = False\<rparr>"

lemma ex_paths_ok: "in_turn ex_paths" "installed ex_paths 0"
  by (auto simp: in_turn_def installed_def classifier_ok_def nslot_def slot_get_def ex_paths_def)

theorem multipath_turns_reach_every_slot_witness:
  "\<exists>cls f'. turn_run id id [ex_packet, ex_packet, ex_packet] ex_paths = Some (cls, f') \<and> 0 \<in> set cls"
proof -
  have "int (length [ex_packet, ex_packet, ex_packet]) = maxslot ex_paths + 1" by (simp add: ex_paths_def)
  from multipath_turns_reach_every_slot [OF ex_paths_ok this, of id id] show ?thesis by blast
qed

definition ex_credit :: packet where
  "ex_credit = ex_packet\<lparr>pkt_src := 4, pkt_dst := 9, pkt_seq := 6, pkt_msg_type := GRANT\<rparr>"

definition ex_reply :: packet where
  "ex_reply = ex_packet\<lparr>pkt_src := 9, pkt_dst := 4, pkt_seq := 6\<rparr>"

lemma ex_base_classify: "\<exists>cl f'. base_classify id id p ex_paths = Some (cl, f')"
  using in_turn_step [OF ex_paths_ok, of id id p] by blast

lemma ex_multi_classify:
  "\<exists>cl p' f' dh. multi_classify id id (\<lambda>q. 0) (\<lambda>a. Other_object) 1 p ex_paths (Some ex_switch) = Some (cl, p', f', dh)"
proof -
  obtain cl f' where b: "base_classify id id p ex_paths = Some (cl, f')" using ex_base_classify by blast
  from b have f': "maxslot f' = 2" "nslot f' = 3"
    by (auto simp: base_classify_def Let_def bind_eq_Some_conv nslot_def ex_paths_def)
  have "\<exists>r. get_iface (\<lambda>a. Other_object) i f' = Some None" for i
    using f' by (auto simp: get_iface_def slot_at_def follow_def split: option.splits)
  then show ?thesis using b by (auto simp: multi_classify_def Let_def)
qed

theorem multipath_pairs_credit_and_data_witness:
  "\<exists>slot p1 f1 dh1 p2 f2 dh2.
     multi_classify id id (\<lambda>q. 0) (\<lambda>a. Other_object) 1 ex_credit ex_paths (Some ex_switch) = Some (slot, p1, f1, dh1)
   \<and> multi_classify id id (\<lambda>q. 0) (\<lambda>a. Other_object) 1 ex_reply ex_paths (Some ex_switch) = Some (slot, p2, f2, dh2)"
proof -
  obtain s1 p1 f1 d1 s2 p2 f2 d2 where
    1: "multi_classify id id (\<lambda>q. 0) (\<lambda>a. Other_object) 1 ex_credit ex_paths (Some ex_switch) = Some (s1, p1, f1, d1)" and
    2: "multi_classify id id (\<lambda>q. 0) (\<lambda>a. Other_object) 1 ex_reply ex_paths (Some ex_switch) = Some (s2, p2, f2, d2)"
    using ex_multi_classify [of ex_credit] ex_multi_classify [of ex_reply] by blast
  have "s1 = s2"
    using multipath_pairs_credit_and_data [OF 1 2] by (simp add: ex_credit_def ex_reply_def ex_packet_def)
  then show ?thesis using 1 2 by blast
qed

end
