(* ===== verification/Ns_Timer.thy ===== *)
theory Ns_Timer
  imports C_Double
begin

text \<open>
  The timers of the simulator, \<open>TimerHandler\<close> of \<open>common/timer-handler.h\<close> and
  \<open>common/timer-handler.cc\<close>: a status and the time of the event, which the scheduler computes as the
  clock plus the delay. \<open>None\<close> is \<open>abort\<close>.
\<close>

datatype timer_status = TIMER_IDLE | TIMER_PENDING | TIMER_HANDLING

record timer =
  tm_status :: timer_status
  tm_due :: real

definition new_timer :: timer where
  "new_timer = \<lparr>tm_status = TIMER_IDLE, tm_due = 0\<rparr>"

definition timer_sched :: "real \<Rightarrow> real \<Rightarrow> timer \<Rightarrow> timer option" where
  "timer_sched now delay tm = (if tm_status tm \<noteq> TIMER_IDLE then None
     else Some (tm\<lparr>tm_due := dadd now delay, tm_status := TIMER_PENDING\<rparr>))"

definition timer_resched :: "real \<Rightarrow> real \<Rightarrow> timer \<Rightarrow> timer" where
  "timer_resched now delay tm = tm\<lparr>tm_due := dadd now delay, tm_status := TIMER_PENDING\<rparr>"

definition timer_cancel :: "timer \<Rightarrow> timer option" where
  "timer_cancel tm = (if tm_status tm \<noteq> TIMER_PENDING then None else Some (tm\<lparr>tm_status := TIMER_IDLE\<rparr>))"

definition timer_force_cancel :: "timer \<Rightarrow> timer" where
  "timer_force_cancel tm = (if tm_status tm = TIMER_PENDING then tm\<lparr>tm_status := TIMER_IDLE\<rparr> else tm)"

definition timer_begin :: "timer \<Rightarrow> timer option" where
  \<comment> \<open>\<open>handle\<close> up to the call of \<open>expire\<close>\<close>
  "timer_begin tm = (if tm_status tm \<noteq> TIMER_PENDING then None else Some (tm\<lparr>tm_status := TIMER_HANDLING\<rparr>))"

definition timer_end :: "timer \<Rightarrow> timer" where
  \<comment> \<open>\<open>handle\<close> after the call of \<open>expire\<close>\<close>
  "timer_end tm = (if tm_status tm = TIMER_HANDLING then tm\<lparr>tm_status := TIMER_IDLE\<rparr> else tm)"

lemma timer_status_simps [simp]:
  "tm_status (timer_resched now d tm) = TIMER_PENDING"
  "tm_status (timer_force_cancel tm) \<noteq> TIMER_PENDING"
  "tm_status (timer_end tm) = TIMER_PENDING \<longleftrightarrow> tm_status tm = TIMER_PENDING"
  "tm_due (timer_resched now d tm) = dadd now d"
  "tm_due (timer_end tm) = tm_due tm"
  by (auto simp: timer_resched_def timer_force_cancel_def timer_end_def)

lemma timer_begin_Some: "timer_begin tm = Some tm' \<longleftrightarrow> tm_status tm = TIMER_PENDING \<and> tm' = tm\<lparr>tm_status := TIMER_HANDLING\<rparr>"
  by (auto simp: timer_begin_def)

end
