(* ===== verification/XPass_Drop_Tail.thy ===== *)
theory XPass_Drop_Tail
  imports Ns_Timer Queue_Base
begin

text \<open>
  The discipline \<open>XPassDropTail\<close> of \<open>queue/xpass-drop-tail.h\<close> and \<open>queue/xpass-drop-tail.cc\<close>, the
  credit throttle of ExpressPass: credit packets leave only against the tokens of a bucket, data
  packets use what is left of the link, and a timer wakes the queue when the next credit is due.

  A refresh rate of zero, which divides by zero, is \<open>None\<close>, as is a failed assertion.
\<close>

section \<open>The class\<close>

record xpass_queue =
  data_q :: "packet list"
  credit_q :: "packet list"
  credit_q_limit :: int
  data_q_limit :: int
  tokens :: int
  max_tokens :: int
  token_bucket_clock :: real
  token_refresh_rate :: real
  credit_timer :: timer

definition updateTokenBucket :: "real \<Rightarrow> xpass_queue \<Rightarrow> xpass_queue option" where
  "updateTokenBucket now d = (let elapsed_time = dsub now (token_bucket_clock d) in
     if elapsed_time \<le> 0 then Some d
     else (let elapsed_time = min elapsed_time (dbl (1 / 10)) in
       if token_refresh_rate d = 0 then None
       else do {
         new_tokens \<leftarrow> double_to_int (dmul elapsed_time (token_refresh_rate d));
         Some (d\<lparr>tokens := min (tokens d + new_tokens) (max_tokens d),
           token_bucket_clock := dadd (token_bucket_clock d) (ddiv (of_int new_tokens) (token_refresh_rate d))\<rparr>) }))"

definition xpass_enque :: "real \<Rightarrow> packet option \<Rightarrow> xpass_queue queue \<Rightarrow> (xpass_queue queue \<times> packet list) option" where
  \<comment> \<open>a packet that does not fit, the last of its queue, is removed again\<close>
  "xpass_enque now pkt s = (case pkt of
     None \<Rightarrow> Some (s, [])
   | Some p \<Rightarrow> (let d = own s in
       if pkt_ptype p = PT_XPASS_CREDIT then
         (let q = credit_q d @ [p] in
          if bytes_of q > credit_q_limit d then Some (s\<lparr>own := d\<lparr>credit_q := butlast q\<rparr>\<rparr>, [p])
          else Some (s\<lparr>own := d\<lparr>credit_q := q\<rparr>\<rparr>, []))
       else
         (let q = data_q d @ [p] in
          if bytes_of q > data_q_limit d then None \<comment> \<open>\<open>assert(0)\<close>\<close>
          else Some (s\<lparr>own := d\<lparr>data_q := q\<rparr>\<rparr>, []))))"

definition xpass_deque :: "real \<Rightarrow> xpass_queue queue \<Rightarrow> (packet option \<times> xpass_queue queue) option" where
  "xpass_deque now s = (let d = own s; d = d\<lparr>credit_timer := timer_force_cancel (credit_timer d)\<rparr> in do {
     d \<leftarrow> updateTokenBucket now d;
     let head = (case credit_q d of [] \<Rightarrow> None | p # ps \<Rightarrow> Some (p, ps));
     case head of
       Some (p, ps) \<Rightarrow>
         if tokens d \<ge> pkt_size p then Some (Some p, s\<lparr>own := d\<lparr>credit_q := ps, tokens := tokens d - pkt_size p\<rparr>\<rparr>)
         else (case data_q d of
             q # qs \<Rightarrow> Some (Some q, s\<lparr>own := d\<lparr>data_q := qs\<rparr>\<rparr>)
           | [] \<Rightarrow> if token_refresh_rate d = 0 then None
               else (let delay = ddiv (of_int (pkt_size p - tokens d)) (token_refresh_rate d) in
                 Some (None, s\<lparr>own := d\<lparr>credit_timer := timer_resched now delay (credit_timer d)\<rparr>\<rparr>)))
     | None \<Rightarrow> (case data_q d of
           q # qs \<Rightarrow> Some (Some q, s\<lparr>own := d\<lparr>data_q := qs\<rparr>\<rparr>)
         | [] \<Rightarrow> if bytes_of (credit_q d) > 0 \<and> bytes_of (data_q d) > 0 then None
             else Some (None, s\<lparr>own := d\<rparr>)) })"

abbreviation xpass_enq :: "xpass_queue enque_fn" where
  "xpass_enq \<equiv> \<lambda>now p. xpass_enque now (Some p)"

definition xpass_expire :: "real \<Rightarrow> xpass_queue queue \<Rightarrow> (packet option \<times> xpass_queue queue) option" where
  "xpass_expire = queue_poll xpass_deque"

definition set_credit_timer :: "timer \<Rightarrow> xpass_queue queue \<Rightarrow> xpass_queue queue" where
  "set_credit_timer tm s = s\<lparr>own := (own s)\<lparr>credit_timer := tm\<rparr>\<rparr>"

definition xpass_timer :: "real \<Rightarrow> xpass_queue queue \<Rightarrow> (packet option \<times> xpass_queue queue) option" where
  \<comment> \<open>the event of the credit timer: \<open>TimerHandler::handle\<close> around \<open>CreditTimer::expire\<close>\<close>
  "xpass_timer now s = do {
     tm \<leftarrow> timer_begin (credit_timer (own s));
     (r, s) \<leftarrow> xpass_expire now (set_credit_timer tm s);
     Some (r, set_credit_timer (timer_end (credit_timer (own s))) s) }"

definition xpass_recv :: "real \<Rightarrow> packet \<Rightarrow> xpass_queue queue \<Rightarrow> (packet option \<times> packet list \<times> xpass_queue queue) option" where
  "xpass_recv = queue_recv xpass_enq xpass_deque"

section \<open>The token bucket\<close>

definition bucket_ok :: "xpass_queue \<Rightarrow> bool" where
  \<comment> \<open>the rate is below 20 gigabytes per second, so that a refill fits an \<open>int\<close>\<close>
  "bucket_ok d \<longleftrightarrow> 0 \<le> tokens d \<and> tokens d \<le> max_tokens d \<and> 0 < token_refresh_rate d \<and> token_refresh_rate d \<le> 2 * 10 ^ 10"

lemma tenth: "0 < dbl (1 / 10)" "dbl (1 / 10) \<le> 1001 / 10000"
proof -
  have "dbl (1 / 10) - 1 / 10 \<le> \<bar>1 / 10\<bar> / 2 ^ 53" using dbl_error [of "1 / 10"] by linarith
  then show "dbl (1 / 10) \<le> 1001 / 10000" by simp
qed (simp add: dbl_pos)

lemma refill_fits:
  assumes "0 \<le> e" "e \<le> dbl (1 / 10)" "0 < r" "r \<le> 2 * 10 ^ 10"
  shows "double_to_int (dmul e r) = Some (trunc (dmul e r))" "0 \<le> trunc (dmul e r)"
proof -
  have "e * r \<le> 1001 / 10000 * (2 * 10 ^ 10)"
    using assms tenth(2) by (intro mult_mono) auto
  then have "dmul e r \<le> dbl 2147483646" unfolding dmul_def by (intro dbl_mono) simp
  then have "trunc (dmul e r) \<le> trunc 2147483646" by (intro trunc_mono) simp
  moreover show "0 \<le> trunc (dmul e r)" using assms by (intro trunc_nonneg) (simp add: dmul_def)
  ultimately show "double_to_int (dmul e r) = Some (trunc (dmul e r))" by (simp add: double_to_int_def)
qed

definition elapsed :: "real \<Rightarrow> xpass_queue \<Rightarrow> real" where
  "elapsed now d = min (dsub now (token_bucket_clock d)) (dbl (1 / 10))"

definition refill :: "real \<Rightarrow> xpass_queue \<Rightarrow> int" where
  \<comment> \<open>\<open>new_tokens\<close>, or zero where the method returns at once\<close>
  "refill now d = (if dsub now (token_bucket_clock d) \<le> 0 then 0 else trunc (dmul (elapsed now d) (token_refresh_rate d)))"

lemma refill_nonneg: "bucket_ok d \<Longrightarrow> 0 \<le> refill now d"
  using refill_fits(2) [of "elapsed now d" "token_refresh_rate d"] tenth(1)
  by (auto simp: refill_def elapsed_def bucket_ok_def)

lemma update_bucket:
  assumes "bucket_ok d"
  shows "updateTokenBucket now d = Some (if dsub now (token_bucket_clock d) \<le> 0 then d
    else d\<lparr>tokens := min (tokens d + refill now d) (max_tokens d),
      token_bucket_clock := dadd (token_bucket_clock d) (ddiv (of_int (refill now d)) (token_refresh_rate d))\<rparr>)"
  using assms refill_fits(1) [of "elapsed now d" "token_refresh_rate d"] tenth(1)
  by (auto simp: updateTokenBucket_def refill_def elapsed_def bucket_ok_def Let_def)

lemma update_bucket_Some:
  assumes "bucket_ok d"
  obtains d' where "updateTokenBucket now d = Some d'" "bucket_ok d'"
    "tokens d' = min (tokens d + refill now d) (max_tokens d)"
    "d' = d\<lparr>tokens := tokens d', token_bucket_clock := token_bucket_clock d'\<rparr>"
    "token_bucket_clock d' = (if dsub now (token_bucket_clock d) \<le> 0 then token_bucket_clock d
      else dadd (token_bucket_clock d) (ddiv (of_int (refill now d)) (token_refresh_rate d)))"
proof -
  define d' where "d' = (if dsub now (token_bucket_clock d) \<le> 0 then d
    else d\<lparr>tokens := min (tokens d + refill now d) (max_tokens d),
      token_bucket_clock := dadd (token_bucket_clock d) (ddiv (of_int (refill now d)) (token_refresh_rate d))\<rparr>)"
  have t: "tokens d' = min (tokens d + refill now d) (max_tokens d)"
    using assms by (auto simp: d'_def refill_def bucket_ok_def)
  show thesis
    by (rule that [of d']) (use t update_bucket [OF assms, of now] refill_nonneg [OF assms, of now] assms
      in \<open>auto simp: d'_def bucket_ok_def\<close>)
qed

section \<open>The discipline behind a link\<close>

definition xpass_held :: "xpass_queue \<Rightarrow> packet list" where
  "xpass_held d = credit_q d @ data_q d"

definition xpass_fits :: "real \<Rightarrow> packet \<Rightarrow> bool" where
  "xpass_fits t p \<longleftrightarrow> 0 \<le> pkt_size p"

definition xpass_ok :: "xpass_queue \<Rightarrow> bool" where
  "xpass_ok d \<longleftrightarrow> bucket_ok d \<and> (\<forall>p\<in>set (xpass_held d). 0 \<le> pkt_size p)"

definition xpass_accepts :: "real \<Rightarrow> packet \<Rightarrow> xpass_queue \<Rightarrow> bool" where
  \<comment> \<open>data always fits, the buffer for it being taken as infinite\<close>
  "xpass_accepts t p d \<longleftrightarrow> (pkt_ptype p \<noteq> PT_XPASS_CREDIT \<longrightarrow> bytes_of (data_q d) + pkt_size p \<le> data_q_limit d)"

text \<open>The result of \<open>deque\<close>, case by case, over the refilled bucket \<open>d\<close>.\<close>

lemma xpass_deque_cases:
  assumes "bucket_ok (own s)"
  obtains (credit) d p ps where "xpass_deque t s = Some (Some p, s\<lparr>own := d\<lparr>credit_q := ps, tokens := tokens d - pkt_size p\<rparr>\<rparr>)"
      "credit_q (own s) = p # ps" "pkt_size p \<le> tokens d"
      "updateTokenBucket t ((own s)\<lparr>credit_timer := timer_force_cancel (credit_timer (own s))\<rparr>) = Some d"
  | (data) d q qs where "xpass_deque t s = Some (Some q, s\<lparr>own := d\<lparr>data_q := qs\<rparr>\<rparr>)"
      "data_q (own s) = q # qs" "\<And>p ps. credit_q (own s) = p # ps \<Longrightarrow> tokens d < pkt_size p"
      "updateTokenBucket t ((own s)\<lparr>credit_timer := timer_force_cancel (credit_timer (own s))\<rparr>) = Some d"
  | (wait) d p ps where "xpass_deque t s = Some (None, s\<lparr>own := d\<lparr>credit_timer :=
        timer_resched t (ddiv (of_int (pkt_size p - tokens d)) (token_refresh_rate d)) (credit_timer d)\<rparr>\<rparr>)"
      "data_q (own s) = []" "credit_q (own s) = p # ps" "tokens d < pkt_size p"
      "updateTokenBucket t ((own s)\<lparr>credit_timer := timer_force_cancel (credit_timer (own s))\<rparr>) = Some d"
  | (empty) d where "xpass_deque t s = Some (None, s\<lparr>own := d\<rparr>)" "data_q (own s) = []" "credit_q (own s) = []"
      "updateTokenBucket t ((own s)\<lparr>credit_timer := timer_force_cancel (credit_timer (own s))\<rparr>) = Some d"
proof -
  let ?d = "(own s)\<lparr>credit_timer := timer_force_cancel (credit_timer (own s))\<rparr>"
  have "bucket_ok ?d" using assms by (simp add: bucket_ok_def)
  from update_bucket_Some [OF this, of t] obtain d where d: "updateTokenBucket t ?d = Some d" "bucket_ok d" and
    d_eq: "d = ?d\<lparr>tokens := tokens d, token_bucket_clock := token_bucket_clock d\<rparr>" by blast
  have q: "credit_q d = credit_q (own s)" "data_q d = data_q (own s)"
    by (subst d_eq, simp)+
  have rate: "token_refresh_rate d \<noteq> 0" using d(2) by (auto simp: bucket_ok_def)
  have dq: "xpass_deque t s = (case credit_q (own s) of
      p # ps \<Rightarrow> if tokens d \<ge> pkt_size p then Some (Some p, s\<lparr>own := d\<lparr>credit_q := ps, tokens := tokens d - pkt_size p\<rparr>\<rparr>)
        else (case data_q (own s) of q # qs \<Rightarrow> Some (Some q, s\<lparr>own := d\<lparr>data_q := qs\<rparr>\<rparr>)
          | [] \<Rightarrow> Some (None, s\<lparr>own := d\<lparr>credit_timer :=
              timer_resched t (ddiv (of_int (pkt_size p - tokens d)) (token_refresh_rate d)) (credit_timer d)\<rparr>\<rparr>))
    | [] \<Rightarrow> (case data_q (own s) of q # qs \<Rightarrow> Some (Some q, s\<lparr>own := d\<lparr>data_q := qs\<rparr>\<rparr>) | [] \<Rightarrow> Some (None, s\<lparr>own := d\<rparr>)))"
    using q rate by (simp add: xpass_deque_def d Let_def split: list.split)
  show thesis
  proof (cases "credit_q (own s)")
    case c: Nil
    show thesis
    proof (cases "data_q (own s)")
      case Nil
      then show thesis using dq c d(1) by (intro empty [of d]) simp_all
    next
      case (Cons q qs)
      then show thesis using dq c d(1) by (intro data [where d = d and q = q and qs = qs]) simp_all
    qed
  next
    case c: (Cons p ps)
    show thesis
    proof (cases "pkt_size p \<le> tokens d")
      case True
      then show thesis using dq c d(1) by (intro credit [where d = d and p = p and ps = ps]) simp_all
    next
      case False
      show thesis
      proof (cases "data_q (own s)")
        case Nil
        then show thesis using dq c d(1) False by (intro wait [where d = d and p = p and ps = ps]) simp_all
      next
        case (Cons q qs)
        then show thesis using dq c d(1) False by (intro data [where d = d and q = q and qs = qs]) simp_all
      qed
    qed
  qed
qed

lemma cancelled_bucket:
  assumes "bucket_ok (own s)"
    "updateTokenBucket t ((own s)\<lparr>credit_timer := timer_force_cancel (credit_timer (own s))\<rparr>) = Some d"
  shows "bucket_ok d" "credit_q d = credit_q (own s)" "data_q d = data_q (own s)"
    "credit_timer d = timer_force_cancel (credit_timer (own s))" "max_tokens d = max_tokens (own s)"
    "token_refresh_rate d = token_refresh_rate (own s)"
    "tokens d = min (tokens (own s) + refill t (own s)) (max_tokens (own s))"
    "token_bucket_clock d = (if dsub t (token_bucket_clock (own s)) \<le> 0 then token_bucket_clock (own s)
      else dadd (token_bucket_clock (own s)) (ddiv (of_int (refill t (own s))) (token_refresh_rate (own s))))"
proof -
  let ?d = "(own s)\<lparr>credit_timer := timer_force_cancel (credit_timer (own s))\<rparr>"
  have ok: "bucket_ok ?d" using assms(1) by (simp add: bucket_ok_def)
  have rf: "refill t ?d = refill t (own s)" by (simp add: refill_def elapsed_def)
  from update_bucket_Some [OF ok, of t] obtain d2 where d2: "updateTokenBucket t ?d = Some d2" "bucket_ok d2"
    "tokens d2 = min (tokens ?d + refill t ?d) (max_tokens ?d)"
    "d2 = ?d\<lparr>tokens := tokens d2, token_bucket_clock := token_bucket_clock d2\<rparr>"
    "token_bucket_clock d2 = (if dsub t (token_bucket_clock ?d) \<le> 0 then token_bucket_clock ?d
      else dadd (token_bucket_clock ?d) (ddiv (of_int (refill t ?d)) (token_refresh_rate ?d)))" by blast
  have "d = d2" using assms(2) d2(1) by simp
  then show "bucket_ok d" "credit_q d = credit_q (own s)" "data_q d = data_q (own s)"
    "credit_timer d = timer_force_cancel (credit_timer (own s))" "max_tokens d = max_tokens (own s)"
    "token_refresh_rate d = token_refresh_rate (own s)"
    "tokens d = min (tokens (own s) + refill t (own s)) (max_tokens (own s))"
    "token_bucket_clock d = (if dsub t (token_bucket_clock (own s)) \<le> 0 then token_bucket_clock (own s)
      else dadd (token_bucket_clock (own s)) (ddiv (of_int (refill t (own s))) (token_refresh_rate (own s))))"
    using d2(2,3,5) rf by (simp_all, (subst d2(4), simp)+)
qed

lemma xpass_enque_Some:
  assumes "xpass_enque t (Some p) s = Some (s', ds)"
  obtains (credit) "pkt_ptype p = PT_XPASS_CREDIT" "s' = s\<lparr>own := (own s)\<lparr>credit_q := credit_q (own s) @ [p]\<rparr>\<rparr>" "ds = []"
      "bytes_of (credit_q (own s)) + pkt_size p \<le> credit_q_limit (own s)"
  | (dropped) "pkt_ptype p = PT_XPASS_CREDIT" "s' = s\<lparr>own := (own s)\<lparr>credit_q := credit_q (own s)\<rparr>\<rparr>" "ds = [p]"
      "bytes_of (credit_q (own s)) + pkt_size p > credit_q_limit (own s)"
  | (data) "pkt_ptype p \<noteq> PT_XPASS_CREDIT" "s' = s\<lparr>own := (own s)\<lparr>data_q := data_q (own s) @ [p]\<rparr>\<rparr>" "ds = []"
  using assms by (auto simp: xpass_enque_def Let_def split: if_splits)

interpretation xpass: queue_discipline xpass_enq xpass_deque xpass_held xpass_ok xpass_fits xpass_accepts
proof (unfold_locales, goal_cases)
  case (1 s t p s' ds)
  from 1(3) show ?case
    by (cases rule: xpass_enque_Some) (use 1(1,2) in \<open>auto simp: xpass_ok_def xpass_held_def xpass_fits_def bucket_ok_def\<close>)
next
  case (2 s t r s')
  then have ok: "bucket_ok (own s)" by (simp add: xpass_ok_def)
  show ?case
  proof (cases rule: xpass_deque_cases [OF ok, of t, case_names credit data wait empty])
    case (credit d p ps)
    note c = cancelled_bucket [OF ok credit(4)]
    have "0 \<le> pkt_size p" using 2(1) credit(2) by (auto simp: xpass_ok_def xpass_held_def)
    then show ?thesis using 2 credit c by (auto simp: xpass_ok_def xpass_held_def bucket_ok_def)
  next
    case (data d q qs)
    note c = cancelled_bucket [OF ok data(4)]
    show ?thesis using 2 data c by (auto simp: xpass_ok_def xpass_held_def bucket_ok_def)
  next
    case (wait d p ps)
    note c = cancelled_bucket [OF ok wait(5)]
    show ?thesis using 2 wait c by (auto simp: xpass_ok_def xpass_held_def bucket_ok_def)
  next
    case (empty d)
    note c = cancelled_bucket [OF ok empty(4)]
    show ?thesis using 2 empty c by (auto simp: xpass_ok_def xpass_held_def bucket_ok_def)
  qed
next
  case (3 s t p)
  then show ?case by (auto simp: xpass_enque_def xpass_accepts_def Let_def)
next
  case (4 s t)
  then have ok: "bucket_ok (own s)" by (simp add: xpass_ok_def)
  show ?case by (cases rule: xpass_deque_cases [OF ok, of t]) auto
qed

section \<open>Runs with the credit timer\<close>

inductive xpass_step :: "xpass_queue queue \<Rightarrow> link_event \<Rightarrow> packet list \<Rightarrow> packet list \<Rightarrow> xpass_queue queue \<Rightarrow> bool" where
  arrive: "xpass_recv t p s = Some (r, ds, s') \<Longrightarrow> xpass_fits t p \<Longrightarrow> xpass_step s (Arrive t p) (sent_of r) ds s'"
| resume: "blocked s \<Longrightarrow> queue_resume xpass_deque t s = Some (r, s') \<Longrightarrow> xpass_step s (Resume t) (sent_of r) [] s'"
| expire: "xpass_timer t s = Some (r, s') \<Longrightarrow> xpass_step s (Expire t) (sent_of r) [] s'"

inductive_cases xpass_timerE: "xpass_step s (Expire t) ps ds s'"
inductive_simps xpass_resume_iff: "xpass_step s (Resume t) ps ds s'"

inductive xpass_reach :: "xpass_queue queue \<Rightarrow> link_event list \<Rightarrow> packet list \<Rightarrow> packet list \<Rightarrow> xpass_queue queue \<Rightarrow> bool"
  for s0 where
  start: "xpass_reach s0 [] [] [] s0"
| step: "xpass_reach s0 es ps ds s \<Longrightarrow> \<forall>e'\<in>set es. event_time e' \<le> event_time e \<Longrightarrow> last_change s0 \<le> event_time e
    \<Longrightarrow> xpass_step s e ps' ds' s' \<Longrightarrow> xpass_reach s0 (es @ [e]) (ps @ ps') (ds @ ds') s'"

definition is_credit :: "packet \<Rightarrow> bool" where
  "is_credit p \<longleftrightarrow> pkt_ptype p = PT_XPASS_CREDIT"

definition credit_bytes :: "packet list \<Rightarrow> int" where
  "credit_bytes ps = bytes_of (filter is_credit ps)"

definition kinds_ok :: "xpass_queue \<Rightarrow> bool" where
  "kinds_ok d \<longleftrightarrow> (\<forall>p\<in>set (credit_q d). is_credit p) \<and> (\<forall>p\<in>set (data_q d). \<not> is_credit p)"

definition xpass_good :: "xpass_queue queue \<Rightarrow> bool" where
  "xpass_good s \<longleftrightarrow> xpass_ok (own s) \<and> util_ok s \<and> kinds_ok (own s)"

lemma credit_bytes_simps [simp]: "credit_bytes [] = 0" "credit_bytes (ps @ qs) = credit_bytes ps + credit_bytes qs"
  "credit_bytes [p] = (if is_credit p then pkt_size p else 0)"
  by (simp_all add: credit_bytes_def)

definition bucket_of :: "xpass_queue \<Rightarrow> int \<times> int \<times> real \<times> real" where
  "bucket_of d = (tokens d, max_tokens d, token_bucket_clock d, token_refresh_rate d)"

lemma bucket_of_timer [simp]: "bucket_of (d\<lparr>credit_timer := tm\<rparr>) = bucket_of d"
  by (simp add: bucket_of_def)

text \<open>What one call of \<open>deque\<close> does to the bucket, the kinds and the timer.\<close>

definition deque_effect :: "real \<Rightarrow> xpass_queue \<Rightarrow> packet option \<Rightarrow> xpass_queue \<Rightarrow> bool" where
  "deque_effect t d r d' \<longleftrightarrow>
     tokens d' + credit_bytes (sent_of r) \<le> tokens d + refill t d
   \<and> token_refresh_rate d' = token_refresh_rate d \<and> max_tokens d' = max_tokens d
   \<and> token_bucket_clock d' = (if dsub t (token_bucket_clock d) \<le> 0 then token_bucket_clock d
       else dadd (token_bucket_clock d) (ddiv (of_int (refill t d)) (token_refresh_rate d)))
   \<and> (kinds_ok d \<longrightarrow> kinds_ok d')
   \<and> (r = None \<longrightarrow> data_q d' = [] \<and> (credit_q d' = [] \<or> tm_status (credit_timer d') = TIMER_PENDING))"

lemma xpass_deque_effect:
  assumes "bucket_ok (own s)" "kinds_ok (own s)" "xpass_deque t s = Some (r, s')"
  shows "deque_effect t (own s) r (own s')"
proof (cases rule: xpass_deque_cases [OF assms(1), of t, case_names credit data wait empty])
  case (credit d p ps)
  then show ?thesis using cancelled_bucket [OF assms(1) credit(4)] assms(2,3)
    by (auto simp: deque_effect_def kinds_ok_def)
next
  case (data d q qs)
  then show ?thesis using cancelled_bucket [OF assms(1) data(4)] assms(2,3)
    by (auto simp: deque_effect_def kinds_ok_def)
next
  case (wait d p ps)
  then show ?thesis using cancelled_bucket [OF assms(1) wait(5)] assms(3)
    by (auto simp: deque_effect_def kinds_ok_def)
next
  case (empty d)
  then show ?thesis using cancelled_bucket [OF assms(1) empty(4)] assms(3)
    by (auto simp: deque_effect_def kinds_ok_def)
qed

lemma poll_effect:
  assumes "bucket_ok (own s)" "kinds_ok (own s)" "queue_poll xpass_deque t s = Some (r, s')" "\<not> blocked s"
  shows "deque_effect t (own s) r (own s')" "r = None \<or> blocked s'"
proof -
  from assms(3,4) obtain s1 where d: "xpass_deque t s = Some (r, s1)" and
    s': "case r of None \<Rightarrow> s' = s1 | Some p \<Rightarrow> \<exists>s2. note_change t s1 = Some s2 \<and> s' = s2\<lparr>blocked := True\<rparr>"
    by (auto simp: queue_poll_def bind_eq_Some_conv split: option.splits)
  have "own s' = own s1" using s' by (auto dest: note_change_same split: option.splits)
  then show "deque_effect t (own s) r (own s')" using xpass_deque_effect [OF assms(1,2) d] by simp
  show "r = None \<or> blocked s'" using s' by (auto split: option.splits)
qed

lemma resume_effect:
  assumes "bucket_ok (own s)" "kinds_ok (own s)" "queue_resume xpass_deque t s = Some (r, s')"
  shows "deque_effect t (own s) r (own s')"
proof -
  from assms(3) obtain s1 where d: "xpass_deque t s = Some (r, s1)" and
    s': "case r of Some p \<Rightarrow> s' = s1 | None \<Rightarrow> \<exists>s2. note_change t s1 = Some s2 \<and> s' = s2\<lparr>blocked := \<not> unblock_on_resume s2\<rparr>"
    by (auto simp: queue_resume_def bind_eq_Some_conv split: option.splits)
  have "own s' = own s1" using s' by (auto dest: note_change_same split: option.splits)
  then show ?thesis using xpass_deque_effect [OF assms(1,2) d] by simp
qed

definition xpass_awake :: "xpass_queue queue \<Rightarrow> bool" where
  \<comment> \<open>the link is busy, or no data waits and waiting credit has its timer\<close>
  "xpass_awake s \<longleftrightarrow> blocked s \<or> data_q (own s) = []
     \<and> (credit_q (own s) = [] \<or> tm_status (credit_timer (own s)) = TIMER_PENDING)"

text \<open>Every event either leaves the bucket alone or calls \<open>deque\<close> once.\<close>

definition step_effect :: "real \<Rightarrow> xpass_queue queue \<Rightarrow> packet list \<Rightarrow> xpass_queue queue \<Rightarrow> bool" where
  "step_effect t s ps s' \<longleftrightarrow>
     ps = [] \<and> bucket_of (own s') = bucket_of (own s) \<and> blocked s'
   \<or> (\<exists>d r d'. bucket_of d = bucket_of (own s) \<and> deque_effect t d r d' \<and> bucket_of d' = bucket_of (own s') \<and> ps = sent_of r)"

lemma enque_bucket: "xpass_enq t p s = Some (s', ds) \<Longrightarrow> bucket_of (own s') = bucket_of (own s)
    \<and> blocked s' = blocked s \<and> same_link s s' \<and> (bucket_ok (own s) \<longrightarrow> bucket_ok (own s'))
    \<and> (kinds_ok (own s) \<longrightarrow> kinds_ok (own s'))"
  by (erule xpass_enque_Some) (auto simp: bucket_of_def bucket_ok_def kinds_ok_def is_credit_def)

lemma step_keeps:
  assumes "xpass_step s e ps ds s'" "xpass_good s" "xpass_awake s" "last_change s \<le> event_time e"
  shows "xpass_good s' \<and> xpass_awake s' \<and> last_change s' \<le> event_time e \<and> step_effect (event_time e) s ps s'
    \<and> uids ps + uids ds + uids (xpass_held (own s')) = uids (arrivals [e]) + uids (xpass_held (own s))"
  using assms(1)
proof (cases rule: xpass_step.cases)
  case (arrive t p r)
  note 1 = this
  then obtain s1 where e: "xpass_enq t p s = Some (s1, ds)" and r: "queue_poll xpass_deque t s1 = Some (r, s')"
    by (auto simp: xpass_recv_def queue_recv_def bind_eq_Some_conv)
  have d: "do_event xpass_enq xpass_deque e s = Some (ps, ds, s')" using 1 by (simp add: xpass_recv_def)
  note k = xpass.event_keeps [OF _ assms(4) d] 
  have good: "xpass.link_ok s" using assms(2) by (simp add: xpass.link_ok_def xpass_good_def)
  note b = enque_bucket [OF e]
  have s1: "bucket_ok (own s1)" "kinds_ok (own s1)" using b assms(2) by (auto simp: xpass_good_def xpass_ok_def)
  have k': "xpass_ok (own s')" "util_ok s'" "last_change s' \<le> event_time e"
    "uids ps + uids ds + uids (xpass_held (own s')) = uids (arrivals [e]) + uids (xpass_held (own s))"
    using k good 1 by (auto simp: xpass.link_ok_def)
  show ?thesis
  proof (cases "blocked s")
    case True
    then have "s' = s1" "r = None" using r b by (auto simp: queue_poll_def)
    then show ?thesis using k' b s1 True 1 by (auto simp: xpass_good_def xpass_awake_def step_effect_def)
  next
    case False
    then have nb: "\<not> blocked s1" using b by simp
    note p = poll_effect [OF s1 r nb]
    then have "step_effect t s ps s'" using b 1 unfolding step_effect_def by blast
    moreover have "xpass_awake s'" "kinds_ok (own s')"
      using p s1 by (auto simp: xpass_awake_def deque_effect_def)
    ultimately show ?thesis using k' 1 by (simp add: xpass_good_def)
  qed
next
  case (resume t r)
  note 2 = this
  have d: "do_event xpass_enq xpass_deque e s = Some (ps, ds, s')" using 2 by simp
  note k = xpass.event_keeps [OF _ assms(4) d] 
  have good: "xpass.link_ok s" using assms(2) by (simp add: xpass.link_ok_def xpass_good_def)
  have k': "xpass_ok (own s')" "util_ok s'" "last_change s' \<le> event_time e"
    "uids ps + uids ds + uids (xpass_held (own s')) = uids (arrivals [e]) + uids (xpass_held (own s))"
    using k good 2 by (auto simp: xpass.link_ok_def)
  have s: "bucket_ok (own s)" "kinds_ok (own s)" using assms(2) by (auto simp: xpass_good_def xpass_ok_def)
  note p = resume_effect [OF s 2(5)]
  have "step_effect t s ps s'" using p 2 unfolding step_effect_def by blast
  moreover have "kinds_ok (own s')" using p s by (simp add: deque_effect_def)
  moreover have "xpass_awake s'"
  proof (cases r)
    case None
    then show ?thesis using p by (auto simp: xpass_awake_def deque_effect_def)
  next
    case (Some q)
    have "last_change s \<le> t" using assms(4) 2 by simp
    then show ?thesis using xpass.resume_keeps [OF good _ 2(5)] 2(4) Some by (auto simp: xpass_awake_def)
  qed
  ultimately show ?thesis using k' 2 by (simp add: xpass_good_def)
next
  case (expire t r)
  note 3 = this
  then obtain tm s1 where tm: "timer_begin (credit_timer (own s)) = Some tm"
    and r: "queue_poll xpass_deque t (set_credit_timer tm s) = Some (r, s1)"
    and s': "s' = set_credit_timer (timer_end (credit_timer (own s1))) s1"
    by (auto simp: xpass_timer_def xpass_expire_def bind_eq_Some_conv)
  let ?s = "set_credit_timer tm s"
  have s: "bucket_ok (own ?s)" "kinds_ok (own ?s)" "xpass.link_ok ?s" "bucket_of (own ?s) = bucket_of (own s)"
    "xpass_held (own ?s) = xpass_held (own s)" "last_change ?s = last_change s" "blocked ?s = blocked s"
    using assms(2)
    by (auto simp: set_credit_timer_def xpass_good_def xpass_ok_def bucket_ok_def kinds_ok_def xpass.link_ok_def
        util_ok_def xpass_held_def)
  have "last_change ?s \<le> t" using assms(4) 3 s by simp
  note k = xpass.poll_keeps [OF s(3) this r]
  have rest: "xpass_ok (own s') = xpass_ok (own s1)" "util_ok s' = util_ok s1" "kinds_ok (own s') = kinds_ok (own s1)"
    "bucket_of (own s') = bucket_of (own s1)" "xpass_held (own s') = xpass_held (own s1)"
    "last_change s' = last_change s1" "blocked s' = blocked s1" "xpass_awake s' = xpass_awake s1"
    by (simp_all add: s' set_credit_timer_def xpass_ok_def bucket_ok_def kinds_ok_def util_ok_def xpass_held_def xpass_awake_def)
  show ?thesis
  proof (cases "blocked s")
    case True
    then have "s1 = ?s" "r = None" using r s by (auto simp: queue_poll_def)
    then show ?thesis using k rest s True 3
      by (auto simp: xpass_good_def xpass.link_ok_def xpass_awake_def step_effect_def)
  next
    case False
    then have nb: "\<not> blocked ?s" using s by simp
    note p = poll_effect [OF s(1,2) r nb]
    have "step_effect t s ps s'" unfolding step_effect_def
      by (rule disjI2, rule exI [of _ "own ?s"], rule exI [of _ r], rule exI [of _ "own s1"]) (simp only: p s(4) rest(4) 3)
    moreover have "xpass_awake s1" "kinds_ok (own s1)"
      using p s(2) by (auto simp: xpass_awake_def deque_effect_def)
    ultimately show ?thesis using k s(5) rest 3 by (simp add: xpass_good_def xpass.link_ok_def)
  qed
qed

lemma reach_keeps:
  assumes "xpass_reach s0 es ps ds s" "xpass_good s0" "xpass_awake s0"
  shows "xpass_good s \<and> xpass_awake s \<and> (\<forall>t. last_change s0 \<le> t \<and> (\<forall>e\<in>set es. event_time e \<le> t) \<longrightarrow> last_change s \<le> t)
    \<and> uids (arrivals es) + uids (xpass_held (own s0)) = uids ps + uids ds + uids (xpass_held (own s))"
  using assms
proof (induction rule: xpass_reach.induct)
  case (step es ps ds s e ps' ds' s')
  then have lc: "last_change s \<le> event_time e" by blast
  note k = step_keeps [OF step.hyps(4) _ _ lc]
  have arr: "arrivals (es @ [e]) = arrivals es @ arrivals [e]" by (simp add: arrivals_def)
  have "uids (arrivals (es @ [e])) + uids (xpass_held (own s0))
      = uids (arrivals [e]) + (uids ps + uids ds + uids (xpass_held (own s)))"
    using step by (simp add: arr union_assoc union_commute)
  also have "\<dots> = uids ps + uids ds + (uids (arrivals [e]) + uids (xpass_held (own s)))" by simp
  also have "uids (arrivals [e]) + uids (xpass_held (own s)) = uids ps' + uids ds' + uids (xpass_held (own s'))"
    using k step by simp
  also have "uids ps + uids ds + \<dots> = uids (ps @ ps') + uids (ds @ ds') + uids (xpass_held (own s'))" by simp
  finally show ?case using k step by auto
qed simp

section \<open>The rate of the credit\<close>

lemma rounding_growth: "(1 + 1 / 2 ^ 53 :: real) ^ 4 \<le> 1 + 1 / 2 ^ 50"
  by (simp add: power4_eq_xxxx)

lemma cube_split: "(a * v ^ 3 + (t - a) * v ^ 3) * v = t * (v :: real) ^ 4"
  by (simp add: power4_eq_xxxx power3_eq_cube algebra_simps)

lemma rounding_shrink: "1 \<le> (1 - 1 / 2 ^ 53) ^ 2 * (1 + 1 / 2 ^ 50 :: real)"
  by (simp add: power2_eq_square)

text \<open>The clock of the bucket stays behind the clock of the simulator, but for rounding.\<close>

lemma refill_le:
  assumes "bucket_ok d" "0 < dsub t (token_bucket_clock d)"
  shows "real_of_int (refill t d) / token_refresh_rate d \<le> (t - token_bucket_clock d) * (1 + 1 / 2 ^ 53) ^ 2"
    "token_bucket_clock d < t"
proof -
  let ?c = "token_bucket_clock d" and ?r = "token_refresh_rate d" and ?u = "1 + 1 / 2 ^ 53 :: real"
  show ct: "?c < t" using assms(2) dbl_nonpos [of "t - ?c"] by (auto simp: dsub_def not_less [symmetric])
  have r: "0 < ?r" using assms(1) by (simp add: bucket_ok_def)
  have el: "0 \<le> elapsed t d" "elapsed t d \<le> (t - ?c) * ?u"
    using assms(2) tenth(1) dbl_upper [of "t - ?c"] ct by (auto simp: elapsed_def dsub_def)
  have "0 \<le> dmul (elapsed t d) ?r" using el r by (simp add: dmul_def)
  then have "real_of_int (refill t d) \<le> dmul (elapsed t d) ?r"
    using assms(2) trunc_le by (simp add: refill_def)
  also have "\<dots> \<le> elapsed t d * ?r * ?u" unfolding dmul_def using el r by (intro dbl_upper) simp
  also have "\<dots> \<le> (t - ?c) * ?u * ?r * ?u" using el r by (intro mult_right_mono) auto
  finally have "real_of_int (refill t d) \<le> ((t - ?c) * ?u ^ 2) * ?r" by (simp add: power2_eq_square ac_simps)
  then show "real_of_int (refill t d) / ?r \<le> (t - ?c) * ?u ^ 2" using r by (simp add: pos_divide_le_eq)
qed

lemma bucket_clock_step:
  assumes "bucket_ok d" "0 \<le> token_bucket_clock d" "deque_effect t d r d'"
  shows "0 \<le> token_bucket_clock d'"
    "token_bucket_clock d' = token_bucket_clock d \<or> token_bucket_clock d' \<le> t * (1 + 1 / 2 ^ 50)"
    "real_of_int (refill t d) \<le> token_refresh_rate d * (token_bucket_clock d' * (1 + 1 / 2 ^ 50) - token_bucket_clock d)"
proof -
  let ?c = "token_bucket_clock d" and ?c' = "token_bucket_clock d'" and ?rt = "token_refresh_rate d"
  let ?u = "1 + 1 / 2 ^ 53 :: real" and ?l = "1 - 1 / 2 ^ 53 :: real"
  have r: "0 < ?rt" using assms(1) by (simp add: bucket_ok_def)
  have "0 \<le> ?c' \<and> (?c' = ?c \<or> ?c' \<le> t * (1 + 1 / 2 ^ 50))
    \<and> real_of_int (refill t d) \<le> ?rt * (?c' * (1 + 1 / 2 ^ 50) - ?c)"
  proof (cases "dsub t ?c \<le> 0")
    case True
    then have c': "?c' = ?c" "refill t d = 0" using assms(3) by (auto simp: deque_effect_def refill_def)
    have "0 \<le> ?rt * (?c * (1 + 1 / 2 ^ 50) - ?c)" using r assms(2) by (intro mult_nonneg_nonneg) (simp_all add: algebra_simps)
    then show ?thesis using c' assms(2) by simp
  next
    case False
    define x where "x = real_of_int (refill t d) / ?rt"
    have x: "0 \<le> x" "x \<le> (t - ?c) * ?u ^ 2" and ct: "?c < t"
      using refill_le [OF assms(1), of t] False refill_nonneg [OF assms(1), of t] r by (simp_all add: x_def)
    have c': "?c' = dbl (?c + dbl x)"
      using assms(3) False by (simp add: deque_effect_def dadd_def ddiv_def x_def)
    have q: "0 \<le> dbl x" "dbl x \<le> x * ?u" "x * ?l \<le> dbl x" using dbl_nonneg [OF x(1)] dbl_upper [OF x(1)] dbl_lower [OF x(1)] by simp_all
    have sum: "0 \<le> ?c + dbl x" using q(1) assms(2) by simp
    have "?c' \<le> (?c + dbl x) * ?u" unfolding c' using sum by (rule dbl_upper)
    also have "\<dots> \<le> (?c * ?u ^ 3 + (t - ?c) * ?u ^ 3) * ?u"
    proof (intro mult_right_mono add_mono)
      show "?c \<le> ?c * ?u ^ 3" using mult_left_mono [of 1 "?u ^ 3" ?c] assms(2) by simp
      have "dbl x \<le> (t - ?c) * ?u ^ 2 * ?u" using q(2) mult_right_mono [OF x(2), of ?u] by simp
      then show "dbl x \<le> (t - ?c) * ?u ^ 3" by (simp add: power3_eq_cube power2_eq_square ac_simps)
    qed simp
    also have "\<dots> = t * ?u ^ 4" by (rule cube_split)
    also have "\<dots> \<le> t * (1 + 1 / 2 ^ 50)" using ct assms(2) by (intro mult_left_mono rounding_growth) simp
    finally have upper: "?c' \<le> t * (1 + 1 / 2 ^ 50)" .
    have "(?c + x) * ?l ^ 2 \<le> (?c + dbl x) * ?l"
    proof -
      have "?c * ?l \<le> ?c" using assms(2) by (simp add: algebra_simps)
      then have "(?c + x) * ?l \<le> ?c + dbl x" using q(3) by (simp add: distrib_right)
      then have "(?c + x) * ?l * ?l \<le> (?c + dbl x) * ?l" by (rule mult_right_mono) simp
      then show ?thesis by (simp add: power2_eq_square ac_simps)
    qed
    also have "\<dots> \<le> ?c'" unfolding c' using sum by (rule dbl_lower)
    finally have lower: "(?c + x) * ?l ^ 2 \<le> ?c'" .
    have "?c + x \<le> (?c + x) * (?l ^ 2 * (1 + 1 / 2 ^ 50))"
      using mult_left_mono [OF rounding_shrink, of "?c + x"] assms(2) x(1) by simp
    also have "\<dots> \<le> ?c' * (1 + 1 / 2 ^ 50)" using mult_right_mono [OF lower, of "1 + 1 / 2 ^ 50"] by (simp add: ac_simps)
    finally have "x \<le> ?c' * (1 + 1 / 2 ^ 50) - ?c" by simp
    then have "?rt * x \<le> ?rt * (?c' * (1 + 1 / 2 ^ 50) - ?c)" using r by (intro mult_left_mono) simp_all
    moreover have "?rt * x = real_of_int (refill t d)" using r by (simp add: x_def)
    ultimately show ?thesis using upper c' sum by simp
  qed
  then show "0 \<le> ?c'" "?c' = ?c \<or> ?c' \<le> t * (1 + 1 / 2 ^ 50)"
    "real_of_int (refill t d) \<le> ?rt * (?c' * (1 + 1 / 2 ^ 50) - ?c)" by blast+
qed

definition slack :: "real \<Rightarrow> real \<Rightarrow> nat \<Rightarrow> real" where
  \<comment> \<open>what rounding may add in \<open>n\<close> events up to time \<open>t\<close>, in bytes\<close>
  "slack rate t n = rate * t * real n / 2 ^ 49"

definition within_rate :: "xpass_queue \<Rightarrow> real \<Rightarrow> nat \<Rightarrow> int \<Rightarrow> xpass_queue \<Rightarrow> bool" where
  "within_rate d0 t n sent d \<longleftrightarrow> token_refresh_rate d = token_refresh_rate d0 \<and> max_tokens d = max_tokens d0
     \<and> 0 \<le> token_bucket_clock d \<and> token_bucket_clock d \<le> t * (1 + 1 / 2 ^ 50)
     \<and> real_of_int (sent + tokens d) \<le> real_of_int (tokens d0)
         + token_refresh_rate d0 * (token_bucket_clock d - token_bucket_clock d0) + slack (token_refresh_rate d0) t n"

lemma within_rate_bucket: "bucket_of d' = bucket_of d \<Longrightarrow> within_rate d0 t n x d' = within_rate d0 t n x d"
  by (simp add: within_rate_def bucket_of_def)

lemma within_rate_mono:
  assumes "within_rate d0 t n x d" "bucket_ok d0" "0 \<le> t" "t \<le> t'" "n \<le> n'"
  shows "within_rate d0 t' n' x d"
proof -
  have r: "0 < token_refresh_rate d0" using assms(2) by (simp add: bucket_ok_def)
  have "t * (1 + 1 / 2 ^ 50) \<le> t' * (1 + 1 / 2 ^ 50)" using assms(4) by (intro mult_right_mono) simp_all
  moreover have "slack (token_refresh_rate d0) t n \<le> slack (token_refresh_rate d0) t' n'"
    unfolding slack_def using r assms(3-5) by (intro divide_right_mono mult_mono) simp_all
  ultimately show ?thesis using assms(1) unfolding within_rate_def by linarith
qed

lemma within_rate_deque:
  assumes "within_rate d0 t n x d" "bucket_ok d0" "bucket_ok d" "deque_effect t d r d'" "0 \<le> t"
  shows "within_rate d0 t (Suc n) (x + credit_bytes (sent_of r)) d'"
proof -
  let ?rt = "token_refresh_rate d0" and ?c = "token_bucket_clock d" and ?c' = "token_bucket_clock d'"
  let ?w = "1 + 1 / 2 ^ 50 :: real"
  have r: "0 < ?rt" using assms(2) by (simp add: bucket_ok_def)
  have rt: "token_refresh_rate d = ?rt" and c0: "0 \<le> ?c" and c: "?c \<le> t * ?w"
    and old: "real_of_int (x + tokens d) \<le> real_of_int (tokens d0) + ?rt * (?c - token_bucket_clock d0) + slack ?rt t n"
    using assms(1) by (simp_all add: within_rate_def)
  note k = bucket_clock_step [OF assms(3) c0 assms(4)]
  have c': "?c' \<le> t * ?w" using k(2) c by auto
  have "?c' * (1 / 2 ^ 50) \<le> t * ?w * (1 / 2 ^ 50)" using c' by (intro mult_right_mono) simp_all
  also have "\<dots> \<le> t * 2 * (1 / 2 ^ 50)" using assms(5) by (intro mult_right_mono mult_left_mono) simp_all
  finally have "?c' * ?w - ?c \<le> ?c' - ?c + t / 2 ^ 49" by (simp add: distrib_left)
  then have "?rt * (?c' * ?w - ?c) \<le> ?rt * (?c' - ?c + t / 2 ^ 49)" using r by (intro mult_left_mono) simp_all
  then have "real_of_int (refill t d) \<le> ?rt * (?c' - ?c + t / 2 ^ 49)" using k(3) rt by simp
  also have "\<dots> = ?rt * (?c' - ?c) + ?rt * t / 2 ^ 49" by (simp add: distrib_left)
  finally have n: "real_of_int (refill t d) \<le> ?rt * (?c' - ?c) + ?rt * t / 2 ^ 49" .
  have sl: "slack ?rt t (Suc n) = slack ?rt t n + ?rt * t / 2 ^ 49" by (simp add: slack_def add_divide_distrib distrib_left)
  have "tokens d' + credit_bytes (sent_of r) \<le> tokens d + refill t d"
    and same: "token_refresh_rate d' = token_refresh_rate d" "max_tokens d' = max_tokens d"
    using assms(4) by (simp_all add: deque_effect_def)
  then have "real_of_int (x + credit_bytes (sent_of r) + tokens d') \<le> real_of_int (x + tokens d) + real_of_int (refill t d)"
    by linarith
  also have "\<dots> \<le> real_of_int (tokens d0) + (?rt * (?c - token_bucket_clock d0) + ?rt * (?c' - ?c)) + slack ?rt t (Suc n)"
    using old n unfolding sl by linarith
  also have "?rt * (?c - token_bucket_clock d0) + ?rt * (?c' - ?c) = ?rt * (?c' - token_bucket_clock d0)"
    by (simp add: right_diff_distrib)
  finally show ?thesis using k(1) c' same rt assms(1) by (simp add: within_rate_def)
qed

lemma reach_within_rate:
  assumes "xpass_reach s0 es ps ds s" "xpass_good s0" "xpass_awake s0" "0 \<le> last_change s0"
    and "0 \<le> token_bucket_clock (own s0)" "token_bucket_clock (own s0) \<le> last_change s0"
    and "last_change s0 \<le> t" "\<forall>e\<in>set es. event_time e \<le> t"
  shows "within_rate (own s0) t (length es) (credit_bytes ps) (own s)"
  using assms
proof (induction arbitrary: t rule: xpass_reach.induct)
  case start
  have "last_change s0 \<le> last_change s0 * (1 + 1 / 2 ^ 50)" using start.prems(3) by (simp add: distrib_left)
  also have "\<dots> \<le> t * (1 + 1 / 2 ^ 50)" using start.prems(6) by (intro mult_right_mono) simp_all
  finally show ?case using start.prems by (simp add: within_rate_def slack_def)
next
  case (step es ps ds s e ps' ds' s')
  let ?t = "event_time e"
  have t: "0 \<le> ?t" "?t \<le> t" using step.hyps(3) step.prems(3,7) by auto
  have b0: "bucket_ok (own s0)" using step.prems(1) by (simp add: xpass_good_def xpass_ok_def)
  note rk = reach_keeps [OF step.hyps(1) step.prems(1,2)]
  have good: "xpass_good s" "xpass_awake s" using rk by blast+
  have lc: "last_change s \<le> ?t" using rk step.hyps(2,3) by blast
  have ih: "within_rate (own s0) ?t (length es) (credit_bytes ps) (own s)"
    using step.IH [OF step.prems(1-5) step.hyps(3,2)] .
  have "step_effect ?t s ps' s'" using step_keeps [OF step.hyps(4) good lc] by blast
  then have "within_rate (own s0) ?t (Suc (length es)) (credit_bytes (ps @ ps')) (own s')"
    unfolding step_effect_def
  proof (elim disjE conjE exE)
    assume none: "ps' = []" and same: "bucket_of (own s') = bucket_of (own s)"
    have "within_rate (own s0) ?t (Suc (length es)) (credit_bytes ps) (own s)"
      by (rule within_rate_mono [OF ih b0 t(1) order_refl]) simp
    then show ?thesis unfolding none append_Nil2 within_rate_bucket [OF same] .
  next
    fix d r d'
    assume d: "bucket_of d = bucket_of (own s)" "deque_effect ?t d r d'" "bucket_of d' = bucket_of (own s')" "ps' = sent_of r"
    have "bucket_ok d" using d(1) good(1) by (auto simp: xpass_good_def xpass_ok_def bucket_ok_def bucket_of_def)
    moreover have "within_rate (own s0) ?t (length es) (credit_bytes ps) d" using ih within_rate_bucket [OF d(1)] by blast
    ultimately have "within_rate (own s0) ?t (Suc (length es)) (credit_bytes ps + credit_bytes (sent_of r)) d'"
      using within_rate_deque b0 d(2) t(1) by blast
    then show ?thesis using within_rate_bucket [OF d(3)] d(4) by (simp only: credit_bytes_simps)
  qed
  from within_rate_mono [OF this b0 t order_refl] show ?case by simp
qed

text \<open>
  Property C6. The credit throttle: in every run of the queue with its timer, whatever arrives and
  whenever, the bytes of credit that have left by time \<open>t\<close> are at most the tokens there were and
  what the refresh rate gives from the clock of the bucket to \<open>t\<close>, but for the rounding of the
  clock, at most one part in \<open>2 ^ 49\<close> of \<open>rate * t\<close> for each event.
\<close>
theorem xpass_credit_rate:
  assumes "xpass_reach s0 es sent drops s" "xpass_good s0" "xpass_awake s0"
    and "0 \<le> token_bucket_clock (own s0)" "token_bucket_clock (own s0) \<le> last_change s0" "last_change s0 \<le> t"
    and "\<forall>e\<in>set es. event_time e \<le> t"
  shows "real_of_int (credit_bytes sent) \<le> real_of_int (tokens (own s0))
    + token_refresh_rate (own s0) * (t - token_bucket_clock (own s0)) + slack (token_refresh_rate (own s0)) t (Suc (length es))"
proof -
  let ?r = "token_refresh_rate (own s0)" and ?c = "token_bucket_clock (own s)" and ?b = "token_bucket_clock (own s0)"
  have t: "0 \<le> last_change s0" "0 \<le> t" using assms(4-6) by linarith+
  have r: "0 < ?r" using assms(2) by (simp add: xpass_good_def xpass_ok_def bucket_ok_def)
  have "bucket_ok (own s)" using reach_keeps [OF assms(1-3)] by (simp add: xpass_good_def xpass_ok_def)
  then have "0 \<le> tokens (own s)" by (simp add: bucket_ok_def)
  moreover have w: "?c \<le> t * (1 + 1 / 2 ^ 50)" "real_of_int (credit_bytes sent + tokens (own s)) \<le> real_of_int (tokens (own s0))
      + ?r * (?c - ?b) + slack ?r t (length es)"
    using reach_within_rate [OF assms(1-3) t(1) assms(4-7)] by (simp_all add: within_rate_def)
  moreover have "?r * (?c - ?b) \<le> ?r * (t - ?b) + ?r * t / 2 ^ 49"
  proof -
    have "t * (1 + 1 / 2 ^ 50) \<le> t + t / 2 ^ 49" using t(2) by (simp add: distrib_left)
    then have "?c - ?b \<le> t - ?b + t / 2 ^ 49" using w(1) by linarith
    then have "?r * (?c - ?b) \<le> ?r * (t - ?b + t / 2 ^ 49)" using r by (intro mult_left_mono) simp_all
    then show ?thesis by (simp only: distrib_left times_divide_eq_right)
  qed
  moreover have "slack ?r t (Suc (length es)) = slack ?r t (length es) + ?r * t / 2 ^ 49"
    by (simp add: slack_def add_divide_distrib distrib_left)
  ultimately show ?thesis by simp
qed


text \<open>
  What leaves: with the bucket refilled to the present, the first credit if its tokens
  are there, else the first data packet; if neither can go and credit waits, the timer is set to
  when the missing tokens are due. (The comment above \<open>deque\<close> says that data has priority.)
\<close>
theorem xpass_deque_choice:
  assumes "bucket_ok (own s)"
  shows "let full = min (tokens (own s) + refill t (own s)) (max_tokens (own s)) in
    case credit_q (own s) of
      p # ps \<Rightarrow>
        if pkt_size p \<le> full then
          \<exists>s'. xpass_deque t s = Some (Some p, s') \<and> credit_q (own s') = ps \<and> data_q (own s') = data_q (own s)
            \<and> tokens (own s') = full - pkt_size p
        else (case data_q (own s) of
          q # qs \<Rightarrow> \<exists>s'. xpass_deque t s = Some (Some q, s') \<and> data_q (own s') = qs \<and> credit_q (own s') = p # ps
            \<and> tokens (own s') = full
        | [] \<Rightarrow> \<exists>s'. xpass_deque t s = Some (None, s') \<and> tokens (own s') = full \<and> tm_status (credit_timer (own s')) = TIMER_PENDING
            \<and> tm_due (credit_timer (own s')) = dadd t (ddiv (of_int (pkt_size p - full)) (token_refresh_rate (own s))))
    | [] \<Rightarrow> (case data_q (own s) of
          q # qs \<Rightarrow> \<exists>s'. xpass_deque t s = Some (Some q, s') \<and> data_q (own s') = qs \<and> tokens (own s') = full
        | [] \<Rightarrow> \<exists>s'. xpass_deque t s = Some (None, s') \<and> tm_status (credit_timer (own s')) \<noteq> TIMER_PENDING)"
proof (cases rule: xpass_deque_cases [OF assms, of t, case_names credit data wait empty])
  case (credit d p ps)
  note c = cancelled_bucket [OF assms credit(4)]
  show ?thesis unfolding Let_def c(7) [symmetric] using credit c(3) by simp
next
  case (data d q qs)
  note c = cancelled_bucket [OF assms data(4)]
  show ?thesis unfolding Let_def c(7) [symmetric] using data(1-3) c(2)
    by (cases "credit_q (own s)") (fastforce simp: not_le [symmetric])+
next
  case (wait d p ps)
  note c = cancelled_bucket [OF assms wait(5)]
  show ?thesis unfolding Let_def c(7) [symmetric] using wait c(6) by simp
next
  case (empty d)
  note c = cancelled_bucket [OF assms empty(4)]
  show ?thesis unfolding Let_def c(7) [symmetric] using empty c(4) by simp
qed

text \<open>
  A credit larger than the bucket never leaves, and all credit behind it waits with it: each time
  the timer fires it is set again.
\<close>
lemma xpass_oversized_credit:
  assumes "bucket_ok (own s)" "credit_q (own s) = p # ps" "max_tokens (own s) < pkt_size p" "xpass_deque t s = Some (r, s')"
  shows "credit_q (own s') = p # ps"
proof (cases rule: xpass_deque_cases [OF assms(1), of t, case_names credit data wait empty])
  case (credit d q qs)
  then show ?thesis using cancelled_bucket [OF assms(1) credit(4)] assms(2,3) by simp
next
  case (data d q qs)
  then show ?thesis using cancelled_bucket [OF assms(1) data(4)] assms by simp
next
  case (wait d q qs)
  then show ?thesis using cancelled_bucket [OF assms(1) wait(5)] assms by simp
next
  case (empty d)
  then show ?thesis using assms by simp
qed

section \<open>Examples\<close>

definition ex_xpass :: xpass_queue where
  "ex_xpass = \<lparr>data_q = [], credit_q = [], credit_q_limit = 840, data_q_limit = 100000, tokens = 100, max_tokens = 168,
     token_bucket_clock = 0, token_refresh_rate = 1000, credit_timer = new_timer\<rparr>"

definition ex_xcredit :: packet where
  "ex_xcredit = ex_packet\<lparr>pkt_ptype := PT_XPASS_CREDIT, pkt_size := 84\<rparr>"

lemmas ex_xpass_defs = ex_xpass_def ex_xcredit_def ex_packet_def new_timer_def

lemma ex_xpass_good: "xpass_good (new_queue 1 ex_xpass)" "xpass_awake (new_queue 1 ex_xpass)"
  by (simp_all add: xpass_good_def xpass_ok_def bucket_ok_def xpass_held_def kinds_ok_def xpass_awake_def ex_xpass_def)

lemma ex_xpass_reach: "\<exists>s. xpass_reach (new_queue 1 ex_xpass) [Arrive 0 ex_xcredit, Arrive 0 ex_xcredit, Resume 0] [ex_xcredit] [] s
  \<and> credit_q (own s) = [ex_xcredit] \<and> \<not> blocked s"
proof -
  let ?s0 = "new_queue 1 ex_xpass"
  have nc: "util_records s = 0 \<Longrightarrow> \<exists>s'. note_change t s = Some s' \<and> own s' = own s \<and> util_records s' = 0
      \<and> unblock_on_resume s' = unblock_on_resume s \<and> blocked s' = blocked s" for t and s :: "xpass_queue queue"
    by (simp add: note_change_def queue_utilUpdate_def Let_def)
  obtain s1 where s1: "xpass_recv 0 ex_xcredit ?s0 = Some (Some ex_xcredit, [], s1)" "util_records s1 = 0"
    "own s1 = ex_xpass\<lparr>tokens := 16\<rparr>" "blocked s1" "unblock_on_resume s1"
    using nc [of "?s0\<lparr>own := ex_xpass\<lparr>tokens := 16\<rparr>\<rparr>" 0]
    by (auto simp: xpass_recv_def queue_recv_def queue_poll_def xpass_enque_def xpass_deque_def updateTokenBucket_def
        timer_force_cancel_def double_ops Let_def new_queue_def ex_xpass_defs)
  obtain s2 where s2: "xpass_recv 0 ex_xcredit s1 = Some (None, [], s2)" "util_records s2 = 0"
    "own s2 = ex_xpass\<lparr>tokens := 16, credit_q := [ex_xcredit]\<rparr>" "blocked s2" "unblock_on_resume s2"
    using s1 by (auto simp: xpass_recv_def queue_recv_def queue_poll_def xpass_enque_def Let_def ex_xpass_defs)
  let ?d = "ex_xpass\<lparr>tokens := 16, credit_q := [ex_xcredit], credit_timer := timer_resched 0 (ddiv 68 1000) new_timer\<rparr>"
  obtain s3 where s3: "queue_resume xpass_deque 0 s2 = Some (None, s3)" "own s3 = ?d" "\<not> blocked s3"
    using nc [of "s2\<lparr>own := ?d\<rparr>" 0] s2
    by (auto simp: queue_resume_def xpass_deque_def updateTokenBucket_def timer_force_cancel_def dsub_def Let_def ex_xpass_defs)
  have fits: "xpass_fits 0 ex_xcredit" by (simp add: xpass_fits_def ex_xpass_defs)
  have "xpass_reach ?s0 [Arrive 0 ex_xcredit] [ex_xcredit] [] s1"
    using xpass_reach.step [OF xpass_reach.start, of "Arrive 0 ex_xcredit" ?s0 "[ex_xcredit]" "[]" s1]
      xpass_step.arrive [OF s1(1) fits] by simp
  then have "xpass_reach ?s0 [Arrive 0 ex_xcredit, Arrive 0 ex_xcredit] [ex_xcredit] [] s2"
    using xpass_reach.step [of ?s0 "[Arrive 0 ex_xcredit]" "[ex_xcredit]" "[]" s1 "Arrive 0 ex_xcredit" "[]" "[]" s2]
      xpass_step.arrive [OF s2(1) fits] by simp
  then have "xpass_reach ?s0 [Arrive 0 ex_xcredit, Arrive 0 ex_xcredit, Resume 0] [ex_xcredit] [] s3"
    using xpass_reach.step [of ?s0 "[Arrive 0 ex_xcredit, Arrive 0 ex_xcredit]" "[ex_xcredit]" "[]" s2 "Resume 0" "[]" "[]" s3]
      xpass_step.resume [OF s2(4) s3(1)] by simp
  then show ?thesis using s3 by auto
qed

theorem xpass_credit_rate_witness:
  "\<exists>s. xpass_reach (new_queue 1 ex_xpass) [Arrive 0 ex_xcredit, Arrive 0 ex_xcredit, Resume 0] [ex_xcredit] [] s
    \<and> real_of_int (credit_bytes [ex_xcredit]) \<le> 100"
proof -
  obtain s where r: "xpass_reach (new_queue 1 ex_xpass) [Arrive 0 ex_xcredit, Arrive 0 ex_xcredit, Resume 0] [ex_xcredit] [] s"
    using ex_xpass_reach by blast
  show ?thesis using xpass_credit_rate [OF r ex_xpass_good, of 0] r
    by (auto simp: slack_def ex_xpass_def)
qed


theorem xpass_deque_choice_witness:
  "\<exists>s'. xpass_deque 0 (new_queue 1 (ex_xpass\<lparr>credit_q := [ex_xcredit], data_q := [ex_packet]\<rparr>)) = Some (Some ex_xcredit, s')
    \<and> tokens (own s') = 16"
  using xpass_deque_choice [of "new_queue 1 (ex_xpass\<lparr>credit_q := [ex_xcredit], data_q := [ex_packet]\<rparr>)" 0]
  by (auto simp: bucket_ok_def refill_def dsub_def Let_def ex_xpass_defs)

end
