(* ===== verification/XPass_Agent.thy ===== *)
theory XPass_Agent
  imports Ns_Timer Ns_Packet "HOL-Library.Signed_Division"
begin

text \<open>
  The ExpressPass transport, \<open>XPassAgent\<close> of \<open>apps/r2p2-cc/xpass/xpass.h\<close> and
  \<open>apps/r2p2-cc/xpass/xpass.cc\<close>. Each agent is both a sender, which asks for credit and sends a data
  packet for every credit packet that comes, and a receiver, which sends credit at a rate that a
  feedback control adapts to the credit that is lost.

  A handler takes the clock, the results of the calls of \<open>rand\<close> that it makes and the agent, and
  gives what it sends, or hands to the application, and the agent after it. \<open>None\<close> is \<open>exit\<close>, \<open>abort\<close>,
  a failed assertion, an uncaught exception, or a conversion or division that is undefined.
\<close>

section \<open>Packets\<close>

datatype xpass_send_state = XPASS_SEND_CLOSED | XPASS_SEND_CLOSE_WAIT | XPASS_SEND_CREDIT_SENDING
  | XPASS_SEND_CREDIT_STOP_RECEIVED | XPASS_SEND_NSTATE

datatype xpass_recv_state = XPASS_RECV_CLOSED | XPASS_RECV_CLOSE_WAIT | XPASS_RECV_CREDIT_REQUEST_SENT
  | XPASS_RECV_CREDIT_RECEIVING | XPASS_RECV_CREDIT_STOP_SENT | XPASS_RECV_NSTATE

record request_id =
  \<comment> \<open>the fields of \<open>RequestIdTuple\<close> and of the header \<open>hdr_r2p2\<close> that go with a message\<close>
  app_level_id :: int
  msg_bytes :: int
  is_request :: bool
  cl_thread_id :: int
  cl_addr :: int
  sr_addr :: int
  client_port :: int
  req_ts :: real

definition zero_header :: request_id where
  \<comment> \<open>the header of a new packet, all bits zero; message type 0 is \<open>REQUEST\<close>\<close>
  "zero_header = \<lparr>app_level_id = 0, msg_bytes = 0, is_request = True, cl_thread_id = 0, cl_addr = 0, sr_addr = 0,
     client_port = 0, req_ts = 0\<rparr>"

record xpass_packet =
  xp_ptype :: packet_t
  xp_size :: int
  xp_seqno :: int
  xp_ackno :: int
  xp_hlen :: int
  credit_seq :: int
  credit_sent_time :: real
  sendbuffer :: int
  r2p2_header :: request_id

definition allocpkt :: "packet_t \<Rightarrow> xpass_packet" where
  "allocpkt t = \<lparr>xp_ptype = t, xp_size = 0, xp_seqno = 0, xp_ackno = 0, xp_hlen = 0, credit_seq = 0,
     credit_sent_time = 0, sendbuffer = 0, r2p2_header = zero_header\<rparr>"

datatype xpass_output = Send xpass_packet | Recv_msg int request_id

section \<open>The agent\<close>

record xpass_agent =
  min_ethernet_size :: int
  max_ethernet_size :: int
  min_credit_size :: int
  max_credit_size :: int
  xpass_hdr_size :: int
  max_credit_rate :: int
  xp_alpha :: real
  target_loss_scaling :: real
  w_init :: real
  min_w :: real
  max_jitter :: real
  min_jitter :: real
  retransmit_timeout :: real
  default_credit_stop_timeout :: real
  xp_dport :: int
  credit_send_state :: xpass_send_state
  credit_recv_state :: xpass_recv_state
  cur_credit_rate :: int
  last_credit_rate_update :: real
  credit_total :: int
  credit_dropped :: int
  xp_w :: real
  can_increase_w :: bool
  send_credit_timer :: timer
  credit_stop_timer :: timer
  sender_retransmit_timer :: timer
  receiver_retransmit_timer :: timer
  fct_timer :: timer
  curseq :: int
  t_seqno :: int
  recv_next :: int
  c_seqno :: int
  c_recv_next :: int
  xp_rtt :: real
  fst_time :: real
  fct :: real
  credit_recved :: int
  credit_recved_rtt :: int
  last_credit_recv_update :: real
  wait_retransmission :: bool
  times_conn_used :: int
  credit_wasted :: int
  cur_req_id_tup :: "request_id option"

definition datalen_remaining :: "xpass_agent \<Rightarrow> int" where
  "datalen_remaining a = curseq a - t_seqno a"

definition max_segment :: "xpass_agent \<Rightarrow> int" where
  "max_segment a = max_ethernet_size a - xpass_hdr_size a"

definition pkt_remaining :: "xpass_agent \<Rightarrow> int option" where
  "pkt_remaining a = (if max_segment a = 0 then None
     else double_to_int (of_int \<lceil>ddiv (of_int (datalen_remaining a)) (of_int (max_segment a))\<rceil>))"

definition avg_credit_size :: "xpass_agent \<Rightarrow> real" where
  "avg_credit_size a = ddiv (of_int (min_credit_size a + max_credit_size a)) 2"

definition stop_if_set :: "timer \<Rightarrow> timer option" where
  \<comment> \<open>\<open>if (status() != TIMER_IDLE) cancel()\<close>\<close>
  "stop_if_set tm = (if tm_status tm \<noteq> TIMER_IDLE then timer_cancel tm else Some tm)"

definition xpass_reset :: "xpass_agent \<Rightarrow> xpass_agent option" where
  "xpass_reset a = do {
     send \<leftarrow> stop_if_set (send_credit_timer a);
     stop \<leftarrow> stop_if_set (credit_stop_timer a);
     sretr \<leftarrow> stop_if_set (sender_retransmit_timer a);
     rretr \<leftarrow> stop_if_set (receiver_retransmit_timer a);
     fctt \<leftarrow> stop_if_set (fct_timer a);
     Some (a\<lparr>credit_send_state := XPASS_SEND_CLOSED, credit_recv_state := XPASS_RECV_CLOSED,
       last_credit_rate_update := 0, credit_total := 0, credit_dropped := 0, can_increase_w := False,
       curseq := 1, t_seqno := 1, recv_next := 1, c_seqno := 1, c_recv_next := 1, xp_rtt := 0,
       credit_recved := 0, wait_retransmission := False, credit_wasted := 0, credit_recved_rtt := 0,
       last_credit_recv_update := 0, times_conn_used := times_conn_used a + 1,
       send_credit_timer := send, credit_stop_timer := stop, sender_retransmit_timer := sretr,
       receiver_retransmit_timer := rretr, fct_timer := fctt\<rparr>) }"

definition xpass_init :: "real \<Rightarrow> xpass_agent \<Rightarrow> xpass_agent" where
  "xpass_init now a = a\<lparr>xp_w := w_init a, last_credit_rate_update := now\<rparr>"

section \<open>Making packets\<close>

definition construct_credit_request :: "real \<Rightarrow> xpass_agent \<Rightarrow> (xpass_packet \<times> xpass_agent) option" where
  \<comment> \<open>\<open>rtt_\<close> holds the time of the request until the first credit comes\<close>
  "construct_credit_request now a = do {
     n \<leftarrow> pkt_remaining a;
     Some ((allocpkt PT_XPASS_CREDIT_REQUEST)\<lparr>xp_seqno := t_seqno a, xp_ackno := recv_next a,
         xp_hlen := xpass_hdr_size a, xp_size := min_ethernet_size a, credit_seq := 0, credit_sent_time := now,
         sendbuffer := n\<rparr>,
       a\<lparr>xp_rtt := now\<rparr>) }"

definition construct_credit_stop :: "xpass_agent \<Rightarrow> xpass_packet" where
  "construct_credit_stop a = (allocpkt PT_XPASS_CREDIT_STOP)\<lparr>xp_seqno := t_seqno a, xp_ackno := recv_next a,
     xp_hlen := xpass_hdr_size a, xp_size := min_ethernet_size a, credit_seq := 0\<rparr>"

definition credit_size :: "int \<Rightarrow> xpass_agent \<Rightarrow> int option" where
  "credit_size r a = (if min_credit_size a < max_credit_size a
     then Some (min_credit_size a + r smod (max_credit_size a - min_credit_size a + 1))
     else if min_credit_size a \<noteq> max_credit_size a then None
     else Some (min_credit_size a))"

definition construct_credit :: "int \<Rightarrow> real \<Rightarrow> xpass_agent \<Rightarrow> (xpass_packet \<times> xpass_agent) option" where
  "construct_credit r now a = do {
     sz \<leftarrow> credit_size r a;
     Some ((allocpkt PT_XPASS_CREDIT)\<lparr>xp_seqno := t_seqno a, xp_ackno := recv_next a, xp_hlen := sz, xp_size := sz,
         credit_sent_time := now, credit_seq := c_seqno a\<rparr>,
       a\<lparr>c_seqno := max 1 (c_seqno a + 1)\<rparr>) }"

definition message_header :: "request_id option \<Rightarrow> request_id option" where
  \<comment> \<open>the header of a data packet; the assertion is that the message has a time\<close>
  "message_header req = (case req of
     None \<Rightarrow> Some zero_header
   | Some t \<Rightarrow> if req_ts t > 0 then Some (t\<lparr>client_port := 0\<rparr>) else None)"

definition construct_data :: "xpass_packet \<Rightarrow> xpass_agent \<Rightarrow> (xpass_packet \<times> xpass_agent) option" where
  "construct_data credit a = (let datalen = min (max_segment a) (datalen_remaining a) in
     if datalen \<le> 0 then None
     else do {
       hdr \<leftarrow> message_header (cur_req_id_tup a);
       Some ((allocpkt PT_XPASS_DATA)\<lparr>xp_seqno := t_seqno a, xp_ackno := recv_next a, xp_hlen := xpass_hdr_size a,
           xp_size := max (min_ethernet_size a) (xpass_hdr_size a + datalen),
           credit_sent_time := credit_sent_time credit, credit_seq := credit_seq credit, r2p2_header := hdr\<rparr>,
         a\<lparr>t_seqno := t_seqno a + datalen\<rparr>) })"

definition construct_nack :: "int \<Rightarrow> xpass_agent \<Rightarrow> xpass_packet" where
  "construct_nack seq_no a = (allocpkt PT_XPASS_NACK)\<lparr>xp_ackno := seq_no, xp_hlen := xpass_hdr_size a,
     xp_size := min_ethernet_size a\<rparr>"

section \<open>The feedback control\<close>

definition min_rate :: "xpass_agent \<Rightarrow> int option" where
  "min_rate a = double_to_int (ddiv (avg_credit_size a) (xp_rtt a))"

definition loss_rate :: "xpass_agent \<Rightarrow> real" where
  "loss_rate a = ddiv (of_int (credit_dropped a)) (of_int (credit_total a))"

definition target_loss :: "xpass_agent \<Rightarrow> real" where
  "target_loss a = dmul (dsub 1 (ddiv (of_int (cur_credit_rate a)) (of_int (max_credit_rate a)))) (target_loss_scaling a)"

definition congested_control :: "real \<Rightarrow> xpass_agent \<Rightarrow> xpass_agent option" where
  "congested_control now a = do {
     r \<leftarrow> (if loss_rate a \<ge> 1 then min_rate a
       else double_to_int (dmul (ddiv (dmul (avg_credit_size a) (of_int (credit_total a - credit_dropped a)))
           (dsub now (last_credit_rate_update a))) (dadd 1 (target_loss a))));
     Some (a\<lparr>cur_credit_rate := (if r > cur_credit_rate a then cur_credit_rate a else r),
       xp_w := max (ddiv (xp_w a) 2) (min_w a), can_increase_w := False\<rparr>) }"

definition uncongested_control :: "xpass_agent \<Rightarrow> xpass_agent option" where
  "uncongested_control a = (let
     a = a\<lparr>xp_w := (if can_increase_w a then min (dadd (xp_w a) (dbl (5 / 100))) (dbl (5 / 10)) else xp_w a),
           can_increase_w := True\<rparr>
   in do {
     r \<leftarrow> (if cur_credit_rate a < max_credit_rate a
       then double_to_int (dadd (dmul (xp_w a) (of_int (max_credit_rate a)))
              (dmul (dsub 1 (xp_w a)) (of_int (cur_credit_rate a))))
       else Some (cur_credit_rate a));
     Some (a\<lparr>cur_credit_rate := r\<rparr>) })"

definition bound_rate :: "int \<Rightarrow> int \<Rightarrow> int \<Rightarrow> int" where
  \<comment> \<open>first the ceiling, then the floor\<close>
  "bound_rate low high r = (let r = (if r > high then high else r) in if r < low then low else r)"

definition control_due :: "real \<Rightarrow> xpass_agent \<Rightarrow> bool" where
  \<comment> \<open>none of the three early returns is taken\<close>
  "control_due now a \<longleftrightarrow> \<not> xp_rtt a \<le> 0 \<and> \<not> dsub now (last_credit_rate_update a) < xp_rtt a \<and> credit_total a \<noteq> 0"

definition credit_feedback_control :: "real \<Rightarrow> xpass_agent \<Rightarrow> xpass_agent option" where
  "credit_feedback_control now a = (if \<not> control_due now a then Some a
     else if max_credit_rate a = 0 then None
     else do {
       low \<leftarrow> min_rate a;
       a \<leftarrow> (if loss_rate a > target_loss a then congested_control now a else uncongested_control a);
       Some (a\<lparr>cur_credit_rate := bound_rate low (max_credit_rate a) (cur_credit_rate a),
         credit_total := 0, credit_dropped := 0, last_credit_rate_update := now\<rparr>) })"

section \<open>Sending\<close>

definition credit_delay :: "int \<Rightarrow> xpass_agent \<Rightarrow> real option" where
  \<comment> \<open>the time to the next credit; \<open>RAND_MAX\<close> is \<open>2 ^ 31 - 1\<close>\<close>
  "credit_delay r a = (let delay = ddiv (avg_credit_size a) (of_int (cur_credit_rate a)) in
     if max_jitter a > min_jitter a then
       (let jitter = ddiv (of_int r) 2147483647;
            jitter = dadd (dmul jitter (dsub (max_jitter a) (min_jitter a))) (min_jitter a)
        in Some (dmul delay (dadd 1 jitter)))
     else if max_jitter a < min_jitter a then None
     else Some delay)"

definition send_credit :: "int \<Rightarrow> int \<Rightarrow> real \<Rightarrow> xpass_agent \<Rightarrow> (xpass_output list \<times> xpass_agent) option" where
  "send_credit r1 r2 now a = do {
     a \<leftarrow> credit_feedback_control now a;
     (p, a) \<leftarrow> construct_credit r1 now a;
     if cur_credit_rate a \<le> 0 then None
     else do {
       delay \<leftarrow> credit_delay r2 a;
       Some ([Send p], a\<lparr>send_credit_timer := timer_resched now delay (send_credit_timer a)\<rparr>) } }"

definition send_credit_stop :: "real \<Rightarrow> xpass_agent \<Rightarrow> xpass_output list \<times> xpass_agent" where
  "send_credit_stop now a = ([Send (construct_credit_stop a)],
     a\<lparr>sender_retransmit_timer := timer_resched now
         (if xp_rtt a > 0 then dmul 2 (xp_rtt a) else default_credit_stop_timeout a) (sender_retransmit_timer a),
       credit_recv_state := XPASS_RECV_CREDIT_STOP_SENT\<rparr>)"

definition advance_bytes :: "real \<Rightarrow> int \<Rightarrow> xpass_agent \<Rightarrow> (xpass_output list \<times> xpass_agent) option" where
  "advance_bytes now nb a = (if credit_recv_state a \<noteq> XPASS_RECV_CLOSED then None
     else if nb \<le> 0 then None
     else do {
       (p, a) \<leftarrow> construct_credit_request now (a\<lparr>curseq := curseq a + nb\<rparr>);
       tm \<leftarrow> timer_sched now (retransmit_timeout a) (sender_retransmit_timer a);
       Some ([Send p], a\<lparr>sender_retransmit_timer := tm, credit_recv_state := XPASS_RECV_CREDIT_REQUEST_SENT\<rparr>) })"

definition advance_message :: "real \<Rightarrow> int \<Rightarrow> request_id \<Rightarrow> xpass_agent \<Rightarrow> (xpass_output list \<times> xpass_agent) option" where
  "advance_message now nb req a = (if \<not> req_ts req > 0 then None
     else advance_bytes now nb (a\<lparr>cur_req_id_tup := Some req\<rparr>))"

definition advance_command :: "real \<Rightarrow> int \<Rightarrow> xpass_agent \<Rightarrow> (bool \<times> xpass_output list \<times> xpass_agent) option" where
  \<comment> \<open>the command \<open>advance-bytes\<close>, which fails while the agent is busy\<close>
  "advance_command now nb a = (if credit_recv_state a = XPASS_RECV_CLOSED
     then map_option (\<lambda>(out, a). (True, out, a)) (advance_bytes now nb a)
     else Some (False, [], a))"

definition send_data :: "xpass_packet \<Rightarrow> xpass_agent \<Rightarrow> (xpass_output list \<times> xpass_agent) option" where
  \<comment> \<open>a data packet for a credit packet, if there are data\<close>
  "send_data credit a = (if datalen_remaining a > 0 then do {
       (p, a) \<leftarrow> construct_data credit a; Some ([Send p], a) }
     else Some ([], a))"

section \<open>Receiving\<close>

definition recv_credit_request :: "int \<Rightarrow> int \<Rightarrow> real \<Rightarrow> xpass_packet \<Rightarrow> xpass_agent \<Rightarrow> (xpass_output list \<times> xpass_agent) option" where
  "recv_credit_request r1 r2 now p a = (let
     a = a\<lparr>fct_timer := (if credit_send_state a = XPASS_SEND_CLOSE_WAIT then timer_force_cancel (fct_timer a) else fct_timer a)\<rparr>
   in if credit_send_state a = XPASS_SEND_CLOSE_WAIT \<or> credit_send_state a = XPASS_SEND_CLOSED then
        (let a = xpass_init now a;
             lalpha = (if sendbuffer p \<ge> 40 then xp_alpha a else ddiv (dmul (xp_alpha a) (of_int (sendbuffer p))) 40)
         in do {
           rate \<leftarrow> double_to_int (dmul lalpha (of_int (max_credit_rate a)));
           (out, a) \<leftarrow> send_credit r1 r2 now (a\<lparr>cur_credit_rate := rate, fst_time := credit_sent_time p\<rparr>);
           Some (out, a\<lparr>credit_send_state := XPASS_SEND_CREDIT_SENDING\<rparr>) })
      else Some ([], a))"

definition sched_credit_stop :: "real \<Rightarrow> xpass_agent \<Rightarrow> xpass_agent option" where
  \<comment> \<open>the stop is sent by a timer with no delay, which must not be set already\<close>
  "sched_credit_stop now a = (if tm_status (credit_stop_timer a) \<noteq> TIMER_IDLE then None
     else do {
       tm \<leftarrow> timer_sched now 0 (credit_stop_timer a);
       Some (a\<lparr>credit_stop_timer := tm\<rparr>) })"

definition after_credit :: "real \<Rightarrow> xpass_agent \<Rightarrow> xpass_agent option" where
  \<comment> \<open>when to stop: at the end of the data, or when the credit of a round trip covers the rest\<close>
  "after_credit now a = (if datalen_remaining a = 0 then sched_credit_stop now a
     else if dsub now (last_credit_recv_update a) \<ge> xp_rtt a then do {
       n \<leftarrow> pkt_remaining a;
       a \<leftarrow> (if credit_recved_rtt a \<ge> n then sched_credit_stop now a else Some a);
       Some (a\<lparr>credit_recved_rtt := 0, last_credit_recv_update := now\<rparr>) }
     else Some a)"

definition first_credit :: "real \<Rightarrow> xpass_agent \<Rightarrow> xpass_agent" where
  "first_credit now a = a\<lparr>sender_retransmit_timer := timer_force_cancel (sender_retransmit_timer a),
     credit_recv_state := XPASS_RECV_CREDIT_RECEIVING, xp_rtt := dsub now (xp_rtt a), last_credit_recv_update := now\<rparr>"

definition recv_credit :: "real \<Rightarrow> xpass_packet \<Rightarrow> xpass_agent \<Rightarrow> (xpass_output list \<times> xpass_agent) option" where
  "recv_credit now p a = (let
     a = a\<lparr>credit_recved_rtt := credit_recved_rtt a + 1\<rparr>;
     a = (if credit_recv_state a = XPASS_RECV_CREDIT_REQUEST_SENT then first_credit now a else a)
   in case credit_recv_state a of
     XPASS_RECV_CREDIT_RECEIVING \<Rightarrow> do {
       (out, a) \<leftarrow> send_data p a;
       a \<leftarrow> after_credit now a;
       Some (out, a) }
   | XPASS_RECV_CREDIT_STOP_SENT \<Rightarrow> do {
       let wasted = (if datalen_remaining a > 0 then 0 else 1);
       (out, a) \<leftarrow> send_data p a;
       Some (out, a\<lparr>credit_wasted := credit_wasted a + wasted, credit_recved := credit_recved a + 1\<rparr>) }
   | XPASS_RECV_CLOSE_WAIT \<Rightarrow> Some ([], a\<lparr>credit_wasted := credit_wasted a + 1\<rparr>)
   | XPASS_RECV_CLOSED \<Rightarrow> Some ([], a\<lparr>credit_wasted := credit_wasted a + 1\<rparr>)
   | _ \<Rightarrow> Some ([], a))"

definition process_ack :: "xpass_packet \<Rightarrow> xpass_agent \<Rightarrow> xpass_agent option" where
  "process_ack p a = (let datalen = xp_size p - xp_hlen p in
     if datalen < 0 then None
     else if xp_seqno p > recv_next a then None
     else if xp_seqno p = recv_next a then
       (let a = (if wait_retransmission a then a\<lparr>wait_retransmission := False,
                   receiver_retransmit_timer := timer_force_cancel (receiver_retransmit_timer a)\<rparr> else a)
        in Some (a\<lparr>recv_next := recv_next a + datalen\<rparr>))
     else Some a)"

definition update_rtt :: "real \<Rightarrow> xpass_packet \<Rightarrow> xpass_agent \<Rightarrow> xpass_agent" where
  "update_rtt now p a = (let rtt = dsub now (credit_sent_time p) in
     a\<lparr>xp_rtt := (if xp_rtt a > 0 then dadd (dmul (dbl (8 / 10)) (xp_rtt a)) (dmul (dbl (2 / 10)) rtt) else rtt)\<rparr>)"

definition message_bytes :: "xpass_packet \<Rightarrow> xpass_agent \<Rightarrow> int option" where
  \<comment> \<open>the bytes given to the application, corrected for a last packet that was filled up to the least frame\<close>
  "message_bytes p a = (let
     datalen = xp_size p - xp_hlen p;
     max_payload = max_ethernet_size a - xpass_hdr_size a
   in if max_payload = 0 then None
      else (let last_pkt_payload = msg_bytes (r2p2_header p) smod max_payload in
        Some (if last_pkt_payload < min_ethernet_size a - xpass_hdr_size a \<and> datalen < max_payload
              then last_pkt_payload else datalen)))"

definition recv_data :: "real \<Rightarrow> xpass_packet \<Rightarrow> xpass_agent \<Rightarrow> (xpass_output list \<times> xpass_agent) option" where
  "recv_data now p a = (let distance = credit_seq p - c_recv_next a in
     if distance < 0 then None
     else do {
       let a = a\<lparr>credit_total := credit_total a + (distance + 1), credit_dropped := credit_dropped a + distance,
         c_recv_next := credit_seq p + 1\<rparr>;
       a \<leftarrow> process_ack p a;
       let a = update_rtt now p a;
       n \<leftarrow> message_bytes p a;
       Some ([Recv_msg n ((r2p2_header p)\<lparr>client_port := xp_dport a\<rparr>)], a) })"

definition recv_nack :: "xpass_agent \<Rightarrow> (xpass_output list \<times> xpass_agent) option" where
  \<comment> \<open>\<open>assert(0)\<close>\<close>
  "recv_nack a = None"

definition recv_credit_stop :: "real \<Rightarrow> xpass_agent \<Rightarrow> (xpass_output list \<times> xpass_agent) option" where
  "recv_credit_stop now a = do {
     tm \<leftarrow> timer_sched now (default_credit_stop_timeout a) (fct_timer a);
     Some ([], a\<lparr>fct := dsub now (fst_time a), fct_timer := tm,
       send_credit_timer := timer_force_cancel (send_credit_timer a), credit_send_state := XPASS_SEND_CLOSE_WAIT\<rparr>) }"

definition xpass_agent_recv :: "int \<Rightarrow> int \<Rightarrow> real \<Rightarrow> xpass_packet \<Rightarrow> xpass_agent \<Rightarrow> (xpass_output list \<times> xpass_agent) option" where
  "xpass_agent_recv r1 r2 now p a = (case xp_ptype p of
     PT_XPASS_CREDIT_REQUEST \<Rightarrow> recv_credit_request r1 r2 now p a
   | PT_XPASS_CREDIT \<Rightarrow> recv_credit now p a
   | PT_XPASS_DATA \<Rightarrow> recv_data now p a
   | PT_XPASS_CREDIT_STOP \<Rightarrow> recv_credit_stop now a
   | PT_XPASS_NACK \<Rightarrow> recv_nack a
   | _ \<Rightarrow> Some ([], a))"

section \<open>The timers\<close>

definition handle_fct :: "xpass_agent \<Rightarrow> xpass_agent" where
  "handle_fct a = a\<lparr>credit_send_state := XPASS_SEND_CLOSED\<rparr>"

definition resend_request :: "real \<Rightarrow> xpass_agent \<Rightarrow> (xpass_output list \<times> xpass_agent) option" where
  "resend_request now a = do {
     (p, a) \<leftarrow> construct_credit_request now a;
     Some ([Send p], a\<lparr>sender_retransmit_timer := timer_resched now (retransmit_timeout a) (sender_retransmit_timer a)\<rparr>) }"

definition handle_sender_retransmit :: "real \<Rightarrow> xpass_agent \<Rightarrow> (xpass_output list \<times> xpass_agent) option" where
  "handle_sender_retransmit now a = (case credit_recv_state a of
     XPASS_RECV_CREDIT_REQUEST_SENT \<Rightarrow> resend_request now a
   | XPASS_RECV_CREDIT_STOP_SENT \<Rightarrow>
       if datalen_remaining a > 0 then resend_request now (a\<lparr>credit_recv_state := XPASS_RECV_CREDIT_REQUEST_SENT\<rparr>)
       else Some ([], a\<lparr>credit_recv_state := XPASS_RECV_CLOSE_WAIT, credit_recved := 0,
         sender_retransmit_timer := timer_resched now
           (if xp_rtt a > 0 then xp_rtt a else default_credit_stop_timeout a) (sender_retransmit_timer a)\<rparr>)
   | XPASS_RECV_CLOSE_WAIT \<Rightarrow>
       if credit_recved a = 0 then Some ([], a\<lparr>credit_recv_state := XPASS_RECV_CLOSED,
         sender_retransmit_timer := timer_force_cancel (sender_retransmit_timer a)\<rparr>)
       else Some (send_credit_stop now a)
   | XPASS_RECV_CLOSED \<Rightarrow> None
   | _ \<Rightarrow> Some ([], a))"

definition handle_receiver_retransmit :: "xpass_agent \<Rightarrow> (xpass_output list \<times> xpass_agent) option" where
  \<comment> \<open>\<open>assert(0)\<close>\<close>
  "handle_receiver_retransmit a = None"

datatype agent_timer = Send_credit | Credit_stop | Sender_retransmit | Receiver_retransmit | FCT

fun timer_of :: "agent_timer \<Rightarrow> xpass_agent \<Rightarrow> timer" where
  "timer_of Send_credit a = send_credit_timer a"
| "timer_of Credit_stop a = credit_stop_timer a"
| "timer_of Sender_retransmit a = sender_retransmit_timer a"
| "timer_of Receiver_retransmit a = receiver_retransmit_timer a"
| "timer_of FCT a = fct_timer a"

fun set_timer :: "agent_timer \<Rightarrow> timer \<Rightarrow> xpass_agent \<Rightarrow> xpass_agent" where
  "set_timer Send_credit tm a = a\<lparr>send_credit_timer := tm\<rparr>"
| "set_timer Credit_stop tm a = a\<lparr>credit_stop_timer := tm\<rparr>"
| "set_timer Sender_retransmit tm a = a\<lparr>sender_retransmit_timer := tm\<rparr>"
| "set_timer Receiver_retransmit tm a = a\<lparr>receiver_retransmit_timer := tm\<rparr>"
| "set_timer FCT tm a = a\<lparr>fct_timer := tm\<rparr>"

fun timer_expire :: "agent_timer \<Rightarrow> int \<Rightarrow> int \<Rightarrow> real \<Rightarrow> xpass_agent \<Rightarrow> (xpass_output list \<times> xpass_agent) option" where
  \<comment> \<open>the methods \<open>expire\<close> of the five timers\<close>
  "timer_expire Send_credit r1 r2 now a = send_credit r1 r2 now a"
| "timer_expire Credit_stop r1 r2 now a = Some (send_credit_stop now a)"
| "timer_expire Sender_retransmit r1 r2 now a = handle_sender_retransmit now a"
| "timer_expire Receiver_retransmit r1 r2 now a = handle_receiver_retransmit a"
| "timer_expire FCT r1 r2 now a = Some ([], handle_fct a)"

definition timer_event :: "agent_timer \<Rightarrow> int \<Rightarrow> int \<Rightarrow> real \<Rightarrow> xpass_agent \<Rightarrow> (xpass_output list \<times> xpass_agent) option" where
  \<comment> \<open>\<open>TimerHandler::handle\<close> around \<open>expire\<close>\<close>
  "timer_event k r1 r2 now a = do {
     tm \<leftarrow> timer_begin (timer_of k a);
     (out, a) \<leftarrow> timer_expire k r1 r2 now (set_timer k tm a);
     Some (out, set_timer k (timer_end (timer_of k a)) a) }"

datatype agent_event = Recv xpass_packet | Advance int | Advance_message int request_id | Timer agent_timer | Reset

fun agent_handle :: "agent_event \<Rightarrow> int \<Rightarrow> int \<Rightarrow> real \<Rightarrow> xpass_agent \<Rightarrow> (xpass_output list \<times> xpass_agent) option" where
  \<comment> \<open>whatever can happen to an agent\<close>
  "agent_handle (Recv p) r1 r2 now a = xpass_agent_recv r1 r2 now p a"
| "agent_handle (Advance nb) r1 r2 now a = advance_bytes now nb a"
| "agent_handle (Advance_message nb req) r1 r2 now a = advance_message now nb req a"
| "agent_handle (Timer k) r1 r2 now a = timer_event k r1 r2 now a"
| "agent_handle Reset r1 r2 now a = map_option (Pair []) (xpass_reset a)"

fun agent_run :: "(agent_event \<times> int \<times> int \<times> real) list \<Rightarrow> xpass_agent \<Rightarrow> (xpass_output list \<times> xpass_agent) option" where
  "agent_run [] a = Some ([], a)"
| "agent_run ((ev, r1, r2, now) # es) a = do {
     (out, a) \<leftarrow> agent_handle ev r1 r2 now a;
     (outs, a) \<leftarrow> agent_run es a;
     Some (out @ outs, a) }"

end
