(* ===== verification/XPass_Timers.thy ===== *)
theory XPass_Timers
  imports XPass_Agent
begin

text \<open>
  The states of an ExpressPass agent and its timers: an invariant that every event keeps, whatever
  packets arrive and whenever the timers go off, and the faults that it leaves possible. The
  lemmas on frames say which fields each part of the code changes.
\<close>

section \<open>States and timers agree\<close>

definition pending :: "timer \<Rightarrow> bool" where
  "pending tm \<longleftrightarrow> tm_status tm = TIMER_PENDING"

definition settled :: "timer \<Rightarrow> bool" where
  "settled tm \<longleftrightarrow> tm_status tm \<noteq> TIMER_HANDLING"

definition timers_ok :: "xpass_agent \<Rightarrow> bool" where
  \<comment> \<open>a timer is set exactly in the states that wait for it\<close>
  "timers_ok a \<longleftrightarrow>
     (pending (send_credit_timer a) \<longleftrightarrow> credit_send_state a = XPASS_SEND_CREDIT_SENDING)
   \<and> (pending (fct_timer a) \<longleftrightarrow> credit_send_state a = XPASS_SEND_CLOSE_WAIT)
   \<and> (pending (sender_retransmit_timer a) \<longleftrightarrow> credit_recv_state a = XPASS_RECV_CREDIT_REQUEST_SENT
        \<or> credit_recv_state a = XPASS_RECV_CREDIT_STOP_SENT \<or> credit_recv_state a = XPASS_RECV_CLOSE_WAIT)
   \<and> (pending (credit_stop_timer a) \<longrightarrow> credit_recv_state a = XPASS_RECV_CREDIT_RECEIVING)
   \<and> \<not> pending (receiver_retransmit_timer a)"

definition all_settled :: "xpass_agent \<Rightarrow> bool" where
  "all_settled a \<longleftrightarrow> settled (send_credit_timer a) \<and> settled (fct_timer a) \<and> settled (sender_retransmit_timer a)
   \<and> settled (credit_stop_timer a) \<and> settled (receiver_retransmit_timer a)"

definition states_ok :: "xpass_agent \<Rightarrow> bool" where
  "states_ok a \<longleftrightarrow> credit_recv_state a \<noteq> XPASS_RECV_NSTATE
   \<and> credit_send_state a \<noteq> XPASS_SEND_NSTATE \<and> credit_send_state a \<noteq> XPASS_SEND_CREDIT_STOP_RECEIVED"

definition counters_ok :: "xpass_agent \<Rightarrow> bool" where
  "counters_ok a \<longleftrightarrow> 1 \<le> t_seqno a \<and> t_seqno a \<le> curseq a \<and> 1 \<le> c_seqno a
   \<and> (credit_recv_state a = XPASS_RECV_CREDIT_REQUEST_SENT \<longrightarrow> t_seqno a < curseq a)
   \<and> (credit_recv_state a = XPASS_RECV_CLOSED \<or> credit_recv_state a = XPASS_RECV_CLOSE_WAIT \<longrightarrow> t_seqno a = curseq a)
   \<and> (credit_recv_state a = XPASS_RECV_CLOSE_WAIT \<longrightarrow> credit_recved a = 0)
   \<and> 0 \<le> credit_dropped a \<and> credit_dropped a \<le> credit_total a \<and> \<not> wait_retransmission a"

definition agent_ok :: "xpass_agent \<Rightarrow> bool" where
  "agent_ok a \<longleftrightarrow> timers_ok a \<and> all_settled a \<and> states_ok a \<and> counters_ok a"

lemmas agent_ok_defs = agent_ok_def timers_ok_def all_settled_def states_ok_def counters_ok_def

lemma pending_simps [simp]:
  "pending (timer_resched now d tm)" "\<not> pending (timer_force_cancel tm)" "settled (timer_resched now d tm)"
  "pending (timer_end tm) \<longleftrightarrow> pending tm" "settled (timer_end tm)"
  "settled tm \<Longrightarrow> settled (timer_force_cancel tm)"
  by (auto simp: pending_def settled_def timer_force_cancel_def timer_end_def)

lemma timer_begin_pending:
  "timer_begin tm = Some tm' \<longleftrightarrow> pending tm \<and> tm' = tm\<lparr>tm_status := TIMER_HANDLING\<rparr>"
  by (simp add: timer_begin_Some pending_def)

lemma handling_simps [simp]: "\<not> pending (tm\<lparr>tm_status := TIMER_HANDLING\<rparr>)" "\<not> settled (tm\<lparr>tm_status := TIMER_HANDLING\<rparr>)"
  by (simp_all add: pending_def settled_def)

lemma timer_sched_pending:
  "timer_sched now d tm = Some tm' \<longleftrightarrow> tm_status tm = TIMER_IDLE \<and> tm' = timer_resched now d tm"
  by (auto simp: timer_sched_def timer_resched_def)

lemma idle_iff: "tm_status tm = TIMER_IDLE \<longleftrightarrow> settled tm \<and> \<not> pending tm"
  by (cases "tm_status tm") (auto simp: pending_def settled_def)

lemma stop_if_set_settled: "settled tm \<Longrightarrow> \<exists>tm'. stop_if_set tm = Some tm' \<and> tm_status tm' = TIMER_IDLE"
  by (cases "tm_status tm") (auto simp: stop_if_set_def timer_cancel_def settled_def)

lemma stop_if_set_idle: "stop_if_set tm = Some tm' \<Longrightarrow> settled tm' \<and> \<not> pending tm'"
  by (auto simp: stop_if_set_def timer_cancel_def settled_def pending_def split: if_splits)

section \<open>What the parts change\<close>

lemma congested_frame:
  assumes "congested_control now a = Some b"
  shows "\<exists>r w. b = a\<lparr>cur_credit_rate := r, xp_w := w, can_increase_w := False\<rparr>"
proof -
  from assms obtain r where "b = a\<lparr>cur_credit_rate := (if r > cur_credit_rate a then cur_credit_rate a else r),
      xp_w := max (ddiv (xp_w a) 2) (min_w a), can_increase_w := False\<rparr>"
    unfolding congested_control_def by (simp only: bind_eq_Some_conv option.inject) blast
  then show ?thesis by blast
qed

lemma uncongested_frame:
  assumes "uncongested_control a = Some b"
  shows "\<exists>r w. b = a\<lparr>cur_credit_rate := r, xp_w := w, can_increase_w := True\<rparr>"
proof -
  define w where "w = (if can_increase_w a then min (dadd (xp_w a) (dbl (5 / 100))) (dbl (5 / 10)) else xp_w a)"
  from assms obtain r where "b = (a\<lparr>xp_w := w, can_increase_w := True\<rparr>)\<lparr>cur_credit_rate := r\<rparr>"
    unfolding uncongested_control_def Let_def w_def by (simp only: bind_eq_Some_conv option.inject) blast
  then have "b = a\<lparr>cur_credit_rate := r, xp_w := w, can_increase_w := True\<rparr>" by simp
  then show ?thesis by blast
qed

lemma feedback_due:
  assumes "credit_feedback_control now a = Some a'" "control_due now a"
  obtains low b where "min_rate a = Some low"
    "(if loss_rate a > target_loss a then congested_control now a else uncongested_control a) = Some b"
    "a' = b\<lparr>cur_credit_rate := bound_rate low (max_credit_rate b) (cur_credit_rate b),
         credit_total := 0, credit_dropped := 0, last_credit_rate_update := now\<rparr>"
    "max_credit_rate a \<noteq> 0"
proof -
  have nz: "max_credit_rate a \<noteq> 0"
    using assms by (cases "max_credit_rate a = 0") (simp_all add: credit_feedback_control_def)
  show ?thesis
    using assms nz that unfolding credit_feedback_control_def
    by (simp only: not_True_eq_False if_False bind_eq_Some_conv option.inject) blast
qed

lemma feedback_frame:
  assumes "credit_feedback_control now a = Some a'"
  obtains r w i tot dr l where "a' = a\<lparr>cur_credit_rate := r, xp_w := w, can_increase_w := i, credit_total := tot,
      credit_dropped := dr, last_credit_rate_update := l\<rparr>"
    "tot = credit_total a \<and> dr = credit_dropped a \<or> tot = 0 \<and> dr = 0"
proof (cases "control_due now a")
  case False
  then have "a' = a" using assms by (simp add: credit_feedback_control_def)
  then show ?thesis
    by (intro that [where r = "cur_credit_rate a" and w = "xp_w a" and i = "can_increase_w a"
        and tot = "credit_total a" and dr = "credit_dropped a" and l = "last_credit_rate_update a"]) simp_all
next
  case True
  obtain low b where b: "(if loss_rate a > target_loss a then congested_control now a else uncongested_control a) = Some b"
    and a': "a' = b\<lparr>cur_credit_rate := bound_rate low (max_credit_rate b) (cur_credit_rate b),
         credit_total := 0, credit_dropped := 0, last_credit_rate_update := now\<rparr>"
    by (rule feedback_due [OF assms True])
  have "\<exists>r w i. b = a\<lparr>cur_credit_rate := r, xp_w := w, can_increase_w := i\<rparr>"
  proof (cases "loss_rate a > target_loss a")
    case True
    then have "congested_control now a = Some b" using b by simp
    from congested_frame [OF this] show ?thesis by blast
  next
    case False
    then have "uncongested_control a = Some b" using b by simp
    from uncongested_frame [OF this] show ?thesis by blast
  qed
  then obtain r w i where b': "b = a\<lparr>cur_credit_rate := r, xp_w := w, can_increase_w := i\<rparr>" by blast
  have "a' = a\<lparr>cur_credit_rate := bound_rate low (max_credit_rate a) r, xp_w := w, can_increase_w := i,
      credit_total := 0, credit_dropped := 0, last_credit_rate_update := now\<rparr>"
    unfolding a' b' by simp
  then show ?thesis by (rule that) simp
qed

lemma credit_frame:
  assumes "construct_credit r now a = Some (p, a')"
  shows "\<exists>sz. p = (allocpkt PT_XPASS_CREDIT)\<lparr>xp_seqno := t_seqno a, xp_ackno := recv_next a, xp_hlen := sz, xp_size := sz,
      credit_sent_time := now, credit_seq := c_seqno a\<rparr> \<and> a' = a\<lparr>c_seqno := max 1 (c_seqno a + 1)\<rparr>"
  using assms by (auto simp: construct_credit_def bind_eq_Some_conv)

lemma send_credit_frame:
  assumes "send_credit r1 r2 now a = Some (out, a')"
  obtains r w i tot dr l tm p where "a' = a\<lparr>cur_credit_rate := r, xp_w := w, can_increase_w := i, credit_total := tot,
      credit_dropped := dr, last_credit_rate_update := l, c_seqno := max 1 (c_seqno a + 1), send_credit_timer := tm\<rparr>"
    "tot = credit_total a \<and> dr = credit_dropped a \<or> tot = 0 \<and> dr = 0"
    "pending tm" "settled tm" "out = [Send p]" "xp_ptype p = PT_XPASS_CREDIT" "credit_seq p = c_seqno a"
    "credit_sent_time p = now" "0 < r"
proof -
  obtain b p c delay where 1: "credit_feedback_control now a = Some b" "construct_credit r1 now b = Some (p, c)"
    "0 < cur_credit_rate c" "out = [Send p]"
    "a' = c\<lparr>send_credit_timer := timer_resched now delay (send_credit_timer c)\<rparr>"
    using assms by (auto simp: send_credit_def bind_eq_Some_conv split: if_splits)
  obtain r w i tot dr l where 2: "b = a\<lparr>cur_credit_rate := r, xp_w := w, can_increase_w := i, credit_total := tot,
      credit_dropped := dr, last_credit_rate_update := l\<rparr>"
    "tot = credit_total a \<and> dr = credit_dropped a \<or> tot = 0 \<and> dr = 0"
    using feedback_frame [OF 1(1)] by metis
  show ?thesis
    using credit_frame [OF 1(2)] 1(3-) 2
    by (intro that [where r = r and w = w and i = i and tot = tot and dr = dr and l = l
        and tm = "timer_resched now delay (send_credit_timer c)" and p = p]) (auto simp: allocpkt_def)
qed

lemma data_frame:
  assumes "send_data q a = Some (out, a')"
  shows "out = [] \<and> a' = a \<and> datalen_remaining a \<le> 0 \<or>
    0 < min (max_segment a) (datalen_remaining a) \<and>
    a' = a\<lparr>t_seqno := t_seqno a + min (max_segment a) (datalen_remaining a)\<rparr> \<and>
    (\<exists>hdr. message_header (cur_req_id_tup a) = Some hdr \<and> out = [Send ((allocpkt PT_XPASS_DATA)\<lparr>xp_seqno := t_seqno a,
       xp_ackno := recv_next a, xp_hlen := xpass_hdr_size a,
       xp_size := max (min_ethernet_size a) (xpass_hdr_size a + min (max_segment a) (datalen_remaining a)),
       credit_sent_time := credit_sent_time q, credit_seq := credit_seq q, r2p2_header := hdr\<rparr>)])"
  using assms by (auto simp: send_data_def construct_data_def Let_def bind_eq_Some_conv split: if_splits)

lemma sched_stop_frame:
  assumes "sched_credit_stop now a = Some a'"
  shows "\<exists>tm. a' = a\<lparr>credit_stop_timer := tm\<rparr> \<and> pending tm \<and> settled tm"
  using assms by (auto simp: sched_credit_stop_def timer_sched_pending bind_eq_Some_conv split: if_splits)

lemma after_credit_frame:
  assumes "after_credit now a = Some a'"
  shows "\<exists>tm n l. a' = a\<lparr>credit_stop_timer := tm, credit_recved_rtt := n, last_credit_recv_update := l\<rparr>
    \<and> (tm = credit_stop_timer a \<and> datalen_remaining a \<noteq> 0 \<or> pending tm \<and> settled tm)"
proof -
  have same: "a = a\<lparr>credit_stop_timer := credit_stop_timer a, credit_recved_rtt := credit_recved_rtt a,
      last_credit_recv_update := last_credit_recv_update a\<rparr>" by simp
  show ?thesis
  proof (cases "datalen_remaining a = 0")
    case True
    then have "sched_credit_stop now a = Some a'" using assms by (simp add: after_credit_def)
    then obtain tm where "a' = a\<lparr>credit_stop_timer := tm\<rparr>" "pending tm" "settled tm" using sched_stop_frame by blast
    then show ?thesis
      by (intro exI [of _ tm] exI [of _ "credit_recved_rtt a"] exI [of _ "last_credit_recv_update a"]) simp
  next
    case more: False
    show ?thesis
    proof (cases "dsub now (last_credit_recv_update a) \<ge> xp_rtt a")
      case True
      then obtain n b where b: "(if credit_recved_rtt a \<ge> n then sched_credit_stop now a else Some a) = Some b"
          "a' = b\<lparr>credit_recved_rtt := 0, last_credit_recv_update := now\<rparr>"
        using assms more unfolding after_credit_def by (simp add: bind_eq_Some_conv) blast
      show ?thesis
      proof (cases "credit_recved_rtt a \<ge> n")
        case True
        then obtain tm where "b = a\<lparr>credit_stop_timer := tm\<rparr>" "pending tm" "settled tm"
          using sched_stop_frame [of now a b] b(1) by auto
        then show ?thesis using b(2) by (intro exI [of _ tm] exI [of _ 0] exI [of _ now]) simp
      next
        case False
        then have "b = a" using b(1) by simp
        then show ?thesis using b(2) more
          by (intro exI [of _ "credit_stop_timer a"] exI [of _ 0] exI [of _ now]) simp
      qed
    next
      case False
      then have "a' = a" using assms more by (simp add: after_credit_def)
      then show ?thesis using same more by blast
    qed
  qed
qed

lemma request_frame:
  assumes "construct_credit_request now a = Some (p, a')"
  shows "\<exists>n. pkt_remaining a = Some n \<and> a' = a\<lparr>xp_rtt := now\<rparr> \<and> xp_ptype p = PT_XPASS_CREDIT_REQUEST \<and> sendbuffer p = n"
  using assms by (auto simp: construct_credit_request_def bind_eq_Some_conv allocpkt_def)

lemma process_ack_frame:
  assumes "process_ack p a = Some a'" "\<not> wait_retransmission a"
  shows "a' = a\<lparr>recv_next := (if xp_seqno p = recv_next a then recv_next a + (xp_size p - xp_hlen p) else recv_next a)\<rparr>
    \<and> xp_hlen p \<le> xp_size p \<and> xp_seqno p \<le> recv_next a"
  using assms by (auto simp: process_ack_def Let_def split: if_splits)

section \<open>Every event keeps the states and the timers in agreement\<close>

lemma agent_ok_idle:
  assumes "agent_ok a"
  shows "tm_status (fct_timer a) = TIMER_IDLE \<longleftrightarrow> credit_send_state a \<noteq> XPASS_SEND_CLOSE_WAIT"
    and "tm_status (credit_stop_timer a) = TIMER_IDLE \<longleftrightarrow> \<not> pending (credit_stop_timer a)"
    and "tm_status (sender_retransmit_timer a) = TIMER_IDLE \<longleftrightarrow>
      credit_recv_state a = XPASS_RECV_CLOSED \<or> credit_recv_state a = XPASS_RECV_CREDIT_RECEIVING"
  using assms by (cases "credit_recv_state a"; simp add: idle_iff agent_ok_defs)+

lemma recv_request_frame:
  assumes "recv_credit_request r1 r2 now p a = Some (out, a')"
    and "credit_send_state a = XPASS_SEND_CLOSE_WAIT \<or> credit_send_state a = XPASS_SEND_CLOSED"
  obtains w i tot dr l sc q fs r where "a' = a\<lparr>fct_timer := (if credit_send_state a = XPASS_SEND_CLOSE_WAIT
        then timer_force_cancel (fct_timer a) else fct_timer a), fst_time := fs,
      cur_credit_rate := r, xp_w := w, can_increase_w := i, credit_total := tot, credit_dropped := dr,
      last_credit_rate_update := l, c_seqno := max 1 (c_seqno a + 1), send_credit_timer := sc,
      credit_send_state := XPASS_SEND_CREDIT_SENDING\<rparr>"
    "tot = credit_total a \<and> dr = credit_dropped a \<or> tot = 0 \<and> dr = 0" "pending sc" "settled sc"
    "out = [Send q]" "xp_ptype q = PT_XPASS_CREDIT" "credit_seq q = c_seqno a"
proof -
  define tm where "tm = (if credit_send_state a = XPASS_SEND_CLOSE_WAIT then timer_force_cancel (fct_timer a) else fct_timer a)"
  define b where "b = a\<lparr>fct_timer := tm\<rparr>"
  have st: "credit_send_state b = credit_send_state a" by (simp add: b_def)
  from assms obtain rate c where
    send: "send_credit r1 r2 now ((xpass_init now b)\<lparr>cur_credit_rate := rate, fst_time := credit_sent_time p\<rparr>) = Some (out, c)"
    and a': "a' = c\<lparr>credit_send_state := XPASS_SEND_CREDIT_SENDING\<rparr>"
    unfolding recv_credit_request_def tm_def [symmetric] b_def [symmetric] Let_def st
    by (simp only: if_True bind_eq_Some_conv option.inject split_paired_Ex prod.case Pair_inject) blast
  from send obtain r w i tot dr l sc q where c: "c = ((xpass_init now b)\<lparr>cur_credit_rate := rate, fst_time := credit_sent_time p\<rparr>)
      \<lparr>cur_credit_rate := r, xp_w := w, can_increase_w := i, credit_total := tot, credit_dropped := dr,
       last_credit_rate_update := l, c_seqno := max 1 (c_seqno b + 1), send_credit_timer := sc\<rparr>"
    and q: "tot = credit_total b \<and> dr = credit_dropped b \<or> tot = 0 \<and> dr = 0" "pending sc" "settled sc"
    "out = [Send q]" "xp_ptype q = PT_XPASS_CREDIT" "credit_seq q = c_seqno b"
    by (rule send_credit_frame) (simp add: xpass_init_def)
  have "a' = a\<lparr>fct_timer := tm, fst_time := credit_sent_time p,
      cur_credit_rate := r, xp_w := w, can_increase_w := i, credit_total := tot, credit_dropped := dr,
      last_credit_rate_update := l, c_seqno := max 1 (c_seqno a + 1), send_credit_timer := sc,
      credit_send_state := XPASS_SEND_CREDIT_SENDING\<rparr>"
    unfolding a' c b_def xpass_init_def by simp
  then show ?thesis unfolding tm_def by (rule that) (use q in \<open>simp_all add: b_def\<close>)
qed

lemma recv_request_busy:
  assumes "credit_send_state a \<noteq> XPASS_SEND_CLOSE_WAIT" "credit_send_state a \<noteq> XPASS_SEND_CLOSED"
  shows "recv_credit_request r1 r2 now p a = Some ([], a)"
  using assms by (simp add: recv_credit_request_def)

lemma ok_recv_credit_request:
  assumes "recv_credit_request r1 r2 now p a = Some (out, a')" "agent_ok a"
  shows "agent_ok a'"
proof (cases "credit_send_state a = XPASS_SEND_CLOSE_WAIT \<or> credit_send_state a = XPASS_SEND_CLOSED")
  case True
  define tm where "tm = (if credit_send_state a = XPASS_SEND_CLOSE_WAIT then timer_force_cancel (fct_timer a) else fct_timer a)"
  have tm: "\<not> pending tm" "settled tm" using assms(2) True by (auto simp: tm_def agent_ok_defs)
  obtain w i tot dr l sc q fs r where a': "a' = a\<lparr>fct_timer := tm, fst_time := fs,
      cur_credit_rate := r, xp_w := w, can_increase_w := i, credit_total := tot, credit_dropped := dr,
      last_credit_rate_update := l, c_seqno := max 1 (c_seqno a + 1), send_credit_timer := sc,
      credit_send_state := XPASS_SEND_CREDIT_SENDING\<rparr>"
    and cnt: "tot = credit_total a \<and> dr = credit_dropped a \<or> tot = 0 \<and> dr = 0" and sc: "pending sc" "settled sc"
    unfolding tm_def by (rule recv_request_frame [OF assms(1) True])
  show ?thesis unfolding a' using assms(2) tm cnt sc by (auto simp: agent_ok_defs)
next
  case False
  then have "a' = a" using assms(1) recv_request_busy by simp
  then show ?thesis using assms(2) by simp
qed

lemma ok_send_data:
  assumes "send_data q a = Some (out, a')" "agent_ok a" "credit_recv_state a = XPASS_RECV_CREDIT_RECEIVING
      \<or> credit_recv_state a = XPASS_RECV_CREDIT_STOP_SENT"
  shows "agent_ok a' \<and> credit_recv_state a' = credit_recv_state a"
  using data_frame [OF assms(1)]
proof (elim disjE conjE)
  assume "0 < min (max_segment a) (datalen_remaining a)"
    "a' = a\<lparr>t_seqno := t_seqno a + min (max_segment a) (datalen_remaining a)\<rparr>"
  moreover have "t_seqno a + min (max_segment a) (datalen_remaining a) \<le> curseq a"
    by (simp add: datalen_remaining_def)
  ultimately obtain m where m: "0 < m" "a' = a\<lparr>t_seqno := t_seqno a + m\<rparr>" "t_seqno a + m \<le> curseq a" by blast
  show ?thesis using assms(3)
    by (elim disjE) (use assms(2) m(1,3) in \<open>simp_all add: m(2) agent_ok_defs\<close>)
qed (use assms in simp)

lemma ok_after_credit:
  assumes "after_credit now a = Some a'" "agent_ok a" "credit_recv_state a = XPASS_RECV_CREDIT_RECEIVING"
  shows "agent_ok a'"
proof -
  from after_credit_frame [OF assms(1)] obtain tm n l where
    "a' = a\<lparr>credit_stop_timer := tm, credit_recved_rtt := n, last_credit_recv_update := l\<rparr>"
    "tm = credit_stop_timer a \<or> pending tm \<and> settled tm" by blast
  then show ?thesis using assms(2,3) by (auto simp: agent_ok_defs)
qed

lemma recv_credit_cases [consumes 1, case_names receiving stop_sent wasted]:
  assumes "recv_credit now p a = Some (out, a')"
  obtains b c where "credit_recv_state a = XPASS_RECV_CREDIT_REQUEST_SENT \<and>
        b = first_credit now (a\<lparr>credit_recved_rtt := credit_recved_rtt a + 1\<rparr>)
      \<or> credit_recv_state a = XPASS_RECV_CREDIT_RECEIVING \<and> b = a\<lparr>credit_recved_rtt := credit_recved_rtt a + 1\<rparr>"
      "credit_recv_state b = XPASS_RECV_CREDIT_RECEIVING"
      "send_data p b = Some (out, c)" "after_credit now c = Some a'"
  | b c n where "credit_recv_state a = XPASS_RECV_CREDIT_STOP_SENT" "b = a\<lparr>credit_recved_rtt := credit_recved_rtt a + 1\<rparr>"
      "send_data p b = Some (out, c)" "a' = c\<lparr>credit_wasted := n, credit_recved := credit_recved c + 1\<rparr>"
  | n where "credit_recv_state a = XPASS_RECV_CLOSE_WAIT \<or> credit_recv_state a = XPASS_RECV_CLOSED
      \<or> credit_recv_state a = XPASS_RECV_NSTATE" "out = []"
      "a' = a\<lparr>credit_recved_rtt := credit_recved_rtt a + 1, credit_wasted := n\<rparr>"
proof (cases "credit_recv_state a")
  case XPASS_RECV_NSTATE
  then have "out = []" "a' = a\<lparr>credit_recved_rtt := credit_recved_rtt a + 1\<rparr>"
    using assms by (simp_all add: recv_credit_def)
  moreover have "a\<lparr>credit_recved_rtt := credit_recved_rtt a + 1\<rparr>
    = a\<lparr>credit_recved_rtt := credit_recved_rtt a + 1, credit_wasted := credit_wasted a\<rparr>" by simp
  ultimately have "out = []" "a' = a\<lparr>credit_recved_rtt := credit_recved_rtt a + 1, credit_wasted := credit_wasted a\<rparr>"
    by (simp_all only:)
  then show ?thesis using XPASS_RECV_NSTATE that(3) by blast
next
  case XPASS_RECV_CREDIT_STOP_SENT
  then show ?thesis using assms that(2) by (simp add: recv_credit_def Let_def bind_eq_Some_conv) blast
next
  case XPASS_RECV_CREDIT_REQUEST_SENT
  then show ?thesis using assms that(1) by (simp add: recv_credit_def first_credit_def Let_def bind_eq_Some_conv) blast
next
  case XPASS_RECV_CREDIT_RECEIVING
  then show ?thesis using assms that(1) by (simp add: recv_credit_def Let_def bind_eq_Some_conv) blast
next
  case XPASS_RECV_CLOSE_WAIT
  then have "out = []" "a' = a\<lparr>credit_recved_rtt := credit_recved_rtt a + 1, credit_wasted := credit_wasted a + 1\<rparr>"
    using assms by (simp_all add: recv_credit_def)
  then show ?thesis using XPASS_RECV_CLOSE_WAIT that(3) by blast
next
  case XPASS_RECV_CLOSED
  then have "out = []" "a' = a\<lparr>credit_recved_rtt := credit_recved_rtt a + 1, credit_wasted := credit_wasted a + 1\<rparr>"
    using assms by (simp_all add: recv_credit_def)
  then show ?thesis using XPASS_RECV_CLOSED that(3) by blast
qed

lemma ok_recv_credit:
  assumes "recv_credit now p a = Some (out, a')" "agent_ok a"
  shows "agent_ok a'"
  using assms(1)
proof (cases rule: recv_credit_cases)
  case (receiving b c)
  have "agent_ok b"
  proof -
    from receiving(1) show ?thesis
    proof (elim disjE conjE)
      assume "credit_recv_state a = XPASS_RECV_CREDIT_REQUEST_SENT" "b = first_credit now (a\<lparr>credit_recved_rtt := credit_recved_rtt a + 1\<rparr>)"
      then show ?thesis using assms(2) by (simp add: first_credit_def agent_ok_defs)
    next
      assume "credit_recv_state a = XPASS_RECV_CREDIT_RECEIVING" "b = a\<lparr>credit_recved_rtt := credit_recved_rtt a + 1\<rparr>"
      then show ?thesis using assms(2) by (simp add: agent_ok_defs)
    qed
  qed
  then have "agent_ok c" "credit_recv_state c = XPASS_RECV_CREDIT_RECEIVING"
    using ok_send_data [OF receiving(3)] receiving(2) by simp_all
  then show ?thesis using ok_after_credit [OF receiving(4)] by simp
next
  case (stop_sent b c n)
  have "agent_ok b" using assms(2) stop_sent(1,2) by (simp add: agent_ok_defs)
  then have "agent_ok c" "credit_recv_state c = XPASS_RECV_CREDIT_STOP_SENT"
    using ok_send_data [OF stop_sent(3)] stop_sent(1,2) by simp_all
  then show ?thesis unfolding stop_sent(4) by (simp add: agent_ok_defs)
next
  case (wasted n)
  show ?thesis unfolding wasted(3) using assms(2) by (simp add: agent_ok_defs)
qed

lemma recv_data_frame:
  assumes "recv_data now p a = Some (out, a')" "\<not> wait_retransmission a"
  shows "\<exists>rtt n. c_recv_next a \<le> credit_seq p \<and> xp_hlen p \<le> xp_size p \<and> xp_seqno p \<le> recv_next a
    \<and> message_bytes p a = Some n \<and> out = [Recv_msg n ((r2p2_header p)\<lparr>client_port := xp_dport a\<rparr>)]
    \<and> a' = a\<lparr>credit_total := credit_total a + (credit_seq p - c_recv_next a + 1),
        credit_dropped := credit_dropped a + (credit_seq p - c_recv_next a), c_recv_next := credit_seq p + 1,
        recv_next := (if xp_seqno p = recv_next a then recv_next a + (xp_size p - xp_hlen p) else recv_next a), xp_rtt := rtt\<rparr>"
proof -
  define b where "b = a\<lparr>credit_total := credit_total a + (credit_seq p - c_recv_next a + 1),
    credit_dropped := credit_dropped a + (credit_seq p - c_recv_next a), c_recv_next := credit_seq p + 1\<rparr>"
  have d: "c_recv_next a \<le> credit_seq p"
    using assms(1) by (cases "credit_seq p < c_recv_next a") (simp_all add: recv_data_def)
  then have nd: "(credit_seq p - c_recv_next a < 0) = False" by simp
  from assms(1) obtain c n where c: "process_ack p b = Some c" "message_bytes p (update_rtt now p c) = Some n"
    and out: "out = [Recv_msg n ((r2p2_header p)\<lparr>client_port := xp_dport (update_rtt now p c)\<rparr>)]" "a' = update_rtt now p c"
    unfolding recv_data_def Let_def b_def [symmetric] nd
    by (simp only: if_False bind_eq_Some_conv option.inject Pair_inject) blast
  have "\<not> wait_retransmission b" using assms(2) by (simp add: b_def)
  from process_ack_frame [OF c(1) this] have c': "c = b\<lparr>recv_next := (if xp_seqno p = recv_next a
      then recv_next a + (xp_size p - xp_hlen p) else recv_next a)\<rparr>" "xp_hlen p \<le> xp_size p" "xp_seqno p \<le> recv_next a"
    by (simp_all add: b_def)
  define rtt where "rtt = (if xp_rtt c > 0 then dadd (dmul (dbl (8 / 10)) (xp_rtt c)) (dmul (dbl (2 / 10)) (dsub now (credit_sent_time p)))
    else dsub now (credit_sent_time p))"
  have upd: "update_rtt now p c = c\<lparr>xp_rtt := rtt\<rparr>" by (simp add: update_rtt_def rtt_def Let_def)
  have "message_bytes p (c\<lparr>xp_rtt := rtt\<rparr>) = message_bytes p a" by (simp add: c'(1) b_def message_bytes_def Let_def)
  then show ?thesis
    using d c(2) c'(2,3) out unfolding upd by (intro exI [of _ rtt] exI [of _ n]) (simp add: c'(1) b_def)
qed

lemma ok_recv_data:
  assumes "recv_data now p a = Some (out, a')" "agent_ok a"
  shows "agent_ok a'"
proof -
  have "\<not> wait_retransmission a" using assms(2) by (simp add: agent_ok_defs)
  from recv_data_frame [OF assms(1) this] obtain tot dr c r rtt where
    "a' = a\<lparr>credit_total := tot, credit_dropped := dr, c_recv_next := c, recv_next := r, xp_rtt := rtt\<rparr>"
    and "credit_dropped a \<le> dr" "tot - dr = credit_total a - credit_dropped a + 1" by (fastforce simp del: not_None_eq)
  then show ?thesis using assms(2) by (simp add: agent_ok_defs)
qed

lemma ok_recv_credit_stop:
  assumes "recv_credit_stop now a = Some (out, a')" "agent_ok a"
  shows "agent_ok a'"
proof -
  from assms(1) obtain tm where tm: "tm_status (fct_timer a) = TIMER_IDLE"
    and a': "a' = a\<lparr>fct := dsub now (fst_time a), fct_timer := timer_resched now (default_credit_stop_timeout a) (fct_timer a),
       send_credit_timer := timer_force_cancel (send_credit_timer a), credit_send_state := XPASS_SEND_CLOSE_WAIT\<rparr>"
    unfolding recv_credit_stop_def by (simp only: bind_eq_Some_conv timer_sched_pending option.inject Pair_inject) blast
  show ?thesis unfolding a' using assms(2) by (simp add: agent_ok_defs)
qed

lemma ok_advance_bytes:
  assumes "advance_bytes now nb a = Some (out, a')" "agent_ok a"
  shows "agent_ok a'"
proof -
  have st: "credit_recv_state a = XPASS_RECV_CLOSED" and nb: "\<not> nb \<le> 0"
    using assms(1) by (auto simp: advance_bytes_def split: if_splits)
  have ns: "(credit_recv_state a \<noteq> XPASS_RECV_CLOSED) = False" "(nb \<le> 0) = False" using st nb by simp_all
  from assms(1) obtain p b where b: "construct_credit_request now (a\<lparr>curseq := curseq a + nb\<rparr>) = Some (p, b)"
    "tm_status (sender_retransmit_timer b) = TIMER_IDLE"
    and a': "a' = b\<lparr>sender_retransmit_timer := timer_resched now (retransmit_timeout b) (sender_retransmit_timer b),
      credit_recv_state := XPASS_RECV_CREDIT_REQUEST_SENT\<rparr>"
    unfolding advance_bytes_def ns
    by (simp only: if_False bind_eq_Some_conv timer_sched_pending option.inject Pair_inject split_paired_Ex prod.case) blast
  from request_frame [OF b(1)] have "b = a\<lparr>curseq := curseq a + nb, xp_rtt := now\<rparr>" by simp
  then show ?thesis unfolding a' using assms(2) st nb by (simp add: agent_ok_defs)
qed

lemma ok_reset:
  assumes "xpass_reset a = Some a'"
  shows "agent_ok a'"
proof -
  from assms obtain t1 t2 t3 t4 t5 where t: "stop_if_set (send_credit_timer a) = Some t1" "stop_if_set (credit_stop_timer a) = Some t2"
      "stop_if_set (sender_retransmit_timer a) = Some t3" "stop_if_set (receiver_retransmit_timer a) = Some t4"
      "stop_if_set (fct_timer a) = Some t5"
    and a': "a' = a\<lparr>credit_send_state := XPASS_SEND_CLOSED, credit_recv_state := XPASS_RECV_CLOSED,
       last_credit_rate_update := 0, credit_total := 0, credit_dropped := 0, can_increase_w := False,
       curseq := 1, t_seqno := 1, recv_next := 1, c_seqno := 1, c_recv_next := 1, xp_rtt := 0,
       credit_recved := 0, wait_retransmission := False, credit_wasted := 0, credit_recved_rtt := 0,
       last_credit_recv_update := 0, times_conn_used := times_conn_used a + 1,
       send_credit_timer := t1, credit_stop_timer := t2, sender_retransmit_timer := t3,
       receiver_retransmit_timer := t4, fct_timer := t5\<rparr>"
    unfolding xpass_reset_def by (simp only: bind_eq_Some_conv option.inject) blast
  show ?thesis unfolding a' using t [THEN stop_if_set_idle] by (simp add: agent_ok_defs)
qed

lemma ok_resend:
  assumes "resend_request now a = Some (out, a')"
  shows "\<exists>d. a' = a\<lparr>xp_rtt := now, sender_retransmit_timer := timer_resched now d (sender_retransmit_timer a)\<rparr>"
proof -
  from assms obtain p b where b: "construct_credit_request now a = Some (p, b)"
    and a': "a' = b\<lparr>sender_retransmit_timer := timer_resched now (retransmit_timeout b) (sender_retransmit_timer b)\<rparr>"
    unfolding resend_request_def
    by (simp only: bind_eq_Some_conv option.inject Pair_inject split_paired_Ex prod.case) blast
  from request_frame [OF b(1)] have "b = a\<lparr>xp_rtt := now\<rparr>" by simp
  then show ?thesis unfolding a' by auto
qed

lemma timer_event_cases:
  assumes "timer_event k r1 r2 now a = Some (out, a')"
  obtains tm b where "pending (timer_of k a)" "tm = timer_of k a\<lparr>tm_status := TIMER_HANDLING\<rparr>"
    "timer_expire k r1 r2 now (set_timer k tm a) = Some (out, b)" "a' = set_timer k (timer_end (timer_of k b)) b"
proof -
  from assms obtain tm b where tm: "timer_begin (timer_of k a) = Some tm"
    and b: "timer_expire k r1 r2 now (set_timer k tm a) = Some (out, b)"
    and a': "a' = set_timer k (timer_end (timer_of k b)) b"
    unfolding timer_event_def
    by (simp only: bind_eq_Some_conv option.inject Pair_inject split_paired_Ex prod.case) blast
  show ?thesis
    by (rule that [OF _ _ b a']) (use tm in \<open>simp_all add: timer_begin_pending\<close>)
qed

lemma handling_frame:
  "timers_ok a \<and> all_settled a \<Longrightarrow> pending (sender_retransmit_timer a) \<longleftrightarrow> credit_recv_state a \<in>
    {XPASS_RECV_CREDIT_REQUEST_SENT, XPASS_RECV_CREDIT_STOP_SENT, XPASS_RECV_CLOSE_WAIT}"
  by (auto simp: timers_ok_def)

lemma retransmit_cases [consumes 2, case_names request again waited closed]:
  assumes "timer_event Sender_retransmit r1 r2 now a = Some (out, a')" "agent_ok a"
  obtains b d where "credit_recv_state a = XPASS_RECV_CREDIT_REQUEST_SENT"
      "resend_request now (a\<lparr>sender_retransmit_timer := d\<rparr>) = Some (out, b)"
      "a' = b\<lparr>sender_retransmit_timer := timer_end (sender_retransmit_timer b)\<rparr>"
  | b d where "credit_recv_state a = XPASS_RECV_CREDIT_STOP_SENT" "t_seqno a < curseq a"
      "resend_request now (a\<lparr>sender_retransmit_timer := d, credit_recv_state := XPASS_RECV_CREDIT_REQUEST_SENT\<rparr>) = Some (out, b)"
      "a' = b\<lparr>sender_retransmit_timer := timer_end (sender_retransmit_timer b)\<rparr>"
  | tm where "credit_recv_state a = XPASS_RECV_CREDIT_STOP_SENT" "t_seqno a = curseq a" "out = []"
      "a' = a\<lparr>sender_retransmit_timer := tm, credit_recv_state := XPASS_RECV_CLOSE_WAIT, credit_recved := 0\<rparr>"
      "pending tm" "settled tm"
  | tm where "credit_recv_state a = XPASS_RECV_CLOSE_WAIT" "out = []"
      "a' = a\<lparr>sender_retransmit_timer := tm, credit_recv_state := XPASS_RECV_CLOSED\<rparr>" "\<not> pending tm" "settled tm"
proof -
  from assms(1) obtain tm b where tm: "pending (sender_retransmit_timer a)"
    and b: "handle_sender_retransmit now (a\<lparr>sender_retransmit_timer := tm\<rparr>) = Some (out, b)"
    and a': "a' = b\<lparr>sender_retransmit_timer := timer_end (sender_retransmit_timer b)\<rparr>"
    by (rule timer_event_cases) simp
  have "credit_recv_state a \<in> {XPASS_RECV_CREDIT_REQUEST_SENT, XPASS_RECV_CREDIT_STOP_SENT, XPASS_RECV_CLOSE_WAIT}"
    using handling_frame [of a] tm assms(2) by (simp add: agent_ok_def)
  then consider "credit_recv_state a = XPASS_RECV_CREDIT_REQUEST_SENT" | "credit_recv_state a = XPASS_RECV_CREDIT_STOP_SENT"
    | "credit_recv_state a = XPASS_RECV_CLOSE_WAIT" by blast
  then show ?thesis
  proof cases
    case 1
    then show ?thesis using b by (intro that(1) [OF _ _ a', of tm]) (simp_all add: handle_sender_retransmit_def)
  next
    case 2
    have le: "t_seqno a \<le> curseq a" using assms(2) by (simp add: agent_ok_defs)
    show ?thesis
    proof (cases "t_seqno a < curseq a")
      case True
      then show ?thesis using b 2
        by (intro that(2) [OF _ _ _ a', of tm]) (simp_all add: handle_sender_retransmit_def datalen_remaining_def)
    next
      case False
      define e where "e = timer_resched now (if xp_rtt a > 0 then xp_rtt a else default_credit_stop_timeout a) tm"
      have "handle_sender_retransmit now (a\<lparr>sender_retransmit_timer := tm\<rparr>) = Some ([],
          a\<lparr>sender_retransmit_timer := e, credit_recv_state := XPASS_RECV_CLOSE_WAIT, credit_recved := 0\<rparr>)"
        using False by (simp add: handle_sender_retransmit_def datalen_remaining_def 2 e_def)
      then have "b = a\<lparr>sender_retransmit_timer := e, credit_recv_state := XPASS_RECV_CLOSE_WAIT, credit_recved := 0\<rparr>"
        and out: "out = []" using b by simp_all
      then have a'': "a' = a\<lparr>sender_retransmit_timer := timer_end e, credit_recv_state := XPASS_RECV_CLOSE_WAIT,
          credit_recved := 0\<rparr>" using a' by simp
      show ?thesis by (rule that(3) [OF 2 _ out a'']) (use False le in \<open>simp_all add: e_def\<close>)
    qed
  next
    case 3
    have "credit_recved a = 0" using assms(2) 3 by (simp add: agent_ok_defs)
    then have "handle_sender_retransmit now (a\<lparr>sender_retransmit_timer := tm\<rparr>) = Some ([],
        a\<lparr>sender_retransmit_timer := timer_force_cancel tm, credit_recv_state := XPASS_RECV_CLOSED\<rparr>)"
      by (simp add: handle_sender_retransmit_def 3)
    then have "b = a\<lparr>sender_retransmit_timer := timer_force_cancel tm, credit_recv_state := XPASS_RECV_CLOSED\<rparr>"
      and out: "out = []" using b by simp_all
    then have a'': "a' = a\<lparr>sender_retransmit_timer := timer_end (timer_force_cancel tm),
        credit_recv_state := XPASS_RECV_CLOSED\<rparr>" using a' by simp
    show ?thesis by (rule that(4) [OF 3 out a'']) simp_all
  qed
qed

lemma ok_retransmit:
  assumes "timer_event Sender_retransmit r1 r2 now a = Some (out, a')" "agent_ok a"
  shows "agent_ok a'"
  using assms
proof (cases rule: retransmit_cases)
  case (request b d)
  from ok_resend [OF request(2)] obtain x tm where "b = a\<lparr>xp_rtt := x, sender_retransmit_timer := tm\<rparr>" "pending tm" by auto
  then show ?thesis unfolding request(3) using assms(2) request(1) by (simp add: agent_ok_defs)
next
  case (again b d)
  from ok_resend [OF again(3)] obtain x tm where "b = a\<lparr>credit_recv_state := XPASS_RECV_CREDIT_REQUEST_SENT,
      xp_rtt := x, sender_retransmit_timer := tm\<rparr>" "pending tm" by auto
  then show ?thesis unfolding again(4) using assms(2) again(1,2) by (simp add: agent_ok_defs)
next
  case (waited tm)
  show ?thesis unfolding waited(4) using assms(2) waited by (simp add: agent_ok_defs)
next
  case (closed tm)
  show ?thesis unfolding closed(3) using assms(2) closed by (simp add: agent_ok_defs)
qed

lemma send_credit_event:
  assumes "timer_event Send_credit r1 r2 now a = Some (out, a')"
  obtains r w i tot dr l tm p where "a' = a\<lparr>cur_credit_rate := r, xp_w := w, can_increase_w := i, credit_total := tot,
      credit_dropped := dr, last_credit_rate_update := l, c_seqno := max 1 (c_seqno a + 1), send_credit_timer := tm\<rparr>"
    "tot = credit_total a \<and> dr = credit_dropped a \<or> tot = 0 \<and> dr = 0"
    "pending (send_credit_timer a)" "pending tm" "settled tm" "out = [Send p]" "xp_ptype p = PT_XPASS_CREDIT"
    "credit_seq p = c_seqno a"
proof -
  from assms obtain tm b where tm: "pending (send_credit_timer a)"
    and b: "send_credit r1 r2 now (a\<lparr>send_credit_timer := tm\<rparr>) = Some (out, b)"
    and a': "a' = b\<lparr>send_credit_timer := timer_end (send_credit_timer b)\<rparr>"
    by (rule timer_event_cases) simp
  from b obtain r w i tot dr l sc p where sc: "b = (a\<lparr>send_credit_timer := tm\<rparr>)\<lparr>cur_credit_rate := r, xp_w := w,
      can_increase_w := i, credit_total := tot, credit_dropped := dr, last_credit_rate_update := l,
      c_seqno := max 1 (c_seqno (a\<lparr>send_credit_timer := tm\<rparr>) + 1), send_credit_timer := sc\<rparr>"
    "tot = credit_total (a\<lparr>send_credit_timer := tm\<rparr>) \<and> dr = credit_dropped (a\<lparr>send_credit_timer := tm\<rparr>) \<or> tot = 0 \<and> dr = 0"
    "pending sc" "settled sc" "out = [Send p]" "xp_ptype p = PT_XPASS_CREDIT" "credit_seq p = c_seqno (a\<lparr>send_credit_timer := tm\<rparr>)"
    by (rule send_credit_frame)
  then have "a' = a\<lparr>cur_credit_rate := r, xp_w := w, can_increase_w := i, credit_total := tot,
      credit_dropped := dr, last_credit_rate_update := l, c_seqno := max 1 (c_seqno a + 1), send_credit_timer := timer_end sc\<rparr>"
    unfolding a' by simp
  then show ?thesis by (rule that) (use sc tm in simp_all)
qed

lemma credit_stop_event:
  assumes "timer_event Credit_stop r1 r2 now a = Some (out, a')"
  obtains t1 t2 p where "a' = a\<lparr>credit_stop_timer := t1, sender_retransmit_timer := t2,
      credit_recv_state := XPASS_RECV_CREDIT_STOP_SENT\<rparr>"
    "pending (credit_stop_timer a)" "\<not> pending t1" "settled t1" "pending t2" "settled t2"
    "out = [Send p]" "xp_ptype p = PT_XPASS_CREDIT_STOP"
proof -
  from assms obtain tm b where tm: "pending (credit_stop_timer a)" "tm = credit_stop_timer a\<lparr>tm_status := TIMER_HANDLING\<rparr>"
    and b: "send_credit_stop now (a\<lparr>credit_stop_timer := tm\<rparr>) = (out, b)"
    and a': "a' = b\<lparr>credit_stop_timer := timer_end (credit_stop_timer b)\<rparr>"
    by (rule timer_event_cases) simp
  define e where "e = timer_resched now
      (if xp_rtt a > 0 then dmul 2 (xp_rtt a) else default_credit_stop_timeout a) (sender_retransmit_timer a)"
  have "b = a\<lparr>credit_stop_timer := tm, sender_retransmit_timer := e, credit_recv_state := XPASS_RECV_CREDIT_STOP_SENT\<rparr>"
    using b by (cases "xp_rtt a > 0") (auto simp: send_credit_stop_def e_def)
  then have a'': "a' = a\<lparr>credit_stop_timer := timer_end tm, sender_retransmit_timer := e,
      credit_recv_state := XPASS_RECV_CREDIT_STOP_SENT\<rparr>" unfolding a' by simp
  have out: "out = [Send (construct_credit_stop (a\<lparr>credit_stop_timer := tm\<rparr>))]" using b by (simp add: send_credit_stop_def)
  show ?thesis
    by (rule that [OF a'' tm(1) _ _ _ _ out])
      (use tm in \<open>simp_all add: e_def construct_credit_stop_def allocpkt_def\<close>)
qed

lemma fct_event:
  assumes "timer_event FCT r1 r2 now a = Some (out, a')"
  obtains tm where "a' = a\<lparr>fct_timer := tm, credit_send_state := XPASS_SEND_CLOSED\<rparr>" "pending (fct_timer a)" "out = []"
    "\<not> pending tm" "settled tm"
proof -
  from assms obtain tm b where tm: "pending (fct_timer a)" "tm = fct_timer a\<lparr>tm_status := TIMER_HANDLING\<rparr>"
    and b: "handle_fct (a\<lparr>fct_timer := tm\<rparr>) = b" "out = []"
    and a': "a' = b\<lparr>fct_timer := timer_end (fct_timer b)\<rparr>"
    by (rule timer_event_cases) simp
  have "a' = a\<lparr>fct_timer := timer_end tm, credit_send_state := XPASS_SEND_CLOSED\<rparr>"
    using b(1) unfolding a' by (auto simp: handle_fct_def)
  then show ?thesis by (rule that) (use tm b in simp_all)
qed

lemma ok_timer:
  assumes "timer_event k r1 r2 now a = Some (out, a')" "agent_ok a"
  shows "agent_ok a'"
proof (cases k)
  case Send_credit
  obtain r w i tot dr l tm where "a' = a\<lparr>cur_credit_rate := r, xp_w := w, can_increase_w := i, credit_total := tot,
      credit_dropped := dr, last_credit_rate_update := l, c_seqno := max 1 (c_seqno a + 1), send_credit_timer := tm\<rparr>"
    "tot = credit_total a \<and> dr = credit_dropped a \<or> tot = 0 \<and> dr = 0" "pending (send_credit_timer a)" "pending tm" "settled tm"
    using assms(1) unfolding Send_credit by (rule send_credit_event)
  then show ?thesis using assms(2) by (auto simp: agent_ok_defs)
next
  case Credit_stop
  obtain t1 t2 where "a' = a\<lparr>credit_stop_timer := t1, sender_retransmit_timer := t2,
      credit_recv_state := XPASS_RECV_CREDIT_STOP_SENT\<rparr>"
    "pending (credit_stop_timer a)" "\<not> pending t1" "settled t1" "pending t2" "settled t2"
    using assms(1) unfolding Credit_stop by (rule credit_stop_event)
  then show ?thesis using assms(2) by (simp add: agent_ok_defs)
next
  case Sender_retransmit
  then show ?thesis using ok_retransmit assms by blast
next
  case Receiver_retransmit
  then show ?thesis using assms(1) by (auto simp: timer_event_def handle_receiver_retransmit_def bind_eq_Some_conv)
next
  case FCT
  obtain tm where "a' = a\<lparr>fct_timer := tm, credit_send_state := XPASS_SEND_CLOSED\<rparr>" "pending (fct_timer a)"
    "\<not> pending tm" "settled tm"
    using assms(1) unfolding FCT by (rule fct_event)
  then show ?thesis using assms(2) by (simp add: agent_ok_defs)
qed

section \<open>The properties of one agent\<close>

lemma ok_recv:
  assumes "xpass_agent_recv r1 r2 now p a = Some (out, a')" "agent_ok a"
  shows "agent_ok a'"
  using assms ok_recv_credit_request ok_recv_credit ok_recv_data ok_recv_credit_stop
  by (cases "xp_ptype p"; simp add: xpass_agent_recv_def recv_nack_def; blast)

lemma ok_handle:
  assumes "agent_handle ev r1 r2 now a = Some (out, a')" "agent_ok a"
  shows "agent_ok a'"
proof (cases ev)
  case (Recv p)
  then show ?thesis using assms ok_recv by simp
next
  case (Advance nb)
  then show ?thesis using assms ok_advance_bytes by simp
next
  case (Advance_message nb req)
  then have "advance_bytes now nb (a\<lparr>cur_req_id_tup := Some req\<rparr>) = Some (out, a')"
    using assms(1) by (simp add: advance_message_def split: if_splits)
  moreover have "agent_ok (a\<lparr>cur_req_id_tup := Some req\<rparr>)" using assms(2) by (simp add: agent_ok_defs)
  ultimately show ?thesis by (rule ok_advance_bytes)
next
  case (Timer k)
  then show ?thesis using assms ok_timer by simp
next
  case Reset
  then have "xpass_reset a = Some a'" using assms(1) by simp
  then show ?thesis by (rule ok_reset)
qed

lemma ok_run:
  assumes "agent_run es a = Some (outs, a')" "agent_ok a"
  shows "agent_ok a'"
  using assms
proof (induction es arbitrary: a outs)
  case (Cons e es)
  obtain ev r1 r2 now where e: "e = (ev, r1, r2, now)" by (cases e)
  from Cons.prems(1) obtain out b outs' where "agent_handle ev r1 r2 now a = Some (out, b)" "agent_run es b = Some (outs', a')"
    by (auto simp: e bind_eq_Some_conv)
  then show ?case using Cons.IH ok_handle Cons.prems(2) by blast
qed simp


lemma recv_data_None:
  assumes "\<not> wait_retransmission a"
  shows "recv_data now p a = None \<longleftrightarrow> credit_seq p < c_recv_next a \<or> xp_size p < xp_hlen p
    \<or> recv_next a < xp_seqno p \<or> max_segment a = 0"
proof -
  define b where "b = a\<lparr>credit_total := credit_total a + (credit_seq p - c_recv_next a + 1),
    credit_dropped := credit_dropped a + (credit_seq p - c_recv_next a), c_recv_next := credit_seq p + 1\<rparr>"
  have b: "recv_next b = recv_next a" "\<not> wait_retransmission b" "max_ethernet_size b = max_ethernet_size a"
    "xpass_hdr_size b = xpass_hdr_size a" using assms by (simp_all add: b_def)
  have ack: "process_ack p b = None \<longleftrightarrow> xp_size p < xp_hlen p \<or> recv_next a < xp_seqno p"
    by (simp add: process_ack_def Let_def b)
  have mb: "message_bytes p (update_rtt now p c) = None \<longleftrightarrow> max_segment a = 0" if "process_ack p b = Some c" for c
    using process_ack_frame [OF that b(2)] b(3,4)
    by (simp add: message_bytes_def update_rtt_def max_segment_def Let_def)
  show ?thesis
    using ack mb unfolding recv_data_def Let_def b_def [symmetric]
    by (cases "process_ack p b") (auto simp: bind_eq_None_conv)
qed

text \<open>
  Property C30. When a packet brings the simulation down: a data packet exactly if the credit or the
  data before it overtook or were lost, or if it is shorter than its header; a credit stop exactly
  if one has come before it with no request in between; a packet of type \<open>PT_XPASS_NACK\<close> always. The
  application brings it down by giving data to an agent that has not closed its last transfer.
\<close>
theorem xpass_agent_faults_iff:
  assumes "agent_run es a = Some (outs, a')" "xpass_reset a0 = Some a"
  shows "(xp_ptype p = PT_XPASS_DATA \<longrightarrow> (agent_handle (Recv p) r1 r2 now a' = None \<longleftrightarrow>
        credit_seq p < c_recv_next a' \<or> xp_size p < xp_hlen p \<or> recv_next a' < xp_seqno p \<or> max_segment a' = 0))
    \<and> (xp_ptype p = PT_XPASS_CREDIT_STOP \<longrightarrow> (agent_handle (Recv p) r1 r2 now a' = None \<longleftrightarrow>
        credit_send_state a' = XPASS_SEND_CLOSE_WAIT))
    \<and> (xp_ptype p = PT_XPASS_NACK \<longrightarrow> agent_handle (Recv p) r1 r2 now a' = None)
    \<and> (pkt_remaining (a'\<lparr>curseq := curseq a' + nb\<rparr>) \<noteq> None \<longrightarrow> (agent_handle (Advance nb) r1 r2 now a' = None \<longleftrightarrow>
        credit_recv_state a' \<noteq> XPASS_RECV_CLOSED \<or> nb \<le> 0))"
proof -
  have ok: "agent_ok a'" using ok_run [OF assms(1)] ok_reset [OF assms(2)] by simp
  then have nw: "\<not> wait_retransmission a'" by (simp add: agent_ok_defs)
  have stop: "recv_credit_stop now a' = None \<longleftrightarrow> credit_send_state a' = XPASS_SEND_CLOSE_WAIT"
    using agent_ok_idle(1) [OF ok] by (auto simp: recv_credit_stop_def timer_sched_def bind_eq_None_conv)
  have adv: "advance_bytes now nb a' = None \<longleftrightarrow> credit_recv_state a' \<noteq> XPASS_RECV_CLOSED \<or> nb \<le> 0"
    if "pkt_remaining (a'\<lparr>curseq := curseq a' + nb\<rparr>) = Some n" for n
    using that agent_ok_idle(3) [OF ok]
    by (auto simp: advance_bytes_def construct_credit_request_def timer_sched_def bind_eq_None_conv)
  show ?thesis
    using recv_data_None [OF nw] stop adv
    by (cases "pkt_remaining (a'\<lparr>curseq := curseq a' + nb\<rparr>)") (simp_all add: xpass_agent_recv_def recv_nack_def)
qed

section \<open>Examples\<close>

definition ex_agent :: xpass_agent where
  \<comment> \<open>a new agent with the defaults of \<open>tcl/lib/ns-default.tcl\<close>\<close>
  "ex_agent = \<lparr>min_ethernet_size = 84, max_ethernet_size = 1538, min_credit_size = 84, max_credit_size = 84,
     xpass_hdr_size = 78, max_credit_rate = 64734895, xp_alpha = 1 / 2, target_loss_scaling = 1 / 8, w_init = 1 / 2,
     min_w = dbl (1 / 100), max_jitter = dbl (1 / 10), min_jitter = dbl (- 1 / 10), retransmit_timeout = dbl (1 / 10),
     default_credit_stop_timeout = dbl (2 / 1000), xp_dport = 0, credit_send_state = XPASS_SEND_CLOSED,
     credit_recv_state = XPASS_RECV_CLOSED, cur_credit_rate = 0, last_credit_rate_update = 0, credit_total = 0,
     credit_dropped = 0, xp_w = 0, can_increase_w = False, send_credit_timer = new_timer, credit_stop_timer = new_timer,
     sender_retransmit_timer = new_timer, receiver_retransmit_timer = new_timer, fct_timer = new_timer, curseq = 1,
     t_seqno = 1, recv_next = 1, c_seqno = 1, c_recv_next = 1, xp_rtt = 0, fst_time = 0, fct = 0, credit_recved = 0,
     credit_recved_rtt = 0, last_credit_recv_update = 0, wait_retransmission = False, times_conn_used = 0,
     credit_wasted = 0, cur_req_id_tup = None\<rparr>"

lemma ex_agent_reset: "xpass_reset ex_agent = Some (ex_agent\<lparr>times_conn_used := 1\<rparr>)"
  by (simp add: xpass_reset_def ex_agent_def stop_if_set_def new_timer_def)

definition ex_stopped :: xpass_agent where
  \<comment> \<open>the same agent after a credit stop at time 1\<close>
  "ex_stopped = ex_agent\<lparr>times_conn_used := 1, fct := dsub 1 0,
     fct_timer := timer_resched 1 (dbl (2 / 1000)) new_timer, credit_send_state := XPASS_SEND_CLOSE_WAIT\<rparr>"

lemma ex_agent_stopped:
  "agent_run [(Recv (allocpkt PT_XPASS_CREDIT_STOP), 0, 0, 1)] (ex_agent\<lparr>times_conn_used := 1\<rparr>) = Some ([], ex_stopped)"
  by (simp add: ex_stopped_def ex_agent_def allocpkt_def xpass_agent_recv_def recv_credit_stop_def timer_sched_def
      timer_resched_def timer_force_cancel_def new_timer_def)


theorem xpass_agent_faults_iff_witness:
  "agent_handle (Recv (allocpkt PT_XPASS_CREDIT_STOP)) 0 0 2 ex_stopped = None"
  using xpass_agent_faults_iff [OF ex_agent_stopped ex_agent_reset, of "allocpkt PT_XPASS_CREDIT_STOP" 0 0 2 1]
  by (simp add: allocpkt_def ex_stopped_def)

end
