(* ===== verification/XPass_Rate.thy ===== *)
theory XPass_Rate
  imports XPass_Timers
begin

text \<open>
  The feedback control of the credit rate, \<open>XPassAgent::credit_feedback_control\<close>: where the rate and
  the weight \<open>w_\<close> of the increase can go.
\<close>

lemma bound_rate_range: "low \<le> bound_rate low high r" "bound_rate low high r \<le> high \<or> bound_rate low high r = low"
  "bound_rate low high r \<le> max low r"
  by (simp_all add: bound_rate_def Let_def)

lemma congested_parts:
  assumes "congested_control now a = Some b"
  shows "cur_credit_rate b \<le> cur_credit_rate a" "xp_w b = max (ddiv (xp_w a) 2) (min_w a)" "max_credit_rate b = max_credit_rate a"
    "min_w b = min_w a"
  using assms by (auto simp: congested_control_def bind_eq_Some_conv)

lemma uncongested_parts:
  assumes "uncongested_control a = Some b"
  shows "xp_w b = (if can_increase_w a then min (dadd (xp_w a) (dbl (5 / 100))) (dbl (5 / 10)) else xp_w a)"
    "max_credit_rate b = max_credit_rate a" "min_w b = min_w a"
  using assms by (auto simp: uncongested_control_def bind_eq_Some_conv Let_def)

text \<open>
  Property C29. The bounds of the rate control: a due control leaves a rate of at least one credit packet
  per round trip, which is above the greatest rate only where that floor is; with more loss than the
  target the rate never rises past the floor, and neither does the weight of the next increase; without,
  the weight never falls; and the weight stays between its least value and one half.
\<close>
theorem xpass_rate_control_bounds:
  assumes "credit_feedback_control now a = Some a'" "control_due now a"
    "0 \<le> min_w a" "min_w a \<le> xp_w a" "xp_w a \<le> dbl (5 / 10)" "dbl (xp_w a) = xp_w a"
  shows "(\<exists>low. min_rate a = Some low \<and> low \<le> cur_credit_rate a'
        \<and> (cur_credit_rate a' \<le> max_credit_rate a \<or> cur_credit_rate a' = low)
        \<and> (loss_rate a > target_loss a \<longrightarrow> cur_credit_rate a' \<le> max low (cur_credit_rate a)))
    \<and> (if loss_rate a > target_loss a then xp_w a' \<le> xp_w a else xp_w a \<le> xp_w a')
    \<and> min_w a' = min_w a \<and> min_w a \<le> xp_w a' \<and> xp_w a' \<le> dbl (5 / 10)"
proof -
  obtain low b where low: "min_rate a = Some low"
    and b: "(if loss_rate a > target_loss a then congested_control now a else uncongested_control a) = Some b"
    and a': "a' = b\<lparr>cur_credit_rate := bound_rate low (max_credit_rate b) (cur_credit_rate b), credit_total := 0,
       credit_dropped := 0, last_credit_rate_update := now\<rparr>"
    using assms(1,2) by (rule feedback_due)
  have fr: "cur_credit_rate a' = bound_rate low (max_credit_rate b) (cur_credit_rate b)" "xp_w a' = xp_w b" "min_w a' = min_w b"
    by (simp_all add: a')
  show ?thesis
  proof (cases "loss_rate a > target_loss a")
    case True
    then have "congested_control now a = Some b" using b by simp
    note c = congested_parts [OF this]
    have "ddiv (xp_w a) 2 \<le> dbl (xp_w a)" unfolding ddiv_def using assms(3,4) by (intro dbl_mono) simp
    then have "ddiv (xp_w a) 2 \<le> xp_w a" using assms(6) by simp
    moreover have "bound_rate low (max_credit_rate b) (cur_credit_rate b) \<le> max low (cur_credit_rate a)"
      using bound_rate_range(3) [of low "max_credit_rate b" "cur_credit_rate b"] c(1) by linarith
    ultimately show ?thesis using True low assms(4,5) bound_rate_range [of low "max_credit_rate a" "cur_credit_rate b"]
      by (auto simp: fr c)
  next
    case False
    then have "uncongested_control a = Some b" using b by simp
    note c = uncongested_parts [OF this]
    have "dbl (xp_w a) \<le> dadd (xp_w a) (dbl (5 / 100))" unfolding dadd_def by (rule dbl_mono) simp
    then have "xp_w a \<le> xp_w b" "xp_w b \<le> dbl (5 / 10)" using assms(5,6) by (simp_all add: c)
    then show ?thesis using False low assms(4) bound_rate_range [of low "max_credit_rate a" "cur_credit_rate b"]
      by (auto simp: fr c(2,3))
  qed
qed

section \<open>Examples\<close>

definition ex_losing :: xpass_agent where
  \<comment> \<open>an agent at the greatest rate that has lost all its credit for a round trip\<close>
  "ex_losing = ex_agent\<lparr>min_w := 0, xp_w := 1 / 2, xp_rtt := 1, cur_credit_rate := 64734895,
     credit_total := 2, credit_dropped := 2\<rparr>"

lemma dbl_fractions: "dbl (1 / 2) = 1 / 2" "dbl (1 / 4) = 1 / 4"
  using dbl_scaled [of 1 "-1"] dbl_scaled [of 1 "-2"] by (simp_all add: powr_minus_divide)

lemma ex_losing_parts: "control_due 2 ex_losing" "loss_rate ex_losing = 1" "target_loss ex_losing = 0"
    "min_rate ex_losing = Some 84"
  by (simp_all add: control_due_def loss_rate_def target_loss_def min_rate_def avg_credit_size_def double_to_int_def
      ex_losing_def ex_agent_def double_ops)

lemma ex_losing_control: "credit_feedback_control 2 ex_losing = Some (ex_losing\<lparr>cur_credit_rate := 84, xp_w := 1 / 4,
    can_increase_w := False, credit_total := 0, credit_dropped := 0, last_credit_rate_update := 2\<rparr>)"
  by (simp add: credit_feedback_control_def congested_control_def ex_losing_parts)
    (simp add: ex_losing_def ex_agent_def bound_rate_def double_ops dbl_fractions)

theorem xpass_rate_control_bounds_witness:
  "\<exists>a'. credit_feedback_control 2 ex_losing = Some a' \<and> cur_credit_rate a' = 84
    \<and> (\<exists>low. min_rate ex_losing = Some low \<and> low \<le> cur_credit_rate a') \<and> xp_w a' \<le> xp_w ex_losing"
proof -
  have "0 \<le> min_w ex_losing" "min_w ex_losing \<le> xp_w ex_losing" "xp_w ex_losing \<le> dbl (5 / 10)"
    "dbl (xp_w ex_losing) = xp_w ex_losing" by (simp_all add: ex_losing_def ex_agent_def dbl_fractions)
  from xpass_rate_control_bounds [OF ex_losing_control ex_losing_parts(1) this] show ?thesis
    unfolding ex_losing_control by (simp add: ex_losing_parts)
qed

end
