(* ===== verification/XPass_Connection.thy ===== *)
theory XPass_Connection
  imports XPass_Timers
begin

text \<open>
  Two ExpressPass agents and the network between them. The sender has been given one message, after
  both agents were reset, as the application does. Data packets, requests and stops arrive in order
  and are not lost, since the queues have room for them; credit packets arrive in order and any of
  them may be lost, since the queues throttle them. Timers may go off at any time, but the timer of
  the credit stop, which has no delay, goes off before anything else happens to the sender.
\<close>

section \<open>The network\<close>

record connection =
  sender :: xpass_agent
  receiver :: xpass_agent
  to_receiver :: "xpass_packet list"
  to_sender :: "xpass_packet list"
  delivered :: "int list"

definition packets_of :: "xpass_output list \<Rightarrow> xpass_packet list" where
  "packets_of out = concat (map (\<lambda>x. case x of Send p \<Rightarrow> [p] | Recv_msg n r \<Rightarrow> []) out)"

definition handed :: "xpass_output list \<Rightarrow> int list" where
  "handed out = concat (map (\<lambda>x. case x of Send p \<Rightarrow> [] | Recv_msg n r \<Rightarrow> [n]) out)"

lemma output_simps [simp]:
  "packets_of [] = []" "packets_of (Send p # out) = p # packets_of out" "packets_of (Recv_msg n r # out) = packets_of out"
  "handed [] = []" "handed (Send p # out) = handed out" "handed (Recv_msg n r # out) = n # handed out"
  by (simp_all add: packets_of_def handed_def)

definition connect :: "real \<Rightarrow> int \<Rightarrow> request_id \<Rightarrow> xpass_agent \<Rightarrow> xpass_agent \<Rightarrow> connection option" where
  \<comment> \<open>the application resets both agents and gives the sender a message of \<open>nb\<close> bytes\<close>
  "connect now nb req a b = do {
     a \<leftarrow> xpass_reset a;
     b \<leftarrow> xpass_reset b;
     (out, a) \<leftarrow> advance_message now nb req a;
     Some \<lparr>sender = a, receiver = b, to_receiver = packets_of out, to_sender = [], delivered = []\<rparr> }"

inductive conn_step :: "connection \<Rightarrow> connection \<Rightarrow> bool" where
  to_receiver: "to_receiver c = p # ps \<Longrightarrow> agent_handle (Recv p) r1 r2 now (receiver c) = Some (out, b) \<Longrightarrow>
    conn_step c (c\<lparr>receiver := b, to_receiver := ps, to_sender := to_sender c @ packets_of out,
      delivered := delivered c @ handed out\<rparr>)"
| to_sender: "to_sender c = p # ps \<Longrightarrow> \<not> pending (credit_stop_timer (sender c)) \<Longrightarrow>
    agent_handle (Recv p) r1 r2 now (sender c) = Some (out, a) \<Longrightarrow>
    conn_step c (c\<lparr>sender := a, to_sender := ps, to_receiver := to_receiver c @ packets_of out\<rparr>)"
| credit_lost: "to_sender c = ps @ p # qs \<Longrightarrow> conn_step c (c\<lparr>to_sender := ps @ qs\<rparr>)"
| sender_timer: "k = Credit_stop \<or> \<not> pending (credit_stop_timer (sender c)) \<Longrightarrow>
    agent_handle (Timer k) r1 r2 now (sender c) = Some (out, a) \<Longrightarrow>
    conn_step c (c\<lparr>sender := a, to_receiver := to_receiver c @ packets_of out\<rparr>)"
| receiver_timer: "agent_handle (Timer k) r1 r2 now (receiver c) = Some (out, b) \<Longrightarrow>
    conn_step c (c\<lparr>receiver := b, to_sender := to_sender c @ packets_of out\<rparr>)"

inductive conn_reach :: "connection \<Rightarrow> connection \<Rightarrow> bool" for c0 where
  start: "conn_reach c0 c0"
| step: "conn_reach c0 c \<Longrightarrow> conn_step c c' \<Longrightarrow> conn_reach c0 c'"

section \<open>What is in flight\<close>

definition is_data :: "xpass_packet \<Rightarrow> bool" where
  "is_data p \<longleftrightarrow> xp_ptype p = PT_XPASS_DATA"

definition wants_credit :: "xpass_agent \<Rightarrow> bool" where
  "wants_credit a \<longleftrightarrow> credit_recv_state a = XPASS_RECV_CREDIT_REQUEST_SENT
    \<or> credit_recv_state a = XPASS_RECV_CREDIT_RECEIVING"

fun control :: "bool \<Rightarrow> xpass_packet list \<Rightarrow> bool option" where
  \<comment> \<open>whether the receiver sends credit after the packets; a stop must meet a receiver that does\<close>
  "control s [] = Some s"
| "control s (p # ps) = (if xp_ptype p = PT_XPASS_CREDIT_REQUEST then control True ps
     else if xp_ptype p = PT_XPASS_CREDIT_STOP then (if s then control False ps else None)
     else control s ps)"

definition seqs_ok :: "int \<Rightarrow> int \<Rightarrow> int list \<Rightarrow> bool" where
  "seqs_ok lo hi ss \<longleftrightarrow> sorted_wrt (<) ss \<and> (\<forall>s\<in>set ss. lo \<le> s \<and> s < hi) \<and> lo \<le> hi"

record layout =
  \<comment> \<open>the sizes of the packets of a message, its end and its header\<close>
  segment :: int
  header_size :: int
  least_frame :: int
  message_end :: int
  message_req :: request_id

definition layout_of :: "xpass_agent \<Rightarrow> request_id \<Rightarrow> layout" where
  "layout_of a hdr = \<lparr>segment = max_segment a, header_size = xpass_hdr_size a, least_frame = min_ethernet_size a,
     message_end = curseq a, message_req = hdr\<rparr>"

definition segment_at :: "layout \<Rightarrow> int \<Rightarrow> int" where
  "segment_at y x = min (segment y) (message_end y - x)"

fun data_chain :: "layout \<Rightarrow> int \<Rightarrow> xpass_packet list \<Rightarrow> int \<Rightarrow> bool" where
  \<comment> \<open>the data packets in flight carry the message from \<open>x\<close> to \<open>z\<close>\<close>
  "data_chain y x [] z \<longleftrightarrow> x = z"
| "data_chain y x (d # ds) z \<longleftrightarrow> 0 < segment_at y x \<and> xp_seqno d = x \<and> xp_hlen d = header_size y
     \<and> xp_size d = max (least_frame y) (header_size y + segment_at y x) \<and> r2p2_header d = message_req y
     \<and> data_chain y (x + segment_at y x) ds z"

lemma control_append: "control s (ps @ qs) = Option.bind (control s ps) (\<lambda>s. control s qs)"
  by (induction ps arbitrary: s) auto

lemma data_chain_append:
  "data_chain y x (ds @ es) z \<longleftrightarrow> (\<exists>m. data_chain y x ds m \<and> data_chain y m es z)"
  by (induction ds arbitrary: x) auto

lemma data_chain_le: "data_chain y x ds z \<Longrightarrow> x \<le> z"
  by (induction ds arbitrary: x) fastforce+

lemma seqs_ok_drop: "seqs_ok lo hi (xs @ s # ys) \<Longrightarrow> seqs_ok lo hi (xs @ ys)"
  by (auto simp: seqs_ok_def sorted_wrt_append)

lemma seqs_ok_push: "seqs_ok lo hi xs \<Longrightarrow> seqs_ok lo (hi + 1) (xs @ [hi])"
  by (auto simp: seqs_ok_def sorted_wrt_append)

lemma seqs_ok_pop: "seqs_ok lo hi (s # xs) \<Longrightarrow> seqs_ok (s + 1) hi xs \<and> lo \<le> s"
  by (auto simp: seqs_ok_def)

section \<open>The invariant\<close>

definition sizes_ok :: "xpass_agent \<Rightarrow> bool" where
  "sizes_ok a \<longleftrightarrow> 0 \<le> xpass_hdr_size a \<and> xpass_hdr_size a < max_ethernet_size a \<and> min_ethernet_size a < max_ethernet_size a"

definition same_sizes :: "xpass_agent \<Rightarrow> xpass_agent \<Rightarrow> bool" where
  "same_sizes a b \<longleftrightarrow> min_ethernet_size b = min_ethernet_size a \<and> max_ethernet_size b = max_ethernet_size a
     \<and> xpass_hdr_size b = xpass_hdr_size a"

definition sender_frame :: "xpass_agent \<Rightarrow> xpass_agent \<Rightarrow> bool" where
  \<comment> \<open>what no event changes at the sender\<close>
  "sender_frame a a' \<longleftrightarrow> same_sizes a a' \<and> curseq a' = curseq a \<and> cur_req_id_tup a' = cur_req_id_tup a
     \<and> credit_send_state a' = credit_send_state a"

definition ends_ok :: "int \<Rightarrow> request_id \<Rightarrow> xpass_agent \<Rightarrow> xpass_agent \<Rightarrow> bool" where
  "ends_ok nb req a b \<longleftrightarrow> agent_ok a \<and> agent_ok b \<and> sizes_ok a \<and> same_sizes a b
     \<and> credit_send_state a = XPASS_SEND_CLOSED \<and> credit_recv_state b = XPASS_RECV_CLOSED
     \<and> curseq a = nb + 1 \<and> cur_req_id_tup a = Some req \<and> 0 < req_ts req"

definition types_ok :: "connection \<Rightarrow> bool" where
  "types_ok c \<longleftrightarrow> (\<forall>p\<in>set (to_sender c). xp_ptype p = PT_XPASS_CREDIT)
     \<and> (\<forall>p\<in>set (to_receiver c). xp_ptype p \<in> {PT_XPASS_CREDIT_REQUEST, PT_XPASS_DATA, PT_XPASS_CREDIT_STOP})"

definition credit_ok :: "connection \<Rightarrow> bool" where
  "credit_ok c \<longleftrightarrow> seqs_ok (c_recv_next (receiver c)) (c_seqno (receiver c))
     (map credit_seq (filter is_data (to_receiver c) @ to_sender c))"

definition control_ok :: "connection \<Rightarrow> bool" where
  "control_ok c \<longleftrightarrow> control (credit_send_state (receiver c) = XPASS_SEND_CREDIT_SENDING) (to_receiver c)
     = Some (wants_credit (sender c))"

definition taken :: "int \<Rightarrow> layout \<Rightarrow> int \<Rightarrow> int list \<Rightarrow> int \<Rightarrow> bool" where
  \<comment> \<open>the application has the message up to \<open>x\<close> in the pieces \<open>ns\<close>\<close>
  "taken nb y x ns next \<longleftrightarrow> 1 \<le> x \<and> x \<le> nb + 1 \<and> (x = nb + 1 \<or> (x - 1) mod segment y = 0)
     \<and> sum_list ns = x - 1 \<and> (\<forall>n\<in>set ns. 0 < n) \<and> (next = x \<or> x = nb + 1 \<and> nb + 1 \<le> next)"

definition data_ok :: "int \<Rightarrow> request_id \<Rightarrow> connection \<Rightarrow> bool" where
  "data_ok nb req c \<longleftrightarrow> (let y = layout_of (sender c) (req\<lparr>client_port := 0\<rparr>) in
     \<exists>x. data_chain y x (filter is_data (to_receiver c)) (t_seqno (sender c))
       \<and> taken nb y x (delivered c) (recv_next (receiver c)))"

definition conn_ok :: "int \<Rightarrow> request_id \<Rightarrow> connection \<Rightarrow> bool" where
  "conn_ok nb req c \<longleftrightarrow> ends_ok nb req (sender c) (receiver c) \<and> types_ok c \<and> credit_ok c \<and> control_ok c \<and> data_ok nb req c"

section \<open>The sender\<close>

definition data_effect :: "xpass_packet \<Rightarrow> xpass_agent \<Rightarrow> xpass_output list \<Rightarrow> xpass_agent \<Rightarrow> bool" where
  \<comment> \<open>nothing is sent, or the next segment of the message for the credit \<open>p\<close>\<close>
  "data_effect p a out a' \<longleftrightarrow> sender_frame a a' \<and> (out = [] \<and> t_seqno a' = t_seqno a \<or>
     (\<exists>d hdr. message_header (cur_req_id_tup a) = Some hdr \<and> out = [Send d] \<and> is_data d \<and> credit_seq d = credit_seq p
        \<and> data_chain (layout_of a hdr) (t_seqno a) [d] (t_seqno a')))"

lemma layout_of_cong:
  "same_sizes a a' \<Longrightarrow> curseq a' = curseq a \<Longrightarrow> layout_of a' hdr = layout_of a hdr"
  by (simp add: layout_of_def same_sizes_def max_segment_def)

lemma sender_frame_refl [simp]: "sender_frame a a"
  by (simp add: sender_frame_def same_sizes_def)

lemma sender_frame_trans: "sender_frame a b \<Longrightarrow> sender_frame b c \<Longrightarrow> sender_frame a c"
  by (simp add: sender_frame_def same_sizes_def)

lemma send_data_effect:
  assumes "send_data p a = Some (out, a')"
  shows "data_effect p a out a' \<and> credit_recv_state a' = credit_recv_state a"
  using data_frame [OF assms]
proof (elim disjE conjE exE)
  fix hdr
  let ?m = "min (max_segment a) (datalen_remaining a)"
  define d where "d = (allocpkt PT_XPASS_DATA)\<lparr>xp_seqno := t_seqno a,
       xp_ackno := recv_next a, xp_hlen := xpass_hdr_size a,
       xp_size := max (min_ethernet_size a) (xpass_hdr_size a + ?m),
       credit_sent_time := credit_sent_time p, credit_seq := credit_seq p, r2p2_header := hdr\<rparr>"
  assume m: "0 < ?m" and a': "a' = a\<lparr>t_seqno := t_seqno a + ?m\<rparr>" and hdr: "message_header (cur_req_id_tup a) = Some hdr"
    and out: "out = [Send ((allocpkt PT_XPASS_DATA)\<lparr>xp_seqno := t_seqno a,
       xp_ackno := recv_next a, xp_hlen := xpass_hdr_size a,
       xp_size := max (min_ethernet_size a) (xpass_hdr_size a + ?m),
       credit_sent_time := credit_sent_time p, credit_seq := credit_seq p, r2p2_header := hdr\<rparr>)]"
  have seg: "segment_at (layout_of a hdr) (t_seqno a) = ?m"
    by (simp add: segment_at_def layout_of_def datalen_remaining_def)
  have "xp_size d = max (min_ethernet_size a) (xpass_hdr_size a + ?m)" "xp_seqno d = t_seqno a"
    "xp_hlen d = xpass_hdr_size a" "r2p2_header d = hdr" by (simp_all add: d_def)
  then have "data_chain (layout_of a hdr) (t_seqno a) [d] (t_seqno a')"
    unfolding data_chain.simps seg using m by (simp add: a' layout_of_def)
  moreover have "is_data d" "credit_seq d = credit_seq p" by (simp_all add: d_def is_data_def allocpkt_def)
  moreover have "sender_frame a a'" "credit_recv_state a' = credit_recv_state a"
    by (simp_all add: a' sender_frame_def same_sizes_def)
  ultimately show ?thesis unfolding data_effect_def using out [folded d_def] hdr by blast
qed (simp add: data_effect_def)

lemma data_effect_frame:
  assumes "data_effect p b out c" "sender_frame a b" "t_seqno b = t_seqno a" "sender_frame c a'" "t_seqno a' = t_seqno c"
  shows "data_effect p a out a'"
proof -
  have "layout_of b hdr = layout_of a hdr" for hdr
    using assms(2) layout_of_cong [of a b] by (simp add: sender_frame_def)
  moreover have "cur_req_id_tup b = cur_req_id_tup a" using assms(2) by (simp add: sender_frame_def)
  moreover have "sender_frame b c" using assms(1) by (simp add: data_effect_def)
  with assms(2,4) have "sender_frame a a'" using sender_frame_trans by blast
  ultimately show ?thesis using assms(1,3,5) unfolding data_effect_def by simp
qed

lemma recv_credit_effect:
  assumes "recv_credit now p a = Some (out, a')"
  shows "data_effect p a out a' \<and> wants_credit a' = wants_credit a"
  using assms
proof (cases rule: recv_credit_cases)
  case (receiving b c)
  from after_credit_frame [OF receiving(4)] obtain tm n l where
    a': "a' = c\<lparr>credit_stop_timer := tm, credit_recved_rtt := n, last_credit_recv_update := l\<rparr>" by blast
  have b: "sender_frame a b" "t_seqno b = t_seqno a" "wants_credit a"
    using receiving(1) by (auto simp: first_credit_def sender_frame_def same_sizes_def wants_credit_def)
  have "sender_frame c a'" "t_seqno a' = t_seqno c" by (simp_all add: a' sender_frame_def same_sizes_def)
  then have "data_effect p a out a'"
    using data_effect_frame send_data_effect [OF receiving(3)] b by blast
  moreover have "wants_credit a'"
    using send_data_effect [OF receiving(3)] receiving(2) by (simp add: a' wants_credit_def)
  ultimately show ?thesis using b(3) by simp
next
  case (stop_sent b c n)
  have b: "sender_frame a b" "t_seqno b = t_seqno a" by (simp_all add: stop_sent(2) sender_frame_def same_sizes_def)
  have "sender_frame c a'" "t_seqno a' = t_seqno c" by (simp_all add: stop_sent(4) sender_frame_def same_sizes_def)
  then have "data_effect p a out a'"
    using data_effect_frame send_data_effect [OF stop_sent(3)] b by blast
  moreover have "\<not> wants_credit a'" "\<not> wants_credit a"
    using send_data_effect [OF stop_sent(3)] stop_sent(1,2) by (simp_all add: stop_sent(4) wants_credit_def)
  ultimately show ?thesis by simp
next
  case (wasted n)
  then show ?thesis by (simp add: data_effect_def sender_frame_def same_sizes_def wants_credit_def)
qed

lemma sender_timer_effect:
  assumes "timer_event k r1 r2 now a = Some (out, a')" "agent_ok a" "credit_send_state a = XPASS_SEND_CLOSED"
  shows "sender_frame a a' \<and> t_seqno a' = t_seqno a \<and>
    (out = [] \<and> wants_credit a' = wants_credit a \<or>
     (\<exists>p. out = [Send p] \<and> (xp_ptype p = PT_XPASS_CREDIT_REQUEST \<and> wants_credit a'
        \<or> xp_ptype p = PT_XPASS_CREDIT_STOP \<and> wants_credit a \<and> \<not> wants_credit a')))"
proof (cases k)
  case Send_credit
  then have "pending (send_credit_timer a)" using assms(1) send_credit_event [of r1 r2 now a out a'] by blast
  then show ?thesis using assms(2,3) by (simp add: agent_ok_defs)
next
  case FCT
  then have "pending (fct_timer a)" using assms(1) fct_event [of r1 r2 now a out a'] by blast
  then show ?thesis using assms(2,3) by (simp add: agent_ok_defs)
next
  case Credit_stop
  obtain t1 t2 p where "a' = a\<lparr>credit_stop_timer := t1, sender_retransmit_timer := t2,
      credit_recv_state := XPASS_RECV_CREDIT_STOP_SENT\<rparr>"
    "pending (credit_stop_timer a)" "out = [Send p]" "xp_ptype p = PT_XPASS_CREDIT_STOP"
    using assms(1) unfolding Credit_stop by (rule credit_stop_event)
  then show ?thesis using assms(2) by (simp add: sender_frame_def same_sizes_def wants_credit_def agent_ok_defs)
next
  case Receiver_retransmit
  then show ?thesis using assms(1) by (auto simp: timer_event_def handle_receiver_retransmit_def bind_eq_Some_conv)
next
  case Sender_retransmit
  have req: "\<exists>p tm. out = [Send p] \<and> xp_ptype p = PT_XPASS_CREDIT_REQUEST \<and> b = a0\<lparr>xp_rtt := now, sender_retransmit_timer := tm\<rparr>"
    if "resend_request now a0 = Some (out, b)" for a0 b
  proof -
    from that obtain p c where "construct_credit_request now a0 = Some (p, c)" "out = [Send p]"
      unfolding resend_request_def
      by (simp only: bind_eq_Some_conv option.inject Pair_inject split_paired_Ex prod.case) blast
    then show ?thesis using request_frame [of now a0 p c] ok_resend [OF that] by auto
  qed
  from assms(1,2) show ?thesis unfolding Sender_retransmit
  proof (cases rule: retransmit_cases)
    case (request b d)
    from req [OF request(2)] obtain p tm where "out = [Send p]" "xp_ptype p = PT_XPASS_CREDIT_REQUEST"
      "b = (a\<lparr>sender_retransmit_timer := d\<rparr>)\<lparr>xp_rtt := now, sender_retransmit_timer := tm\<rparr>" by blast
    then show ?thesis unfolding request(3) using request(1) by (simp add: sender_frame_def same_sizes_def wants_credit_def)
  next
    case (again b d)
    from req [OF again(3)] obtain p tm where "out = [Send p]" "xp_ptype p = PT_XPASS_CREDIT_REQUEST"
      "b = (a\<lparr>sender_retransmit_timer := d, credit_recv_state := XPASS_RECV_CREDIT_REQUEST_SENT\<rparr>)
        \<lparr>xp_rtt := now, sender_retransmit_timer := tm\<rparr>" by blast
    then show ?thesis unfolding again(4) by (simp add: sender_frame_def same_sizes_def wants_credit_def)
  next
    case (waited tm)
    then show ?thesis by (simp add: sender_frame_def same_sizes_def wants_credit_def)
  next
    case (closed tm)
    then show ?thesis by (simp add: sender_frame_def same_sizes_def wants_credit_def)
  qed
qed

section \<open>The receiver\<close>

definition receiver_frame :: "xpass_agent \<Rightarrow> xpass_agent \<Rightarrow> bool" where
  \<comment> \<open>what no event but the arrival of data changes at the receiver\<close>
  "receiver_frame b b' \<longleftrightarrow> same_sizes b b' \<and> credit_recv_state b' = credit_recv_state b
     \<and> recv_next b' = recv_next b \<and> c_recv_next b' = c_recv_next b"

definition credit_effect :: "xpass_agent \<Rightarrow> xpass_output list \<Rightarrow> xpass_agent \<Rightarrow> bool" where
  \<comment> \<open>nothing is sent, or the credit packet of the next number\<close>
  "credit_effect b out b' \<longleftrightarrow> receiver_frame b b' \<and> (out = [] \<and> c_seqno b' = c_seqno b \<or>
     (\<exists>q. out = [Send q] \<and> xp_ptype q = PT_XPASS_CREDIT \<and> credit_seq q = c_seqno b \<and> c_seqno b' = max 1 (c_seqno b + 1)))"

lemma recv_request_effect:
  assumes "recv_credit_request r1 r2 now p b = Some (out, b')" "agent_ok b"
  shows "credit_effect b out b' \<and> credit_send_state b' = XPASS_SEND_CREDIT_SENDING"
proof (cases "credit_send_state b = XPASS_SEND_CLOSE_WAIT \<or> credit_send_state b = XPASS_SEND_CLOSED")
  case True
  define tm where "tm = (if credit_send_state b = XPASS_SEND_CLOSE_WAIT then timer_force_cancel (fct_timer b) else fct_timer b)"
  obtain w i tot dr l sc q fs r where b': "b' = b\<lparr>fct_timer := tm, fst_time := fs,
      cur_credit_rate := r, xp_w := w, can_increase_w := i, credit_total := tot, credit_dropped := dr,
      last_credit_rate_update := l, c_seqno := max 1 (c_seqno b + 1), send_credit_timer := sc,
      credit_send_state := XPASS_SEND_CREDIT_SENDING\<rparr>"
    and q: "out = [Send q]" "xp_ptype q = PT_XPASS_CREDIT" "credit_seq q = c_seqno b"
    unfolding tm_def by (rule recv_request_frame [OF assms(1) True])
  then show ?thesis by (simp add: b' credit_effect_def receiver_frame_def same_sizes_def)
next
  case False
  then have "out = []" "b' = b" using assms(1) recv_request_busy by simp_all
  moreover have "credit_send_state b = XPASS_SEND_CREDIT_SENDING"
    using False assms(2) by (cases "credit_send_state b") (simp_all add: agent_ok_defs)
  ultimately show ?thesis by (simp add: credit_effect_def receiver_frame_def same_sizes_def)
qed

lemma recv_stop_effect:
  assumes "recv_credit_stop now b = Some (out, b')"
  shows "credit_effect b out b' \<and> credit_send_state b' = XPASS_SEND_CLOSE_WAIT"
proof -
  from assms obtain tm where "out = []" "b' = b\<lparr>fct := dsub now (fst_time b), fct_timer := tm,
       send_credit_timer := timer_force_cancel (send_credit_timer b), credit_send_state := XPASS_SEND_CLOSE_WAIT\<rparr>"
    unfolding recv_credit_stop_def by (simp only: bind_eq_Some_conv option.inject Pair_inject) blast
  then show ?thesis by (simp add: credit_effect_def receiver_frame_def same_sizes_def)
qed

lemma receiver_timer_effect:
  assumes "timer_event k r1 r2 now b = Some (out, b')" "agent_ok b" "credit_recv_state b = XPASS_RECV_CLOSED"
  shows "credit_effect b out b' \<and>
    (credit_send_state b' = XPASS_SEND_CREDIT_SENDING \<longleftrightarrow> credit_send_state b = XPASS_SEND_CREDIT_SENDING)"
proof (cases k)
  case Send_credit
  obtain r w i tot dr l tm p where b': "b' = b\<lparr>cur_credit_rate := r, xp_w := w, can_increase_w := i, credit_total := tot,
      credit_dropped := dr, last_credit_rate_update := l, c_seqno := max 1 (c_seqno b + 1), send_credit_timer := tm\<rparr>"
    "out = [Send p]" "xp_ptype p = PT_XPASS_CREDIT" "credit_seq p = c_seqno b"
    using assms(1) unfolding Send_credit by (rule send_credit_event)
  then show ?thesis by (simp add: credit_effect_def receiver_frame_def same_sizes_def)
next
  case FCT
  obtain tm where "b' = b\<lparr>fct_timer := tm, credit_send_state := XPASS_SEND_CLOSED\<rparr>" "pending (fct_timer b)" "out = []"
    using assms(1) unfolding FCT by (rule fct_event)
  then show ?thesis using assms(2) by (simp add: credit_effect_def receiver_frame_def same_sizes_def agent_ok_defs)
next
  case Credit_stop
  then have "pending (credit_stop_timer b)" using assms(1) credit_stop_event [of r1 r2 now b out b'] by blast
  then show ?thesis using assms(2,3) by (simp add: agent_ok_defs)
next
  case Sender_retransmit
  then have "pending (sender_retransmit_timer b)" using assms(1) timer_event_cases [of k r1 r2 now b out b'] by (metis timer_of.simps(3))
  then show ?thesis using assms(2,3) by (simp add: agent_ok_defs)
next
  case Receiver_retransmit
  then show ?thesis using assms(1) by (auto simp: timer_event_def handle_receiver_retransmit_def bind_eq_Some_conv)
qed

section \<open>A segment arrives\<close>

text \<open>The correction for a last packet that was filled up gives the length of the segment back.\<close>
lemma segment_delivered:
  assumes "data_chain y x (d # ds) z" "y = layout_of a hdr" "sizes_ok a" "same_sizes a b"
    and "curseq a = nb + 1" "msg_bytes hdr = nb" "1 \<le> x" "(x - 1) mod segment y = 0" "x \<le> nb"
  shows "message_bytes d b = Some (segment_at y x)"
    and "xp_size d - xp_hlen d = segment_at y x \<or> x + segment_at y x = nb + 1 \<and> segment_at y x \<le> xp_size d - xp_hlen d"
    and "(x + segment_at y x - 1) mod segment y = 0 \<or> x + segment_at y x = nb + 1"
    and "0 < segment_at y x" "x + segment_at y x \<le> nb + 1" "xp_hlen d \<le> xp_size d"
proof -
  let ?m = "max_segment a" and ?len = "segment_at y x"
  have y: "segment y = ?m" "header_size y = xpass_hdr_size a" "least_frame y = min_ethernet_size a" "message_end y = nb + 1"
    "message_req y = hdr" using assms(2,5) by (simp_all add: layout_of_def)
  have m: "0 < ?m" "min_ethernet_size a - xpass_hdr_size a < ?m" using assms(3) by (simp_all add: sizes_ok_def max_segment_def)
  have len: "?len = min ?m (nb + 1 - x)" by (simp add: segment_at_def y)
  show pos: "0 < ?len" and "x + ?len \<le> nb + 1" using m(1) assms(9) by (simp_all add: len)
  have d: "xp_hlen d = xpass_hdr_size a" "xp_size d = max (min_ethernet_size a) (xpass_hdr_size a + ?len)" "r2p2_header d = hdr"
    using assms(1) by (simp_all add: y)
  then have wire: "xp_size d - xp_hlen d = max (min_ethernet_size a - xpass_hdr_size a) ?len" by simp
  then show "xp_hlen d \<le> xp_size d" using pos by linarith
  have mb: "message_bytes d b = Some (if nb smod ?m < min_ethernet_size a - xpass_hdr_size a \<and> xp_size d - xp_hlen d < ?m
      then nb smod ?m else xp_size d - xp_hlen d)"
    using m(1) assms(4,6) d(3) by (simp add: message_bytes_def same_sizes_def max_segment_def Let_def)
  have smod: "nb smod ?m = nb mod ?m" using m(1) assms(7,9) by (simp add: smod_int_alt_def)
  show "message_bytes d b = Some ?len"
    and "xp_size d - xp_hlen d = ?len \<or> x + ?len = nb + 1 \<and> ?len \<le> xp_size d - xp_hlen d"
    and "(x + ?len - 1) mod segment y = 0 \<or> x + ?len = nb + 1"
  proof -
    show "xp_size d - xp_hlen d = ?len \<or> x + ?len = nb + 1 \<and> ?len \<le> xp_size d - xp_hlen d"
      using wire m(2) by (auto simp: len)
    show "(x + ?len - 1) mod segment y = 0 \<or> x + ?len = nb + 1"
    proof (cases "?len = ?m")
      case True
      have "(x + ?len - 1) mod ?m = (x - 1 + ?m) mod ?m" using True by (simp add: algebra_simps)
      then show ?thesis using assms(8) by (simp add: y)
    qed (auto simp: len)
    show "message_bytes d b = Some ?len"
    proof (cases "?len = ?m")
      case True
      then show ?thesis using mb wire m(2) by simp
    next
      case False
      then have l: "?len = nb - (x - 1)" "?len < ?m" by (auto simp: len)
      have "nb mod ?m = (?len + (x - 1)) mod ?m" using l by simp
      also have "\<dots> = ?len mod ?m" using assms(8) by (metis add.right_neutral mod_add_right_eq y(1))
      also have "\<dots> = ?len" using l(2) pos by simp
      finally show ?thesis using mb wire smod m(2) l(2) by auto
    qed
  qed
qed

section \<open>Every step keeps the invariant\<close>

lemma conn_okI:
  assumes "ends_ok nb req (sender c) (receiver c)" "types_ok c" "credit_ok c" "control_ok c" "data_ok nb req c"
  shows "conn_ok nb req c"
  using assms by (simp add: conn_ok_def)

lemma receiver_credit_step:
  assumes ok: "conn_ok nb req c" and eff: "credit_effect (receiver c) out b" and b: "agent_ok b"
    and ps: "filter is_data ps = filter is_data (to_receiver c)" "set ps \<subseteq> set (to_receiver c)"
      "control (credit_send_state b = XPASS_SEND_CREDIT_SENDING) ps = Some (wants_credit (sender c))"
  shows "conn_ok nb req (c\<lparr>receiver := b, to_receiver := ps, to_sender := to_sender c @ packets_of out\<rparr>)"
proof (rule conn_okI)
  have fr: "receiver_frame (receiver c) b" using eff by (simp add: credit_effect_def)
  let ?c = "c\<lparr>receiver := b, to_receiver := ps, to_sender := to_sender c @ packets_of out\<rparr>"
  show "ends_ok nb req (sender ?c) (receiver ?c)"
    using ok b fr by (simp add: conn_ok_def ends_ok_def receiver_frame_def same_sizes_def)
  show "types_ok ?c" using ok ps(2) eff by (auto simp: conn_ok_def types_ok_def credit_effect_def)
  have c1: "1 \<le> c_seqno (receiver c)" using ok by (simp add: conn_ok_def ends_ok_def agent_ok_defs)
  have cr: "seqs_ok (c_recv_next (receiver c)) (c_seqno (receiver c))
      (map credit_seq (filter is_data (to_receiver c) @ to_sender c))"
    using ok by (simp add: conn_ok_def credit_ok_def)
  from eff cr seqs_ok_push [OF cr] show "credit_ok ?c"
    using ps(1) c1 by (auto simp: credit_ok_def credit_effect_def receiver_frame_def)
  show "control_ok ?c" using ps(3) by (simp add: control_ok_def)
  show "data_ok nb req ?c" using ok fr ps(1) by (simp add: conn_ok_def data_ok_def receiver_frame_def)
qed

lemma receiver_data_step:
  assumes ok: "conn_ok nb req c" and p: "to_receiver c = p # ps" "xp_ptype p = PT_XPASS_DATA" and nb: "msg_bytes req = nb"
    and b: "recv_data now p (receiver c) = Some (out, b)"
  shows "conn_ok nb req (c\<lparr>receiver := b, to_receiver := ps, to_sender := to_sender c @ packets_of out,
      delivered := delivered c @ handed out\<rparr>)"
proof (rule conn_okI)
  let ?c = "c\<lparr>receiver := b, to_receiver := ps, to_sender := to_sender c @ packets_of out, delivered := delivered c @ handed out\<rparr>"
  let ?y = "layout_of (sender c) (req\<lparr>client_port := 0\<rparr>)"
  have ends: "ends_ok nb req (sender c) (receiver c)" using ok by (simp add: conn_ok_def)
  then have nw: "\<not> wait_retransmission (receiver c)" by (simp add: ends_ok_def agent_ok_defs)
  from recv_data_frame [OF b nw] obtain rtt n where n0: "message_bytes p (receiver c) = Some n"
    "out = [Recv_msg n ((r2p2_header p)\<lparr>client_port := xp_dport (receiver c)\<rparr>)]"
    and fr5: "b = (receiver c)\<lparr>credit_total := credit_total (receiver c) + (credit_seq p - c_recv_next (receiver c) + 1),
        credit_dropped := credit_dropped (receiver c) + (credit_seq p - c_recv_next (receiver c)),
        c_recv_next := credit_seq p + 1,
        recv_next := (if xp_seqno p = recv_next (receiver c) then recv_next (receiver c) + (xp_size p - xp_hlen p)
          else recv_next (receiver c)), xp_rtt := rtt\<rparr>" by blast
  then have fr: "message_bytes p (receiver c) = Some n" "handed out = [n]" "packets_of out = []" by simp_all
  have bs: "min_ethernet_size b = min_ethernet_size (receiver c)" "max_ethernet_size b = max_ethernet_size (receiver c)"
    "xpass_hdr_size b = xpass_hdr_size (receiver c)" "credit_recv_state b = credit_recv_state (receiver c)"
    "credit_send_state b = credit_send_state (receiver c)" "c_recv_next b = credit_seq p + 1" "c_seqno b = c_seqno (receiver c)"
    "recv_next b = (if xp_seqno p = recv_next (receiver c) then recv_next (receiver c) + (xp_size p - xp_hlen p)
          else recv_next (receiver c))" by (simp_all add: fr5)
  have d: "is_data p" using p(2) by (simp add: is_data_def)
  have "agent_ok b" using ok_recv_data [OF b] ends by (simp add: ends_ok_def)
  then show "ends_ok nb req (sender ?c) (receiver ?c)" using ends by (simp add: ends_ok_def bs same_sizes_def)
  show "types_ok ?c" using ok p(1) by (simp add: conn_ok_def types_ok_def fr(3))
  have "credit_ok c" using ok by (simp add: conn_ok_def)
  then show "credit_ok ?c" using p(1) d by (simp add: credit_ok_def fr(3) bs seqs_ok_pop)
  show "control_ok ?c" using ok p by (simp add: conn_ok_def control_ok_def bs)
  have "data_ok nb req c" using ok by (simp add: conn_ok_def)
  then obtain x where x0: "data_chain ?y x (p # filter is_data ps) (t_seqno (sender c))"
    "taken nb ?y x (delivered c) (recv_next (receiver c))"
    using p(1) d by (auto simp: data_ok_def Let_def)
  have x: "data_chain ?y x (p # filter is_data ps) (t_seqno (sender c))" "1 \<le> x" "x \<le> nb + 1"
      "x = nb + 1 \<or> (x - 1) mod segment ?y = 0" "sum_list (delivered c) = x - 1" "\<forall>n\<in>set (delivered c). 0 < n"
      "recv_next (receiver c) = x \<or> x = nb + 1 \<and> nb + 1 \<le> recv_next (receiver c)"
    using x0 unfolding taken_def by blast+
  have seg: "0 < segment_at ?y x" "xp_seqno p = x" using x(1) by simp_all
  have "message_end ?y = nb + 1" using ends by (simp add: layout_of_def ends_ok_def)
  then have le: "x \<le> nb" using seg(1) by (simp add: segment_at_def)
  then have al: "(x - 1) mod segment ?y = 0" and rn: "recv_next (receiver c) = x" using x(4,7) by auto
  note sd = segment_delivered [OF x(1) refl _ _ _ _ x(2) al le, of "receiver c"]
  have "sizes_ok (sender c)" "same_sizes (sender c) (receiver c)" "curseq (sender c) = nb + 1" "msg_bytes (req\<lparr>client_port := 0\<rparr>) = nb"
    using ends nb by (simp_all add: ends_ok_def)
  note sd = sd [OF this]
  have n: "n = segment_at ?y x" using sd(1) fr(1) by simp
  have "data_chain ?y (x + n) (filter is_data ps) (t_seqno (sender c))" using x(1) n by simp
  moreover have "recv_next b = x + n \<or> x + n = nb + 1 \<and> nb + 1 \<le> recv_next b"
    using sd(2) rn seg(2) n by (auto simp: bs)
  then have "taken nb ?y (x + n) (delivered c @ handed out) (recv_next b)"
    using x(2,5,6) sd(3,4,5) n unfolding taken_def fr(2) by auto
  ultimately show "data_ok nb req ?c" unfolding data_ok_def Let_def by auto
qed

lemma sender_step:
  assumes ok: "conn_ok nb req c" and fr: "sender_frame (sender c) a" and a: "agent_ok a"
    and ty: "\<forall>q\<in>set out. xp_ptype q \<in> {PT_XPASS_CREDIT_REQUEST, PT_XPASS_DATA, PT_XPASS_CREDIT_STOP}"
    and qs: "set qs \<subseteq> set (to_sender c)"
    and seqs: "seqs_ok (c_recv_next (receiver c)) (c_seqno (receiver c))
      (map credit_seq (filter is_data (to_receiver c) @ filter is_data out @ qs))"
    and ctl: "control (wants_credit (sender c)) out = Some (wants_credit a)"
    and chain: "data_chain (layout_of (sender c) (req\<lparr>client_port := 0\<rparr>)) (t_seqno (sender c)) (filter is_data out) (t_seqno a)"
  shows "conn_ok nb req (c\<lparr>sender := a, to_sender := qs, to_receiver := to_receiver c @ out\<rparr>)"
proof (rule conn_okI)
  let ?c = "c\<lparr>sender := a, to_sender := qs, to_receiver := to_receiver c @ out\<rparr>"
  show "ends_ok nb req (sender ?c) (receiver ?c)"
    using ok a fr by (simp add: conn_ok_def ends_ok_def sender_frame_def same_sizes_def sizes_ok_def)
  show "types_ok ?c" using ok ty qs by (auto simp: conn_ok_def types_ok_def)
  show "credit_ok ?c" using seqs by (simp add: credit_ok_def)
  show "control_ok ?c" using ok ctl by (simp add: conn_ok_def control_ok_def control_append)
  have lay: "layout_of a hdr = layout_of (sender c) hdr" for hdr
    using fr layout_of_cong [of "sender c" a] by (simp add: sender_frame_def)
  have "data_ok nb req c" using ok by (simp add: conn_ok_def)
  then obtain x where ch: "data_chain (layout_of (sender c) (req\<lparr>client_port := 0\<rparr>)) x (filter is_data (to_receiver c)) (t_seqno (sender c))"
    and x: "taken nb (layout_of (sender c) (req\<lparr>client_port := 0\<rparr>)) x (delivered c) (recv_next (receiver c))"
    unfolding data_ok_def Let_def by blast
  have "data_chain (layout_of (sender c) (req\<lparr>client_port := 0\<rparr>)) x (filter is_data (to_receiver c @ out)) (t_seqno a)"
    unfolding filter_append data_chain_append using ch chain by blast
  moreover have c: "sender ?c = a" "to_receiver ?c = to_receiver c @ out" "receiver ?c = receiver c" "delivered ?c = delivered c"
    by simp_all
  ultimately show "data_ok nb req ?c" using x unfolding data_ok_def Let_def c lay by blast
qed

lemma conn_step_ok:
  assumes "conn_step c c'" "conn_ok nb req c" "msg_bytes req = nb"
  shows "conn_ok nb req c'"
  using assms(1)
proof (cases rule: conn_step.cases)
  case (to_receiver p ps r1 r2 now out b)
  have ends: "agent_ok (receiver c)" using assms(2) by (simp add: conn_ok_def ends_ok_def)
  have b: "agent_ok b" using ok_handle [OF to_receiver(3) ends] .
  have ctl: "control (credit_send_state (receiver c) = XPASS_SEND_CREDIT_SENDING) (p # ps) = Some (wants_credit (sender c))"
    using assms(2) to_receiver(2) by (simp add: conn_ok_def control_ok_def)
  have "xp_ptype p \<in> {PT_XPASS_CREDIT_REQUEST, PT_XPASS_DATA, PT_XPASS_CREDIT_STOP}"
    using assms(2) to_receiver(2) by (simp add: conn_ok_def types_ok_def)
  then consider "xp_ptype p = PT_XPASS_CREDIT_REQUEST" | "xp_ptype p = PT_XPASS_DATA" | "xp_ptype p = PT_XPASS_CREDIT_STOP" by blast
  then show ?thesis
  proof cases
    case 1
    then have r: "recv_credit_request r1 r2 now p (receiver c) = Some (out, b)"
      using to_receiver(3) by (simp add: xpass_agent_recv_def)
    from recv_request_effect [OF r ends] have eff: "credit_effect (receiver c) out b" "credit_send_state b = XPASS_SEND_CREDIT_SENDING"
      by simp_all
    have "handed out = []" using eff(1) by (auto simp: credit_effect_def)
    then show ?thesis unfolding to_receiver(1)
      using receiver_credit_step [OF assms(2) eff(1) b, of ps] 1 to_receiver(2) ctl eff(2)
      by (simp add: is_data_def subset_insertI)
  next
    case 2
    then have r: "recv_data now p (receiver c) = Some (out, b)" using to_receiver(3) by (simp add: xpass_agent_recv_def)
    show ?thesis unfolding to_receiver(1) by (rule receiver_data_step [OF assms(2) to_receiver(2) 2 assms(3) r])
  next
    case 3
    then have r: "recv_credit_stop now (receiver c) = Some (out, b)" using to_receiver(3) by (simp add: xpass_agent_recv_def)
    from recv_stop_effect [OF r] have eff: "credit_effect (receiver c) out b" "credit_send_state b = XPASS_SEND_CLOSE_WAIT"
      by simp_all
    have "handed out = []" using eff(1) by (auto simp: credit_effect_def)
    then show ?thesis unfolding to_receiver(1)
      using receiver_credit_step [OF assms(2) eff(1) b, of ps] 3 to_receiver(2) ctl eff(2)
      by (simp add: is_data_def subset_insertI split: if_splits)
  qed
next
  case (to_sender p ps r1 r2 now out a)
  have ends: "ends_ok nb req (sender c) (receiver c)" using assms(2) by (simp add: conn_ok_def)
  have a: "agent_ok a" using ok_handle [OF to_sender(4)] ends by (simp add: ends_ok_def)
  have "xp_ptype p = PT_XPASS_CREDIT" using assms(2) to_sender(2) by (simp add: conn_ok_def types_ok_def)
  then have "recv_credit now p (sender c) = Some (out, a)" using to_sender(4) by (simp add: xpass_agent_recv_def)
  from recv_credit_effect [OF this] have eff: "data_effect p (sender c) out a" "wants_credit a = wants_credit (sender c)" by simp_all
  have seqs: "seqs_ok (c_recv_next (receiver c)) (c_seqno (receiver c))
      (map credit_seq (filter is_data (to_receiver c)) @ credit_seq p # map credit_seq ps)"
    using assms(2) to_sender(2) by (simp add: conn_ok_def credit_ok_def)
  have hdr: "message_header (cur_req_id_tup (sender c)) = Some (req\<lparr>client_port := 0\<rparr>)"
    using ends by (simp add: ends_ok_def message_header_def)
  show ?thesis unfolding to_sender(1)
  proof (rule sender_step [OF assms(2) _ a])
    show "sender_frame (sender c) a" using eff(1) by (simp add: data_effect_def)
    show "set ps \<subseteq> set (to_sender c)" using to_sender(2) by auto
    show "\<forall>q\<in>set (packets_of out). xp_ptype q \<in> {PT_XPASS_CREDIT_REQUEST, PT_XPASS_DATA, PT_XPASS_CREDIT_STOP}"
      using eff(1) by (auto simp: data_effect_def is_data_def)
    show "control (wants_credit (sender c)) (packets_of out) = Some (wants_credit a)"
      using eff by (auto simp: data_effect_def is_data_def)
    show "seqs_ok (c_recv_next (receiver c)) (c_seqno (receiver c))
        (map credit_seq (filter is_data (to_receiver c) @ filter is_data (packets_of out) @ ps))"
      using eff(1) seqs seqs_ok_drop [OF seqs] by (auto simp: data_effect_def)
    show "data_chain (layout_of (sender c) (req\<lparr>client_port := 0\<rparr>)) (t_seqno (sender c)) (filter is_data (packets_of out)) (t_seqno a)"
      using eff(1) hdr by (auto simp: data_effect_def)
  qed
next
  case (credit_lost ps p qs)
  have "seqs_ok (c_recv_next (receiver c)) (c_seqno (receiver c))
      ((map credit_seq (filter is_data (to_receiver c)) @ map credit_seq ps) @ credit_seq p # map credit_seq qs)"
    using assms(2) credit_lost(2) by (simp add: conn_ok_def credit_ok_def)
  from seqs_ok_drop [OF this] show ?thesis
    using assms(2) credit_lost(2) unfolding credit_lost(1)
    by (simp add: conn_ok_def types_ok_def credit_ok_def control_ok_def data_ok_def)
next
  case (sender_timer k r1 r2 now out a)
  have ends: "agent_ok (sender c)" "credit_send_state (sender c) = XPASS_SEND_CLOSED"
    using assms(2) by (simp_all add: conn_ok_def ends_ok_def)
  have a: "agent_ok a" using ok_handle [OF sender_timer(3) ends(1)] .
  have "timer_event k r1 r2 now (sender c) = Some (out, a)" using sender_timer(3) by simp
  note eff = sender_timer_effect [OF this ends]
  have nd: "filter is_data (packets_of out) = []" using eff by (auto simp: is_data_def)
  have "conn_ok nb req (c\<lparr>sender := a, to_sender := to_sender c, to_receiver := to_receiver c @ packets_of out\<rparr>)"
  proof (rule sender_step [OF assms(2) _ a])
    show "\<forall>q\<in>set (packets_of out). xp_ptype q \<in> {PT_XPASS_CREDIT_REQUEST, PT_XPASS_DATA, PT_XPASS_CREDIT_STOP}"
      "control (wants_credit (sender c)) (packets_of out) = Some (wants_credit a)"
      "sender_frame (sender c) a"
      using eff by auto
    show "seqs_ok (c_recv_next (receiver c)) (c_seqno (receiver c))
        (map credit_seq (filter is_data (to_receiver c) @ filter is_data (packets_of out) @ to_sender c))"
      using assms(2) nd by (simp add: conn_ok_def credit_ok_def)
    show "data_chain (layout_of (sender c) (req\<lparr>client_port := 0\<rparr>)) (t_seqno (sender c)) (filter is_data (packets_of out)) (t_seqno a)"
      using eff nd by simp
  qed simp
  then show ?thesis unfolding sender_timer(1) by simp
next
  case (receiver_timer k r1 r2 now out b)
  have ends: "agent_ok (receiver c)" "credit_recv_state (receiver c) = XPASS_RECV_CLOSED"
    using assms(2) by (simp_all add: conn_ok_def ends_ok_def)
  have "timer_event k r1 r2 now (receiver c) = Some (out, b)" using receiver_timer(2) by simp
  from receiver_timer_effect [OF this ends] have eff: "credit_effect (receiver c) out b"
    "(credit_send_state b = XPASS_SEND_CREDIT_SENDING) = (credit_send_state (receiver c) = XPASS_SEND_CREDIT_SENDING)" by simp_all
  have b: "agent_ok b" using ok_handle [OF receiver_timer(2) ends(1)] .
  have "control (credit_send_state b = XPASS_SEND_CREDIT_SENDING) (to_receiver c) = Some (wants_credit (sender c))"
    using assms(2) eff(2) by (simp add: conn_ok_def control_ok_def)
  from receiver_credit_step [OF assms(2) eff(1) b refl subset_refl this]
  show ?thesis unfolding receiver_timer(1) by simp
qed

end
