(* ===== verification/XPass_Transfer.thy ===== *)
theory XPass_Transfer
  imports XPass_Connection
begin

text \<open>
  What two ExpressPass agents guarantee of one message: every byte is handed to the application, once
  and in order, nothing but the computation of the rate can bring the simulation down, and while bytes
  are missing something is under way that will carry them.
\<close>

section \<open>The start\<close>

lemma advance_frame:
  assumes "advance_bytes now nb a = Some (out, a')"
  obtains p tm where "a' = a\<lparr>curseq := curseq a + nb, xp_rtt := now, sender_retransmit_timer := tm,
      credit_recv_state := XPASS_RECV_CREDIT_REQUEST_SENT\<rparr>"
    "out = [Send p]" "xp_ptype p = PT_XPASS_CREDIT_REQUEST" "0 < nb"
proof -
  have nb: "0 < nb" and ns: "(credit_recv_state a \<noteq> XPASS_RECV_CLOSED) = False" "(nb \<le> 0) = False"
    using assms by (auto simp: advance_bytes_def split: if_splits)
  from assms obtain p b tm where b: "construct_credit_request now (a\<lparr>curseq := curseq a + nb\<rparr>) = Some (p, b)"
    and a': "a' = b\<lparr>sender_retransmit_timer := tm, credit_recv_state := XPASS_RECV_CREDIT_REQUEST_SENT\<rparr>" and out: "out = [Send p]"
    unfolding advance_bytes_def ns
    by (simp only: if_False bind_eq_Some_conv option.inject Pair_inject split_paired_Ex prod.case) blast
  from request_frame [OF b] have b': "b = a\<lparr>curseq := curseq a + nb, xp_rtt := now\<rparr>" "xp_ptype p = PT_XPASS_CREDIT_REQUEST"
    by simp_all
  show ?thesis by (rule that [OF _ out b'(2) nb]) (simp add: a' b'(1))
qed

lemma reset_frame:
  assumes "xpass_reset a = Some a'"
  shows "same_sizes a a'" "credit_send_state a' = XPASS_SEND_CLOSED" "credit_recv_state a' = XPASS_RECV_CLOSED"
    "curseq a' = 1" "t_seqno a' = 1" "recv_next a' = 1" "c_seqno a' = 1" "c_recv_next a' = 1"
  using assms by (auto simp: xpass_reset_def same_sizes_def bind_eq_Some_conv)

lemma connect_ok:
  assumes "connect now nb req a b = Some c0" "sizes_ok a" "same_sizes a b"
  shows "conn_ok nb req c0"
proof -
  from assms(1) obtain a1 b1 out a2 where r: "xpass_reset a = Some a1" "xpass_reset b = Some b1"
    and adv: "advance_message now nb req a1 = Some (out, a2)"
    and c0: "c0 = \<lparr>sender = a2, receiver = b1, to_receiver = packets_of out, to_sender = [], delivered = []\<rparr>"
    unfolding connect_def
    by (simp only: bind_eq_Some_conv option.inject Pair_inject split_paired_Ex prod.case) blast
  have req: "0 < req_ts req" and adv': "advance_bytes now nb (a1\<lparr>cur_req_id_tup := Some req\<rparr>) = Some (out, a2)"
    using adv by (auto simp: advance_message_def split: if_splits)
  note fa = reset_frame [OF r(1)] and fb = reset_frame [OF r(2)]
  have "agent_ok (a1\<lparr>cur_req_id_tup := Some req\<rparr>)" using ok_reset [OF r(1)] by (simp add: agent_ok_defs)
  then have ok: "agent_ok a2" "agent_ok b1" using ok_advance_bytes [OF adv'] ok_reset [OF r(2)] by simp_all
  obtain p tm where a2: "a2 = (a1\<lparr>cur_req_id_tup := Some req\<rparr>)\<lparr>curseq := curseq (a1\<lparr>cur_req_id_tup := Some req\<rparr>) + nb,
      xp_rtt := now, sender_retransmit_timer := tm, credit_recv_state := XPASS_RECV_CREDIT_REQUEST_SENT\<rparr>"
    and out: "out = [Send p]" "xp_ptype p = PT_XPASS_CREDIT_REQUEST" "0 < nb"
    using adv' by (rule advance_frame)
  have f2: "same_sizes a1 a2" "credit_send_state a2 = XPASS_SEND_CLOSED" "curseq a2 = nb + 1" "t_seqno a2 = 1"
    "cur_req_id_tup a2 = Some req" "wants_credit a2"
    by (simp_all add: a2 same_sizes_def fa wants_credit_def)
  show ?thesis
  proof (rule conn_okI)
    show "ends_ok nb req (sender c0) (receiver c0)"
      using ok f2 fa(1) fb assms(2,3) req by (simp add: c0 ends_ok_def same_sizes_def sizes_ok_def)
    show "types_ok c0" "credit_ok c0" "control_ok c0"
      using out f2(6) fb by (simp_all add: c0 types_ok_def credit_ok_def control_ok_def is_data_def seqs_ok_def)
    have "data_chain y 1 (filter is_data (to_receiver c0)) (t_seqno (sender c0))" for y
      using out f2(4) by (simp add: c0 is_data_def)
    moreover have "taken nb y 1 (delivered c0) (recv_next (receiver c0))" for y
      using fb out(3) by (simp add: c0 taken_def)
    ultimately show "data_ok nb req c0" unfolding data_ok_def Let_def by blast
  qed
qed

lemma reach_ok:
  assumes "conn_reach c0 c" "connect now nb req a b = Some c0" "sizes_ok a" "same_sizes a b" "msg_bytes req = nb"
  shows "conn_ok nb req c"
  using assms(1) connect_ok [OF assms(2-4)]
proof (induction rule: conn_reach.induct)
  case (step c c')
  then show ?case using conn_step_ok assms(5) by blast
qed

section \<open>Nothing fails\<close>

lemma pkt_remaining_fits:
  assumes "0 \<le> datalen_remaining a" "datalen_remaining a < 2 ^ 31" "0 < max_segment a"
  shows "\<exists>n. pkt_remaining a = Some n"
proof -
  let ?n = "datalen_remaining a" and ?m = "max_segment a"
  let ?q = "ddiv (of_int ?n) (of_int ?m)"
  have "real_of_int ?n / real_of_int ?m \<le> of_int ?n"
    using assms by (simp add: divide_le_eq mult_le_cancel_left1)
  then have "?q \<le> dbl (of_int ?n)" unfolding ddiv_def by (rule dbl_mono)
  then have "?q \<le> of_int ?n" using assms by simp
  moreover have "0 \<le> ?q" using assms by (simp add: ddiv_def)
  ultimately have "0 \<le> \<lceil>?q\<rceil>" "\<lceil>?q\<rceil> < 2 ^ 31" using assms(2) by linarith+
  then show ?thesis using assms(3) by (simp add: pkt_remaining_def double_to_int_def)
qed

lemma resend_some: "pkt_remaining a = Some n \<Longrightarrow> \<exists>out b. resend_request now a = Some (out, b)"
  by (simp add: resend_request_def construct_credit_request_def)

lemma send_data_some:
  assumes "0 < max_segment a" "message_header (cur_req_id_tup a) = Some hdr"
  shows "\<exists>out b. send_data p a = Some (out, b)"
  using assms by (auto simp: send_data_def construct_data_def Let_def)

lemma after_credit_some:
  assumes "\<not> pending (credit_stop_timer a)" "settled (credit_stop_timer a)"
    "0 \<le> datalen_remaining a" "datalen_remaining a < 2 ^ 31" "0 < max_segment a"
  shows "\<exists>b. after_credit now a = Some b"
proof -
  obtain n where "pkt_remaining a = Some n" using pkt_remaining_fits assms(3-5) by blast
  moreover have "tm_status (credit_stop_timer a) = TIMER_IDLE" using assms(1,2) idle_iff by simp
  ultimately show ?thesis by (simp add: after_credit_def sched_credit_stop_def timer_sched_def)
qed

lemma recv_credit_some:
  assumes "agent_ok a" "\<not> pending (credit_stop_timer a)" "datalen_remaining a < 2 ^ 31" "0 < max_segment a"
    "message_header (cur_req_id_tup a) = Some hdr"
  shows "\<exists>out b. recv_credit now p a = Some (out, b)"
proof -
  have send: "\<exists>out c. send_data p b = Some (out, c) \<and> (\<exists>b'. after_credit now c = Some b')"
    if b: "credit_stop_timer b = credit_stop_timer a" "curseq b = curseq a" "t_seqno b = t_seqno a"
      "cur_req_id_tup b = cur_req_id_tup a" "max_segment b = max_segment a" for b
  proof -
    have "datalen_remaining b = datalen_remaining a" by (simp add: datalen_remaining_def b)
    then have len: "0 \<le> datalen_remaining b" "datalen_remaining b < 2 ^ 31"
      using assms(1,3) by (simp_all add: agent_ok_defs datalen_remaining_def)
    obtain out c where c: "send_data p b = Some (out, c)" using send_data_some b assms(4,5) by metis
    from data_frame [OF c] have "\<exists>m. 0 \<le> m \<and> m \<le> datalen_remaining b \<and> c = b\<lparr>t_seqno := t_seqno b + m\<rparr>"
    proof (elim disjE conjE)
      assume "c = b"
      then show ?thesis using len by (intro exI [of _ 0]) simp
    next
      assume "0 < min (max_segment b) (datalen_remaining b)"
        "c = b\<lparr>t_seqno := t_seqno b + min (max_segment b) (datalen_remaining b)\<rparr>"
      then show ?thesis by (intro exI [of _ "min (max_segment b) (datalen_remaining b)"]) simp
    qed
    then obtain m where m: "0 \<le> m" "m \<le> datalen_remaining b" "c = b\<lparr>t_seqno := t_seqno b + m\<rparr>" by blast
    have "credit_stop_timer c = credit_stop_timer a" "max_segment c = max_segment a"
      "datalen_remaining c = datalen_remaining b - m"
      using b by (simp_all add: m(3) max_segment_def datalen_remaining_def)
    then show ?thesis using c after_credit_some [of c now] assms(1,2,4) m(1,2) len by (auto simp: agent_ok_defs)
  qed
  let ?b = "a\<lparr>credit_recved_rtt := credit_recved_rtt a + 1\<rparr>"
  have fr: "max_segment ?b = max_segment a" "max_segment (first_credit now ?b) = max_segment a"
    by (simp_all add: max_segment_def first_credit_def)
  obtain o1 c1 b1 where s1: "send_data p ?b = Some (o1, c1)" "after_credit now c1 = Some b1"
    using send [of ?b] fr by auto
  obtain o2 c2 b2 where s2: "send_data p (first_credit now ?b) = Some (o2, c2)" "after_credit now c2 = Some b2"
    using send [of "first_credit now ?b"] fr by (auto simp: first_credit_def)
  have fs: "credit_recv_state (first_credit now ?b) = XPASS_RECV_CREDIT_RECEIVING" by (simp add: first_credit_def)
  show ?thesis using s1 s2 fs by (cases "credit_recv_state a") (simp_all add: recv_credit_def Let_def)
qed

lemma sender_events_some:
  assumes "ends_ok nb req a b" "t_seqno a \<le> curseq a" "nb < 2 ^ 31"
  shows "xp_ptype p = PT_XPASS_CREDIT \<Longrightarrow> \<not> pending (credit_stop_timer a) \<Longrightarrow>
      agent_handle (Recv p) r1 r2 now a \<noteq> None"
    and "pending (timer_of k a) \<Longrightarrow> agent_handle (Timer k) r1 r2 now a \<noteq> None"
proof -
  have ok: "agent_ok a" and cur: "curseq a = nb + 1" and closed: "credit_send_state a = XPASS_SEND_CLOSED"
    using assms(1) by (simp_all add: ends_ok_def)
  have "1 \<le> t_seqno a" using ok by (simp add: agent_ok_defs)
  then have len: "0 \<le> datalen_remaining a" "datalen_remaining a < 2 ^ 31"
    using assms(2,3) by (simp_all add: datalen_remaining_def cur)
  have seg: "0 < max_segment a" and hdr: "message_header (cur_req_id_tup a) = Some (req\<lparr>client_port := 0\<rparr>)"
    using assms(1) by (simp_all add: ends_ok_def sizes_ok_def max_segment_def message_header_def)
  show "agent_handle (Recv p) r1 r2 now a \<noteq> None" if "xp_ptype p = PT_XPASS_CREDIT" "\<not> pending (credit_stop_timer a)"
    using recv_credit_some [OF ok that(2) len(2) seg hdr, of now p] that(1) by (auto simp: xpass_agent_recv_def)
  show "agent_handle (Timer k) r1 r2 now a \<noteq> None" if k: "pending (timer_of k a)"
  proof (cases k)
    case Sender_retransmit
    have resend: "resend_request now b \<noteq> None"
      if "datalen_remaining b = datalen_remaining a" "max_segment b = max_segment a" for b
      using pkt_remaining_fits [of b] resend_some [of b] that len seg by auto
    let ?a = "a\<lparr>sender_retransmit_timer := sender_retransmit_timer a\<lparr>tm_status := TIMER_HANDLING\<rparr>\<rparr>"
    have d: "datalen_remaining ?a = datalen_remaining a" "max_segment ?a = max_segment a"
      "datalen_remaining (?a\<lparr>credit_recv_state := s\<rparr>) = datalen_remaining a"
      "max_segment (?a\<lparr>credit_recv_state := s\<rparr>) = max_segment a" for s
      by (simp_all add: datalen_remaining_def max_segment_def)
    have "credit_recv_state a \<noteq> XPASS_RECV_CLOSED" using k ok Sender_retransmit by (auto simp: agent_ok_defs)
    then have "handle_sender_retransmit now ?a \<noteq> None"
      using resend [of ?a] resend [of "?a\<lparr>credit_recv_state := XPASS_RECV_CREDIT_REQUEST_SENT\<rparr>"] d
      by (cases "credit_recv_state a") (simp_all add: handle_sender_retransmit_def del: not_None_eq)
    moreover have "timer_begin (timer_of k a) = Some (sender_retransmit_timer a\<lparr>tm_status := TIMER_HANDLING\<rparr>)"
      using k Sender_retransmit timer_begin_pending by simp
    ultimately show ?thesis using Sender_retransmit by (auto simp: timer_event_def)
  next
    case Credit_stop
    moreover have "timer_begin (timer_of k a) = Some (credit_stop_timer a\<lparr>tm_status := TIMER_HANDLING\<rparr>)"
      using k Credit_stop timer_begin_pending by simp
    ultimately show ?thesis by (simp add: timer_event_def send_credit_stop_def)
  next
    case Send_credit
    then show ?thesis using k closed ok by (auto simp: agent_ok_defs)
  next
    case FCT
    then show ?thesis using k closed ok by (auto simp: agent_ok_defs)
  next
    case Receiver_retransmit
    then show ?thesis using k ok by (auto simp: agent_ok_defs)
  qed
qed

lemma conn_data:
  assumes "conn_ok nb req c" "to_receiver c = p # ps" "is_data p"
  shows "c_recv_next (receiver c) \<le> credit_seq p" "xp_hlen p \<le> xp_size p" "xp_seqno p \<le> recv_next (receiver c)"
proof -
  let ?y = "layout_of (sender c) (req\<lparr>client_port := 0\<rparr>)"
  have "credit_ok c" using assms(1) by (simp add: conn_ok_def)
  then show "c_recv_next (receiver c) \<le> credit_seq p" using assms(2,3) by (simp add: credit_ok_def seqs_ok_def)
  have "data_ok nb req c" using assms(1) by (simp add: conn_ok_def)
  then obtain x where x: "data_chain ?y x (p # filter is_data ps) (t_seqno (sender c))"
    "taken nb ?y x (delivered c) (recv_next (receiver c))"
    using assms(2,3) by (auto simp: data_ok_def Let_def)
  then show "xp_hlen p \<le> xp_size p" "xp_seqno p \<le> recv_next (receiver c)" by (auto simp: taken_def)
qed

lemma conn_none_missing:
  assumes "conn_ok nb req c" "t_seqno (sender c) = curseq (sender c)" "to_receiver c = []"
  shows "sum_list (delivered c) = nb"
  using assms by (auto simp: conn_ok_def ends_ok_def data_ok_def taken_def Let_def)

lemma credit_progress:
  assumes "recv_credit now p a = Some (out, a')" "agent_ok a" "0 < datalen_remaining a"
  shows "\<exists>d. out = [Send d] \<and> xp_ptype d = PT_XPASS_DATA
    \<and> datalen_remaining a' = datalen_remaining a - min (max_segment a) (datalen_remaining a)"
proof -
  have sent: "\<exists>d. out = [Send d] \<and> xp_ptype d = PT_XPASS_DATA
      \<and> t_seqno c = t_seqno a + min (max_segment a) (datalen_remaining a) \<and> curseq c = curseq a"
    if "send_data p b = Some (out, c)" "datalen_remaining b = datalen_remaining a" "max_segment b = max_segment a"
      "t_seqno b = t_seqno a" "curseq b = curseq a" for b c
    using data_frame [OF that(1)] that(2-) assms(3) by (auto simp: allocpkt_def)
  from assms(1) show ?thesis
  proof (cases rule: recv_credit_cases)
    case (receiving b c)
    have "datalen_remaining b = datalen_remaining a" "max_segment b = max_segment a" "t_seqno b = t_seqno a" "curseq b = curseq a"
      using receiving(1) by (auto simp: first_credit_def datalen_remaining_def max_segment_def)
    note s = sent [OF receiving(3) this]
    have "t_seqno a' = t_seqno c" "curseq a' = curseq c" using after_credit_frame [OF receiving(4)] by auto
    then show ?thesis using s by (auto simp: datalen_remaining_def)
  next
    case (stop_sent b c n)
    have "datalen_remaining b = datalen_remaining a" "max_segment b = max_segment a" "t_seqno b = t_seqno a" "curseq b = curseq a"
      by (simp_all add: stop_sent(2) datalen_remaining_def max_segment_def)
    note s = sent [OF stop_sent(3) this]
    have "t_seqno a' = t_seqno c" "curseq a' = curseq c" by (simp_all add: stop_sent(4))
    then show ?thesis using s by (auto simp: datalen_remaining_def)
  next
    case (wasted n)
    then show ?thesis using assms(2,3) by (auto simp: agent_ok_defs datalen_remaining_def)
  qed
qed

lemma waiting_timer:
  assumes "conn_ok nb req c" "sum_list (delivered c) < nb" "to_receiver c = []"
  shows "pending (sender_retransmit_timer (sender c)) \<or> pending (send_credit_timer (receiver c))"
proof (cases "wants_credit (sender c)")
  case True
  then have "credit_send_state (receiver c) = XPASS_SEND_CREDIT_SENDING"
    using assms by (simp add: conn_ok_def control_ok_def)
  then show ?thesis using assms(1) by (simp add: conn_ok_def ends_ok_def agent_ok_defs)
next
  case False
  have a: "agent_ok (sender c)" using assms(1) by (simp add: conn_ok_def ends_ok_def)
  have "t_seqno (sender c) \<noteq> curseq (sender c)" using conn_none_missing [OF assms(1) _ assms(3)] assms(2) by auto
  then have "credit_recv_state (sender c) = XPASS_RECV_CREDIT_STOP_SENT"
    using False a by (cases "credit_recv_state (sender c)") (auto simp: wants_credit_def agent_ok_defs)
  then show ?thesis using a by (simp add: agent_ok_defs)
qed

section \<open>Properties\<close>

text \<open>
  Property C19. A message is delivered once: whatever credits are lost and whenever the timers go off,
  the pieces handed to the application are not empty and never add up to more than the message; and
  when the sender has closed and nothing is on its way they add up to exactly the message.
\<close>
theorem xpass_message_delivered_once:
  assumes "connect now nb req a b = Some c0" "sizes_ok a" "same_sizes a b" "msg_bytes req = nb" "conn_reach c0 c"
  shows "sum_list (delivered c) \<le> nb \<and> (\<forall>n\<in>set (delivered c). 0 < n)
    \<and> (credit_recv_state (sender c) \<in> {XPASS_RECV_CLOSED, XPASS_RECV_CLOSE_WAIT} \<and> to_receiver c = []
        \<longrightarrow> sum_list (delivered c) = nb)"
proof -
  have ok: "conn_ok nb req c" using reach_ok assms by blast
  have "t_seqno (sender c) = curseq (sender c)"
    if "credit_recv_state (sender c) \<in> {XPASS_RECV_CLOSED, XPASS_RECV_CLOSE_WAIT}"
  proof -
    have "agent_ok (sender c)" using ok by (simp add: conn_ok_def ends_ok_def)
    then show ?thesis using that by (auto simp: agent_ok_defs)
  qed
  moreover have "sum_list (delivered c) \<le> nb" "\<forall>n\<in>set (delivered c). 0 < n"
    using ok unfolding conn_ok_def data_ok_def taken_def Let_def by force+
  ultimately show ?thesis using conn_none_missing [OF ok] by blast
qed


text \<open>
  Property C21. No deadlock, and progress: while bytes are missing, a packet is on its way to the
  receiver, or the sender has a timer set that will ask again, or the receiver has its timer set for the
  next credit; and a credit that reaches a sender with data left makes it send the next segment.
\<close>
theorem xpass_missing_bytes_are_under_way:
  assumes "connect now nb req a b = Some c0" "sizes_ok a" "same_sizes a b" "msg_bytes req = nb" "nb < 2 ^ 31"
    "conn_reach c0 c" "sum_list (delivered c) < nb"
  shows "(to_receiver c \<noteq> [] \<or> tm_status (sender_retransmit_timer (sender c)) = TIMER_PENDING
      \<or> tm_status (send_credit_timer (receiver c)) = TIMER_PENDING)
    \<and> (to_sender c = p # ps \<and> tm_status (credit_stop_timer (sender c)) \<noteq> TIMER_PENDING
       \<and> datalen_remaining (sender c) > 0 \<longrightarrow>
        (\<exists>d a'. agent_handle (Recv p) r1 r2 t (sender c) = Some ([Send d], a') \<and> xp_ptype d = PT_XPASS_DATA
           \<and> datalen_remaining a' = datalen_remaining (sender c) - min (max_segment (sender c)) (datalen_remaining (sender c))))"
proof -
  have ok: "conn_ok nb req c" using reach_ok assms by blast
  then have ends: "ends_ok nb req (sender c) (receiver c)" "agent_ok (sender c)" "types_ok c"
    by (simp_all add: conn_ok_def ends_ok_def)
  from ends(2) have le: "t_seqno (sender c) \<le> curseq (sender c)" by (simp add: agent_ok_defs)
  have "\<exists>d a'. agent_handle (Recv p) r1 r2 t (sender c) = Some ([Send d], a') \<and> xp_ptype d = PT_XPASS_DATA
      \<and> datalen_remaining a' = datalen_remaining (sender c) - min (max_segment (sender c)) (datalen_remaining (sender c))"
    if p: "to_sender c = p # ps" "tm_status (credit_stop_timer (sender c)) \<noteq> TIMER_PENDING" "datalen_remaining (sender c) > 0"
  proof -
    have ty: "xp_ptype p = PT_XPASS_CREDIT" using ends(3) p(1) by (simp add: types_ok_def)
    obtain out a' where a': "agent_handle (Recv p) r1 r2 t (sender c) = Some (out, a')"
      using sender_events_some(1) [OF ends(1) le assms(5) ty] p(2) by (fastforce simp: pending_def)
    then have "recv_credit t p (sender c) = Some (out, a')" using ty by (simp add: xpass_agent_recv_def)
    from credit_progress [OF this ends(2) p(3)] show ?thesis using a' by blast
  qed
  then show ?thesis using waiting_timer [OF ok assms(7)] by (auto simp: pending_def)
qed

section \<open>Examples\<close>

definition ex_end :: xpass_agent where
  \<comment> \<open>an agent without jitter, after its reset\<close>
  "ex_end = ex_agent\<lparr>max_jitter := 0, min_jitter := 0, times_conn_used := 1\<rparr>"

definition ex_req :: request_id where
  \<comment> \<open>a message of forty full segments\<close>
  "ex_req = \<lparr>app_level_id = 1, msg_bytes = 58400, is_request = True, cl_thread_id = 0, cl_addr = 1, sr_addr = 2,
     client_port = 3, req_ts = 1\<rparr>"

definition ex_conn :: connection where
  \<comment> \<open>the sender has asked for credit at time 1\<close>
  "ex_conn = \<lparr>sender = ex_end\<lparr>cur_req_id_tup := Some ex_req, curseq := 58401, xp_rtt := 1,
      sender_retransmit_timer := timer_resched 1 (retransmit_timeout ex_agent) new_timer,
      credit_recv_state := XPASS_RECV_CREDIT_REQUEST_SENT\<rparr>,
    receiver = ex_end,
    to_receiver = [(allocpkt PT_XPASS_CREDIT_REQUEST)\<lparr>xp_seqno := 1, xp_ackno := 1, xp_hlen := 78, xp_size := 84,
      credit_sent_time := 1, sendbuffer := 40\<rparr>],
    to_sender = [], delivered = []\<rparr>"

definition ex_conn2 :: connection where
  \<comment> \<open>the receiver has sent its first credit at time 2\<close>
  "ex_conn2 = ex_conn\<lparr>receiver := ex_end\<lparr>xp_w := 1 / 2, last_credit_rate_update := 2, cur_credit_rate := 32367447,
      fst_time := 1, c_seqno := 2, send_credit_timer := timer_resched 2 (ddiv 84 32367447) new_timer,
      credit_send_state := XPASS_SEND_CREDIT_SENDING\<rparr>,
    to_receiver := [],
    to_sender := [(allocpkt PT_XPASS_CREDIT)\<lparr>xp_seqno := 1, xp_ackno := 1, xp_hlen := 84, xp_size := 84,
      credit_sent_time := 2, credit_seq := 1\<rparr>]\<rparr>"

definition ex_data :: xpass_packet where
  "ex_data = (allocpkt PT_XPASS_DATA)\<lparr>xp_seqno := 1, xp_ackno := 1, xp_hlen := 78, xp_size := 1538,
      credit_sent_time := 2, credit_seq := 1, r2p2_header := ex_req\<lparr>client_port := 0\<rparr>\<rparr>"

definition ex_conn3 :: connection where
  \<comment> \<open>the sender has sent its first segment at time 3\<close>
  "ex_conn3 = ex_conn2\<lparr>sender := (sender ex_conn)\<lparr>credit_recved_rtt := 1,
      sender_retransmit_timer := timer_force_cancel (sender_retransmit_timer (sender ex_conn)),
      credit_recv_state := XPASS_RECV_CREDIT_RECEIVING, xp_rtt := 2, last_credit_recv_update := 3, t_seqno := 1461\<rparr>,
    to_receiver := [ex_data], to_sender := []\<rparr>"

definition ex_conn4 :: connection where
  \<comment> \<open>the segment has arrived at time 4\<close>
  "ex_conn4 = ex_conn3\<lparr>receiver := (receiver ex_conn2)\<lparr>credit_total := 1, c_recv_next := 2, recv_next := 1461, xp_rtt := 2\<rparr>,
    to_receiver := [], delivered := [1460]\<rparr>"

lemma ex_connect: "connect 1 58400 ex_req (ex_agent\<lparr>max_jitter := 0, min_jitter := 0\<rparr>) (ex_agent\<lparr>max_jitter := 0, min_jitter := 0\<rparr>) = Some ex_conn"
  by (simp add: connect_def xpass_reset_def ex_agent_def stop_if_set_def new_timer_def advance_message_def ex_req_def
      advance_bytes_def construct_credit_request_def pkt_remaining_def max_segment_def datalen_remaining_def
      double_to_int_def ddiv_def timer_sched_def ex_conn_def ex_end_def timer_resched_def allocpkt_def)

lemma half_rate: "dbl (64734895 / 2) = 64734895 / 2"
  using dbl_scaled [of 64734895 "-1"] by (simp add: powr_minus_divide)

lemma ex_step2: "conn_step ex_conn ex_conn2"
proof -
  let ?p = "hd (to_receiver ex_conn)" and ?b = "receiver ex_conn2"
  have "recv_credit_request 0 0 2 ?p ex_end = Some ([Send (hd (to_sender ex_conn2))], ?b)"
    by (simp add: recv_credit_request_def ex_conn_def ex_conn2_def ex_end_def ex_agent_def xpass_init_def allocpkt_def
        dmul_def half_rate double_to_int_def trunc_def send_credit_def credit_feedback_control_def control_due_def Let_def
        construct_credit_def credit_size_def credit_delay_def avg_credit_size_def ddiv_def)
  then have "agent_handle (Recv ?p) 0 0 2 (receiver ex_conn) = Some ([Send (hd (to_sender ex_conn2))], ?b)"
    by (simp add: xpass_agent_recv_def ex_conn_def allocpkt_def)
  from conn_step.to_receiver [of ex_conn ?p "[]", OF _ this] show ?thesis
    by (simp add: ex_conn_def ex_conn2_def)
qed

lemma ex_step3: "conn_step ex_conn2 ex_conn3"
proof -
  let ?p = "hd (to_sender ex_conn2)"
  have "recv_credit 3 ?p (sender ex_conn) = Some ([Send ex_data], sender ex_conn3)"
    by (simp add: recv_credit_def ex_conn_def ex_conn2_def ex_conn3_def ex_end_def ex_agent_def allocpkt_def
        first_credit_def send_data_def datalen_remaining_def construct_data_def max_segment_def message_header_def
        ex_data_def ex_req_def after_credit_def dsub_def Let_def)
  then have "agent_handle (Recv ?p) 0 0 3 (sender ex_conn2) = Some ([Send ex_data], sender ex_conn3)"
    by (simp add: xpass_agent_recv_def ex_conn2_def allocpkt_def)
  from conn_step.to_sender [of ex_conn2 ?p "[]", OF _ _ this] show ?thesis
    by (simp add: ex_conn_def ex_conn2_def ex_conn3_def ex_end_def ex_agent_def pending_def new_timer_def)
qed

lemma ex_step4: "conn_step ex_conn3 ex_conn4"
proof -
  have "recv_data 4 ex_data (receiver ex_conn2) = Some ([Recv_msg 1460 (ex_req\<lparr>client_port := 0\<rparr>)], receiver ex_conn4)"
    by (simp add: recv_data_def ex_conn2_def ex_conn4_def ex_conn3_def ex_end_def ex_agent_def allocpkt_def
        ex_data_def ex_req_def process_ack_def update_rtt_def message_bytes_def dsub_def Let_def)
  then have "agent_handle (Recv ex_data) 0 0 4 (receiver ex_conn3) = Some ([Recv_msg 1460 (ex_req\<lparr>client_port := 0\<rparr>)], receiver ex_conn4)"
    by (simp add: xpass_agent_recv_def ex_conn3_def ex_data_def allocpkt_def)
  from conn_step.to_receiver [of ex_conn3 ex_data "[]", OF _ this] show ?thesis
    by (simp add: ex_conn3_def ex_conn2_def ex_conn_def ex_conn4_def)
qed

lemma ex_reach: "conn_reach ex_conn ex_conn2" "conn_reach ex_conn ex_conn4"
  using conn_reach.start [of ex_conn] conn_reach.step ex_step2 ex_step3 ex_step4 by blast+

lemma ex_sizes: "sizes_ok (ex_agent\<lparr>max_jitter := 0, min_jitter := 0\<rparr>)" "same_sizes a a" "msg_bytes ex_req = 58400"
  by (simp_all add: sizes_ok_def ex_agent_def same_sizes_def ex_req_def)

theorem xpass_message_delivered_once_witness:
  "conn_reach ex_conn ex_conn4 \<and> delivered ex_conn4 = [1460] \<and> sum_list (delivered ex_conn4) \<le> 58400"
  using xpass_message_delivered_once [OF ex_connect ex_sizes ex_reach(2)] ex_reach(2) by (simp add: ex_conn4_def)


theorem xpass_missing_bytes_are_under_way_witness:
  "sum_list (delivered ex_conn4) < 58400 \<and> to_receiver ex_conn4 = []
    \<and> tm_status (send_credit_timer (receiver ex_conn4)) = TIMER_PENDING"
  using xpass_missing_bytes_are_under_way [OF ex_connect ex_sizes _ ex_reach(2)]
  by (simp add: ex_conn4_def ex_conn3_def ex_conn2_def)

end
