(* ===== verification/Hybrid_Msgs.thy ===== *)
theory Hybrid_Msgs
  imports Ns_Packet "HOL-Library.Signed_Division" "HOL-Library.Multiset"
begin

text \<open>
  The parts that the two sides of the hybrid transport share: the header \<open>hdr_r2p2\<close> of
  \<open>r2p2/core/r2p2-hdr.h\<close> as far as the transport uses it, the sizes of a payload on the wire, and the
  lists of messages of \<open>r2p2/cc/micro-rpcs/r2p2-hybrid-support.cc\<close>, which keep a current position.

  A pointer to a message of a list is its position; a message is removed by the search for its
  request, as the code does. \<open>None\<close> is a failed assertion or an exception.
\<close>

section \<open>Headers\<close>

type_synonym uniq_req_id = "int \<times> int \<times> int"

record r2p2_hdr =
  hdr_msg_type :: msg_type
  hdr_seq :: int
  hdr_first :: bool
  hdr_last :: bool
  hdr_req_id :: int
  hdr_pkt_id :: int
  hdr_cl_addr :: int
  hdr_cl_thread_id :: int
  hdr_sr_addr :: int
  hdr_sr_thread_id :: int
  hdr_app_level_id :: int
  hdr_credit :: int
  hdr_credit_pad :: int
  hdr_credit_req :: u64
  hdr_msg_creation_time :: real
  hdr_sender_marked :: bool
  hdr_is_unsol_pkt :: bool
  hdr_unsol_credit :: int
  hdr_unsol_credit_data :: int
  hdr_used_unsol_credit :: bool
  hdr_has_scheduled_part :: bool
  hdr_qlen :: "32 word"
  hdr_B :: real
  hdr_tx_rate_Bps :: real
  hdr_dt :: real
  hdr_priority_flow :: bool
  hdr_bw_ratio :: real

definition new_hdr :: r2p2_hdr where
  \<comment> \<open>the constructor; the fields it does not set are given the value 0\<close>
  "new_hdr = \<lparr>hdr_msg_type = REQUEST, hdr_seq = 0, hdr_first = False, hdr_last = False, hdr_req_id = 0, hdr_pkt_id = 0,
     hdr_cl_addr = 0, hdr_cl_thread_id = 0, hdr_sr_addr = 0, hdr_sr_thread_id = 0, hdr_app_level_id = 0, hdr_credit = 0, hdr_credit_pad = 0, hdr_credit_req = 0, hdr_msg_creation_time = - 1,
     hdr_sender_marked = False, hdr_is_unsol_pkt = False, hdr_unsol_credit = 0, hdr_unsol_credit_data = 0,
     hdr_used_unsol_credit = False, hdr_has_scheduled_part = True, hdr_qlen = 0, hdr_B = 0, hdr_tx_rate_Bps = 0,
     hdr_dt = 0, hdr_priority_flow = False, hdr_bw_ratio = - 1\<rparr>"

definition uniq_id :: "r2p2_hdr \<Rightarrow> uniq_req_id" where
  "uniq_id h = (hdr_cl_addr h, hdr_cl_thread_id h, hdr_req_id h)"

section \<open>Sizes\<close>

definition R2P2_ALL_HEADERS_SIZE :: int where "R2P2_ALL_HEADERS_SIZE = 60"
definition MAX_R2P2_PAYLOAD :: int where "MAX_R2P2_PAYLOAD = 1458"
definition MIN_R2P2_PAYLOAD :: int where "MIN_R2P2_PAYLOAD = 4"
definition GRANT_MSG_SIZE :: int where "GRANT_MSG_SIZE = 4"
definition GRANT_REQ_MSG_SIZE :: int where "GRANT_REQ_MSG_SIZE = 4"

definition overhead :: int where
  \<comment> \<open>headers, gap and preamble of a packet\<close>
  "overhead = R2P2_ALL_HEADERS_SIZE + INTER_PKT_GAP_SIZE + ETHERNET_PREAMBLE_SIZE"

definition wire_size :: "int \<Rightarrow> int" where
  "wire_size payload = max (payload + overhead) MIN_ETHERNET_FRAME_ON_WIRE"

lemmas r2p2_sizes = R2P2_ALL_HEADERS_SIZE_def MAX_R2P2_PAYLOAD_def MIN_R2P2_PAYLOAD_def GRANT_MSG_SIZE_def
  GRANT_REQ_MSG_SIZE_def overhead_def wire_size_def ethernet_sizes

definition add_header_overhead :: "int \<Rightarrow> bool \<Rightarrow> int" where
  "add_header_overhead payload skip_last_pkt_check = (let
     w_hdrs = (payload sdiv MAX_R2P2_PAYLOAD) * (MAX_R2P2_PAYLOAD + R2P2_ALL_HEADERS_SIZE + INTER_PKT_GAP_SIZE + ETHERNET_PREAMBLE_SIZE)
   in if payload smod MAX_R2P2_PAYLOAD > 0 \<and> \<not> skip_last_pkt_check
      then w_hdrs + max (payload smod MAX_R2P2_PAYLOAD + R2P2_ALL_HEADERS_SIZE + INTER_PKT_GAP_SIZE + ETHERNET_PREAMBLE_SIZE)
             MIN_ETHERNET_FRAME_ON_WIRE
      else w_hdrs)"

definition remove_header_overhead :: "int \<Rightarrow> int" where
  "remove_header_overhead n = (n sdiv MAX_ETHERNET_FRAME_ON_WIRE) * MAX_R2P2_PAYLOAD"

text \<open>A frame on the wire is exactly a full payload and its overhead, so whole packets convert back and forth.\<close>
lemma header_overhead_roundtrip:
  assumes "0 \<le> n"
  shows "remove_header_overhead (add_header_overhead (n * MAX_R2P2_PAYLOAD) skip) = n * MAX_R2P2_PAYLOAD"
  using assms by (cases "n = 0")
    (simp_all add: add_header_overhead_def remove_header_overhead_def r2p2_sizes Let_def signed_divide_int_def smod_int_alt_def)

section \<open>Message lists\<close>

record 'm msg_list =
  msgs :: "'m list"
  current :: nat

definition new_msg_list :: "'m msg_list" where
  "new_msg_list = \<lparr>msgs = [], current = 0\<rparr>"

definition list_append :: "'m \<Rightarrow> 'm msg_list \<Rightarrow> 'm msg_list" where
  "list_append m l = l\<lparr>msgs := msgs l @ [m]\<rparr>"

fun find_pos_from :: "('m \<Rightarrow> uniq_req_id) \<Rightarrow> uniq_req_id \<Rightarrow> nat \<Rightarrow> 'm list \<Rightarrow> nat option" where
  "find_pos_from key r pos [] = None"
| "find_pos_from key r pos (m # ms) = (if key m = r then Some pos else find_pos_from key r (pos + 1) ms)"

definition list_find_pos :: "('m \<Rightarrow> uniq_req_id) \<Rightarrow> uniq_req_id \<Rightarrow> 'm msg_list \<Rightarrow> nat option" where
  "list_find_pos key r l = find_pos_from key r 0 (msgs l)"

definition list_remove :: "('m \<Rightarrow> uniq_req_id) \<Rightarrow> uniq_req_id \<Rightarrow> 'm msg_list \<Rightarrow> 'm msg_list option" where
  "list_remove key r l = do {
     pos \<leftarrow> list_find_pos key r l;
     let ms = take pos (msgs l) @ drop (Suc pos) (msgs l);
     Some (l\<lparr>msgs := ms, current := (if length ms = 0 then 0
        else if current l > pos then current l - 1
        else if current l = pos then current l mod length ms
        else current l)\<rparr>) }"

definition list_peek_next :: "'m msg_list \<Rightarrow> nat option" where
  \<comment> \<open>the position of the next message; \<open>at\<close> throws outside the list\<close>
  "list_peek_next l = (if length (msgs l) = 0 then None
     else if current l < length (msgs l) then Some (current l) else None)"

definition list_next :: "'m msg_list \<Rightarrow> (nat \<times> 'm msg_list) option" where
  "list_next l = do {
     pos \<leftarrow> list_peek_next l;
     Some (pos, l\<lparr>current := (current l + 1) mod length (msgs l)\<rparr>) }"

definition list_reset :: "'m msg_list \<Rightarrow> 'm msg_list" where
  "list_reset l = l\<lparr>current := 0\<rparr>"

definition list_sort :: "('m list \<Rightarrow> 'm list) \<Rightarrow> 'm msg_list \<Rightarrow> 'm msg_list" where
  \<comment> \<open>\<open>std::sort\<close>, whose order of equal elements is not specified, is an argument\<close>
  "list_sort srt l = l\<lparr>msgs := srt (msgs l)\<rparr>"

definition list_update_at :: "nat \<Rightarrow> ('m \<Rightarrow> 'm) \<Rightarrow> 'm msg_list \<Rightarrow> 'm msg_list" where
  \<comment> \<open>a write through a pointer\<close>
  "list_update_at pos f l = l\<lparr>msgs := (msgs l)[pos := f (msgs l ! pos)]\<rparr>"

section \<open>The position stays inside the list\<close>

definition list_ok :: "'m msg_list \<Rightarrow> bool" where
  "list_ok l \<longleftrightarrow> current l < length (msgs l) \<or> msgs l = [] \<and> current l = 0"

lemma find_pos_from_Some:
  "find_pos_from key r k ms = Some pos \<Longrightarrow> k \<le> pos \<and> pos < k + length ms \<and> key (ms ! (pos - k)) = r
    \<and> (\<forall>i<pos - k. key (ms ! i) \<noteq> r)"
proof (induction key r k ms rule: find_pos_from.induct)
  case (2 key r pos' m ms)
  show ?case
  proof (cases "key m = r")
    case False
    then have "find_pos_from key r (pos' + 1) ms = Some pos" using 2(2) by simp
    with 2(1) [OF False] have ih: "pos' + 1 \<le> pos" "pos < pos' + 1 + length ms" "key (ms ! (pos - (pos' + 1))) = r"
      "\<forall>i<pos - (pos' + 1). key (ms ! i) \<noteq> r" by simp_all
    have "pos - pos' = Suc (pos - (pos' + 1))" using ih(1) by simp
    then show ?thesis using ih False by (auto simp: nth_Cons split: nat.splits)
  qed (use 2(2) in simp)
qed simp

lemma find_pos_Some:
  assumes "list_find_pos key r l = Some pos"
  shows "pos < length (msgs l)" "key (msgs l ! pos) = r" "\<forall>i<pos. key (msgs l ! i) \<noteq> r"
  using find_pos_from_Some [of key r 0 "msgs l" pos] assms by (simp_all add: list_find_pos_def)

lemma find_pos_from_None: "find_pos_from key r k ms = None \<longleftrightarrow> r \<notin> key ` set ms"
  by (induction key r k ms rule: find_pos_from.induct) auto

lemma find_pos_None: "list_find_pos key r l = None \<longleftrightarrow> r \<notin> key ` set (msgs l)"
  by (simp add: list_find_pos_def find_pos_from_None)

lemma find_pos_distinct:
  assumes "distinct (map key (msgs l))" "pos < length (msgs l)"
  shows "list_find_pos key (key (msgs l ! pos)) l = Some pos"
proof -
  obtain q where q: "list_find_pos key (key (msgs l ! pos)) l = Some q"
    using find_pos_None [of key "key (msgs l ! pos)" l] assms(2) by (cases "list_find_pos key (key (msgs l ! pos)) l") auto
  have "q = pos" using find_pos_Some [OF q] assms nth_eq_iff_index_eq [of "map key (msgs l)" q pos] by simp
  then show ?thesis using q by simp
qed

lemma remove_Some:
  assumes "list_remove key r l = Some l'"
  obtains pos where "list_find_pos key r l = Some pos" "msgs l' = take pos (msgs l) @ drop (Suc pos) (msgs l)"
    "current l' = (if length (msgs l') = 0 then 0 else if current l > pos then current l - 1
        else if current l = pos then current l mod length (msgs l') else current l)"
  using assms by (auto simp: list_remove_def bind_eq_Some_conv Let_def)

lemma remove_None: "list_remove key r l = None \<longleftrightarrow> r \<notin> key ` set (msgs l)"
  by (simp add: list_remove_def bind_eq_None_conv find_pos_None [symmetric] Let_def)

lemma remove_length: "list_remove key r l = Some l' \<Longrightarrow> length (msgs l) = Suc (length (msgs l'))"
  by (erule remove_Some, drule find_pos_Some(1)) simp

lemma remove_mset:
  assumes "list_remove key r l = Some l'"
  obtains m where "m \<in> set (msgs l)" "key m = r" "mset (msgs l) = add_mset m (mset (msgs l'))"
proof -
  obtain pos where pos: "list_find_pos key r l = Some pos" "msgs l' = take pos (msgs l) @ drop (Suc pos) (msgs l)"
    using assms by (rule remove_Some)
  note p = find_pos_Some [OF pos(1)]
  have "msgs l = take pos (msgs l) @ msgs l ! pos # drop (Suc pos) (msgs l)" using p(1) by (simp add: id_take_nth_drop)
  then have "mset (msgs l) = mset (take pos (msgs l) @ msgs l ! pos # drop (Suc pos) (msgs l))" by simp
  also have "\<dots> = add_mset (msgs l ! pos) (mset (msgs l'))"
    unfolding pos(2) by (simp only: mset_append mset.simps union_mset_add_mset_right)
  finally have "mset (msgs l) = add_mset (msgs l ! pos) (mset (msgs l'))" .
  then show ?thesis using that [of "msgs l ! pos"] p nth_mem [OF p(1)] by blast
qed

lemma list_ok_new [simp]: "list_ok new_msg_list"
  by (simp add: list_ok_def new_msg_list_def)

lemma list_ok_append [simp]: "list_ok l \<Longrightarrow> list_ok (list_append m l)"
  by (auto simp: list_ok_def list_append_def)

lemma list_ok_remove: "list_ok l \<Longrightarrow> list_remove key r l = Some l' \<Longrightarrow> list_ok l'"
  by (erule remove_Some, drule find_pos_Some(1)) (auto simp: list_ok_def)

lemma list_ok_reset [simp]: "list_ok (list_reset l)"
  by (auto simp: list_ok_def list_reset_def)

lemma list_ok_update [simp]: "list_ok (list_update_at pos f l) \<longleftrightarrow> list_ok l"
  by (auto simp: list_ok_def list_update_at_def)

lemma next_ok:
  assumes "list_ok l"
  shows "list_next l = (if msgs l = [] then None else Some (current l, l\<lparr>current := (current l + 1) mod length (msgs l)\<rparr>))"
  using assms by (auto simp: list_next_def list_peek_next_def list_ok_def)

lemma list_ok_next: "list_ok l \<Longrightarrow> list_next l = Some (pos, l') \<Longrightarrow> list_ok l' \<and> msgs l' = msgs l \<and> pos < length (msgs l)"
  by (auto simp: next_ok list_ok_def split: if_splits)

end
