(* ===== verification/Hybrid_Host.thy ===== *)
theory Hybrid_Host
  imports Hybrid_Msgs Ns_Timer
begin

text \<open>
  The state of the hybrid transport, \<open>R2p2CCHybrid\<close> of \<open>r2p2/cc/micro-rpcs/r2p2-cc-micro.h\<close> with the
  structures of \<open>r2p2-hybrid-support.h\<close>: what a host keeps as a receiver, which hands out credit from
  one budget, and as a sender, which spends the credit it is given.

  The pointers \<open>sender_state_\<close> and \<open>rcvr_state_\<close> of a message are the address they were looked up by.
  The counters of type \<open>uint32_t\<close> and \<open>uint64_t\<close> are words. An \<open>unordered_map\<close> that is only searched is
  a map; one that is traversed is a list of its entries in the order of the traversal.
\<close>

section \<open>The receiver's side\<close>

record sender_state =
  sender_addr :: int
  srpb_bytes :: int
  nw_max_srpb_bytes :: int
  host_max_srpb_bytes :: int
  max_srpb_bytes :: int
  srpb_ceiling :: int
  nw_marked_ratio :: real
  host_marked_ratio :: real
  last_pkt :: real
  pkts_since_last_ratio_update :: "32 word"
  pkts_at_next_ratio_update :: "32 word"
  pkts_nw_marked_since_last_ratio_update :: "32 word"
  pkts_ht_marked_since_last_ratio_update :: "32 word"
  pkts_nw_since_last_wnd_update :: "32 word"
  pkts_nw_at_next_wnd_update :: "32 word"
  pkts_ht_since_last_wnd_update :: "32 word"
  pkts_ht_at_next_wnd_update :: "32 word"
  nw_ecn_burst :: bool
  host_ecn_burst :: bool
  prev_qlen :: "32 word"
  prev_U :: real
  Wc :: real
  inc_stage :: "32 word"

definition new_sender_state :: "int \<Rightarrow> int \<Rightarrow> sender_state" where
  "new_sender_state addr srpb = \<lparr>sender_addr = addr, srpb_bytes = srpb, nw_max_srpb_bytes = srpb, host_max_srpb_bytes = srpb,
     max_srpb_bytes = srpb, srpb_ceiling = srpb, nw_marked_ratio = 0, host_marked_ratio = 0, last_pkt = 0,
     pkts_since_last_ratio_update = 0, pkts_at_next_ratio_update = 1, pkts_nw_marked_since_last_ratio_update = 0,
     pkts_ht_marked_since_last_ratio_update = 0, pkts_nw_since_last_wnd_update = 0,
     pkts_nw_at_next_wnd_update = word_of_int (srpb sdiv MAX_ETHERNET_FRAME_ON_WIRE), pkts_ht_since_last_wnd_update = 0,
     pkts_ht_at_next_wnd_update = word_of_int (srpb sdiv MAX_ETHERNET_FRAME_ON_WIRE), nw_ecn_burst = False,
     host_ecn_burst = False, prev_qlen = 0, prev_U = 0, Wc = of_int srpb, inc_stage = 0\<rparr>"

record in_msg =
  im_req_id :: uniq_req_id
  im_remote_addr :: int
  im_seq :: int
  first_header :: r2p2_hdr
  data_bytes_expected :: u64
  data_bytes_received :: u64
  data_bytes_granted :: u64
  received_msg_info :: bool

section \<open>The sender's side\<close>

record out_msg =
  om_req_id :: uniq_req_id
  om_remote_addr :: int
  om_seq :: int
  om_hdr :: r2p2_hdr
  total_bytes :: "32 word"
  unsent_bytes :: "32 word"
  om_is_request :: bool
  sent_anouncement :: bool
  sent_first :: bool
  om_active :: bool
  usnsol_check_done :: bool
  is_scheduled :: bool
  self_alloc_credit :: int
  self_alloc_credit_data :: int
  remaining_self_alloc_credit_data :: int
  om_msg_creation_time :: real

definition new_out_msg :: "uniq_req_id \<Rightarrow> int \<Rightarrow> r2p2_hdr \<Rightarrow> out_msg" where
  "new_out_msg req daddr h = \<lparr>om_req_id = req, om_remote_addr = daddr, om_seq = 0, om_hdr = h, total_bytes = 0,
     unsent_bytes = 0, om_is_request = True, sent_anouncement = False, sent_first = False, om_active = False,
     usnsol_check_done = False, is_scheduled = True, self_alloc_credit = 0, self_alloc_credit_data = 0,
     remaining_self_alloc_credit_data = 0, om_msg_creation_time = - 1\<rparr>"

record receiver_state =
  rcver_addr :: int
  avail_credit_bytes :: int
  avail_credit_data_bytes :: int
  out_msgs :: "out_msg msg_list"

definition new_receiver_state :: "int \<Rightarrow> receiver_state" where
  "new_receiver_state addr = \<lparr>rcver_addr = addr, avail_credit_bytes = 0, avail_credit_data_bytes = 0, out_msgs = new_msg_list\<rparr>"

record policy_state =
  \<comment> \<open>\<open>ps_msg\<close> is the position of \<open>msg_state_\<close> in the receiver's list\<close>
  ps_deficit :: real
  ps_quantum :: real
  ps_can_send :: bool
  ps_priority_flow :: bool
  ps_num_can_send :: int
  ps_want_to_send_bytes :: "32 word"
  ps_msg :: "nat option"

definition new_policy_state :: policy_state where
  "new_policy_state = \<lparr>ps_deficit = 0, ps_quantum = - 1, ps_can_send = False, ps_priority_flow = False,
     ps_num_can_send = - 1, ps_want_to_send_bytes = 0, ps_msg = None\<rparr>"

section \<open>The host\<close>

record hybrid_config =
  max_srpb :: int
  nw_min_srpb :: int
  host_min_srpb :: int
  max_budget_bytes :: int
  unsolicited_thresh_bytes :: int
  account_unsched :: bool
  additive_incr_mul :: int
  ecn_capable :: bool
  ce_new_weight :: real
  sender_algo :: int
  sender_policy :: int
  receiver_policy :: int
  pace_grants :: bool
  use_priority_flow :: bool
  data_prio :: bool
  link_speed_gbps :: real
  grant_pacer_speed_gbps :: real
  data_pacer_speed_gbps :: real
  poll_interval :: real
  grant_bytes_drained_per_loop :: int
  data_bytes_drained_per_loop :: int
  rtt_s :: real
  eta :: real
  wai :: "32 word"
  max_stage :: "32 word"
  fs_weight :: real
  srpt_weight :: real
  ecn_thresh_pkts :: "32 word"

record hybrid =
  cfg :: hybrid_config
  budget_bytes :: int
  inbound :: "in_msg msg_list"
  sender_states :: "int \<rightharpoonup> sender_state"
  outbound_inactive :: "out_msg msg_list"
  remotes :: "(int \<times> receiver_state) list"
  policy_states :: "(int \<times> policy_state) list"
  grant_pacer_backlog :: int
  last_grant_pacer_update :: real
  data_pacer_backlog :: int
  last_data_pacer_update :: real
  last_grant_time :: real
  poll_started :: bool
  poll_timer :: timer
  credit_granted :: u64
  credit_replenished :: u64
  credit_received :: u64
  credit_used :: u64
  credit_data_request_rcvd :: u64
  credit_data_granted :: u64
  credit_data_requested :: u64
  credit_data_received :: u64

datatype hybrid_output =
  \<comment> \<open>what goes to \<open>forward_to_transport\<close>, with its bytes and destination, and to the layer above\<close>
  Transport r2p2_hdr int int | Layer r2p2_hdr

record hybrid_packet =
  \<comment> \<open>a packet as \<open>recv\<close> gets it: the size is that of the payload\<close>
  hp_hdr :: r2p2_hdr
  hp_src :: int
  hp_size :: int
  hp_padding :: int
  hp_ect :: bool
  hp_ce :: bool

record hybrid_lib =
  \<comment> \<open>what C++ leaves open: the order of equal elements in a sort, and of the entries of an \<open>unordered_map\<close>\<close>
  sort_by_remaining :: "in_msg list \<Rightarrow> in_msg list"
  sort_by_bif :: "(int \<rightharpoonup> sender_state) \<Rightarrow> in_msg list \<Rightarrow> in_msg list"
  sort_by_unsent :: "out_msg list \<Rightarrow> out_msg list"
  map_order :: "(int \<times> policy_state) list \<Rightarrow> (int \<times> policy_state) list"

definition srpb_of :: "(int \<rightharpoonup> sender_state) \<Rightarrow> in_msg \<Rightarrow> int" where
  "srpb_of st m = (case st (im_remote_addr m) of None \<Rightarrow> 0 | Some s \<Rightarrow> srpb_bytes s)"

definition lib_ok :: "hybrid_lib \<Rightarrow> bool" where
  \<comment> \<open>a sort permutes its list and leaves no element before a smaller one by \<open>fewer_inbound_bytes_remaining\<close>,
      \<open>fewer_bif\<close> or \<open>fewer_outbound_bytes_remaining\<close>\<close>
  "lib_ok lib \<longleftrightarrow>
     (\<forall>ms. mset (sort_by_remaining lib ms) = mset ms
        \<and> sorted_wrt (\<lambda>a b. data_bytes_expected a - data_bytes_received a \<le> data_bytes_expected b - data_bytes_received b)
            (sort_by_remaining lib ms))
   \<and> (\<forall>st ms. mset (sort_by_bif lib st ms) = mset ms
        \<and> sorted_wrt (\<lambda>a b. srpb_of st a \<ge> srpb_of st b) (sort_by_bif lib st ms))
   \<and> (\<forall>ms. mset (sort_by_unsent lib ms) = mset ms
        \<and> sorted_wrt (\<lambda>a b. unsent_bytes a \<le> unsent_bytes b) (sort_by_unsent lib ms))
   \<and> (\<forall>ps. mset (map_order lib ps) = mset ps)"

section \<open>Conversions\<close>

definition double_to_u32 :: "real \<Rightarrow> 32 word option" where
  "double_to_u32 x = (if 0 \<le> trunc x \<and> trunc x < 2 ^ 32 then Some (word_of_int (trunc x)) else None)"

definition fdiv :: "real \<Rightarrow> real \<Rightarrow> real option" where
  \<comment> \<open>a division whose result is a number\<close>
  "fdiv x y = (if y = 0 then None else Some (ddiv x y))"

definition int_div :: "int \<Rightarrow> int \<Rightarrow> int option" where
  "int_div x y = (if y = 0 then None else Some (x sdiv y))"

definition check :: "bool \<Rightarrow> unit option" where
  \<comment> \<open>\<open>assert\<close>\<close>
  "check b = (if b then Some () else None)"

lemma check_Some [simp]: "check b = Some u \<longleftrightarrow> b"
  by (simp add: check_def)

lemma check_True [simp]: "check True = Some ()"
  by (simp add: check_def)

definition u64_to_int :: "u64 \<Rightarrow> int" where
  "u64_to_int w = sint (ucast w :: 32 word)"

definition transport :: "r2p2_hdr \<Rightarrow> int \<Rightarrow> int \<Rightarrow> hybrid_output list option" where
  \<comment> \<open>\<open>forward_to_transport\<close>\<close>
  "transport h nbytes daddr = do { check (daddr \<noteq> - 1); Some [Transport h nbytes daddr] }"

definition pacer_drain :: "real \<Rightarrow> real \<Rightarrow> real \<Rightarrow> int option" where
  \<comment> \<open>the bytes a pacer drains since its last update, at most those of ten microseconds\<close>
  "pacer_drain now last_update speed = double_to_int (ddiv (dmul (min (dsub now last_update) (dbl (1 / 100000)))
     (dmul (dmul (dmul speed 1000) 1000) 1000)) 8)"

end
