(* ===== verification/Hybrid_Receiver.thy ===== *)
theory Hybrid_Receiver
  imports Hybrid_Host
begin

text \<open>
  The receiver of the hybrid transport, \<open>r2p2/cc/micro-rpcs/r2p2-cc-hybrid.cc\<close>: the windows of the senders,
  which follow the congestion marks of the network and of the sending host, and the grants of credit.
\<close>

section \<open>The window of a sender\<close>

definition burst_after :: "bool \<Rightarrow> bool \<Rightarrow> bool" where
  "burst_after burst marked = (if \<not> burst \<and> marked then True else if burst \<and> \<not> marked then False else burst)"

definition marked_ratio :: "hybrid_config \<Rightarrow> real \<Rightarrow> 32 word \<Rightarrow> 32 word \<Rightarrow> real option" where
  \<comment> \<open>the moving average of the share of marked packets\<close>
  "marked_ratio c old marked pkts = do {
     ratio \<leftarrow> fdiv (of_int (uint marked)) (of_int (uint pkts));
     Some (dadd (dmul (dsub 1 (ce_new_weight c)) old) (dmul (ce_new_weight c) ratio)) }"

definition additive_increase :: "hybrid_config \<Rightarrow> sender_state \<Rightarrow> real option" where
  "additive_increase c st = do {
     q \<leftarrow> int_div (MAX_ETHERNET_FRAME_ON_WIRE * MAX_ETHERNET_FRAME_ON_WIRE * 1) (max_srpb_bytes st);
     Some (dmul (of_int (additive_incr_mul c)) (of_int q)) }"

definition next_wnd_update :: "sender_state \<Rightarrow> 32 word option" where
  "next_wnd_update st = double_to_u32 (ddiv (dmul (3 / 2) (of_int (max_srpb_bytes st))) (of_int MAX_ETHERNET_FRAME_ON_WIRE))"

definition clamp_window :: "int \<Rightarrow> int \<Rightarrow> int \<Rightarrow> int" where
  "clamp_window low high w = min (max low w) high"

definition ratios_due :: "sender_state \<Rightarrow> bool" where
  "ratios_due st \<longleftrightarrow> pkts_since_last_ratio_update st = pkts_at_next_ratio_update st"

definition window_change :: "hybrid_config \<Rightarrow> bool \<Rightarrow> bool \<Rightarrow> int \<Rightarrow> real \<Rightarrow> sender_state \<Rightarrow> real option" where
  \<comment> \<open>the increase, and the reduction of a window \<open>w\<close> by half its share of marks\<close>
  "window_change c should_ai reduce w ratio st = do {
     change \<leftarrow> (if should_ai then do { i \<leftarrow> additive_increase c st; Some (dadd 0 i) } else Some 0);
     Some (if reduce then dsub change (ddiv (dmul (of_int w) ratio) 2) else change) }"

definition changed_window :: "int \<Rightarrow> int \<Rightarrow> int \<Rightarrow> real \<Rightarrow> int option" where
  "changed_window low high w change = do {
     n \<leftarrow> double_to_int (dadd (of_int w) change);
     Some (clamp_window low high n) }"

definition nw_is_marked :: "hybrid_config \<Rightarrow> hybrid_packet \<Rightarrow> bool" where
  "nw_is_marked c pkt \<longleftrightarrow> ecn_capable c \<and> hp_ect pkt \<and> hp_ce pkt"

definition count_nw :: "hybrid_config \<Rightarrow> bool \<Rightarrow> sender_state \<Rightarrow> sender_state" where
  "count_nw c marked st = st\<lparr>pkts_nw_since_last_wnd_update := pkts_nw_since_last_wnd_update st + 1,
     pkts_nw_marked_since_last_ratio_update := pkts_nw_marked_since_last_ratio_update st + (if marked then 1 else 0),
     nw_ecn_burst := (if ecn_capable c then burst_after (nw_ecn_burst st) marked else nw_ecn_burst st)\<rparr>"

definition nw_ratio :: "hybrid_config \<Rightarrow> sender_state \<Rightarrow> real option" where
  "nw_ratio c st = (if ratios_due st then marked_ratio c (nw_marked_ratio st) (pkts_nw_marked_since_last_ratio_update st)
       (pkts_since_last_ratio_update st) else Some (nw_marked_ratio st))"

definition reduce_nw_window :: "bool \<Rightarrow> sender_state \<Rightarrow> bool" where
  "reduce_nw_window marked st \<longleftrightarrow> marked \<and> pkts_nw_since_last_wnd_update st \<ge> pkts_nw_at_next_wnd_update st"

definition update_nw_state :: "hybrid_config \<Rightarrow> hybrid_packet \<Rightarrow> sender_state \<Rightarrow> sender_state option" where
  "update_nw_state c pkt st = (let
     marked = nw_is_marked c pkt;
     st = count_nw c marked st;
     reduce = reduce_nw_window marked st
   in do {
     ratio \<leftarrow> nw_ratio c st;
     change \<leftarrow> window_change c (ecn_capable c \<and> (\<not> marked \<or> nw_ecn_burst st)) reduce (nw_max_srpb_bytes st) ratio st;
     at_next \<leftarrow> (if reduce then next_wnd_update st else Some (pkts_nw_at_next_wnd_update st));
     w \<leftarrow> changed_window (nw_min_srpb c) (max_srpb c) (nw_max_srpb_bytes st) change;
     Some (st\<lparr>nw_marked_ratio := ratio,
       pkts_nw_marked_since_last_ratio_update := (if ratios_due st then 0 else pkts_nw_marked_since_last_ratio_update st),
       pkts_nw_since_last_wnd_update := (if reduce then 0 else pkts_nw_since_last_wnd_update st),
       pkts_nw_at_next_wnd_update := at_next,
       nw_max_srpb_bytes := w\<rparr>) })"

definition host_is_marked :: "hybrid_config \<Rightarrow> hybrid_packet \<Rightarrow> bool" where
  "host_is_marked c pkt \<longleftrightarrow> ecn_capable c \<and> hp_ect pkt \<and> hdr_sender_marked (hp_hdr pkt)"

definition count_ht :: "hybrid_config \<Rightarrow> bool \<Rightarrow> sender_state \<Rightarrow> sender_state" where
  "count_ht c marked st = st\<lparr>pkts_ht_since_last_wnd_update := pkts_ht_since_last_wnd_update st + 1,
     pkts_ht_marked_since_last_ratio_update := pkts_ht_marked_since_last_ratio_update st + (if marked then 1 else 0),
     host_ecn_burst := (if ecn_capable c then burst_after (host_ecn_burst st) marked else host_ecn_burst st)\<rparr>"

definition host_ratio :: "hybrid_config \<Rightarrow> sender_state \<Rightarrow> real option" where
  "host_ratio c st = (if ratios_due st then marked_ratio c (host_marked_ratio st) (pkts_ht_marked_since_last_ratio_update st)
       (pkts_since_last_ratio_update st) else Some (host_marked_ratio st))"

definition reduce_ht_window :: "bool \<Rightarrow> sender_state \<Rightarrow> bool" where
  "reduce_ht_window marked st \<longleftrightarrow> marked \<and> pkts_ht_since_last_wnd_update st \<ge> pkts_ht_at_next_wnd_update st"

definition update_sn_ecn :: "hybrid_config \<Rightarrow> hybrid_packet \<Rightarrow> sender_state \<Rightarrow> sender_state option" where
  \<comment> \<open>the branch of the sender algorithms 0 to 3, up to the ones that throw\<close>
  "update_sn_ecn c pkt st = (let
     marked = host_is_marked c pkt;
     st = count_ht c marked st;
     reduce = reduce_ht_window marked st
   in do {
     ratio \<leftarrow> host_ratio c st;
     change \<leftarrow> window_change c (ecn_capable c \<and> (\<not> marked \<or> host_ecn_burst st)) reduce (host_max_srpb_bytes st) ratio st;
     at_next \<leftarrow> (if reduce then next_wnd_update st else Some (pkts_ht_at_next_wnd_update st));
     w \<leftarrow> changed_window (host_min_srpb c) (max_srpb c) (host_max_srpb_bytes st) change;
     Some (st\<lparr>host_marked_ratio := ratio,
       pkts_ht_marked_since_last_ratio_update := (if ratios_due st then 0 else pkts_ht_marked_since_last_ratio_update st),
       pkts_ht_since_last_wnd_update := (if reduce then 0 else pkts_ht_since_last_wnd_update st),
       pkts_ht_at_next_wnd_update := at_next,
       host_max_srpb_bytes := w\<rparr>) })"

definition hpcc_inflight :: "hybrid_config \<Rightarrow> hybrid_packet \<Rightarrow> sender_state \<Rightarrow> real option" where
  \<comment> \<open>\<open>MeasureInflight\<close>: the normalized bytes in flight, filtered\<close>
  "hpcc_inflight c pkt st = (let h = hp_hdr pkt; tx_rate = hdr_tx_rate_Bps h; dt = hdr_dt h in do {
     check (tx_rate > 0);
     check (ddiv (dmul tx_rate 8) 1000000000 \<le> dmul (dbl (11 / 10)) (link_speed_gbps c));
     check (dt > 0);
     let qlen = min (prev_qlen st) (hdr_qlen h);
     let bw_Bps = dmul (dmul (dmul (ddiv (hdr_B h) 8) 1000) 1000) 1000;
     let BDP = dmul bw_Bps (rtt_s c);
     a \<leftarrow> fdiv (of_int (uint qlen)) BDP;
     b \<leftarrow> fdiv tx_rate bw_Bps;
     w \<leftarrow> fdiv (min dt (rtt_s c)) (rtt_s c);
     Some (dadd (dmul (dsub 1 w) (prev_U st)) (dmul w (dadd a b))) })"

definition hpcc_window :: "hybrid_config \<Rightarrow> bool \<Rightarrow> real \<Rightarrow> sender_state \<Rightarrow> real option" where
  "hpcc_window c reduce u st = (if reduce then do { x \<leftarrow> fdiv u (eta c); y \<leftarrow> fdiv (Wc st) x; Some (dadd y (of_int (uint (wai c)))) }
     else Some (dadd (Wc st) (of_int (uint (wai c)))))"

definition update_sn_hpcc :: "hybrid_config \<Rightarrow> hybrid_packet \<Rightarrow> sender_state \<Rightarrow> sender_state option" where
  \<comment> \<open>the branch of the sender algorithms 100 and 101\<close>
  "update_sn_hpcc c pkt st = do {
     u \<leftarrow> hpcc_inflight c pkt st;
     let reduce = (u \<ge> eta c \<or> inc_stage st \<ge> max_stage c);
     new_srpb \<leftarrow> hpcc_window c reduce u st;
     w \<leftarrow> double_to_int (min new_srpb (of_int (max_srpb c)));
     Some (st\<lparr>prev_qlen := hdr_qlen (hp_hdr pkt), prev_U := u,
       Wc := (if ratios_due st then of_int (host_max_srpb_bytes st) else Wc st),
       inc_stage := (if ratios_due st then (if reduce then 0 else inc_stage st + 1) else inc_stage st),
       host_max_srpb_bytes := clamp_window (host_min_srpb c) (max_srpb c) w\<rparr>) }"

definition update_sn_state :: "hybrid_config \<Rightarrow> hybrid_packet \<Rightarrow> sender_state \<Rightarrow> sender_state option" where
  \<comment> \<open>the algorithms 2 and 3 throw, and so does an unknown one\<close>
  "update_sn_state c pkt st = (if sender_algo c = 0 \<or> sender_algo c = 1 then update_sn_ecn c pkt st
     else if sender_algo c = 100 \<or> sender_algo c = 101 then update_sn_hpcc c pkt st
     else None)"

definition count_packet :: "sender_state \<Rightarrow> sender_state" where
  "count_packet st = st\<lparr>pkts_since_last_ratio_update := pkts_since_last_ratio_update st + 1\<rparr>"

definition sender_window :: "hybrid_config \<Rightarrow> hybrid_packet \<Rightarrow> sender_state \<Rightarrow> int" where
  "sender_window c pkt st = (if use_priority_flow c \<and> hdr_priority_flow (hp_hdr pkt) \<and> hdr_msg_type (hp_hdr pkt) = REQUEST
     then srpb_ceiling st else min (nw_max_srpb_bytes st) (host_max_srpb_bytes st))"

definition update_sender :: "real \<Rightarrow> hybrid_config \<Rightarrow> hybrid_packet \<Rightarrow> sender_state \<Rightarrow> sender_state option" where
  "update_sender now c pkt st = (let update_ratios = ratios_due (count_packet st) in do {
     st \<leftarrow> update_nw_state c pkt (count_packet st);
     st \<leftarrow> update_sn_state c pkt st;
     let w = sender_window c pkt st;
     at_next \<leftarrow> (if update_ratios then double_to_u32 (ddiv (of_int w) (of_int MAX_ETHERNET_FRAME_ON_WIRE))
       else Some (pkts_at_next_ratio_update st));
     Some (st\<lparr>max_srpb_bytes := w, last_pkt := now,
       pkts_since_last_ratio_update := (if update_ratios then 0 else pkts_since_last_ratio_update st),
       pkts_at_next_ratio_update := at_next\<rparr>) })"

definition update_sender_state :: "real \<Rightarrow> hybrid_packet \<Rightarrow> hybrid \<Rightarrow> hybrid option" where
  "update_sender_state now pkt h = do {
     st \<leftarrow> update_sender now (cfg h) pkt (case sender_states h (hp_src pkt) of
       None \<Rightarrow> new_sender_state (hp_src pkt) (max_srpb (cfg h)) | Some st \<Rightarrow> st);
     Some (h\<lparr>sender_states := (sender_states h)(hp_src pkt \<mapsto> st)\<rparr>) }"

section \<open>Data and requests for credit\<close>

definition with_srpb :: "int \<Rightarrow> int \<Rightarrow> hybrid \<Rightarrow> hybrid option" where
  \<comment> \<open>the budget and that of a sender change alike; the sender must be known\<close>
  "with_srpb addr n h = do {
     st \<leftarrow> sender_states h addr;
     Some (h\<lparr>budget_bytes := budget_bytes h + n,
       sender_states := (sender_states h)(addr \<mapsto> st\<lparr>srpb_bytes := srpb_bytes st + n\<rparr>)\<rparr>) }"

definition received_data :: "hybrid_packet \<Rightarrow> nat \<Rightarrow> hybrid \<Rightarrow> hybrid option" where
  "received_data pkt pos h = (let
     payload_rec = hp_size pkt;
     h = h\<lparr>inbound := list_update_at pos (\<lambda>m. m\<lparr>data_bytes_received := data_bytes_received m + word_of_int payload_rec\<rparr>) (inbound h)\<rparr>;
     bytes_replenished = max (payload_rec + R2P2_ALL_HEADERS_SIZE + INTER_PKT_GAP_SIZE + ETHERNET_PREAMBLE_SIZE) MIN_ETHERNET_FRAME_ON_WIRE
   in do {
     check (account_unsched (cfg h));
     h \<leftarrow> with_srpb (hp_src pkt) bytes_replenished h;
     let h = h\<lparr>credit_replenished := credit_replenished h + word_of_int bytes_replenished\<rparr>;
     check (credit_replenished h \<le> credit_granted h);
     check (payload_rec > 0);
     check (budget_bytes h \<le> max_budget_bytes (cfg h));
     let m = msgs (inbound h) ! pos;
     check (received_msg_info m \<longrightarrow> data_bytes_received m \<le> data_bytes_expected m);
     if data_bytes_received m = data_bytes_expected m \<and> data_bytes_granted m = data_bytes_expected m then do {
       check (received_msg_info m);
       l \<leftarrow> list_remove im_req_id (im_req_id m) (inbound h);
       Some (h\<lparr>inbound := l\<rparr>) }
     else Some h })"

definition new_in_msg :: "hybrid_packet \<Rightarrow> in_msg" where
  "new_in_msg pkt = \<lparr>im_req_id = uniq_id (hp_hdr pkt), im_remote_addr = hp_src pkt, im_seq = 0, first_header = hp_hdr pkt,
     data_bytes_expected = 0, data_bytes_received = 0, data_bytes_granted = 0, received_msg_info = False\<rparr>"

definition find_or_add :: "hybrid_packet \<Rightarrow> hybrid \<Rightarrow> (nat \<times> hybrid) option" where
  \<comment> \<open>the state of the message a packet belongs to\<close>
  "find_or_add pkt h = (let hdr = hp_hdr pkt in
     case list_find_pos im_req_id (uniq_id hdr) (inbound h) of
       None \<Rightarrow> do {
         check (if hdr_credit_req hdr > 0 then hdr_msg_type hdr = GRANT_REQ \<or> hdr_msg_type hdr = REQUEST
           else hdr_msg_type hdr = REQUEST \<or> hdr_msg_type hdr = REPLY);
         Some (length (msgs (inbound h)), h\<lparr>inbound := list_append (new_in_msg pkt) (inbound h)\<rparr>) }
     | Some pos \<Rightarrow> do {
         check (unsolicited_thresh_bytes (cfg h) = - 1 \<longrightarrow> received_msg_info (msgs (inbound h) ! pos));
         Some (pos, h) })"

definition unsolicited_credit :: "r2p2_hdr \<Rightarrow> nat \<Rightarrow> hybrid \<Rightarrow> hybrid option" where
  \<comment> \<open>the credit a sender has given itself is taken from the budgets\<close>
  "unsolicited_credit hdr pos h = (if hdr_unsol_credit hdr > 0 then do {
       check (data_bytes_received (msgs (inbound h) ! pos) = 0);
       check (unsolicited_thresh_bytes (cfg h) \<noteq> 0);
       let h = h\<lparr>inbound := list_update_at pos (\<lambda>m. m\<lparr>data_bytes_granted := word_of_int (hdr_unsol_credit_data hdr)\<rparr>) (inbound h)\<rparr>;
       check (account_unsched (cfg h));
       h \<leftarrow> with_srpb (im_remote_addr (msgs (inbound h) ! pos)) (- hdr_unsol_credit hdr) h;
       Some (h\<lparr>credit_granted := credit_granted h + word_of_int (hdr_unsol_credit hdr)\<rparr>) }
     else Some h)"

definition message_info :: "r2p2_hdr \<Rightarrow> nat \<Rightarrow> hybrid \<Rightarrow> hybrid option" where
  \<comment> \<open>the first packet that asks for credit tells the size of the message\<close>
  "message_info hdr pos h = do {
     check (hdr_credit hdr = 0);
     check (hdr_msg_type hdr = GRANT_REQ \<or> hdr_msg_type hdr = REQUEST);
     check (credit_data_request_rcvd h \<ge> credit_data_granted h);
     unsolicited_credit hdr pos (h\<lparr>credit_data_request_rcvd := credit_data_request_rcvd h + hdr_credit_req hdr,
       inbound := list_update_at pos (\<lambda>m. m\<lparr>data_bytes_expected := hdr_credit_req hdr, received_msg_info := True\<rparr>) (inbound h)\<rparr>) }"

definition recv_message :: "hybrid_packet \<Rightarrow> hybrid \<Rightarrow> (hybrid_output list \<times> hybrid) option" where
  \<comment> \<open>\<open>recv\<close> from the search for the message on\<close>
  "recv_message pkt h = (let hdr = hp_hdr pkt; is_data_pkt = (hdr_msg_type hdr = REQUEST \<or> hdr_msg_type hdr = REPLY) in do {
     (pos, h) \<leftarrow> find_or_add pkt h;
     let asks = (hdr_credit_req hdr > 0 \<and> \<not> received_msg_info (msgs (inbound h) ! pos));
     h \<leftarrow> (if asks then message_info hdr pos h else Some h);
     if asks \<and> hdr_msg_type hdr = GRANT_REQ then do {
       check (data_bytes_granted (msgs (inbound h) ! pos) = 0);
       Some ([], h) }
     else do {
       check (asks \<longrightarrow> data_bytes_granted (msgs (inbound h) ! pos) > 0);
       check is_data_pkt;
       check (hdr_credit hdr = 0);
       h \<leftarrow> received_data pkt pos h;
       Some ([Layer hdr], h) } })"

section \<open>Grants\<close>

definition grant_header :: "real \<Rightarrow> in_msg \<Rightarrow> int \<Rightarrow> int \<Rightarrow> r2p2_hdr" where
  "grant_header now m credit_bytes padding = new_hdr\<lparr>hdr_msg_type := GRANT, hdr_seq := im_seq m, hdr_credit := credit_bytes,
     hdr_credit_pad := padding, hdr_first := False, hdr_last := False, hdr_req_id := hdr_req_id (first_header m),
     hdr_pkt_id := hdr_pkt_id (first_header m), hdr_cl_addr := hdr_cl_addr (first_header m),
     hdr_cl_thread_id := hdr_cl_thread_id (first_header m), hdr_sr_addr := hdr_sr_addr (first_header m),
     hdr_sr_thread_id := hdr_sr_thread_id (first_header m), hdr_app_level_id := hdr_app_level_id (first_header m),
     hdr_msg_creation_time := now\<rparr>"

definition forward_grant :: "real \<Rightarrow> nat \<Rightarrow> int \<Rightarrow> int \<Rightarrow> hybrid \<Rightarrow> (hybrid_output list \<times> hybrid) option" where
  "forward_grant now pos credit_bytes padding h = (let
     h = h\<lparr>inbound := list_update_at pos (\<lambda>m. m\<lparr>im_seq := im_seq m + (credit_bytes - padding - R2P2_ALL_HEADERS_SIZE
           - INTER_PKT_GAP_SIZE - ETHERNET_PREAMBLE_SIZE)\<rparr>) (inbound h),
       data_pacer_backlog := data_pacer_backlog h + (GRANT_MSG_SIZE + R2P2_ALL_HEADERS_SIZE + INTER_PKT_GAP_SIZE + ETHERNET_PREAMBLE_SIZE)\<rparr>;
     m = msgs (inbound h) ! pos
   in do {
     check (padding < MIN_R2P2_PAYLOAD);
     out \<leftarrow> transport (grant_header now m credit_bytes padding) GRANT_MSG_SIZE (im_remote_addr m);
     Some (out, h) })"

definition ratio_in_range :: "real \<Rightarrow> bool" where
  "ratio_in_range r \<longleftrightarrow> r \<ge> dbl (- 1 / 1000000) \<and> r \<le> dbl (1000001 / 1000000)"

definition grant_checks :: "nat \<Rightarrow> int \<Rightarrow> hybrid \<Rightarrow> unit option" where
  "grant_checks pos addr h = do {
     let m = msgs (inbound h) ! pos;
     st \<leftarrow> sender_states h addr;
     check (data_bytes_granted m \<le> data_bytes_expected m);
     check (ratio_in_range (nw_marked_ratio st));
     check (ratio_in_range (host_marked_ratio st)) }"

definition uncredited_data :: "in_msg \<Rightarrow> int" where
  "uncredited_data m = u64_to_int (data_bytes_expected m - data_bytes_granted m)"

definition credit_needed_data :: "in_msg \<Rightarrow> int" where
  "credit_needed_data m = min MAX_R2P2_PAYLOAD (uncredited_data m)"

definition credit_needed :: "in_msg \<Rightarrow> int" where
  "credit_needed m = max (credit_needed_data m + R2P2_ALL_HEADERS_SIZE + INTER_PKT_GAP_SIZE + ETHERNET_PREAMBLE_SIZE)
     MIN_ETHERNET_FRAME_ON_WIRE"

definition credit_padding :: "in_msg \<Rightarrow> int" where
  "credit_padding m = max 0 (MIN_ETHERNET_FRAME_ON_WIRE
     - (credit_needed_data m + R2P2_ALL_HEADERS_SIZE + INTER_PKT_GAP_SIZE + ETHERNET_PREAMBLE_SIZE))"

definition give_credit :: "real \<Rightarrow> nat \<Rightarrow> in_msg \<Rightarrow> hybrid \<Rightarrow> (hybrid_output list \<times> hybrid) option" where
  \<comment> \<open>the branch of \<open>send_credit_policy_common\<close> that grants\<close>
  "give_credit now pos m h = do {
     h \<leftarrow> with_srpb (im_remote_addr m) (- credit_needed m) h;
     let h = h\<lparr>credit_granted := credit_granted h + word_of_int (credit_needed m),
       credit_data_granted := credit_data_granted h + word_of_int (credit_needed_data m)\<rparr>;
     check (credit_data_request_rcvd h \<ge> credit_data_granted h);
     let h = h\<lparr>grant_pacer_backlog := grant_pacer_backlog h + credit_needed m,
       inbound := list_update_at pos (\<lambda>m'. m'\<lparr>data_bytes_granted := data_bytes_granted m'
         + word_of_int (credit_needed_data m)\<rparr>) (inbound h)\<rparr>;
     forward_grant now pos (credit_needed m) (credit_padding m) h }"

definition may_grant :: "in_msg \<Rightarrow> sender_state \<Rightarrow> hybrid \<Rightarrow> bool" where
  "may_grant m st h \<longleftrightarrow> min (budget_bytes h) (srpb_bytes st) \<ge> credit_needed m
     \<and> max_srpb (cfg h) - srpb_bytes st \<le> max_srpb_bytes st"

definition send_credit_policy_common :: "real \<Rightarrow> nat \<Rightarrow> hybrid \<Rightarrow> (int \<times> hybrid_output list \<times> hybrid) option" where
  \<comment> \<open>0: credit was sent, or there was none for the sender; 1: nothing to grant; 2: the message is complete; 3: no budget\<close>
  "send_credit_policy_common now pos h = (let m = msgs (inbound h) ! pos in do {
     check (data_bytes_received m \<le> data_bytes_expected m);
     if data_bytes_received m = data_bytes_expected m \<and> data_bytes_granted m = data_bytes_expected m then do {
       check (received_msg_info m);
       l \<leftarrow> list_remove im_req_id (im_req_id m) (inbound h);
       Some (2, [], h\<lparr>inbound := l\<rparr>) }
     else do {
       st \<leftarrow> sender_states h (im_remote_addr m);
       check (received_msg_info m);
       check (data_bytes_expected m > 0);
       check (uncredited_data m \<ge> 0);
       if uncredited_data m = 0 then Some (1, [], h)
       else do {
         check (max_budget_bytes (cfg h) \<ge> budget_bytes h);
         if may_grant m st h then do {
           (out, h) \<leftarrow> give_credit now pos m h;
           _ \<leftarrow> grant_checks pos (im_remote_addr m) h;
           Some (0, out, h) }
         else if budget_bytes h < credit_needed m then Some (3, [], h)
         else do { _ \<leftarrow> grant_checks pos (im_remote_addr m) h; Some (0, [], h) } } } })"

definition grant_pacer_full :: "hybrid \<Rightarrow> bool" where
  "grant_pacer_full h \<longleftrightarrow> pace_grants (cfg h)
     \<and> of_int (grant_pacer_backlog h) > dmul (3 / 2) (of_int (grant_bytes_drained_per_loop (cfg h)))"

definition grant_one :: "real \<Rightarrow> nat \<Rightarrow> int \<Rightarrow> hybrid \<Rightarrow> (int \<times> hybrid_output list \<times> hybrid) option" where
  \<comment> \<open>the body of the loops: no grants until the size of the message is known\<close>
  "grant_one now pos ret h = (if received_msg_info (msgs (inbound h) ! pos) then do {
       check (data_bytes_expected (msgs (inbound h) ! pos) > 0);
       send_credit_policy_common now pos h }
     else Some (ret, [], h))"

fun ts_msg_loop :: "nat \<Rightarrow> real \<Rightarrow> nat \<Rightarrow> int \<Rightarrow> hybrid \<Rightarrow> (hybrid_output list \<times> hybrid) option" where
  \<comment> \<open>the first argument bounds the turns; none is left over (lemma \<open>ts_msg_loop_fuel\<close>)\<close>
  "ts_msg_loop 0 now i ret h = (if i < length (msgs (inbound h)) then None else Some ([], h))"
| "ts_msg_loop (Suc n) now i ret h = (if \<not> i < length (msgs (inbound h)) \<or> grant_pacer_full h then Some ([], h)
     else do {
       pos \<leftarrow> list_peek_next (inbound h);
       (ret, out, h) \<leftarrow> grant_one now pos ret h;
       if ret = 3 then Some (out, h)
       else do {
         (_, l) \<leftarrow> list_next (inbound h);
         (outs, h) \<leftarrow> ts_msg_loop n now (i + 1) ret (h\<lparr>inbound := l\<rparr>);
         Some (out @ outs, h) } })"

definition send_grants_ts_msg :: "real \<Rightarrow> hybrid \<Rightarrow> (hybrid_output list \<times> hybrid) option" where
  "send_grants_ts_msg now h = ts_msg_loop (length (msgs (inbound h))) now 0 (- 1) h"

fun in_order_loop :: "nat \<Rightarrow> real \<Rightarrow> nat \<Rightarrow> int \<Rightarrow> hybrid \<Rightarrow> (hybrid_output list \<times> hybrid) option" where
  \<comment> \<open>the loop of the policies that sort: \<open>next\<close> comes before the message is looked at\<close>
  "in_order_loop 0 now i ret h = (if i < length (msgs (inbound h)) then None else Some ([], h))"
| "in_order_loop (Suc n) now i ret h = (if \<not> i < length (msgs (inbound h)) then Some ([], h)
     else do {
       check (pace_grants (cfg h));
       if grant_pacer_full h then Some ([], h)
       else do {
         (pos, l) \<leftarrow> list_next (inbound h);
         (ret, out, h) \<leftarrow> grant_one now pos ret (h\<lparr>inbound := l\<rparr>);
         (outs, h) \<leftarrow> in_order_loop n now (i + 1) ret h;
         Some (out @ outs, h) } })"

definition send_grants_sorted :: "(in_msg list \<Rightarrow> in_msg list) \<Rightarrow> real \<Rightarrow> hybrid \<Rightarrow> (hybrid_output list \<times> hybrid) option" where
  "send_grants_sorted srt now h = (if grant_pacer_full h then Some ([], h)
     else in_order_loop (length (msgs (inbound h))) now 0 (- 1) (h\<lparr>inbound := list_reset (list_sort srt (inbound h))\<rparr>))"

definition send_grants_srpt_msg :: "hybrid_lib \<Rightarrow> real \<Rightarrow> hybrid \<Rightarrow> (hybrid_output list \<times> hybrid) option" where
  "send_grants_srpt_msg lib now h = send_grants_sorted (sort_by_remaining lib) now h"

definition send_grants_equal_bif_msg :: "hybrid_lib \<Rightarrow> real \<Rightarrow> hybrid \<Rightarrow> (hybrid_output list \<times> hybrid) option" where
  "send_grants_equal_bif_msg lib now h = send_grants_sorted (sort_by_bif lib (sender_states h)) now h"

definition update_grant_backlog :: "real \<Rightarrow> hybrid \<Rightarrow> hybrid option" where
  "update_grant_backlog now h = do {
     n \<leftarrow> pacer_drain now (last_grant_pacer_update h) (grant_pacer_speed_gbps (cfg h));
     Some (h\<lparr>grant_pacer_backlog := max (grant_pacer_backlog h - n) 0, last_grant_pacer_update := now\<rparr>) }"

definition POLICY_TS_MSG :: int where "POLICY_TS_MSG = 0"
definition POLICY_SRPT_MSG :: int where "POLICY_SRPT_MSG = 3"
definition POLICY_EQUAL_BIF_MSG :: int where "POLICY_EQUAL_BIF_MSG = 4"

lemmas receiver_policies = POLICY_TS_MSG_def POLICY_SRPT_MSG_def POLICY_EQUAL_BIF_MSG_def

definition send_grants :: "hybrid_lib \<Rightarrow> real \<Rightarrow> hybrid \<Rightarrow> (hybrid_output list \<times> hybrid) option" where
  "send_grants lib now h = (if dsub now (last_grant_time h) < dbl (48 / 100000000) then Some ([], h)
     else do {
       check (pace_grants (cfg h));
       h \<leftarrow> update_grant_backlog now (h\<lparr>last_grant_time := now\<rparr>);
       if receiver_policy (cfg h) = POLICY_TS_MSG then send_grants_ts_msg now h
       else if receiver_policy (cfg h) = POLICY_SRPT_MSG then send_grants_srpt_msg lib now h
       else if receiver_policy (cfg h) = POLICY_EQUAL_BIF_MSG then send_grants_equal_bif_msg lib now h
       else None })"

end
