(* ===== verification/Hybrid_Sender.thy ===== *)
theory Hybrid_Sender
  imports Hybrid_Host "HOL-Library.AList"
begin

text \<open>
  The sender of the hybrid transport: the messages the layer above hands over, the credit they give
  themselves or are granted, and the policy that chooses whose packet is sent next
  (\<open>r2p2-cc-hybrid.cc\<close> and, for \<open>Receivers\<close> and \<open>ReceiverState\<close>, \<open>r2p2-hybrid-support.cc\<close>).
\<close>

section \<open>The receivers a host sends to\<close>

definition find_remote :: "int \<Rightarrow> hybrid \<Rightarrow> receiver_state option" where
  "find_remote addr h = map_of (remotes h) addr"

definition update_remote :: "int \<Rightarrow> (receiver_state \<Rightarrow> receiver_state) \<Rightarrow> hybrid \<Rightarrow> hybrid" where
  \<comment> \<open>a write through \<open>rcvr_state_\<close>\<close>
  "update_remote addr f h = h\<lparr>remotes := map (\<lambda>(a, r). (a, if a = addr then f r else r)) (remotes h)\<rparr>"

definition find_or_create :: "hybrid_lib \<Rightarrow> int \<Rightarrow> hybrid \<Rightarrow> hybrid" where
  \<comment> \<open>with \<open>on_create\<close>; a new entry may change the order of the map\<close>
  "find_or_create lib addr h = (case find_remote addr h of
     Some r \<Rightarrow> h
   | None \<Rightarrow> h\<lparr>remotes := remotes h @ [(addr, new_receiver_state addr)],
       policy_states := map_order lib (AList.update addr new_policy_state (policy_states h))\<rparr>)"

definition update_receiver_state :: "hybrid_lib \<Rightarrow> hybrid_packet \<Rightarrow> hybrid \<Rightarrow> hybrid" where
  "update_receiver_state lib pkt h = find_or_create lib (hp_src pkt) h"

definition num_outbound :: "hybrid \<Rightarrow> nat" where
  "num_outbound h = sum_list (map (\<lambda>(a, r). length (msgs (out_msgs r))) (remotes h))"

definition get_total_available_credit :: "hybrid \<Rightarrow> u64" where
  "get_total_available_credit h = sum_list (map (\<lambda>(a, r). word_of_int (avail_credit_bytes r)) (remotes h))"

definition get_granted_bytes_queue_len :: "hybrid \<Rightarrow> 32 word" where
  \<comment> \<open>nothing is marked on account of a single outbound message\<close>
  "get_granted_bytes_queue_len h = (if num_outbound h < 2 then 0 else ucast (get_total_available_credit h))"

definition list_unsent_bytes :: "out_msg msg_list \<Rightarrow> int" where
  "list_unsent_bytes l = sum_list (map (\<lambda>m. add_header_overhead (sint (unsent_bytes m)) False) (msgs l))"

definition credit_expected :: "receiver_state \<Rightarrow> 32 word option" where
  "credit_expected r = do {
     let credit_still_expected = list_unsent_bytes (out_msgs r) - avail_credit_bytes r;
     check (credit_still_expected \<ge> 0);
     Some (word_of_int credit_still_expected) }"

definition num_receivers_owing_credit :: "hybrid \<Rightarrow> nat option" where
  "num_receivers_owing_credit h = (if None \<in> set (map (\<lambda>(a, r). credit_expected r) (remotes h)) then None
     else Some (length (filter (\<lambda>(a, r). credit_expected r \<noteq> Some 0) (remotes h))))"

definition find_outbound_msg :: "int \<Rightarrow> uniq_req_id \<Rightarrow> hybrid \<Rightarrow> nat option" where
  \<comment> \<open>the search is made, but its result is not assigned to what is returned\<close>
  "find_outbound_msg addr req h = (case find_remote addr h of
     None \<Rightarrow> None
   | Some r \<Rightarrow> (case list_find_pos om_req_id req (out_msgs r) of None \<Rightarrow> None | Some pos \<Rightarrow> None))"

section \<open>Messages from the layer above\<close>

definition is_single_packet_msg :: "r2p2_hdr \<Rightarrow> bool option" where
  "is_single_packet_msg hdr = (if hdr_msg_type hdr = REQUEST then Some (hdr_first hdr \<and> hdr_pkt_id hdr = 0)
     else if hdr_msg_type hdr = REPLY then Some (hdr_first hdr \<and> hdr_pkt_id hdr = 1)
     else None)"

definition is_req0 :: "r2p2_hdr \<Rightarrow> bool" where
  "is_req0 hdr \<longleftrightarrow> hdr_msg_type hdr = REQUEST \<and> hdr_first hdr"

definition is_req0_of_multipkt :: "r2p2_hdr \<Rightarrow> bool" where
  "is_req0_of_multipkt hdr \<longleftrightarrow> is_req0 hdr \<and> hdr_pkt_id hdr \<ge> 1"

definition is_from_multipkt_req_not_req0 :: "r2p2_hdr \<Rightarrow> bool" where
  "is_from_multipkt_req_not_req0 hdr \<longleftrightarrow> hdr_msg_type hdr = REQUEST \<and> \<not> hdr_first hdr"

definition prep_msg_send :: "hybrid_lib \<Rightarrow> r2p2_hdr \<Rightarrow> int \<Rightarrow> int \<Rightarrow> hybrid \<Rightarrow> hybrid" where
  "prep_msg_send lib hdr payload daddr h = (let h = find_or_create lib daddr h in
     h\<lparr>outbound_inactive := list_append ((new_out_msg (uniq_id hdr) daddr hdr)\<lparr>unsent_bytes := word_of_int payload,
         total_bytes := word_of_int payload, om_is_request := True, om_msg_creation_time := hdr_msg_creation_time hdr\<rparr>)
       (outbound_inactive h)\<rparr>)"

definition shorting_req0 :: "r2p2_hdr \<Rightarrow> int \<Rightarrow> hybrid_output list option" where
  \<comment> \<open>the layer above is told to go on, without the round trip of a request\<close>
  "shorting_req0 hdr payload = do {
     check (hdr_pkt_id hdr \<ge> 1);
     check (payload = 14);
     Some [Layer (hdr\<lparr>hdr_msg_type := REQRDY, hdr_first := False, hdr_last := False\<rparr>)] }"

definition sending_request :: "r2p2_hdr \<Rightarrow> int \<Rightarrow> hybrid \<Rightarrow> hybrid option" where
  "sending_request hdr payload h = do {
     pos \<leftarrow> list_find_pos om_req_id (uniq_id hdr) (outbound_inactive h);
     single \<leftarrow> is_single_packet_msg hdr;
     let m = msgs (outbound_inactive h) ! pos;
     let add = (if unsent_bytes m = 14 \<and> \<not> single \<and> hdr_msg_type hdr = REQUEST then word_of_int payload else 0);
     let all_bytes = total_bytes m + add;
     let pkt_count = all_bytes div word_of_int MAX_R2P2_PAYLOAD
       + (if all_bytes mod word_of_int MAX_R2P2_PAYLOAD > 0 then 1 else 0);
     check (pkt_count > 0);
     check (\<not> (hdr_msg_type hdr = REQUEST \<and> single) \<longrightarrow> sint (unsent_bytes m + add) = payload + 14);
     Some (h\<lparr>outbound_inactive := list_update_at pos (\<lambda>m. m\<lparr>unsent_bytes := unsent_bytes m + add, total_bytes := all_bytes,
       om_hdr := (om_hdr m)\<lparr>hdr_pkt_id := sint (pkt_count - 1)\<rparr>\<rparr>) (outbound_inactive h)\<rparr>) }"

definition sending_reply :: "r2p2_hdr \<Rightarrow> int \<Rightarrow> int \<Rightarrow> hybrid \<Rightarrow> hybrid option" where
  "sending_reply hdr payload daddr h = do {
     _ \<leftarrow> find_remote daddr h;
     check (list_find_pos om_req_id (uniq_id hdr) (outbound_inactive h) = None);
     Some (h\<lparr>outbound_inactive := list_append ((new_out_msg (uniq_id hdr) daddr hdr)\<lparr>total_bytes := word_of_int payload,
         unsent_bytes := word_of_int payload, om_active := False, sent_anouncement := False, sent_first := False,
         om_is_request := False, om_msg_creation_time := hdr_msg_creation_time hdr\<rparr>) (outbound_inactive h)\<rparr>) }"

section \<open>Credit\<close>

definition add_outbound_msg :: "out_msg \<Rightarrow> hybrid \<Rightarrow> hybrid option" where
  \<comment> \<open>through the message's \<open>rcvr_state_\<close>\<close>
  "add_outbound_msg m h = do {
     _ \<leftarrow> find_remote (om_remote_addr m) h;
     Some (update_remote (om_remote_addr m) (\<lambda>r. r\<lparr>out_msgs := list_append m (out_msgs r)\<rparr>) h) }"

definition credit_activates :: "uniq_req_id \<Rightarrow> hybrid \<Rightarrow> hybrid option" where
  \<comment> \<open>the first credit for a message makes it active; its state may be gone\<close>
  "credit_activates req h = (case list_find_pos om_req_id req (outbound_inactive h) of
     None \<Rightarrow> Some h
   | Some pos \<Rightarrow> do {
       let m = msgs (outbound_inactive h) ! pos;
       check (\<not> om_active m);
       l \<leftarrow> list_remove om_req_id req (outbound_inactive h);
       add_outbound_msg (m\<lparr>om_active := True\<rparr>) (h\<lparr>outbound_inactive := l\<rparr>) })"

definition received_credit :: "hybrid_packet \<Rightarrow> hybrid \<Rightarrow> hybrid option" where
  "received_credit pkt h = (let hdr = hp_hdr pkt; credit = hdr_credit hdr; receiver = hp_src pkt; req = uniq_id hdr in do {
     check (credit \<le> MAX_ETHERNET_FRAME_ON_WIRE);
     check (credit \<ge> 1 + R2P2_ALL_HEADERS_SIZE + INTER_PKT_GAP_SIZE + ETHERNET_PREAMBLE_SIZE);
     h \<leftarrow> (case find_outbound_msg receiver req h of
         Some pos \<Rightarrow> do { check (list_find_pos om_req_id req (outbound_inactive h) = None); Some h }
       | None \<Rightarrow> credit_activates req h);
     r \<leftarrow> find_remote receiver h;
     check (avail_credit_bytes r \<ge> 0);
     let data_net = credit - (R2P2_ALL_HEADERS_SIZE + INTER_PKT_GAP_SIZE + ETHERNET_PREAMBLE_SIZE + hdr_credit_pad hdr);
     let h = (update_remote receiver (\<lambda>r. r\<lparr>avail_credit_bytes := avail_credit_bytes r + credit,
       avail_credit_data_bytes := avail_credit_data_bytes r + data_net\<rparr>) h)\<lparr>credit_received := credit_received h + word_of_int credit\<rparr>;
     check (credit_used h \<le> credit_received h);
     check (hdr_credit_pad hdr < MIN_R2P2_PAYLOAD);
     check (hdr_credit_pad hdr \<ge> 0);
     let h = h\<lparr>credit_data_received := credit_data_received h + word_of_int data_net\<rparr>;
     check (credit_data_requested h \<ge> credit_data_received h);
     Some h })"

definition self_credit_amount :: "hybrid_config \<Rightarrow> int \<Rightarrow> int \<Rightarrow> bool \<times> int \<times> int" where
  \<comment> \<open>whether a message of \<open>all_bytes\<close> has no scheduled part, and the credit it gives itself with and without
      headers, for a pipe that has \<open>avail\<close> bytes of credit\<close>
  "self_credit_amount c all_bytes avail = (let
     fits = \<not> (add_header_overhead all_bytes False > max_srpb c);
     (n, n_data) = (if fits then (add_header_overhead all_bytes False, all_bytes)
       else (add_header_overhead (remove_header_overhead (max_srpb c)) True, remove_header_overhead (max_srpb c)));
     space = max (max_srpb c - avail) MAX_ETHERNET_FRAME_ON_WIRE;
     (n, n_data) = (if n > space then (add_header_overhead (remove_header_overhead space) True, remove_header_overhead space)
       else (n, n_data))
   in (fits, n, n_data))"

definition self_credit :: "nat \<Rightarrow> hybrid \<Rightarrow> hybrid option" where
  \<comment> \<open>the first loop of \<open>send_data\<close> for one message\<close>
  "self_credit pos h = (let m = msgs (outbound_inactive h) ! pos; all_bytes = sint (total_bytes m) in
     if (unsolicited_thresh_bytes (cfg h) = - 1 \<or> add_header_overhead all_bytes False \<le> unsolicited_thresh_bytes (cfg h))
        \<and> \<not> usnsol_check_done m
     then do {
       r \<leftarrow> find_remote (om_remote_addr m) h;
       let (fits, n, n_data) = self_credit_amount (cfg h) all_bytes (avail_credit_bytes r);
       check (n > 0);
       let n = max n MIN_ETHERNET_FRAME_ON_WIRE;
       check (avail_credit_bytes r \<ge> 0);
       Some ((update_remote (om_remote_addr m) (\<lambda>r. r\<lparr>avail_credit_bytes := avail_credit_bytes r + n,
           avail_credit_data_bytes := avail_credit_data_bytes r + n_data\<rparr>) h)
         \<lparr>credit_received := credit_received h + word_of_int n,
           outbound_inactive := list_update_at pos (\<lambda>m. m\<lparr>om_hdr := (om_hdr m)\<lparr>hdr_has_scheduled_part :=
               (if fits then False else hdr_has_scheduled_part (om_hdr m))\<rparr>,
             self_alloc_credit := n, self_alloc_credit_data := n_data, remaining_self_alloc_credit_data := n_data,
             usnsol_check_done := True, is_scheduled := False\<rparr>) (outbound_inactive h)\<rparr>) }
     else Some h)"

fun self_credit_loop :: "nat \<Rightarrow> hybrid \<Rightarrow> hybrid option" where
  "self_credit_loop 0 h = Some h"
| "self_credit_loop (Suc n) h = do {
     (pos, l) \<leftarrow> list_next (outbound_inactive h);
     h \<leftarrow> self_credit pos (h\<lparr>outbound_inactive := l\<rparr>);
     self_credit_loop n h }"

definition request_credit :: "out_msg \<Rightarrow> hybrid \<Rightarrow> (hybrid_output list \<times> hybrid) option" where
  \<comment> \<open>the request that announces a message without an unsolicited part\<close>
  "request_credit m h = do {
     check (unsolicited_thresh_bytes (cfg h) \<noteq> - 1);
     out \<leftarrow> transport ((om_hdr m)\<lparr>hdr_msg_type := GRANT_REQ, hdr_seq := 0, hdr_credit := 0,
         hdr_credit_req := ucast (total_bytes m), hdr_msg_creation_time := om_msg_creation_time m, hdr_unsol_credit := 0,
         hdr_unsol_credit_data := 0\<rparr>) GRANT_REQ_MSG_SIZE (om_remote_addr m);
     let h = h\<lparr>data_pacer_backlog := data_pacer_backlog h + (GRANT_REQ_MSG_SIZE + R2P2_ALL_HEADERS_SIZE + INTER_PKT_GAP_SIZE
           + ETHERNET_PREAMBLE_SIZE),
       credit_data_requested := credit_data_requested h + ucast (total_bytes m)\<rparr>;
     check (credit_data_requested h \<ge> credit_data_received h);
     Some (out, h) }"

definition activate_msg :: "nat \<Rightarrow> hybrid \<Rightarrow> (hybrid_output list \<times> hybrid) option" where
  \<comment> \<open>the second loop of \<open>send_data\<close> for one message\<close>
  "activate_msg pos h = (let m = msgs (outbound_inactive h) ! pos in
     if \<not> sent_anouncement m then do {
       check (total_bytes m = unsent_bytes m);
       (out, h) \<leftarrow> (if is_scheduled m then request_credit m h else Some ([], h));
       l \<leftarrow> list_remove om_req_id (om_req_id m) (outbound_inactive h);
       h \<leftarrow> add_outbound_msg (m\<lparr>sent_anouncement := is_scheduled m, om_active := True\<rparr>) (h\<lparr>outbound_inactive := l\<rparr>);
       Some (out, h) }
     else Some ([], h))"

fun activate_loop :: "nat \<Rightarrow> hybrid \<Rightarrow> (hybrid_output list \<times> hybrid) option" where
  "activate_loop 0 h = Some ([], h)"
| "activate_loop (Suc n) h = do {
     (pos, l) \<leftarrow> list_next (outbound_inactive h);
     (out, h) \<leftarrow> activate_msg pos (h\<lparr>outbound_inactive := l\<rparr>);
     (outs, h) \<leftarrow> activate_loop n h;
     Some (out @ outs, h) }"

end
