(* ===== verification/Hybrid_Policy.thy ===== *)
theory Hybrid_Policy
  imports Hybrid_Sender
begin

text \<open>
  Whose packet a sender sends next: \<open>ReceiverState::want_to_send\<close>, \<open>Receivers::update_policy_state\<close> and
  \<open>Receivers::select_msg_to_send\<close> of \<open>r2p2-hybrid-support.cc\<close>, a deficit round robin over the receivers
  that have credit and data.
\<close>

section \<open>What a receiver could be sent\<close>

definition to_send_bytes :: "out_msg \<Rightarrow> 32 word" where
  \<comment> \<open>the next packet of a message on the wire\<close>
  "to_send_bytes m = max (min (word_of_int MAX_R2P2_PAYLOAD) (unsent_bytes m) + word_of_int R2P2_ALL_HEADERS_SIZE
     + word_of_int INTER_PKT_GAP_SIZE + word_of_int ETHERNET_PREAMBLE_SIZE) (word_of_int MIN_ETHERNET_FRAME_ON_WIRE)"

definition ps_take :: "nat \<Rightarrow> out_msg \<Rightarrow> policy_state \<Rightarrow> policy_state" where
  "ps_take pos m ps = ps\<lparr>ps_can_send := True, ps_msg := Some pos, ps_want_to_send_bytes := to_send_bytes m\<rparr>"

fun want_loop :: "nat \<Rightarrow> u64 \<Rightarrow> out_msg msg_list \<Rightarrow> policy_state \<Rightarrow> (policy_state \<times> out_msg msg_list) option" where
  \<comment> \<open>the first message that can be sent; a later one only if it is not announced\<close>
  "want_loop 0 credit l ps = Some (ps, l)"
| "want_loop (Suc n) credit l ps = do {
     (pos, l) \<leftarrow> list_next l;
     let m = msgs l ! pos;
     check (to_send_bytes m \<ge> word_of_int MIN_ETHERNET_FRAME_ON_WIRE);
     check (to_send_bytes m \<le> word_of_int MAX_ETHERNET_FRAME_ON_WIRE);
     let ps = (if credit \<ge> ucast (to_send_bytes m) \<and> (ps_can_send ps \<longrightarrow> \<not> sent_anouncement m) then ps_take pos m ps else ps);
     want_loop n credit l ps }"

definition want_to_send :: "hybrid_lib \<Rightarrow> receiver_state \<Rightarrow> policy_state \<Rightarrow> (receiver_state \<times> policy_state) option" where
  "want_to_send lib r ps = (let ps = ps\<lparr>ps_can_send := False, ps_msg := None, ps_want_to_send_bytes := 0\<rparr> in
     if length (msgs (out_msgs r)) = 0 then Some (r, ps\<lparr>ps_deficit := 0, ps_quantum := 0\<rparr>)
     else do {
       (ps, l) \<leftarrow> want_loop (length (msgs (out_msgs r))) (word_of_int (avail_credit_bytes r))
         (list_reset (list_sort (sort_by_unsent lib) (out_msgs r))) ps;
       Some (r\<lparr>out_msgs := l\<rparr>, if \<not> ps_can_send ps then ps\<lparr>ps_deficit := 0, ps_want_to_send_bytes := 0, ps_quantum := 0,
         ps_msg := None\<rparr> else ps) })"

section \<open>Shares\<close>

record policy_scan =
  sc_num_can_send :: int
  strongest_prio_flow :: int
  strongest_prio :: int
  rcver_with_highest_prio :: int
  rcver_with_highest_prio_flow :: int

definition MAXINT :: int where "MAXINT = 2 ^ 31 - 1"

definition new_scan :: "int \<Rightarrow> policy_scan" where
  "new_scan policy = \<lparr>sc_num_can_send = 0, strongest_prio_flow = MAXINT, strongest_prio = (if policy = 2 then 0 else MAXINT),
     rcver_with_highest_prio = - 1, rcver_with_highest_prio_flow = - 1\<rparr>"

definition scan_one :: "int \<Rightarrow> int \<Rightarrow> receiver_state \<Rightarrow> out_msg \<Rightarrow> policy_scan \<Rightarrow> policy_scan option" where
  \<comment> \<open>a receiver that can be sent \<open>m\<close>; an unknown policy throws\<close>
  "scan_one policy addr r m sc = (let unsent = sint (unsent_bytes m); sc = sc\<lparr>sc_num_can_send := sc_num_can_send sc + 1\<rparr> in do {
     check (policy = 0 \<or> policy = 1 \<or> policy = 2);
     let better = (if policy = 2 then avail_credit_data_bytes r > strongest_prio sc else unsent < strongest_prio sc);
     let better_flow = unsent < strongest_prio_flow sc;
     Some (sc\<lparr>strongest_prio := (if better then (if policy = 2 then avail_credit_data_bytes r else unsent) else strongest_prio sc),
       rcver_with_highest_prio := (if better then addr else rcver_with_highest_prio sc),
       strongest_prio_flow := (if better_flow then unsent else strongest_prio_flow sc),
       rcver_with_highest_prio_flow := (if better_flow then addr else rcver_with_highest_prio_flow sc)\<rparr>) })"

fun scan_receivers :: "hybrid_lib \<Rightarrow> int \<Rightarrow> (int \<times> policy_state) list \<Rightarrow> policy_scan \<Rightarrow> hybrid
    \<Rightarrow> ((int \<times> policy_state) list \<times> policy_scan \<times> hybrid) option" where
  "scan_receivers lib policy [] sc h = Some ([], sc, h)"
| "scan_receivers lib policy ((addr, ps) # rest) sc h = do {
     r \<leftarrow> find_remote addr h;
     (r, ps) \<leftarrow> want_to_send lib r ps;
     sc \<leftarrow> (if ps_can_send ps then do {
         pos \<leftarrow> ps_msg ps;
         scan_one policy addr r (msgs (out_msgs r) ! pos) sc }
       else do { check (ps_deficit ps < dbl (1 / 1000000)); Some sc });
     check (ps_deficit ps \<ge> 0);
     (pss, sc, h) \<leftarrow> scan_receivers lib policy rest sc (update_remote addr (\<lambda>_. r) h);
     Some ((addr, ps) # pss, sc, h) }"

definition add_quantum :: "policy_scan \<Rightarrow> real \<Rightarrow> real \<Rightarrow> int \<times> policy_state \<Rightarrow> (int \<times> policy_state) option" where
  "add_quantum sc high low = (\<lambda>(addr, ps). if ps_can_send ps then do {
       check (ps_want_to_send_bytes ps > 0);
       check (ps_deficit ps \<ge> 0);
       _ \<leftarrow> ps_msg ps;
       let q = (if addr = rcver_with_highest_prio sc then high else low);
       Some (addr, ps\<lparr>ps_deficit := dadd (ps_deficit ps) q, ps_quantum := q,
         ps_priority_flow := (addr = rcver_with_highest_prio_flow sc)\<rparr>) }
     else do { check (ps_deficit ps < dbl (1 / 1000000)); Some (addr, ps) })"

fun map_checked :: "('a \<Rightarrow> 'b option) \<Rightarrow> 'a list \<Rightarrow> 'b list option" where
  "map_checked f [] = Some []"
| "map_checked f (x # xs) = do { y \<leftarrow> f x; ys \<leftarrow> map_checked f xs; Some (y # ys) }"

definition high_prio_quantum :: "hybrid_config \<Rightarrow> int \<Rightarrow> real" where
  "high_prio_quantum c n = dadd (dmul (ddiv 1 (of_int n)) (fs_weight c)) (dmul 1 (srpt_weight c))"

definition low_prio_quantum :: "hybrid_config \<Rightarrow> int \<Rightarrow> real" where
  "low_prio_quantum c n = dmul (ddiv 1 (of_int n)) (fs_weight c)"

definition update_policy_state :: "hybrid_lib \<Rightarrow> hybrid \<Rightarrow> hybrid option" where
  "update_policy_state lib h = do {
     check (remotes h \<noteq> []);
     (pss, sc, h) \<leftarrow> scan_receivers lib (sender_policy (cfg h)) (policy_states h) (new_scan (sender_policy (cfg h))) h;
     let n = sc_num_can_send sc;
     if n = 0 then Some (h\<lparr>policy_states := pss\<rparr>)
     else do {
       let pss = map (\<lambda>(addr, ps). (addr, ps\<lparr>ps_num_can_send := n\<rparr>)) pss;
       check (rcver_with_highest_prio sc \<ge> 0);
       check (rcver_with_highest_prio_flow sc \<ge> 0);
       let high = high_prio_quantum (cfg h) n;
       let low = low_prio_quantum (cfg h) n;
       check (dsub (dadd high (dmul (of_int (n - 1)) low)) 1 < dbl (1 / 100000));
       check (low \<ge> 0);
       check (low \<le> 1);
       check (high \<ge> 0);
       check (high \<le> 1);
       pss \<leftarrow> map_checked (add_quantum sc high low) pss;
       Some (h\<lparr>policy_states := pss\<rparr>) } }"

section \<open>The choice\<close>

fun highest_deficit :: "(int \<times> policy_state) list \<Rightarrow> real \<Rightarrow> int option \<Rightarrow> (real \<times> int option) option" where
  \<comment> \<open>the pointer \<open>ps_ret\<close> is the address of its receiver\<close>
  "highest_deficit [] best ret = Some (best, ret)"
| "highest_deficit ((addr, ps) # rest) best ret = (if ps_can_send ps then
       if ps_deficit ps > best then do {
         check (ps_deficit ps \<ge> dbl (1 / 1000000));
         check (ps_quantum ps \<ge> dbl (1 / 1000000));
         highest_deficit rest (ps_deficit ps) (Some addr) }
       else highest_deficit rest best ret
     else do { check (ps_deficit ps < dbl (1 / 1000000)); highest_deficit rest best ret })"

definition re_add :: "int \<times> policy_state \<Rightarrow> (int \<times> policy_state) option" where
  "re_add = (\<lambda>(addr, ps). if ps_can_send ps then do {
       check (ps_quantum ps \<ge> dbl (1 / 1000000));
       Some (addr, ps\<lparr>ps_deficit := dadd (ps_deficit ps) (ps_quantum ps)\<rparr>) }
     else Some (addr, ps))"

definition spend :: "int \<Rightarrow> int \<times> policy_state \<Rightarrow> int \<times> policy_state" where
  "spend ret = (\<lambda>(addr, ps). (addr, if addr = ret then ps\<lparr>ps_deficit := dsub (ps_deficit ps) 1\<rparr> else ps))"

section \<open>The recursion of the choice ends\<close>

text \<open>A round adds at least half a millionth to every deficit, so the highest one reaches 1.\<close>
lemma small_quantum: "9 / 10000000 \<le> dbl (1 / 1000000)"
proof -
  have "\<bar>dbl (1 / 1000000) - 1 / 1000000\<bar> \<le> 1 / 10000000" using dbl_error [of "1 / 1000000"] by simp
  then show ?thesis by linarith
qed

lemma re_add_grows:
  assumes "0 \<le> d" "d < 1" "dbl (1 / 1000000) \<le> q"
  shows "d + 1 / 2 ^ 21 \<le> dadd d q"
proof -
  have q: "9 / 10000000 \<le> q" using small_quantum assms(3) by linarith
  have "\<bar>dbl (d + q) - (d + q)\<bar> \<le> (d + q) / 2 ^ 53" using dbl_error [of "d + q"] assms(1) q by simp
  then have "d + q - (d + q) / 2 ^ 53 \<le> dadd d q" unfolding dadd_def by linarith
  moreover have "d + 1 / 2 ^ 21 \<le> d + q - (d + q) / 2 ^ 53" using assms(2) q by (simp add: field_simps)
  ultimately show ?thesis by linarith
qed

definition top_deficit :: "(int \<times> policy_state) list \<Rightarrow> real" where
  "top_deficit pss = foldr (\<lambda>(addr, ps) t. if ps_can_send ps then max (ps_deficit ps) t else t) pss (- 1)"

lemma top_deficit_simps [simp]:
  "top_deficit [] = - 1"
  "top_deficit ((addr, ps) # pss) = (if ps_can_send ps then max (ps_deficit ps) (top_deficit pss) else top_deficit pss)"
  by (simp_all add: top_deficit_def)

lemma top_deficit_least: "- 1 \<le> top_deficit pss"
  by (induction pss) auto

lemma top_deficit_upper: "(addr, ps) \<in> set pss \<Longrightarrow> ps_can_send ps \<Longrightarrow> ps_deficit ps \<le> top_deficit pss"
  by (induction pss) auto

lemma top_deficit_attained:
  "- 1 < top_deficit pss \<Longrightarrow> \<exists>addr ps. (addr, ps) \<in> set pss \<and> ps_can_send ps \<and> ps_deficit ps = top_deficit pss"
proof (induction pss)
  case (Cons p pss)
  obtain addr ps where p: "p = (addr, ps)" by fastforce
  show ?case
  proof (cases "ps_can_send ps \<and> top_deficit pss \<le> ps_deficit ps")
    case True
    then show ?thesis unfolding p by auto
  next
    case False
    then have "top_deficit (p # pss) = top_deficit pss" unfolding p by auto
    then show ?thesis using Cons by auto
  qed
qed simp

lemma highest_deficit_Some:
  assumes "highest_deficit pss b r = Some (best, ret)" "- 1 \<le> b"
  shows "best = max b (top_deficit pss)"
    "ret = r \<and> best = b \<or> b < best \<and> dbl (1 / 1000000) \<le> best \<and> (\<exists>addr ps. (addr, ps) \<in> set pss \<and> ret = Some addr
      \<and> ps_can_send ps \<and> ps_deficit ps = best)"
  using assms
proof (induction pss b r rule: highest_deficit.induct)
  case (2 addr ps rest b r)
  { case 1
    with 2 show ?case using top_deficit_least [of rest]
      by (auto simp: bind_eq_Some_conv split: if_splits)
  next
    case 2
    with "2.IH" show ?case
      by (auto simp: bind_eq_Some_conv split: if_splits) }
qed auto

lemma map_checked_Some: "map_checked f xs = Some ys \<longleftrightarrow> list_all2 (\<lambda>x y. f x = Some y) xs ys"
  by (induction xs arbitrary: ys) (auto simp: bind_eq_Some_conv list_all2_Cons1)

lemma map_checked_member: "map_checked f xs = Some ys \<Longrightarrow> x \<in> set xs \<Longrightarrow> \<exists>y. f x = Some y \<and> y \<in> set ys"
  by (induction xs arbitrary: ys) (auto simp: bind_eq_Some_conv)

lemma top_deficit_re_add:
  assumes "highest_deficit pss (- 1) None = Some (best, Some a)" "best < 1" "map_checked re_add pss = Some pss'"
  shows "top_deficit pss + 1 / 2 ^ 21 \<le> top_deficit pss'" "top_deficit pss < 1"
proof -
  note h = highest_deficit_Some [OF assms(1) order_refl]
  obtain addr ps where m: "(addr, ps) \<in> set pss" "ps_can_send ps" "ps_deficit ps = best" "dbl (1 / 1000000) \<le> best"
    using h(2) by auto
  then have top: "best = top_deficit pss" using h(1) top_deficit_least [of pss] by simp
  then show "top_deficit pss < 1" using assms(2) by simp
  obtain p where p: "re_add (addr, ps) = Some p" "p \<in> set pss'" using map_checked_member [OF assms(3) m(1)] by blast
  have q: "dbl (1 / 1000000) \<le> ps_quantum ps" "p = (addr, ps\<lparr>ps_deficit := dadd (ps_deficit ps) (ps_quantum ps)\<rparr>)"
    using p(1) m(2) by (auto simp: re_add_def bind_eq_Some_conv)
  have "dadd best (ps_quantum ps) \<le> top_deficit pss'"
    using top_deficit_upper [of addr _ pss'] p(2) m(2,3) unfolding q(2) by fastforce
  moreover have "best + 1 / 2 ^ 21 \<le> dadd best (ps_quantum ps)"
    using re_add_grows [OF _ assms(2) q(1)] m(4) small_quantum by linarith
  ultimately show "top_deficit pss + 1 / 2 ^ 21 \<le> top_deficit pss'" unfolding top by linarith
qed

function select_msg_to_send :: "(int \<times> policy_state) list \<Rightarrow> (int option \<times> (int \<times> policy_state) list) option" where
  "select_msg_to_send pss = (case highest_deficit pss (- 1) None of
     None \<Rightarrow> None
   | Some (best, None) \<Rightarrow> Some (None, pss)
   | Some (best, Some a) \<Rightarrow> (if best < 1 then (case map_checked re_add pss of None \<Rightarrow> None
         | Some pss' \<Rightarrow> select_msg_to_send pss')
       else do {
         let pss' = map (spend a) pss;
         ps \<leftarrow> map_of pss' a;
         check (ps_deficit ps \<le> 10);
         Some (Some a, pss') }))"
  by pat_completeness auto
termination
proof (relation "measure (\<lambda>pss. nat \<lceil>(2 - top_deficit pss) * 2 ^ 21\<rceil>)")
  fix pss x best y a pss'
  assume "highest_deficit pss (- 1) None = Some x" "(best, y) = x" "y = Some a" "best < 1" "map_checked re_add pss = Some pss'"
  then have "highest_deficit pss (- 1) None = Some (best, Some a)" "best < 1" "map_checked re_add pss = Some pss'" by auto
  from top_deficit_re_add [OF this]
  have "(2 - top_deficit pss') * 2 ^ 21 \<le> (2 - top_deficit pss) * 2 ^ 21 - 1" "0 < (2 - top_deficit pss) * 2 ^ 21"
    by simp_all
  then have "\<lceil>(2 - top_deficit pss') * 2 ^ 21\<rceil> < \<lceil>(2 - top_deficit pss) * 2 ^ 21\<rceil>" "0 < \<lceil>(2 - top_deficit pss) * 2 ^ 21\<rceil>"
    by linarith+
  then show "(pss', pss) \<in> measure (\<lambda>pss. nat \<lceil>(2 - top_deficit pss) * 2 ^ 21\<rceil>)" by simp
qed simp

declare select_msg_to_send.simps [simp del]

end
