(* ===== verification/Hybrid_Transport.thy ===== *)
theory Hybrid_Transport
  imports Hybrid_Receiver Hybrid_Policy
begin

text \<open>
  The two sides of the hybrid transport put together (\<open>r2p2-cc-hybrid.cc\<close>): the sending of a packet, the
  polling loop, what the layer above and the network call, and the initialization.
\<close>

section \<open>Sending data\<close>

definition update_data_backlog :: "real \<Rightarrow> hybrid \<Rightarrow> hybrid option" where
  "update_data_backlog now h = do {
     n \<leftarrow> pacer_drain now (last_data_pacer_update h) (data_pacer_speed_gbps (cfg h));
     Some (h\<lparr>data_pacer_backlog := max (data_pacer_backlog h - n) 0, last_data_pacer_update := now\<rparr>) }"

definition packet_payload :: "out_msg \<Rightarrow> int" where
  "packet_payload m = (if unsent_bytes m \<le> word_of_int MAX_R2P2_PAYLOAD then sint (unsent_bytes m) else MAX_R2P2_PAYLOAD)"

definition packet_sent :: "out_msg \<Rightarrow> out_msg" where
  \<comment> \<open>the message after its next packet\<close>
  "packet_sent m = m\<lparr>om_seq := om_seq m + (if om_is_request m then packet_payload m else 0),
     om_hdr := (om_hdr m)\<lparr>hdr_first := (if sent_first m then hdr_first (om_hdr m) else False)\<rparr>,
     sent_first := True,
     remaining_self_alloc_credit_data := remaining_self_alloc_credit_data m - (if is_scheduled m then 0 else packet_payload m),
     sent_anouncement := sent_anouncement m \<or> \<not> is_scheduled m,
     unsent_bytes := unsent_bytes m - word_of_int (packet_payload m)\<rparr>"

definition packet_header :: "hybrid_config \<Rightarrow> policy_state \<Rightarrow> out_msg \<Rightarrow> r2p2_hdr" where
  "packet_header c ps m = (om_hdr m)\<lparr>hdr_msg_creation_time := om_msg_creation_time m,
     hdr_msg_type := (if om_is_request m then REQUEST else REPLY),
     hdr_seq := (if om_is_request m then om_seq (packet_sent m) else 0),
     hdr_credit := 0,
     hdr_credit_req := (if is_scheduled m then 0 else ucast (total_bytes m)),
     hdr_first := \<not> sent_first m,
     hdr_unsol_credit := (if is_scheduled m then hdr_unsol_credit (om_hdr m) else self_alloc_credit m),
     hdr_unsol_credit_data := (if is_scheduled m then hdr_unsol_credit_data (om_hdr m) else self_alloc_credit_data m),
     hdr_used_unsol_credit := (if is_scheduled m then hdr_used_unsol_credit (om_hdr m)
       else remaining_self_alloc_credit_data (packet_sent m) \<ge> 0),
     hdr_priority_flow := (use_priority_flow c \<and> ps_priority_flow ps),
     hdr_bw_ratio := ps_quantum ps,
     hdr_is_unsol_pkt := (data_prio c \<and> total_bytes m - unsent_bytes (packet_sent m) \<le> word_of_int (self_alloc_credit_data m))\<rparr>"

definition announces :: "out_msg \<Rightarrow> bool" where
  \<comment> \<open>the first packet of a message that has not asked for credit does\<close>
  "announces m \<longleftrightarrow> \<not> is_scheduled m \<and> \<not> sent_anouncement m"

definition send_packet :: "int \<Rightarrow> hybrid \<Rightarrow> (hybrid_output list \<times> hybrid) option" where
  \<comment> \<open>\<open>send_data\<close> for the message chosen for a receiver\<close>
  "send_packet addr h = do {
     ps \<leftarrow> map_of (policy_states h) addr;
     pos \<leftarrow> ps_msg ps;
     r \<leftarrow> find_remote addr h;
     let m = msgs (out_msgs r) ! pos;
     let to_send = to_send_bytes m;
     let payload = packet_payload m;
     let m' = packet_sent m;
     check ((word_of_int (avail_credit_bytes r) :: u64) \<ge> ucast to_send);
     check (to_send \<ge> ps_want_to_send_bytes ps);
     check (unsent_bytes m > 0);
     check (total_bytes m > 0);
     check (payload > 0);
     check (om_active m);
     check (if sent_first m then total_bytes m \<ge> unsent_bytes m \<and> sent_anouncement m else total_bytes m = unsent_bytes m);
     let h = h\<lparr>credit_data_requested := credit_data_requested h + (if announces m then ucast (total_bytes m) else 0)\<rparr>;
     check (announces m \<longrightarrow> credit_data_requested h \<ge> credit_data_received h);
     check (avail_credit_bytes r \<ge> payload + R2P2_ALL_HEADERS_SIZE + INTER_PKT_GAP_SIZE + ETHERNET_PREAMBLE_SIZE);
     check (avail_credit_bytes r - uint to_send \<ge> 0);
     check (payload \<le> MAX_R2P2_PAYLOAD);
     check (pace_grants (cfg h));
     out \<leftarrow> transport (packet_header (cfg h) ps m) payload (om_remote_addr m);
     l \<leftarrow> (let l = list_update_at pos (\<lambda>_. m') (out_msgs r) in
       if unsent_bytes m' = 0 then list_remove om_req_id (om_req_id m) l else Some l);
     Some (out, (update_remote addr (\<lambda>r. r\<lparr>avail_credit_bytes := avail_credit_bytes r - uint to_send,
         avail_credit_data_bytes := avail_credit_data_bytes r - payload, out_msgs := l\<rparr>) h)
       \<lparr>credit_used := credit_used h + ucast to_send, data_pacer_backlog := data_pacer_backlog h + uint to_send\<rparr>) }"

definition data_pacer_full :: "hybrid \<Rightarrow> bool" where
  "data_pacer_full h \<longleftrightarrow> of_int (data_pacer_backlog h) > dmul (3 / 2) (of_int (data_bytes_drained_per_loop (cfg h)))"

definition start_messages :: "hybrid \<Rightarrow> (hybrid_output list \<times> hybrid) option" where
  \<comment> \<open>the two loops of \<open>send_data\<close> over the inactive messages\<close>
  "start_messages h = do {
     h \<leftarrow> self_credit_loop (length (msgs (outbound_inactive h))) h;
     activate_loop (length (msgs (outbound_inactive h))) h }"

definition send_chosen :: "hybrid_lib \<Rightarrow> hybrid \<Rightarrow> (hybrid_output list \<times> hybrid) option" where
  "send_chosen lib h = do {
     h \<leftarrow> update_policy_state lib h;
     (ret, pss) \<leftarrow> select_msg_to_send (policy_states h);
     let h = h\<lparr>policy_states := pss\<rparr>;
     (case ret of None \<Rightarrow> Some ([], h) | Some addr \<Rightarrow> send_packet addr h) }"

definition hybrid_send_data :: "hybrid_lib \<Rightarrow> real \<Rightarrow> hybrid \<Rightarrow> (hybrid_output list \<times> hybrid) option" where
  "hybrid_send_data lib now h = do {
     h \<leftarrow> update_data_backlog now h;
     if remotes h = [] then Some ([], h)
     else do {
       (out, h) \<leftarrow> start_messages h;
       if data_pacer_full h then Some (out, h)
       else do {
         (outs, h) \<leftarrow> send_chosen lib h;
         Some (out @ outs, h) } } }"

section \<open>What the host is called with\<close>

definition poll :: "hybrid_lib \<Rightarrow> real \<Rightarrow> hybrid \<Rightarrow> (hybrid_output list \<times> hybrid) option" where
  "poll lib now h = do {
     (out, h) \<leftarrow> send_grants lib now h;
     (outs, h) \<leftarrow> hybrid_send_data lib now h;
     Some (out @ outs, h\<lparr>poll_timer := timer_resched now (poll_interval (cfg h)) (poll_timer h)\<rparr>) }"

definition expire_poll :: "hybrid_lib \<Rightarrow> real \<Rightarrow> hybrid \<Rightarrow> (hybrid_output list \<times> hybrid) option" where
  \<comment> \<open>the event of the timer\<close>
  "expire_poll lib now h = do {
     tm \<leftarrow> timer_begin (poll_timer h);
     (out, h) \<leftarrow> poll lib now (h\<lparr>poll_timer := tm\<rparr>);
     Some (out, h\<lparr>poll_timer := timer_end (poll_timer h)\<rparr>) }"

definition start_polling :: "hybrid_lib \<Rightarrow> real \<Rightarrow> hybrid \<Rightarrow> (hybrid_output list \<times> hybrid) option" where
  "start_polling lib now h = (if \<not> poll_started h then do {
       (out, h) \<leftarrow> poll lib now h;
       Some (out, h\<lparr>poll_started := True\<rparr>) }
     else Some ([], h))"

definition send_to_transport :: "hybrid_lib \<Rightarrow> real \<Rightarrow> r2p2_hdr \<Rightarrow> int \<Rightarrow> int \<Rightarrow> hybrid
    \<Rightarrow> (hybrid_output list \<times> hybrid) option" where
  "send_to_transport lib now hdr payload daddr h = do {
     check (daddr \<noteq> - 1);
     (out, h) \<leftarrow> start_polling lib now h;
     let single_request = (hdr_msg_type hdr = REQUEST \<and> is_single_packet_msg hdr = Some True);
     if is_req0_of_multipkt hdr then do {
       outs \<leftarrow> shorting_req0 hdr payload;
       Some (out @ outs, prep_msg_send lib hdr payload daddr h) }
     else if is_from_multipkt_req_not_req0 hdr \<or> single_request then do {
       h \<leftarrow> sending_request hdr payload (if single_request then prep_msg_send lib hdr payload daddr h else h);
       Some (out, h) }
     else if hdr_msg_type hdr = REPLY then do {
       h \<leftarrow> sending_reply hdr payload daddr h;
       Some (out, h) }
     else None }"

definition recv :: "hybrid_lib \<Rightarrow> real \<Rightarrow> hybrid_packet \<Rightarrow> hybrid \<Rightarrow> (hybrid_output list \<times> hybrid) option" where
  "recv lib now pkt h = (let hdr = hp_hdr pkt; pkt_size = hp_size pkt + R2P2_ALL_HEADERS_SIZE + hp_padding pkt in do {
     (out, h) \<leftarrow> start_polling lib now h;
     check (pkt_size \<ge> MIN_ETHERNET_FRAME);
     check (pkt_size \<le> MAX_ETHERNET_FRAME);
     h \<leftarrow> update_sender_state now pkt h;
     let h = update_receiver_state lib pkt h;
     if hdr_msg_type hdr = REPLY \<and> is_single_packet_msg hdr = Some True then do {
       check (hdr_credit hdr = 0);
       Some (out @ [Layer hdr], h) }
     else if hdr_credit hdr > 0 then do {
       check (hdr_credit_req hdr = 0);
       check (hdr_msg_type hdr = GRANT);
       h \<leftarrow> received_credit pkt h;
       Some (out, h) }
     else do {
       (outs, h) \<leftarrow> recv_message pkt h;
       Some (out @ outs, h) } })"

definition get_outbound_vq_len :: "int \<Rightarrow> hybrid \<Rightarrow> 32 word option" where
  \<comment> \<open>the length of the queue that marks packets; no receiver is ever set to be reset\<close>
  "get_outbound_vq_len daddr h = (
     if sender_algo (cfg h) = 101 then None
     else if sender_algo (cfg h) = 2 then do { n \<leftarrow> num_receivers_owing_credit h; Some (if n < 2 then 0 else 1) }
     else if sender_algo (cfg h) = 3 then do { _ \<leftarrow> find_remote daddr h; Some 1 }
     else Some (get_granted_bytes_queue_len h))"

definition actually_mark :: "hybrid_config \<Rightarrow> bool \<Rightarrow> bool option" where
  "actually_mark c current_decision = (if sender_algo c = 1 then None else Some current_decision)"

definition new_hybrid :: "hybrid_config \<Rightarrow> real \<Rightarrow> hybrid" where
  \<comment> \<open>\<open>init\<close>\<close>
  "new_hybrid c now = \<lparr>cfg = c, budget_bytes = max_budget_bytes c, inbound = new_msg_list, sender_states = Map.empty,
     outbound_inactive = new_msg_list, remotes = [], policy_states = [], grant_pacer_backlog = 0, last_grant_pacer_update = now,
     data_pacer_backlog = 0, last_data_pacer_update = now, last_grant_time = 0, poll_started = False, poll_timer = new_timer,
     credit_granted = 0, credit_replenished = 0, credit_received = 0, credit_used = 0, credit_data_request_rcvd = 0,
     credit_data_granted = 0, credit_data_requested = 0, credit_data_received = 0\<rparr>"

section \<open>Initialization\<close>

record hybrid_params =
  \<comment> \<open>what is bound to Tcl variables here and in the base class; a flag of type \<open>int\<close> is set when it is not zero\<close>
  p_budget_bytes :: int
  p_max_srpb :: int
  p_unsolicited_thresh_bytes :: int
  p_unsolicited_limit_senders :: int
  p_unsolicited_burst_when_idle :: int
  p_priority_flow :: int
  p_data_prio :: int
  p_sender_policy_ratio :: real
  p_receiver_policy :: int
  p_account_unsched :: int
  p_ecn_thresh_pkts :: "32 word"
  p_pace_grants :: int
  p_additive_incr_mul :: int
  p_sender_policy :: int
  p_ecn_min_mul_nw :: real
  p_state_polling_ival_s :: real
  p_sender_algo :: int
  p_eta :: real
  p_wai :: "32 word"
  p_max_stage :: "32 word"
  p_ecn_min_mul :: real
  p_ecn_capable :: int
  p_ce_new_weight :: real
  p_link_speed_gbps :: real
  p_poll_interval :: real

definition params_set :: "hybrid_params \<Rightarrow> bool" where
  \<comment> \<open>the assertions after the bindings: no parameter has kept the value that tells that it was not given\<close>
  "params_set p \<longleftrightarrow> p_additive_incr_mul p \<noteq> - 1 \<and> p_sender_policy p \<noteq> - 1 \<and> p_ecn_thresh_pkts p \<noteq> 0 \<and> p_max_srpb p \<noteq> 0
     \<and> p_unsolicited_thresh_bytes p \<noteq> - 2 \<and> p_unsolicited_limit_senders p \<noteq> - 1 \<and> p_unsolicited_burst_when_idle p \<noteq> - 1
     \<and> p_priority_flow p \<noteq> - 1 \<and> p_data_prio p \<noteq> - 1 \<and> p_sender_policy_ratio p \<noteq> - 1 \<and> p_receiver_policy p \<noteq> - 1
     \<and> p_account_unsched p \<noteq> - 1 \<and> (p_pace_grants p = 1 \<or> p_pace_grants p = 0) \<and> p_ecn_min_mul_nw p > 0
     \<and> p_state_polling_ival_s p > 0 \<and> p_sender_algo p > - 1 \<and> p_eta p \<noteq> - 1 \<and> p_wai p \<noteq> word_of_int MAXINT
     \<and> p_max_stage p \<noteq> word_of_int MAXINT"

definition policy_weights :: "hybrid_params \<Rightarrow> real \<times> real" where
  \<comment> \<open>of fair sharing and of the receiver that has priority\<close>
  "policy_weights p = (if p_sender_policy p > 0 then (dsub 1 (p_sender_policy_ratio p), p_sender_policy_ratio p) else (1, 0))"

definition weights_ok :: "real \<times> real \<Rightarrow> bool" where
  "weights_ok = (\<lambda>(fs, srpt). dsub 1 (dadd fs srpt) < dbl (1 / 1000000))"

definition least_window :: "real \<Rightarrow> int \<Rightarrow> int option" where
  "least_window mul w = double_to_int (dmul mul (of_int w))"

definition pipe_rtt :: "hybrid_params \<Rightarrow> real option" where
  \<comment> \<open>the time to send the budget of a sender\<close>
  "pipe_rtt p = fdiv (ddiv (ddiv (ddiv (dmul (of_int (p_max_srpb p)) 8) 1000) 1000) 1000) (p_link_speed_gbps p)"

definition drained_per_loop :: "hybrid_params \<Rightarrow> int option" where
  "drained_per_loop p = double_to_int (ddiv (dmul (p_poll_interval p) (dmul (dmul (dmul (p_link_speed_gbps p) 1000) 1000) 1000)) 8)"

definition init_config :: "hybrid_params \<Rightarrow> hybrid_config option" where
  "init_config p = do {
     check (params_set p);
     check (weights_ok (policy_weights p));
     host_min \<leftarrow> least_window (p_ecn_min_mul p) (p_max_srpb p);
     nw_min \<leftarrow> least_window (p_ecn_min_mul_nw p) (p_max_srpb p);
     rtt \<leftarrow> pipe_rtt p;
     drained \<leftarrow> drained_per_loop p;
     Some \<lparr>max_srpb = p_max_srpb p, nw_min_srpb = nw_min, host_min_srpb = host_min, max_budget_bytes = p_budget_bytes p,
       unsolicited_thresh_bytes = p_unsolicited_thresh_bytes p, account_unsched = (p_account_unsched p \<noteq> 0),
       additive_incr_mul = p_additive_incr_mul p, ecn_capable = (p_ecn_capable p \<noteq> 0), ce_new_weight = p_ce_new_weight p,
       sender_algo = p_sender_algo p, sender_policy = p_sender_policy p, receiver_policy = p_receiver_policy p,
       pace_grants = (p_pace_grants p \<noteq> 0), use_priority_flow = (p_priority_flow p \<noteq> 0), data_prio = (p_data_prio p \<noteq> 0),
       link_speed_gbps = p_link_speed_gbps p, grant_pacer_speed_gbps = p_link_speed_gbps p,
       data_pacer_speed_gbps = p_link_speed_gbps p, poll_interval = p_poll_interval p, grant_bytes_drained_per_loop = drained,
       data_bytes_drained_per_loop = drained, rtt_s = rtt, eta = p_eta p, wai = p_wai p, max_stage = p_max_stage p,
       fs_weight = fst (policy_weights p), srpt_weight = snd (policy_weights p), ecn_thresh_pkts = p_ecn_thresh_pkts p\<rparr> }"

definition hybrid_init :: "hybrid_params \<Rightarrow> real \<Rightarrow> hybrid option" where
  "hybrid_init p now = do { c \<leftarrow> init_config p; Some (new_hybrid c now) }"

end
