(* ===== verification/Hybrid_Laws.thy ===== *)
theory Hybrid_Laws
  imports Hybrid_Transport
begin

text \<open>
  The events of a host of the hybrid transport, as a step relation, and what follows for all of them from
  laws about its operations: the locale \<open>host_relation\<close> is the contract of a relation between the states
  before and after an operation. It is interpreted by the accounts of a receiver, its windows, its grants, the
  credit of a sender and the policy states of its receivers.
\<close>

section \<open>Events\<close>

inductive hybrid_step :: "hybrid_lib \<Rightarrow> hybrid \<Rightarrow> hybrid_output list \<Rightarrow> hybrid \<Rightarrow> bool" for lib where
  step_poll: "expire_poll lib now h = Some (out, h') \<Longrightarrow> hybrid_step lib h out h'"
| step_recv: "recv lib now pkt h = Some (out, h') \<Longrightarrow> hybrid_step lib h out h'"
| step_send: "send_to_transport lib now hdr payload daddr h = Some (out, h') \<Longrightarrow> hybrid_step lib h out h'"

inductive_cases hybrid_stepE [elim]: "hybrid_step lib h out h'"

inductive hybrid_reachable :: "hybrid_lib \<Rightarrow> hybrid_config \<Rightarrow> hybrid \<Rightarrow> bool" for lib c where
  reach_init: "hybrid_reachable lib c (new_hybrid c now)"
| reach_step: "hybrid_reachable lib c h \<Longrightarrow> hybrid_step lib h out h' \<Longrightarrow> hybrid_reachable lib c h'"

section \<open>The contract of a relation\<close>

locale grant_relation =
  fixes R :: "hybrid \<Rightarrow> hybrid_output list \<Rightarrow> hybrid \<Rightarrow> bool"
  assumes nil: "R h [] h"
    and app: "R h out h' \<Longrightarrow> R h' out' h'' \<Longrightarrow> R h (out @ out') h''"
    and quiet_grants: "R h [] (h\<lparr>grant_pacer_backlog := backlog, last_grant_pacer_update := t\<rparr>)"
    and quiet_time: "R h [] (h\<lparr>last_grant_time := t\<rparr>)"
    and order: "mset (msgs l) = mset (msgs (inbound h)) \<Longrightarrow> R h [] (h\<lparr>inbound := l\<rparr>)"
    and grant: "send_credit_policy_common now pos h = Some (r, out, h') \<Longrightarrow> pos < length (msgs (inbound h)) \<Longrightarrow> R h out h'"
begin

lemma app_nil: "R h [] h' \<Longrightarrow> R h' out h'' \<Longrightarrow> R h out h''"
  using app [of h "[]" h' out h''] by simp

lemma app_nil2: "R h out h' \<Longrightarrow> R h' [] h'' \<Longrightarrow> R h out h''"
  using app [of h out h' "[]" h''] by simp

lemma grant_one:
  "grant_one now pos r h = Some (r', out, h') \<Longrightarrow> pos < length (msgs (inbound h)) \<Longrightarrow> R h out h'"
  by (auto simp: grant_one_def bind_eq_Some_conv nil intro: grant split: if_splits)

lemma rotate: "list_next (inbound h) = Some (pos, l) \<Longrightarrow> R h [] (h\<lparr>inbound := l\<rparr>) \<and> pos < length (msgs l)"
  by (auto simp: list_next_def list_peek_next_def bind_eq_Some_conv intro!: order split: if_splits)

lemma ts_msg_loop: "ts_msg_loop n now i r h = Some (out, h') \<Longrightarrow> R h out h'"
proof (induction n now i r h arbitrary: out h' rule: ts_msg_loop.induct)
  case (2 n now i r h)
  show ?case
  proof (cases "\<not> i < length (msgs (inbound h)) \<or> grant_pacer_full h")
    case True
    then show ?thesis using 2(2) nil by auto
  next
    case go: False
    then obtain pos r1 o1 h1 where one: "list_peek_next (inbound h) = Some pos" "grant_one now pos r h = Some (r1, o1, h1)"
      using 2(2) by (auto simp: bind_eq_Some_conv)
    have "pos < length (msgs (inbound h))" using one(1) by (auto simp: list_peek_next_def split: if_splits)
    note first = grant_one [OF one(2) this]
    show ?thesis
    proof (cases "r1 = 3")
      case True
      then show ?thesis using 2(2) go one first by auto
    next
      case False
      with 2(2) go one obtain pos' l o2 where nx: "list_next (inbound h1) = Some (pos', l)"
        "ts_msg_loop n now (i + 1) r1 (h1\<lparr>inbound := l\<rparr>) = Some (o2, h')" "out = o1 @ o2"
        by (auto simp: bind_eq_Some_conv)
      have "R (h1\<lparr>inbound := l\<rparr>) o2 h'"
        using 2(1) [OF go one(1) one(2) refl refl False nx(1) refl nx(2)] .
      then show ?thesis unfolding nx(3) using app [OF first] app_nil rotate [OF nx(1)] by blast
    qed
  qed
qed (auto simp: nil split: if_splits)

lemma in_order_loop: "in_order_loop n now i r h = Some (out, h') \<Longrightarrow> R h out h'"
proof (induction n now i r h arbitrary: out h' rule: in_order_loop.induct)
  case (2 n now i r h)
  show ?case
  proof (cases "\<not> i < length (msgs (inbound h)) \<or> grant_pacer_full h")
    case True
    then show ?thesis using 2(2) nil by (auto simp: bind_eq_Some_conv split: if_splits)
  next
    case go: False
    then obtain pos l r1 o1 h1 o2 where one: "list_next (inbound h) = Some (pos, l)"
      "grant_one now pos r (h\<lparr>inbound := l\<rparr>) = Some (r1, o1, h1)" "in_order_loop n now (i + 1) r1 h1 = Some (o2, h')"
      "out = o1 @ o2" "check (pace_grants (cfg h)) = Some ()"
      using 2(2) by (auto simp: bind_eq_Some_conv)
    have go': "\<not> \<not> i < length (msgs (inbound h))" "\<not> grant_pacer_full h" using go by auto
    have "R h1 o2 h'" using 2(1) [OF go'(1) one(5) go'(2) one(1) refl one(2) refl refl one(3)] .
    moreover have "R (h\<lparr>inbound := l\<rparr>) o1 h1" using grant_one [OF one(2)] rotate [OF one(1)] by simp
    ultimately show ?thesis unfolding one(4) using app app_nil rotate [OF one(1)] by blast
  qed
qed (auto simp: nil split: if_splits)

lemma send_grants_sorted:
  assumes "send_grants_sorted srt now h = Some (out, h')" "\<And>ms. mset (srt ms) = mset ms"
  shows "R h out h'"
proof (cases "grant_pacer_full h")
  case True
  then show ?thesis using assms(1) nil by (auto simp: send_grants_sorted_def)
next
  case False
  then have "R (h\<lparr>inbound := list_reset (list_sort srt (inbound h))\<rparr>) out h'"
    using assms(1) by (auto simp: send_grants_sorted_def intro: in_order_loop)
  moreover have "R h [] (h\<lparr>inbound := list_reset (list_sort srt (inbound h))\<rparr>)"
    by (rule order) (simp add: list_reset_def list_sort_def assms(2))
  ultimately show ?thesis by (blast intro: app_nil)
qed

lemma send_grants:
  assumes "send_grants lib now h = Some (out, h')" and lib: "lib_ok lib"
  shows "R h out h'"
proof (cases "dsub now (last_grant_time h) < dbl (48 / 100000000)")
  case True
  then show ?thesis using assms nil by (auto simp: send_grants_def)
next
  case False
  obtain h1 where h1: "update_grant_backlog now (h\<lparr>last_grant_time := now\<rparr>) = Some h1"
    "send_grants_ts_msg now h1 = Some (out, h') \<or> send_grants_srpt_msg lib now h1 = Some (out, h')
      \<or> send_grants_equal_bif_msg lib now h1 = Some (out, h')"
    using assms False by (auto simp: send_grants_def bind_eq_Some_conv split: if_splits)
  have "R (h\<lparr>last_grant_time := now\<rparr>) [] h1"
    using h1(1) by (auto simp: update_grant_backlog_def bind_eq_Some_conv intro: quiet_grants)
  then have "R h [] h1" by (rule app_nil [OF quiet_time])
  moreover have "R h1 out h'" using h1(2) lib
    by (auto simp: send_grants_ts_msg_def send_grants_srpt_msg_def send_grants_equal_bif_msg_def lib_ok_def
        intro: ts_msg_loop send_grants_sorted)
  ultimately show ?thesis by (rule app_nil)
qed

end

locale host_relation = grant_relation +
  assumes quiet_data: "R h [] (h\<lparr>data_pacer_backlog := backlog, last_data_pacer_update := t\<rparr>)"
    and quiet_timer: "R h [] (h\<lparr>poll_timer := tm\<rparr>)"
    and quiet_started: "R h [] (h\<lparr>poll_started := b\<rparr>)"
    and sender: "update_sender_state now pkt h = Some h' \<Longrightarrow> R h [] h'"
    and receiver: "lib_ok lib \<Longrightarrow> R h [] (find_or_create lib addr h)"
    and message: "recv_message pkt h = Some (out, h') \<Longrightarrow> R h out h'"
    and credit: "received_credit pkt h = Some h' \<Longrightarrow> R h [] h'"
    and start: "start_messages h = Some (out, h') \<Longrightarrow> R h out h'"
    and chosen: "send_chosen lib h = Some (out, h') \<Longrightarrow> lib_ok lib \<Longrightarrow> R h out h'"
    and layer: "R h [Layer hdr] h"
    and inactive: "R h [] (h\<lparr>outbound_inactive := ol\<rparr>)"
begin

lemma hybrid_send_data:
  assumes "hybrid_send_data lib now h = Some (out, h')" and lib: "lib_ok lib"
  shows "R h out h'"
proof -
  obtain h1 where h1: "update_data_backlog now h = Some h1" using assms by (auto simp: hybrid_send_data_def bind_eq_Some_conv)
  then have "R h [] h1" by (auto simp: update_data_backlog_def bind_eq_Some_conv intro: quiet_data)
  moreover have "R h1 out h'"
  proof (cases "remotes h1 = []")
    case True
    then show ?thesis using assms h1 nil by (auto simp: hybrid_send_data_def)
  next
    case False
    then obtain o1 h2 where start1: "start_messages h1 = Some (o1, h2)"
      "data_pacer_full h2 \<and> out = o1 \<and> h' = h2 \<or> (\<exists>o2. send_chosen lib h2 = Some (o2, h') \<and> out = o1 @ o2)"
      using assms h1 by (auto simp: hybrid_send_data_def bind_eq_Some_conv split: if_splits)
    then show ?thesis using start [OF start1(1)] app chosen lib by blast
  qed
  ultimately show ?thesis by (rule app_nil)
qed

lemma poll:
  assumes "poll lib now h = Some (out, h')" and lib: "lib_ok lib"
  shows "R h out h'"
proof -
  obtain o1 h1 o2 h2 where p: "send_grants lib now h = Some (o1, h1)" "hybrid_send_data lib now h1 = Some (o2, h2)" "out = o1 @ o2"
    "h' = h2\<lparr>poll_timer := timer_resched now (poll_interval (cfg h2)) (poll_timer h2)\<rparr>"
    using assms by (auto simp: poll_def bind_eq_Some_conv)
  show ?thesis unfolding p(3,4) using app [OF send_grants [OF p(1) lib] hybrid_send_data [OF p(2) lib]] quiet_timer by (rule app_nil2)
qed

lemma expire_poll:
  assumes "expire_poll lib now h = Some (out, h')" and lib: "lib_ok lib"
  shows "R h out h'"
proof -
  obtain tm h1 where p: "poll lib now (h\<lparr>poll_timer := tm\<rparr>) = Some (out, h1)" "h' = h1\<lparr>poll_timer := timer_end (poll_timer h1)\<rparr>"
    using assms by (auto simp: expire_poll_def bind_eq_Some_conv)
  show ?thesis unfolding p(2) using app_nil [OF quiet_timer poll [OF p(1) lib]] quiet_timer by (rule app_nil2)
qed

lemma start_polling:
  assumes "start_polling lib now h = Some (out, h')" and lib: "lib_ok lib"
  shows "R h out h'"
proof (cases "poll_started h")
  case True
  then show ?thesis using assms nil by (auto simp: start_polling_def)
next
  case False
  then obtain h1 where p: "poll lib now h = Some (out, h1)" "h' = h1\<lparr>poll_started := True\<rparr>"
    using assms by (auto simp: start_polling_def bind_eq_Some_conv)
  show ?thesis unfolding p(2) using poll [OF p(1) lib] quiet_started by (rule app_nil2)
qed

lemma send_to_transport:
  assumes "send_to_transport lib now hdr payload daddr h = Some (out, h')" and lib: "lib_ok lib"
  shows "R h out h'"
proof -
  have prep: "R g [] (prep_msg_send lib hdr payload daddr g)" for g
    unfolding prep_msg_send_def Let_def by (rule app_nil [OF receiver [OF lib] inactive])
  have req: "sending_request hdr payload g = Some g' \<Longrightarrow> R g [] g'" for g g'
    by (auto simp: sending_request_def bind_eq_Some_conv Let_def intro: inactive)
  have rep: "sending_reply hdr payload daddr g = Some g' \<Longrightarrow> R g [] g'" for g g'
    by (auto simp: sending_reply_def bind_eq_Some_conv Let_def intro: inactive)
  have short: "shorting_req0 hdr payload = Some outs \<Longrightarrow> R g outs g" for g outs
    by (auto simp: shorting_req0_def bind_eq_Some_conv intro: layer)
  obtain o1 h1 where s: "start_polling lib now h = Some (o1, h1)"
    using assms by (auto simp: send_to_transport_def bind_eq_Some_conv)
  have "R h1 [] h' \<and> out = o1 \<or> (\<exists>outs. R h1 outs h' \<and> out = o1 @ outs)"
  proof (cases "is_req0_of_multipkt hdr")
    case True
    then obtain outs where "shorting_req0 hdr payload = Some outs" "out = o1 @ outs" "h' = prep_msg_send lib hdr payload daddr h1"
      using assms s by (auto simp: send_to_transport_def bind_eq_Some_conv Let_def)
    then show ?thesis using app_nil2 [OF short prep] by blast
  next
    case multi: False
    let ?single = "hdr_msg_type hdr = REQUEST \<and> is_single_packet_msg hdr = Some True"
    show ?thesis
    proof (cases "is_from_multipkt_req_not_req0 hdr \<or> ?single")
      case True
      then have "sending_request hdr payload (if ?single then prep_msg_send lib hdr payload daddr h1 else h1) = Some h'" "out = o1"
        using assms s multi by (auto simp: send_to_transport_def bind_eq_Some_conv Let_def)
      then show ?thesis using req app_nil [OF prep req] by (metis (full_types))
    next
      case False
      then have "sending_reply hdr payload daddr h1 = Some h' \<and> out = o1"
        using assms s multi by (auto simp: send_to_transport_def bind_eq_Some_conv Let_def split: if_splits)
      then show ?thesis using rep by blast
    qed
  qed
  then show ?thesis using start_polling [OF s lib] app app_nil2 by blast
qed

lemma recv:
  assumes "recv lib now pkt h = Some (out, h')" and lib: "lib_ok lib"
  shows "R h out h'"
proof -
  let ?hdr = "hp_hdr pkt"
  obtain o1 h1 h2 where s: "start_polling lib now h = Some (o1, h1)" "update_sender_state now pkt h1 = Some h2"
    using assms by (auto simp: recv_def bind_eq_Some_conv Let_def)
  let ?h = "find_or_create lib (hp_src pkt) h2"
  have to_h: "R h o1 ?h" using app_nil2 [OF app_nil2 [OF start_polling [OF s(1) lib] sender [OF s(2)]] receiver [OF lib]] .
  show ?thesis
  proof (cases "hdr_msg_type ?hdr = REPLY \<and> is_single_packet_msg ?hdr = Some True")
    case True
    then have "out = o1 @ [Layer ?hdr]" "h' = ?h"
      using assms s by (auto simp: recv_def bind_eq_Some_conv Let_def update_receiver_state_def)
    then show ?thesis using app [OF to_h layer] by simp
  next
    case multi: False
    show ?thesis
    proof (cases "hdr_credit ?hdr > 0")
      case True
      then have "received_credit pkt ?h = Some h'" "out = o1"
        using assms s multi by (auto simp: recv_def bind_eq_Some_conv Let_def update_receiver_state_def)
      then show ?thesis using app_nil2 [OF to_h credit] by blast
    next
      case False
      then obtain outs where "recv_message pkt ?h = Some (outs, h')" "out = o1 @ outs"
        using assms s multi by (auto simp: recv_def bind_eq_Some_conv Let_def update_receiver_state_def split: if_splits)
      then show ?thesis using app [OF to_h message] by blast
    qed
  qed
qed

lemma step: "hybrid_step lib h out h' \<Longrightarrow> lib_ok lib \<Longrightarrow> R h out h'"
  by (blast intro: expire_poll recv send_to_transport)

end

section \<open>The loops over the inactive messages\<close>

lemma self_credit_loop_keeps:
  assumes "self_credit_loop n h = Some h'" "P h"
    and step: "\<And>g pos l g'. self_credit pos (g\<lparr>outbound_inactive := l\<rparr>) = Some g' \<Longrightarrow> P g \<Longrightarrow> P g'"
  shows "P h'"
  using assms(1,2)
proof (induction n h rule: self_credit_loop.induct)
  case (2 n h)
  then obtain pos l h1 where "self_credit pos (h\<lparr>outbound_inactive := l\<rparr>) = Some h1" "P h1 \<Longrightarrow> P h'"
    by (fastforce simp: bind_eq_Some_conv)
  then show ?case using step 2(3) by blast
qed simp

lemma activate_loop_keeps:
  assumes "activate_loop n h = Some (out, h')" "P h"
    and step: "\<And>g pos l o' g'. activate_msg pos (g\<lparr>outbound_inactive := l\<rparr>) = Some (o', g') \<Longrightarrow> P g \<Longrightarrow> P g'"
  shows "P h'"
  using assms(1,2)
proof (induction n h arbitrary: out rule: activate_loop.induct)
  case (2 n h)
  then obtain pos l o1 h1 where "activate_msg pos (h\<lparr>outbound_inactive := l\<rparr>) = Some (o1, h1)" "P h1 \<Longrightarrow> P h'"
    by (fastforce simp: bind_eq_Some_conv)
  then show ?case using step 2(3) by blast
qed simp

lemma start_messages_keeps:
  \<comment> \<open>what both loops keep holds after them\<close>
  assumes "start_messages h = Some (out, h')" "P h"
    and self: "\<And>g pos l g'. self_credit pos (g\<lparr>outbound_inactive := l\<rparr>) = Some g' \<Longrightarrow> P g \<Longrightarrow> P g'"
    and activate: "\<And>g pos l o' g'. activate_msg pos (g\<lparr>outbound_inactive := l\<rparr>) = Some (o', g') \<Longrightarrow> P g \<Longrightarrow> P g'"
  shows "P h'"
proof -
  obtain h1 where "self_credit_loop (length (msgs (outbound_inactive h))) h = Some h1"
    "activate_loop (length (msgs (outbound_inactive h1))) h1 = Some (out, h')"
    using assms(1) by (auto simp: start_messages_def bind_eq_Some_conv)
  then show ?thesis using self_credit_loop_keeps [of _ h h1 P] activate_loop_keeps [of _ h1 out h' P] assms(2) self activate by metis
qed

section \<open>What the two sides leave alone\<close>

definition receiver_part :: "hybrid \<Rightarrow> hybrid_config \<times> int \<times> (int \<rightharpoonup> sender_state) \<times> u64 \<times> u64 \<times> in_msg msg_list" where
  "receiver_part h = (cfg h, budget_bytes h, sender_states h, credit_granted h, credit_replenished h, inbound h)"

definition sender_part :: "hybrid \<Rightarrow> hybrid_config \<times> (int \<times> receiver_state) list \<times> int list \<times> u64 \<times> u64" where
  "sender_part h = (cfg h, remotes h, map fst (policy_states h), credit_received h, credit_used h)"

lemma find_update: "find_remote b (update_remote a f h) = (if b = a then map_option f (find_remote a h) else find_remote b h)"
proof -
  have "map_of (map (\<lambda>(a', r). (a', if a' = a then f r else r)) rs) b = (if b = a then map_option f (map_of rs a) else map_of rs b)" for rs
    by (induction rs) auto
  then show ?thesis by (simp add: find_remote_def update_remote_def)
qed

lemma receiver_part_remote [simp]: "receiver_part (update_remote addr f h) = receiver_part h"
  by (simp add: receiver_part_def update_remote_def)

lemma receiver_part_create [simp]: "receiver_part (find_or_create lib addr h) = receiver_part h"
  by (simp add: receiver_part_def find_or_create_def split: option.splits)

lemma receiver_part_updates [simp]:
  "receiver_part (h\<lparr>outbound_inactive := ol\<rparr>) = receiver_part h"
  "receiver_part (h\<lparr>policy_states := pss\<rparr>) = receiver_part h"
  "receiver_part (h\<lparr>credit_received := w\<rparr>) = receiver_part h"
  "receiver_part (h\<lparr>credit_used := w\<rparr>) = receiver_part h"
  "receiver_part (h\<lparr>credit_data_received := w\<rparr>) = receiver_part h"
  "receiver_part (h\<lparr>credit_data_requested := w\<rparr>) = receiver_part h"
  "receiver_part (h\<lparr>data_pacer_backlog := n\<rparr>) = receiver_part h"
  by (simp_all add: receiver_part_def)

lemma receiver_part_add_outbound: "add_outbound_msg m h = Some h' \<Longrightarrow> receiver_part h' = receiver_part h"
  by (auto simp: add_outbound_msg_def bind_eq_Some_conv)

lemma receiver_part_credit: "received_credit pkt h = Some h' \<Longrightarrow> receiver_part h' = receiver_part h"
  by (auto simp: received_credit_def credit_activates_def bind_eq_Some_conv Let_def find_outbound_msg_def
      dest!: receiver_part_add_outbound split: option.splits)

lemma receiver_part_self_credit: "self_credit pos h = Some h' \<Longrightarrow> receiver_part h' = receiver_part h"
  by (auto simp: self_credit_def bind_eq_Some_conv Let_def case_prod_beta split: if_splits)

lemma receiver_part_request: "request_credit m h = Some (out, h') \<Longrightarrow> receiver_part h' = receiver_part h"
  by (auto simp: request_credit_def bind_eq_Some_conv Let_def)

lemma receiver_part_activate: "activate_msg pos h = Some (out, h') \<Longrightarrow> receiver_part h' = receiver_part h"
  by (auto simp: activate_msg_def bind_eq_Some_conv Let_def dest!: receiver_part_request receiver_part_add_outbound
      split: if_splits)

lemma receiver_part_start: "start_messages h = Some (out, h') \<Longrightarrow> receiver_part h' = receiver_part h"
  by (erule start_messages_keeps) (auto dest: receiver_part_self_credit receiver_part_activate)

lemma receiver_part_scan: "scan_receivers lib policy pss sc h = Some (pss', sc', h') \<Longrightarrow> receiver_part h' = receiver_part h"
  by (induction lib policy pss sc h arbitrary: pss' sc' rule: scan_receivers.induct)
    (auto simp: bind_eq_Some_conv)

lemma receiver_part_policy: "update_policy_state lib h = Some h' \<Longrightarrow> receiver_part h' = receiver_part h"
  by (auto simp: update_policy_state_def bind_eq_Some_conv Let_def dest!: receiver_part_scan split: if_splits)

lemma receiver_part_packet: "send_packet addr h = Some (out, h') \<Longrightarrow> receiver_part h' = receiver_part h"
  unfolding send_packet_def Let_def
  by (simp only: bind_eq_Some_conv option.inject Pair_inject split_paired_Ex prod.case) auto

lemma receiver_part_chosen: "send_chosen lib h = Some (out, h') \<Longrightarrow> receiver_part h' = receiver_part h"
  by (auto simp: send_chosen_def bind_eq_Some_conv Let_def dest!: receiver_part_policy receiver_part_packet split: option.splits)

lemmas receiver_part_frames = receiver_part_credit receiver_part_start receiver_part_chosen

lemma sender_part_updates [simp]:
  "sender_part (h\<lparr>inbound := l\<rparr>) = sender_part h"
  "sender_part (h\<lparr>grant_pacer_backlog := n\<rparr>) = sender_part h"
  "sender_part (h\<lparr>data_pacer_backlog := n\<rparr>) = sender_part h"
  "sender_part (h\<lparr>credit_granted := w\<rparr>) = sender_part h"
  "sender_part (h\<lparr>credit_replenished := w\<rparr>) = sender_part h"
  "sender_part (h\<lparr>credit_data_granted := w\<rparr>) = sender_part h"
  "sender_part (h\<lparr>credit_data_request_rcvd := w\<rparr>) = sender_part h"
  "sender_part (h\<lparr>sender_states := st\<rparr>) = sender_part h"
  by (simp_all add: sender_part_def)

lemma sender_part_srpb: "with_srpb addr n h = Some h' \<Longrightarrow> sender_part h' = sender_part h"
  by (auto simp: with_srpb_def bind_eq_Some_conv sender_part_def)

lemma sender_part_forward: "forward_grant now pos credit padding h = Some (out, h') \<Longrightarrow> sender_part h' = sender_part h"
  by (auto simp: forward_grant_def bind_eq_Some_conv Let_def)

lemma sender_part_grant: "send_credit_policy_common now pos h = Some (r, out, h') \<Longrightarrow> sender_part h' = sender_part h"
  by (auto simp: send_credit_policy_common_def give_credit_def bind_eq_Some_conv Let_def dest!: sender_part_srpb
      sender_part_forward split: if_splits)

lemma sender_part_sender: "update_sender_state now pkt h = Some h' \<Longrightarrow> sender_part h' = sender_part h"
  by (auto simp: update_sender_state_def bind_eq_Some_conv)

lemma sender_part_find: "find_or_add pkt h = Some (pos, h') \<Longrightarrow> sender_part h' = sender_part h"
  by (auto simp: find_or_add_def bind_eq_Some_conv Let_def split: option.splits)

lemma sender_part_info: "message_info hdr pos h = Some h' \<Longrightarrow> sender_part h' = sender_part h"
  by (auto simp: message_info_def unsolicited_credit_def bind_eq_Some_conv Let_def dest!: sender_part_srpb split: if_splits)

lemma sender_part_data: "received_data pkt pos h = Some h' \<Longrightarrow> sender_part h' = sender_part h"
  by (auto simp: received_data_def bind_eq_Some_conv Let_def dest!: sender_part_srpb split: if_splits)

lemma recv_message_cases:
  \<comment> \<open>a packet of a message: a request for credit, or data\<close>
  assumes "recv_message pkt h = Some (out, h')"
  obtains pos h1 where "find_or_add pkt h = Some (pos, h1)" "out = []" "message_info (hp_hdr pkt) pos h1 = Some h'"
  | pos h1 h2 where "find_or_add pkt h = Some (pos, h1)" "h2 = h1 \<or> message_info (hp_hdr pkt) pos h1 = Some h2"
      "received_data pkt pos h2 = Some h'" "out = [Layer (hp_hdr pkt)]"
proof -
  obtain pos h1 where find: "find_or_add pkt h = Some (pos, h1)"
    using assms by (auto simp: recv_message_def bind_eq_Some_conv Let_def)
  let ?asks = "hdr_credit_req (hp_hdr pkt) > 0 \<and> \<not> received_msg_info (msgs (inbound h1) ! pos)"
  obtain h2 where info: "(if ?asks then message_info (hp_hdr pkt) pos h1 else Some h1) = Some h2"
    using assms find by (auto simp: recv_message_def bind_eq_Some_conv Let_def split: if_splits)
  show ?thesis
  proof (cases "?asks \<and> hdr_msg_type (hp_hdr pkt) = GRANT_REQ")
    case True
    then have "out = []" "h' = h2" using assms find info by (auto simp: recv_message_def bind_eq_Some_conv Let_def)
    then show ?thesis using that(1) [OF find] info True by simp
  next
    case False
    then have data: "received_data pkt pos h2 = Some h'" "out = [Layer (hp_hdr pkt)]"
      using assms find info by (auto simp: recv_message_def bind_eq_Some_conv Let_def split: if_splits)
    then show ?thesis using that(2) [OF find _ data] info by (auto split: if_splits)
  qed
qed

lemma sender_part_message: "recv_message pkt h = Some (out, h') \<Longrightarrow> sender_part h' = sender_part h"
  by (erule recv_message_cases) (auto dest!: sender_part_find sender_part_info sender_part_data)

lemmas sender_part_frames = sender_part_grant sender_part_sender sender_part_message

section \<open>Relations of one side\<close>

locale receiver_relation =
  \<comment> \<open>about the budgets, the windows and the counters of the credit given\<close>
  fixes R :: "hybrid \<Rightarrow> hybrid_output list \<Rightarrow> hybrid \<Rightarrow> bool"
  assumes app: "R h out h' \<Longrightarrow> R h' out' h'' \<Longrightarrow> R h (out @ out') h''"
    and frame: "receiver_part h' = receiver_part h \<Longrightarrow> R h out h'"
    and order: "mset (msgs l) = mset (msgs (inbound h)) \<Longrightarrow> R h [] (h\<lparr>inbound := l\<rparr>)"
    and grant: "send_credit_policy_common now pos h = Some (r, out, h') \<Longrightarrow> pos < length (msgs (inbound h)) \<Longrightarrow> R h out h'"
    and sender: "update_sender_state now pkt h = Some h' \<Longrightarrow> R h [] h'"
    and message: "recv_message pkt h = Some (out, h') \<Longrightarrow> R h out h'"

sublocale receiver_relation \<subseteq> host: host_relation R
  by unfold_locales (rule app order grant sender message, assumption+
    | rule frame, (simp add: receiver_part_frames; fail)?, (simp add: receiver_part_def; fail)?)+

locale sender_relation =
  \<comment> \<open>about the credit a sender has\<close>
  fixes R :: "hybrid \<Rightarrow> hybrid_output list \<Rightarrow> hybrid \<Rightarrow> bool"
  assumes app: "R h out h' \<Longrightarrow> R h' out' h'' \<Longrightarrow> R h (out @ out') h''"
    and frame: "sender_part h' = sender_part h \<Longrightarrow> R h out h'"
    and receiver: "lib_ok lib \<Longrightarrow> R h [] (find_or_create lib addr h)"
    and credit: "received_credit pkt h = Some h' \<Longrightarrow> R h [] h'"
    and start: "start_messages h = Some (out, h') \<Longrightarrow> R h out h'"
    and chosen: "send_chosen lib h = Some (out, h') \<Longrightarrow> lib_ok lib \<Longrightarrow> R h out h'"

sublocale sender_relation \<subseteq> host: host_relation R
  by unfold_locales (rule app receiver credit start chosen, assumption+
    | rule receiver frame, (simp add: sender_part_frames; fail)?, (simp add: sender_part_def; fail)?)+

end
