(* ===== verification/Hybrid_Samples.thy ===== *)
theory Hybrid_Samples
  imports Hybrid_Laws
begin

text \<open>
  A concrete configuration, a library whose sorts are insertion sorts, and a short run of a host of the hybrid
  transport: the first packet of a message of two packets, whose sender has given itself the credit for both.
\<close>

definition sample_lib :: hybrid_lib where
  "sample_lib = \<lparr>sort_by_remaining = sort_key (\<lambda>m. data_bytes_expected m - data_bytes_received m),
     sort_by_bif = (\<lambda>st. sort_key (\<lambda>m. - srpb_of st m)), sort_by_unsent = sort_key unsent_bytes, map_order = (\<lambda>ps. ps)\<rparr>"

lemma sort_key_wrt: "sorted_wrt (\<lambda>a b. f a \<le> f b) (sort_key f xs)"
  using sorted_sort_key [of f xs] by (simp add: sorted_map)

lemma sample_lib_ok [simp]: "lib_ok sample_lib"
proof -
  have "sorted_wrt (\<lambda>a b. srpb_of st b \<le> srpb_of st a) (sort_key (\<lambda>m. - srpb_of st m) ms)" for st ms
    using sort_key_wrt [of "\<lambda>m. - srpb_of st m" ms] by simp
  then show ?thesis by (simp add: lib_ok_def sample_lib_def sort_key_wrt)
qed

definition sample_config :: hybrid_config where
  "sample_config = \<lparr>max_srpb = 15380, nw_min_srpb = 1538, host_min_srpb = 1538, max_budget_bytes = 30760,
     unsolicited_thresh_bytes = - 1, account_unsched = True, additive_incr_mul = 1, ecn_capable = False, ce_new_weight = 1 / 2,
     sender_algo = 0, sender_policy = 0, receiver_policy = 3, pace_grants = True, use_priority_flow = False, data_prio = False,
     link_speed_gbps = 100, grant_pacer_speed_gbps = 100, data_pacer_speed_gbps = 100, poll_interval = 1,
     grant_bytes_drained_per_loop = 375, data_bytes_drained_per_loop = 375, rtt_s = 1, eta = 1, wai = 0, max_stage = 0,
     fs_weight = 1, srpt_weight = 0, ecn_thresh_pkts = 1\<rparr>"

definition sample_packet :: hybrid_packet where
  "sample_packet = \<lparr>hp_hdr = new_hdr\<lparr>hdr_first := True, hdr_pkt_id := 1, hdr_credit_req := 2916, hdr_unsol_credit := 3076,
     hdr_unsol_credit_data := 2916\<rparr>, hp_src = 7, hp_size = 1458, hp_padding = 0, hp_ect = False, hp_ce = False\<rparr>"

lemma sample_poll: "start_polling sample_lib 0 (new_hybrid sample_config 0)
   = Some ([], (new_hybrid sample_config 0)\<lparr>poll_timer := timer_resched 0 1 new_timer, poll_started := True\<rparr>)"
proof -
  have "\<not> dbl (48 / 100000000) \<le> 0" using dbl_pos [of "48 / 100000000"] by simp
  then show ?thesis
    by (simp add: start_polling_def poll_def send_grants_def hybrid_send_data_def update_data_backlog_def pacer_drain_def new_hybrid_def
        sample_config_def double_ops double_to_int_def)
qed

lemma sample_window: "update_sender 0 sample_config sample_packet (new_sender_state 7 15380)
   = Some ((new_sender_state 7 15380)\<lparr>pkts_nw_since_last_wnd_update := 1, pkts_ht_since_last_wnd_update := 1,
       pkts_at_next_ratio_update := 10\<rparr>)"
  by (simp add: update_sender_def update_nw_state_def update_sn_state_def update_sn_ecn_def sample_config_def sample_packet_def
      new_sender_state_def count_packet_def ratios_due_def count_nw_def count_ht_def nw_is_marked_def host_is_marked_def
      nw_ratio_def host_ratio_def marked_ratio_def fdiv_def reduce_nw_window_def reduce_ht_window_def window_change_def
      changed_window_def clamp_window_def double_to_int_def double_to_u32_def double_ops sender_window_def
      MAX_ETHERNET_FRAME_ON_WIRE_def Let_def)

definition sample_host :: hybrid where
  \<comment> \<open>after the packet: 1538 bytes are in flight\<close>
  "sample_host = (new_hybrid sample_config 0)\<lparr>poll_timer := timer_resched 0 1 new_timer, poll_started := True,
     budget_bytes := 29222,
     sender_states := [7 \<mapsto> (new_sender_state 7 15380)\<lparr>pkts_nw_since_last_wnd_update := 1,
       pkts_ht_since_last_wnd_update := 1, pkts_at_next_ratio_update := 10, srpb_bytes := 13842\<rparr>],
     inbound := \<lparr>msgs = [\<lparr>im_req_id = (0, 0, 0), im_remote_addr = 7, im_seq = 0, first_header = hp_hdr sample_packet,
       data_bytes_expected = 2916, data_bytes_received = 1458, data_bytes_granted = 2916, received_msg_info = True\<rparr>], current = 0\<rparr>,
     remotes := [(7, new_receiver_state 7)], policy_states := [(7, new_policy_state)],
     credit_granted := 3076, credit_replenished := 1538, credit_data_request_rcvd := 2916\<rparr>"

lemma sample_sender: "update_sender_state 0 sample_packet ((new_hybrid sample_config 0)
     \<lparr>poll_timer := timer_resched 0 1 new_timer, poll_started := True\<rparr>)
   = Some ((new_hybrid sample_config 0)\<lparr>poll_timer := timer_resched 0 1 new_timer, poll_started := True,
       sender_states := [7 \<mapsto> (new_sender_state 7 15380)\<lparr>pkts_nw_since_last_wnd_update := 1,
         pkts_ht_since_last_wnd_update := 1, pkts_at_next_ratio_update := 10\<rparr>]\<rparr>)"
proof -
  have "max_srpb sample_config = 15380" "hp_src sample_packet = 7" by (simp_all add: sample_config_def sample_packet_def)
  then show ?thesis using sample_window by (simp add: update_sender_state_def new_hybrid_def)
qed

lemma sample_message: "recv_message sample_packet (find_or_create sample_lib 7 ((new_hybrid sample_config 0)
     \<lparr>poll_timer := timer_resched 0 1 new_timer, poll_started := True,
       sender_states := [7 \<mapsto> (new_sender_state 7 15380)\<lparr>pkts_nw_since_last_wnd_update := 1,
         pkts_ht_since_last_wnd_update := 1, pkts_at_next_ratio_update := 10\<rparr>]\<rparr>))
   = Some ([Layer (hp_hdr sample_packet)], sample_host)"
  by (simp add: recv_message_def find_or_add_def message_info_def unsolicited_credit_def with_srpb_def received_data_def
      find_or_create_def find_remote_def sample_host_def sample_packet_def sample_lib_def sample_config_def new_hybrid_def
      new_hdr_def list_find_pos_def list_append_def list_update_at_def new_msg_list_def new_in_msg_def uniq_id_def
      new_sender_state_def r2p2_sizes Let_def)

lemma sample_recv: "recv sample_lib 0 sample_packet (new_hybrid sample_config 0)
   = Some ([Layer (hp_hdr sample_packet)], sample_host)"
proof -
  have "hp_src sample_packet = 7" "hp_size sample_packet = 1458" "hp_padding sample_packet = 0"
    "hdr_msg_type (hp_hdr sample_packet) = REQUEST" "hdr_credit (hp_hdr sample_packet) = 0"
    by (simp_all add: sample_packet_def new_hdr_def)
  then show ?thesis
    by (simp add: recv_def sample_poll sample_sender update_receiver_state_def sample_message r2p2_sizes)
qed

lemma sample_reachable [simp]: "hybrid_reachable sample_lib sample_config sample_host"
  by (rule reach_step [OF reach_init step_recv [OF sample_recv]])

section \<open>A reply of two packets\<close>

definition sample_reply :: r2p2_hdr where
  "sample_reply = new_hdr\<lparr>hdr_msg_type := REPLY, hdr_req_id := 1, hdr_first := True, hdr_pkt_id := 2\<rparr>"

definition sample_out :: out_msg where
  \<comment> \<open>the reply as \<open>sending_reply\<close> records it\<close>
  "sample_out = (new_out_msg (0, 0, 1) 7 sample_reply)\<lparr>total_bytes := 2916, unsent_bytes := 2916, om_is_request := False\<rparr>"

definition reply_host :: hybrid where
  "reply_host = sample_host\<lparr>outbound_inactive := \<lparr>msgs = [sample_out], current = 0\<rparr>\<rparr>"

lemma sample_send: "send_to_transport sample_lib 0 sample_reply 2916 7 sample_host = Some ([], reply_host)"
proof -
  have "hdr_msg_type sample_reply = REPLY" "uniq_id sample_reply = (0, 0, 1)" "hdr_msg_creation_time sample_reply = - 1"
    by (simp_all add: sample_reply_def new_hdr_def uniq_id_def)
  then show ?thesis
    by (simp add: send_to_transport_def start_polling_def sample_host_def is_req0_of_multipkt_def is_req0_def
        is_from_multipkt_req_not_req0_def sending_reply_def find_remote_def list_find_pos_def new_hybrid_def new_msg_list_def
        list_append_def reply_host_def sample_out_def new_out_msg_def Let_def)
qed

definition sample_self :: out_msg where
  \<comment> \<open>with the credit it gives itself\<close>
  "sample_self = sample_out\<lparr>om_hdr := sample_reply\<lparr>hdr_has_scheduled_part := False\<rparr>, self_alloc_credit := 3076,
     self_alloc_credit_data := 2916, remaining_self_alloc_credit_data := 2916, usnsol_check_done := True, is_scheduled := False,
     om_active := True\<rparr>"

definition started_host :: hybrid where
  "started_host = sample_host\<lparr>poll_timer := (poll_timer sample_host)\<lparr>tm_status := TIMER_HANDLING\<rparr>, credit_received := 3076,
     remotes := [(7, (new_receiver_state 7)\<lparr>avail_credit_bytes := 3076, avail_credit_data_bytes := 2916,
       out_msgs := \<lparr>msgs = [sample_self], current = 0\<rparr>\<rparr>)]\<rparr>"

lemma sample_start: "start_messages (reply_host\<lparr>poll_timer := (poll_timer sample_host)\<lparr>tm_status := TIMER_HANDLING\<rparr>\<rparr>)
   = Some ([], started_host)"
  by (simp add: start_messages_def reply_host_def sample_out_def new_out_msg_def list_next_def list_peek_next_def
      self_credit_def self_credit_amount_def add_header_overhead_def r2p2_sizes signed_divide_int_def smod_int_alt_def
      sample_host_def new_hybrid_def sample_config_def find_remote_def new_receiver_state_def update_remote_def list_update_at_def
      activate_msg_def list_remove_def list_find_pos_def add_outbound_msg_def list_append_def new_msg_list_def
      started_host_def sample_self_def sample_reply_def Let_def)

definition sample_policy :: policy_state where
  "sample_policy = new_policy_state\<lparr>ps_deficit := 1, ps_quantum := 1, ps_can_send := True, ps_priority_flow := True,
     ps_num_can_send := 1, ps_want_to_send_bytes := 1538, ps_msg := Some 0\<rparr>"

lemma sample_want: "want_to_send sample_lib ((new_receiver_state 7)\<lparr>avail_credit_bytes := 3076, avail_credit_data_bytes := 2916,
      out_msgs := \<lparr>msgs = [sample_self], current = 0\<rparr>\<rparr>) new_policy_state
   = Some ((new_receiver_state 7)\<lparr>avail_credit_bytes := 3076, avail_credit_data_bytes := 2916,
      out_msgs := \<lparr>msgs = [sample_self], current = 0\<rparr>\<rparr>,
      new_policy_state\<lparr>ps_can_send := True, ps_want_to_send_bytes := 1538, ps_msg := Some 0\<rparr>)"
  by (simp add: want_to_send_def sample_lib_def list_sort_def list_reset_def list_next_def list_peek_next_def to_send_bytes_def
      ps_take_def r2p2_sizes sample_self_def sample_out_def new_out_msg_def new_policy_state_def Let_def)

lemma sample_update_policy: "update_policy_state sample_lib started_host
   = Some (started_host\<lparr>policy_states := [(7, sample_policy)]\<rparr>)"
proof -
  have "dbl (1 / 100000) > 0" by (rule dbl_pos) simp
  moreover have "find_remote 7 started_host = Some ((new_receiver_state 7)\<lparr>avail_credit_bytes := 3076,
      avail_credit_data_bytes := 2916, out_msgs := \<lparr>msgs = [sample_self], current = 0\<rparr>\<rparr>)"
    "update_remote 7 (\<lambda>_. (new_receiver_state 7)\<lparr>avail_credit_bytes := 3076,
      avail_credit_data_bytes := 2916, out_msgs := \<lparr>msgs = [sample_self], current = 0\<rparr>\<rparr>) started_host = started_host"
    "policy_states started_host = [(7, new_policy_state)]" "remotes started_host \<noteq> []" "sender_policy (cfg started_host) = 0"
    "fs_weight (cfg started_host) = 1" "srpt_weight (cfg started_host) = 0" "unsent_bytes sample_self = 2916"
    by (simp_all add: started_host_def find_remote_def update_remote_def sample_host_def new_hybrid_def sample_config_def
        sample_self_def sample_out_def)
  ultimately show ?thesis
    by (simp add: update_policy_state_def sample_want)
      (simp add: new_scan_def scan_one_def MAXINT_def add_quantum_def high_prio_quantum_def
        low_prio_quantum_def double_ops sample_policy_def new_policy_state_def Let_def)
qed

lemma sample_select: "select_msg_to_send [(7, sample_policy)] = Some (Some 7, [(7, sample_policy\<lparr>ps_deficit := 0\<rparr>)])"
proof -
  have "dbl (1 / 1000000) \<le> 1" using dbl_mono [of "1 / 1000000" 1] by simp
  then show ?thesis
    by (subst select_msg_to_send.simps) (simp add: sample_policy_def new_policy_state_def spend_def dsub_def)
qed

definition sample_sent :: out_msg where
  "sample_sent = packet_sent sample_self"

definition sent_host :: hybrid where
  "sent_host = started_host\<lparr>policy_states := [(7, sample_policy\<lparr>ps_deficit := 0\<rparr>)], credit_data_requested := 2916, credit_used := 1538,
     data_pacer_backlog := 1538, remotes := [(7, (new_receiver_state 7)\<lparr>avail_credit_bytes := 1538, avail_credit_data_bytes := 1458,
       out_msgs := \<lparr>msgs = [sample_sent], current = 0\<rparr>\<rparr>)]\<rparr>"

lemma sample_send_packet: "\<exists>hdr. send_packet 7 (started_host\<lparr>policy_states := [(7, sample_policy\<lparr>ps_deficit := 0\<rparr>)]\<rparr>)
   = Some ([Transport hdr 1458 7], sent_host)"
proof -
  have m: "to_send_bytes sample_self = 1538" "packet_payload sample_self = 1458" "unsent_bytes (packet_sent sample_self) = 1458"
    "unsent_bytes sample_self = 2916" "total_bytes sample_self = 2916" "om_active sample_self" "\<not> sent_first sample_self"
    "om_remote_addr sample_self = 7" "announces sample_self"
    by (simp_all add: to_send_bytes_def packet_payload_def packet_sent_def announces_def sample_self_def sample_out_def
        new_out_msg_def r2p2_sizes)
  have h: "policy_states (started_host\<lparr>policy_states := [(7, sample_policy\<lparr>ps_deficit := 0\<rparr>)]\<rparr>) = [(7, sample_policy\<lparr>ps_deficit := 0\<rparr>)]"
    "find_remote 7 (started_host\<lparr>policy_states := x\<rparr>) = Some ((new_receiver_state 7)\<lparr>avail_credit_bytes := 3076,
       avail_credit_data_bytes := 2916, out_msgs := \<lparr>msgs = [sample_self], current = 0\<rparr>\<rparr>)"
    "credit_data_requested started_host = 0" "credit_data_received started_host = 0" "pace_grants (cfg started_host)"
    "ps_msg (sample_policy\<lparr>ps_deficit := 0\<rparr>) = Some 0" "ps_want_to_send_bytes (sample_policy\<lparr>ps_deficit := 0\<rparr>) = 1538" for x
    by (simp_all add: started_host_def find_remote_def sample_policy_def sample_host_def new_hybrid_def sample_config_def)
  have t: "transport hdr 1458 7 = Some [Transport hdr 1458 7]" for hdr
    by (simp add: transport_def r2p2_sizes)
  have u: "((update_remote 7 (\<lambda>r. r\<lparr>avail_credit_bytes := avail_credit_bytes r - 1538,
         avail_credit_data_bytes := avail_credit_data_bytes r - 1458, out_msgs := \<lparr>msgs = [packet_sent sample_self], current = 0\<rparr>\<rparr>)
         (started_host\<lparr>policy_states := [(7, sample_policy\<lparr>ps_deficit := 0\<rparr>)], credit_data_requested := 2916\<rparr>))
       \<lparr>credit_used := credit_used started_host + 1538, data_pacer_backlog := data_pacer_backlog started_host + 1538\<rparr>) = sent_host"
    by (simp add: update_remote_def started_host_def sent_host_def sample_sent_def sample_host_def new_hybrid_def)
  show ?thesis
    using u by (simp add: send_packet_def m h t list_update_at_def r2p2_sizes)
qed

definition polled_host :: hybrid where
  "polled_host = sent_host\<lparr>poll_timer := timer_end (timer_resched 0 1 (poll_timer sent_host))\<rparr>"

lemma sample_quiet:
  "timer_begin (poll_timer reply_host) = Some ((poll_timer sample_host)\<lparr>tm_status := TIMER_HANDLING\<rparr>)"
  "send_grants sample_lib 0 (reply_host\<lparr>poll_timer := tm\<rparr>) = Some ([], reply_host\<lparr>poll_timer := tm\<rparr>)"
  "update_data_backlog 0 (reply_host\<lparr>poll_timer := tm\<rparr>) = Some (reply_host\<lparr>poll_timer := tm\<rparr>)"
proof -
  show "timer_begin (poll_timer reply_host) = Some ((poll_timer sample_host)\<lparr>tm_status := TIMER_HANDLING\<rparr>)"
    by (simp add: reply_host_def sample_host_def timer_begin_def timer_resched_def new_timer_def)
  have "0 < dbl (48 / 100000000)" by (rule dbl_pos) simp
  then show "send_grants sample_lib 0 (reply_host\<lparr>poll_timer := tm\<rparr>) = Some ([], reply_host\<lparr>poll_timer := tm\<rparr>)"
    by (simp add: send_grants_def reply_host_def sample_host_def new_hybrid_def double_ops)
  have "dbl (1 / 100000) > 0" by (rule dbl_pos) simp
  then show "update_data_backlog 0 (reply_host\<lparr>poll_timer := tm\<rparr>) = Some (reply_host\<lparr>poll_timer := tm\<rparr>)"
    by (simp add: update_data_backlog_def pacer_drain_def reply_host_def sample_host_def new_hybrid_def double_ops double_to_int_def
        sample_config_def)
qed

lemma sample_expire: "\<exists>hdr. expire_poll sample_lib 0 reply_host = Some ([Transport hdr 1458 7], polled_host)"
proof -
  obtain hdr where sent: "send_packet 7 (started_host\<lparr>policy_states := [(7, sample_policy\<lparr>ps_deficit := 0\<rparr>)]\<rparr>)
     = Some ([Transport hdr 1458 7], sent_host)" using sample_send_packet by blast
  have "dbl (1125 / 2) > 0" by (rule dbl_pos) simp
  then have "remotes reply_host \<noteq> []" "\<not> data_pacer_full started_host" "poll_interval (cfg sent_host) = 1"
    by (simp_all add: reply_host_def sample_host_def new_hybrid_def sample_config_def data_pacer_full_def started_host_def sent_host_def
        double_ops)
  moreover have "policy_states (started_host\<lparr>policy_states := [(7, sample_policy)]\<rparr>) = [(7, sample_policy)]"
    "(started_host\<lparr>policy_states := [(7, sample_policy)]\<rparr>)\<lparr>policy_states := x\<rparr> = started_host\<lparr>policy_states := x\<rparr>" for x
    by simp_all
  ultimately show ?thesis
    by (simp add: expire_poll_def poll_def hybrid_send_data_def sample_quiet sample_start send_chosen_def sample_update_policy
        sample_select sent polled_host_def)
qed

lemma polled_reachable [simp]: "hybrid_reachable sample_lib sample_config polled_host"
proof -
  obtain hdr where "expire_poll sample_lib 0 reply_host = Some ([Transport hdr 1458 7], polled_host)"
    using sample_expire by blast
  then show ?thesis
    using reach_step [OF reach_step [OF sample_reachable step_send [OF sample_send]] step_poll] by blast
qed

end
