(* ===== verification/Hybrid_Accounts.thy ===== *)
theory Hybrid_Accounts
  imports Hybrid_Samples
begin

text \<open>
  The accounts of a receiver: what it keeps for each sender, its global budget and the counters of the credit
  given and replenished tell the same number of bytes in flight, whatever the events.
\<close>

section \<open>The accounts\<close>

definition in_flight :: "hybrid \<Rightarrow> int" where
  \<comment> \<open>the credit that the senders have and have not used, as their budgets tell it\<close>
  "in_flight h = (\<Sum>a\<in>dom (sender_states h). max_srpb (cfg h) - srpb_bytes (the (sender_states h a)))"

definition accounts_ok :: "hybrid \<Rightarrow> bool" where
  "accounts_ok h \<longleftrightarrow> finite (dom (sender_states h))
     \<and> max_budget_bytes (cfg h) - budget_bytes h = in_flight h
     \<and> credit_granted h - credit_replenished h = word_of_int (in_flight h)"

lemma in_flight_part: "in_flight h = in_flight g \<and> accounts_ok h = accounts_ok g" if "receiver_part h = receiver_part g"
  using that by (simp add: accounts_ok_def in_flight_def receiver_part_def)

lemma accounts_ok_updates [simp]:
  "in_flight (h\<lparr>credit_granted := w\<rparr>) = in_flight h"
  "in_flight (h\<lparr>credit_replenished := w\<rparr>) = in_flight h"
  "accounts_ok (h\<lparr>inbound := l\<rparr>) = accounts_ok h"
  "accounts_ok (h\<lparr>grant_pacer_backlog := n\<rparr>) = accounts_ok h"
  "accounts_ok (h\<lparr>data_pacer_backlog := n\<rparr>) = accounts_ok h"
  "accounts_ok (h\<lparr>credit_data_granted := w\<rparr>) = accounts_ok h"
  "accounts_ok (h\<lparr>credit_data_request_rcvd := w\<rparr>) = accounts_ok h"
  by (simp_all add: accounts_ok_def in_flight_def)

lemma in_flight_update:
  assumes "finite (dom (sender_states h))" "sender_states h addr = Some st"
  shows "in_flight (h\<lparr>sender_states := (sender_states h)(addr \<mapsto> st')\<rparr>) = in_flight h - (srpb_bytes st' - srpb_bytes st)"
proof -
  have dom: "insert addr (dom (sender_states h)) = dom (sender_states h)" using assms(2) by auto
  have "(\<Sum>a\<in>dom (sender_states h) - {addr}. max_srpb (cfg h) - srpb_bytes (the (((sender_states h)(addr \<mapsto> st')) a)))
      = (\<Sum>a\<in>dom (sender_states h) - {addr}. max_srpb (cfg h) - srpb_bytes (the (sender_states h a)))"
    by (rule sum.cong) auto
  moreover have "addr \<in> dom (sender_states h)" using assms(2) by auto
  ultimately show ?thesis using assms
    by (simp add: in_flight_def dom sum.remove [OF assms(1), of addr])
qed

lemma with_srpb_accounts:
  assumes "with_srpb addr n h = Some h'" "finite (dom (sender_states h))"
  shows "in_flight h' = in_flight h - n" "finite (dom (sender_states h'))" "budget_bytes h' = budget_bytes h + n"
    "credit_granted h' = credit_granted h" "credit_replenished h' = credit_replenished h" "cfg h' = cfg h"
proof -
  obtain st where st: "sender_states h addr = Some st" "h' = h\<lparr>budget_bytes := budget_bytes h + n,
       sender_states := (sender_states h)(addr \<mapsto> st\<lparr>srpb_bytes := srpb_bytes st + n\<rparr>)\<rparr>"
    using assms(1) by (auto simp: with_srpb_def bind_eq_Some_conv)
  show "in_flight h' = in_flight h - n"
    using in_flight_update [OF assms(2) st(1), of "st\<lparr>srpb_bytes := srpb_bytes st + n\<rparr>"]
    unfolding st(2) by (simp add: in_flight_def)
qed (use assms in \<open>auto simp: with_srpb_def bind_eq_Some_conv\<close>)

lemma srpb_granted:
  assumes "with_srpb addr (- n) h = Some h'" "accounts_ok h"
  shows "accounts_ok (h'\<lparr>credit_granted := credit_granted h' + word_of_int n\<rparr>)"
proof -
  have fin: "finite (dom (sender_states h))" using assms(2) by (simp add: accounts_ok_def)
  show ?thesis using assms(2) with_srpb_accounts [OF assms(1) fin] by (simp add: accounts_ok_def)
qed

lemma srpb_replenished:
  assumes "with_srpb addr n h = Some h'" "accounts_ok h"
  shows "accounts_ok (h'\<lparr>credit_replenished := credit_replenished h' + word_of_int n\<rparr>)"
proof -
  have fin: "finite (dom (sender_states h))" using assms(2) by (simp add: accounts_ok_def)
  show ?thesis using assms(2) with_srpb_accounts [OF assms(1) fin] by (simp add: accounts_ok_def)
qed

section \<open>A window update leaves the budget of a sender alone\<close>

lemma srpb_update_nw: "update_nw_state c pkt st = Some st' \<Longrightarrow> srpb_bytes st' = srpb_bytes st"
  unfolding update_nw_state_def Let_def bind_eq_Some_conv option.inject
  by (elim exE conjE, hypsubst, simp add: count_nw_def)

lemma srpb_update_sn_ecn: "update_sn_ecn c pkt st = Some st' \<Longrightarrow> srpb_bytes st' = srpb_bytes st"
  unfolding update_sn_ecn_def Let_def bind_eq_Some_conv option.inject
  by (elim exE conjE, hypsubst, simp add: count_ht_def)

lemma srpb_update_sn_hpcc: "update_sn_hpcc c pkt st = Some st' \<Longrightarrow> srpb_bytes st' = srpb_bytes st"
  unfolding update_sn_hpcc_def Let_def bind_eq_Some_conv option.inject
  by (elim exE conjE, hypsubst, simp)

lemma srpb_update_sn: "update_sn_state c pkt st = Some st' \<Longrightarrow> srpb_bytes st' = srpb_bytes st"
  by (simp add: update_sn_state_def srpb_update_sn_ecn srpb_update_sn_hpcc split: if_splits)

lemma srpb_update_sender: "update_sender now c pkt st = Some st' \<Longrightarrow> srpb_bytes st' = srpb_bytes st"
  unfolding update_sender_def Let_def bind_eq_Some_conv option.inject
  by (elim exE conjE, hypsubst, drule srpb_update_nw, drule srpb_update_sn, simp add: count_packet_def)

section \<open>Every operation keeps them\<close>

lemma accounts_grant: "send_credit_policy_common now pos h = Some (r, out, h') \<Longrightarrow> accounts_ok h \<Longrightarrow> accounts_ok h'"
  by (auto simp: send_credit_policy_common_def give_credit_def forward_grant_def bind_eq_Some_conv Let_def dest: srpb_granted
      split: if_splits)

lemma accounts_sender:
  assumes "update_sender_state now pkt h = Some h'" "accounts_ok h"
  shows "accounts_ok h'"
proof -
  let ?a = "hp_src pkt"
  have fin: "finite (dom (sender_states h))" using assms(2) by (simp add: accounts_ok_def)
  obtain st where st: "update_sender now (cfg h) pkt (case sender_states h ?a of
       None \<Rightarrow> new_sender_state ?a (max_srpb (cfg h)) | Some st \<Rightarrow> st) = Some st"
    "h' = h\<lparr>sender_states := (sender_states h)(?a \<mapsto> st)\<rparr>"
    using assms(1) by (auto simp: update_sender_state_def bind_eq_Some_conv)
  have srpb: "srpb_bytes st = srpb_bytes (case sender_states h ?a of
       None \<Rightarrow> new_sender_state ?a (max_srpb (cfg h)) | Some st \<Rightarrow> st)"
    using srpb_update_sender [OF st(1)] .
  have "in_flight h' = in_flight h"
  proof (cases "sender_states h ?a")
    case (Some s)
    then show ?thesis using in_flight_update [OF fin Some, of st] srpb unfolding st(2) by simp
  next
    case None
    then have "?a \<notin> dom (sender_states h)" by auto
    then have "(\<Sum>a\<in>dom (sender_states h). max_srpb (cfg h) - srpb_bytes (the (((sender_states h)(?a \<mapsto> st)) a)))
        = (\<Sum>a\<in>dom (sender_states h). max_srpb (cfg h) - srpb_bytes (the (sender_states h a)))"
      by (intro sum.cong) auto
    then show ?thesis using None fin srpb \<open>?a \<notin> _\<close> unfolding st(2)
      by (simp add: in_flight_def new_sender_state_def)
  qed
  then show ?thesis using assms(2) unfolding st(2) by (simp add: accounts_ok_def)
qed

lemma accounts_find: "find_or_add pkt h = Some (pos, h') \<Longrightarrow> accounts_ok h \<Longrightarrow> accounts_ok h'"
  by (auto simp: find_or_add_def bind_eq_Some_conv Let_def split: option.splits)

lemma accounts_info: "message_info hdr pos h = Some h' \<Longrightarrow> accounts_ok h \<Longrightarrow> accounts_ok h'"
  by (auto simp: message_info_def unsolicited_credit_def bind_eq_Some_conv Let_def dest: srpb_granted split: if_splits)

lemma accounts_data: "received_data pkt pos h = Some h' \<Longrightarrow> accounts_ok h \<Longrightarrow> accounts_ok h'"
  by (auto simp: received_data_def bind_eq_Some_conv Let_def dest: srpb_replenished split: if_splits)

lemma accounts_message: "recv_message pkt h = Some (out, h') \<Longrightarrow> accounts_ok h \<Longrightarrow> accounts_ok h'"
  by (erule recv_message_cases) (blast dest: accounts_find accounts_info accounts_data)+

definition accounts_kept :: "hybrid \<Rightarrow> hybrid_output list \<Rightarrow> hybrid \<Rightarrow> bool" where
  "accounts_kept h out h' \<longleftrightarrow> (accounts_ok h \<longrightarrow> accounts_ok h')"

interpretation accounts: receiver_relation accounts_kept
proof
  fix h h' :: hybrid and out out' h''
  show "accounts_kept h out h' \<Longrightarrow> accounts_kept h' out' h'' \<Longrightarrow> accounts_kept h (out @ out') h''"
    by (simp add: accounts_kept_def)
  show "receiver_part h' = receiver_part h \<Longrightarrow> accounts_kept h out h'"
    using in_flight_part [of h' h] by (simp add: accounts_kept_def)
qed (simp_all add: accounts_kept_def accounts_grant accounts_sender accounts_message)

lemma accounts_new [simp]: "accounts_ok (new_hybrid c now)"
  by (simp add: accounts_ok_def in_flight_def new_hybrid_def)

lemma reachable_accounts: "hybrid_reachable lib c h \<Longrightarrow> lib_ok lib \<Longrightarrow> accounts_ok h"
  by (induction rule: hybrid_reachable.induct) (auto simp: accounts_kept_def dest!: accounts.host.step)

text \<open>Property C7. At any time, whatever packets have arrived and been sent in whatever order, the global budget
  of a receiver is short of its maximum by exactly the bytes that the budgets of its senders are short of
  theirs, and the credit counted as granted exceeds the credit counted as replenished by the same number.\<close>
theorem hybrid_budgets_agree:
  assumes "hybrid_reachable lib c h" "lib_ok lib"
  shows "max_budget_bytes (cfg h) - budget_bytes h = in_flight h
    \<and> credit_granted h - credit_replenished h = word_of_int (in_flight h)"
  using reachable_accounts [OF assms] by (simp add: accounts_ok_def)

theorem hybrid_budgets_agree_witness:
  "max_budget_bytes (cfg sample_host) - budget_bytes sample_host = in_flight sample_host
    \<and> credit_granted sample_host - credit_replenished sample_host = word_of_int (in_flight sample_host)
    \<and> in_flight sample_host = 1538"
proof -
  have "in_flight sample_host = 1538"
    by (simp add: sample_host_def new_hybrid_def sample_config_def in_flight_def new_sender_state_def)
  then show ?thesis using hybrid_budgets_agree [OF sample_reachable sample_lib_ok] by blast
qed

end
