(* ===== verification/Hybrid_Windows.thy ===== *)
theory Hybrid_Windows
  imports Hybrid_Samples
begin

text \<open>
  The windows a receiver keeps for its senders, and the shares of marked packets they follow: bounds that hold
  whatever marks the packets carry, with every rounding of the \<open>double\<close> arithmetic.
\<close>

section \<open>The moving average\<close>

lemma round_even_tie: "even n \<Longrightarrow> round_even (of_int n + 1 / 2) = n"
proof -
  have "\<lfloor>of_int n + 1 / 2 :: real\<rfloor> = n" by (rule floor_unique) simp_all
  then show "even n \<Longrightarrow> round_even (of_int n + 1 / 2) = n" by (simp add: round_even_def)
qed

lemma dbl_tie: "dbl (1 + 1 / 2 ^ 53) = 1"
proof -
  have "\<lfloor>log 2 (1 + 1 / 2 ^ 53 :: real)\<rfloor> = 0"
    by (subst floor_log_eq_powr_iff) simp_all
  then have exp: "ulp_exp (1 + 1 / 2 ^ 53) = - 52" by (simp add: ulp_exp_def)
  have p: "2 powr real_of_int (- 52) = (1 / 2 ^ 52 :: real)" by (simp add: powr_minus field_simps)
  have "(1 + 1 / 2 ^ 53 :: real) / (1 / 2 ^ 52) = of_int (2 ^ 52) + 1 / 2" by (simp add: field_simps)
  then have "round_even ((1 + 1 / 2 ^ 53) / (1 / 2 ^ 52)) = 2 ^ 52" by (simp only:) (rule round_even_tie, simp)
  then have "dbl (1 + 1 / 2 ^ 53) = (if 1 + 1 / 2 ^ 53 = (0::real) then 0 else of_int (2 ^ 52) * (1 / 2 ^ 52))"
    by (simp only: dbl_def exp p)
  then show ?thesis by (simp add: divide_simps)
qed

lemma weights_sum: "0 \<le> g \<Longrightarrow> g \<le> 1 \<Longrightarrow> dbl (dsub 1 g + g) \<le> 1"
proof -
  assume g: "0 \<le> g" "g \<le> 1"
  have "\<bar>dbl (1 - g) - (1 - g)\<bar> \<le> (1 - g) / 2 ^ 53" using dbl_error [of "1 - g"] g by simp
  moreover have "(1 - g) / 2 ^ 53 \<le> 1 / 2 ^ 53" using g by (simp add: divide_right_mono)
  ultimately have "dsub 1 g + g \<le> 1 + 1 / 2 ^ 53" unfolding dsub_def by linarith
  from dbl_mono [OF this] show ?thesis by (simp only: dbl_tie)
qed

lemma average_range:
  assumes "0 \<le> g" "g \<le> 1" "dbl g = g" "0 \<le> old" "old \<le> 1" "0 \<le> r" "r \<le> 1"
  shows "0 \<le> dadd (dmul (dsub 1 g) old) (dmul g r)" "dadd (dmul (dsub 1 g) old) (dmul g r) \<le> 1"
proof -
  have w: "0 \<le> dsub 1 g" using assms by (simp add: dsub_def)
  have a: "0 \<le> dmul (dsub 1 g) old" "0 \<le> dmul g r" using assms w by (simp_all add: dmul_def)
  then show "0 \<le> dadd (dmul (dsub 1 g) old) (dmul g r)" by (simp add: dadd_def)
  have "dmul (dsub 1 g) old \<le> dbl (dsub 1 g)" unfolding dmul_def using w assms(5)
    by (intro dbl_mono) (simp add: mult_left_le)
  moreover have "dmul g r \<le> g" unfolding dmul_def using dbl_mono [of "g * r" g] assms by (simp add: mult_left_le)
  ultimately have "dmul (dsub 1 g) old + dmul g r \<le> dsub 1 g + g" by (simp add: dsub_def)
  from dbl_mono [OF this] show "dadd (dmul (dsub 1 g) old) (dmul g r) \<le> 1"
    unfolding dadd_def using weights_sum [OF assms(1,2)] by linarith
qed

section \<open>The bounds\<close>

definition config_ok :: "hybrid_config \<Rightarrow> bool" where
  "config_ok c \<longleftrightarrow> 0 < nw_min_srpb c \<and> nw_min_srpb c \<le> max_srpb c \<and> 0 < host_min_srpb c \<and> host_min_srpb c \<le> max_srpb c
     \<and> 0 \<le> ce_new_weight c \<and> ce_new_weight c \<le> 1 \<and> dbl (ce_new_weight c) = ce_new_weight c"

lemma least_window_range:
  assumes "least_window mul w = Some n" "1 \<le> mul * of_int w" "mul \<le> 1" "0 < w" "w \<le> 2 ^ 53"
  shows "0 < n" "n \<le> w"
proof -
  have n: "n = trunc (dbl (mul * of_int w))"
    using assms(1) by (auto simp: least_window_def double_to_int_def dmul_def split: if_splits)
  have "mul * of_int w \<le> of_int w" using mult_right_mono [OF assms(3), of "of_int w"] assms(4) by simp
  then have r: "1 \<le> dbl (mul * of_int w)" "dbl (mul * of_int w) \<le> of_int w"
    using dbl_mono [OF assms(2)] dbl_mono [of "mul * of_int w" "of_int w"] assms(4,5) by simp_all
  then have "n = \<lfloor>dbl (mul * of_int w)\<rfloor>" unfolding n trunc_def by simp
  then show "0 < n" "n \<le> w" using r by linarith+
qed

lemma init_config_ok:
  \<comment> \<open>the parameters under which \<open>init\<close> leaves a usable configuration\<close>
  assumes "init_config p = Some c" "0 < p_max_srpb p" "p_max_srpb p \<le> 2 ^ 53"
    "1 \<le> p_ecn_min_mul p * of_int (p_max_srpb p)" "p_ecn_min_mul p \<le> 1"
    "1 \<le> p_ecn_min_mul_nw p * of_int (p_max_srpb p)" "p_ecn_min_mul_nw p \<le> 1"
    "0 \<le> p_ce_new_weight p" "p_ce_new_weight p \<le> 1" "dbl (p_ce_new_weight p) = p_ce_new_weight p"
  shows "config_ok c"
proof -
  have c: "max_srpb c = p_max_srpb p" "ce_new_weight c = p_ce_new_weight p"
    "least_window (p_ecn_min_mul p) (p_max_srpb p) = Some (host_min_srpb c)"
    "least_window (p_ecn_min_mul_nw p) (p_max_srpb p) = Some (nw_min_srpb c)"
    using assms(1) by (auto simp: init_config_def bind_eq_Some_conv)
  show ?thesis
    using least_window_range [OF c(3) assms(4,5,2,3)] least_window_range [OF c(4) assms(6,7,2,3)] assms(8-10) c(1,2)
    by (simp add: config_ok_def)
qed

definition marks_ok :: "sender_state \<Rightarrow> bool" where
  \<comment> \<open>no more packets are marked than have arrived\<close>
  "marks_ok st \<longleftrightarrow> pkts_nw_marked_since_last_ratio_update st \<le> pkts_since_last_ratio_update st
     \<and> pkts_ht_marked_since_last_ratio_update st \<le> pkts_since_last_ratio_update st"

definition window_ok :: "hybrid_config \<Rightarrow> sender_state \<Rightarrow> bool" where
  "window_ok c st \<longleftrightarrow> nw_min_srpb c \<le> nw_max_srpb_bytes st \<and> nw_max_srpb_bytes st \<le> max_srpb c
     \<and> host_min_srpb c \<le> host_max_srpb_bytes st \<and> host_max_srpb_bytes st \<le> max_srpb c
     \<and> srpb_ceiling st = max_srpb c
     \<and> 0 \<le> nw_marked_ratio st \<and> nw_marked_ratio st \<le> 1 \<and> 0 \<le> host_marked_ratio st \<and> host_marked_ratio st \<le> 1"

definition sender_ok :: "hybrid_config \<Rightarrow> sender_state \<Rightarrow> bool" where
  "sender_ok c st \<longleftrightarrow> window_ok c st \<and> marks_ok st
     \<and> min (nw_min_srpb c) (host_min_srpb c) \<le> max_srpb_bytes st \<and> max_srpb_bytes st \<le> max_srpb c
     \<and> (pkts_at_next_ratio_update st = 0 \<or> pkts_since_last_ratio_update st < pkts_at_next_ratio_update st)
     \<and> (sender_algo c \<ge> 100 \<longrightarrow> pkts_ht_marked_since_last_ratio_update st = 0)"

lemma clamp_window_range: "low \<le> high \<Longrightarrow> low \<le> clamp_window low high w \<and> clamp_window low high w \<le> high"
  by (simp add: clamp_window_def)

lemma changed_window_range: "changed_window low high w change = Some w' \<Longrightarrow> low \<le> high \<Longrightarrow> low \<le> w' \<and> w' \<le> high"
  by (auto simp: changed_window_def bind_eq_Some_conv clamp_window_range)

lemma marked_ratio_range:
  assumes "marked_ratio c old m n = Some ratio" "config_ok c" "m \<le> n" "0 \<le> old" "old \<le> 1"
  shows "0 \<le> ratio \<and> ratio \<le> 1"
proof -
  have n: "real_of_int (uint n) \<noteq> 0" and r: "ratio = dadd (dmul (dsub 1 (ce_new_weight c)) old)
      (dmul (ce_new_weight c) (ddiv (of_int (uint m)) (of_int (uint n))))"
    using assms(1) by (auto simp: marked_ratio_def fdiv_def bind_eq_Some_conv split: if_splits)
  have le: "uint m \<le> uint n" using assms(3) by (simp add: word_le_def)
  have "0 < uint n" using n uint_ge_0 [of n] by linarith
  with le have "real_of_int (uint m) / of_int (uint n) \<le> 1" by (simp only: divide_le_eq_1_pos of_int_0_less_iff of_int_le_iff)
  from dbl_mono [OF this] have le1: "ddiv (of_int (uint m)) (of_int (uint n)) \<le> 1" by (simp add: ddiv_def)
  have "0 \<le> ddiv (of_int (uint m)) (of_int (uint n))"
    unfolding ddiv_def by (intro dbl_nonneg divide_nonneg_nonneg) (simp_all only: of_int_0_le_iff uint_ge_0)
  then show ?thesis unfolding r using average_range [OF _ _ _ assms(4,5) _ le1] assms(2) by (simp only: config_ok_def)
qed

lemma count_marks:
  fixes m n :: "32 word"
  assumes "m \<le> n" "n + 1 \<noteq> 0"
  shows "m + (if b then 1 else 0) \<le> n + 1"
proof -
  have n: "unat (n + 1) = Suc (unat n)" using unatSuc [of n] assms(2) by (simp add: add.commute)
  have "unat (m + 1) \<le> Suc (unat m)" using unat_plus_if' [of m 1] by (auto split: if_splits)
  then show ?thesis using assms(1) n by (auto simp: word_le_nat_alt)
qed

section \<open>A packet keeps them\<close>

lemma update_nw_Some:
  assumes "update_nw_state c pkt st = Some st'"
  obtains ratio change at_next w where "nw_ratio c (count_nw c (nw_is_marked c pkt) st) = Some ratio"
    "changed_window (nw_min_srpb c) (max_srpb c) (nw_max_srpb_bytes (count_nw c (nw_is_marked c pkt) st)) change = Some w"
    "(count_nw c (nw_is_marked c pkt) st)\<lparr>nw_marked_ratio := ratio,
       pkts_nw_marked_since_last_ratio_update := (if ratios_due (count_nw c (nw_is_marked c pkt) st) then 0
         else pkts_nw_marked_since_last_ratio_update (count_nw c (nw_is_marked c pkt) st)),
       pkts_nw_since_last_wnd_update := (if reduce_nw_window (nw_is_marked c pkt) (count_nw c (nw_is_marked c pkt) st) then 0
         else pkts_nw_since_last_wnd_update (count_nw c (nw_is_marked c pkt) st)),
       pkts_nw_at_next_wnd_update := at_next,
       nw_max_srpb_bytes := w\<rparr> = st'"
  using assms unfolding update_nw_state_def Let_def bind_eq_Some_conv option.inject
  by - (elim exE conjE, rule that)

lemma update_nw_fields:
  assumes upd: "update_nw_state c pkt st = Some st'"
  shows "nw_ratio c (count_nw c (nw_is_marked c pkt) st) = Some (nw_marked_ratio st')"
    "\<exists>change. changed_window (nw_min_srpb c) (max_srpb c) (nw_max_srpb_bytes st) change = Some (nw_max_srpb_bytes st')"
    "pkts_nw_marked_since_last_ratio_update st' = (if ratios_due st then 0 else pkts_nw_marked_since_last_ratio_update st + (if nw_is_marked c pkt then 1 else 0))"
    "host_max_srpb_bytes st' = host_max_srpb_bytes st" "host_marked_ratio st' = host_marked_ratio st"
    "srpb_ceiling st' = srpb_ceiling st" "pkts_since_last_ratio_update st' = pkts_since_last_ratio_update st"
    "pkts_at_next_ratio_update st' = pkts_at_next_ratio_update st" "max_srpb_bytes st' = max_srpb_bytes st"
    "pkts_ht_marked_since_last_ratio_update st' = pkts_ht_marked_since_last_ratio_update st"
proof -
  obtain ratio change at_next w where u: "nw_ratio c (count_nw c (nw_is_marked c pkt) st) = Some ratio"
    "changed_window (nw_min_srpb c) (max_srpb c) (nw_max_srpb_bytes (count_nw c (nw_is_marked c pkt) st)) change = Some w"
    "(count_nw c (nw_is_marked c pkt) st)\<lparr>nw_marked_ratio := ratio,
       pkts_nw_marked_since_last_ratio_update := (if ratios_due (count_nw c (nw_is_marked c pkt) st) then 0
         else pkts_nw_marked_since_last_ratio_update (count_nw c (nw_is_marked c pkt) st)),
       pkts_nw_since_last_wnd_update := (if reduce_nw_window (nw_is_marked c pkt) (count_nw c (nw_is_marked c pkt) st) then 0
         else pkts_nw_since_last_wnd_update (count_nw c (nw_is_marked c pkt) st)),
       pkts_nw_at_next_wnd_update := at_next,
       nw_max_srpb_bytes := w\<rparr> = st'"
    using upd by (rule update_nw_Some)
  show "\<exists>change. changed_window (nw_min_srpb c) (max_srpb c) (nw_max_srpb_bytes st) change = Some (nw_max_srpb_bytes st')"
    using u(2) unfolding u(3) [symmetric] by (intro exI [of _ change]) (simp add: count_nw_def)
  show "nw_ratio c (count_nw c (nw_is_marked c pkt) st) = Some (nw_marked_ratio st')"
    using u(1) unfolding u(3) [symmetric] by simp
  show "pkts_nw_marked_since_last_ratio_update st' = (if ratios_due st then 0 else pkts_nw_marked_since_last_ratio_update st + (if nw_is_marked c pkt then 1 else 0))"
    "host_max_srpb_bytes st' = host_max_srpb_bytes st"
    "host_marked_ratio st' = host_marked_ratio st"
    "srpb_ceiling st' = srpb_ceiling st"
    "pkts_since_last_ratio_update st' = pkts_since_last_ratio_update st"
    "pkts_at_next_ratio_update st' = pkts_at_next_ratio_update st"
    "max_srpb_bytes st' = max_srpb_bytes st"
    "pkts_ht_marked_since_last_ratio_update st' = pkts_ht_marked_since_last_ratio_update st"
    unfolding u(3) [symmetric] by (simp_all add: count_nw_def ratios_due_def)
qed

lemma update_ecn_Some:
  assumes "update_sn_ecn c pkt st = Some st'"
  obtains ratio change at_next w where "host_ratio c (count_ht c (host_is_marked c pkt) st) = Some ratio"
    "changed_window (host_min_srpb c) (max_srpb c) (host_max_srpb_bytes (count_ht c (host_is_marked c pkt) st)) change = Some w"
    "(count_ht c (host_is_marked c pkt) st)\<lparr>host_marked_ratio := ratio,
       pkts_ht_marked_since_last_ratio_update := (if ratios_due (count_ht c (host_is_marked c pkt) st) then 0
         else pkts_ht_marked_since_last_ratio_update (count_ht c (host_is_marked c pkt) st)),
       pkts_ht_since_last_wnd_update := (if reduce_ht_window (host_is_marked c pkt) (count_ht c (host_is_marked c pkt) st) then 0
         else pkts_ht_since_last_wnd_update (count_ht c (host_is_marked c pkt) st)),
       pkts_ht_at_next_wnd_update := at_next,
       host_max_srpb_bytes := w\<rparr> = st'"
  using assms unfolding update_sn_ecn_def Let_def bind_eq_Some_conv option.inject
  by - (elim exE conjE, rule that)

lemma update_ecn_fields:
  assumes upd: "update_sn_ecn c pkt st = Some st'"
  shows "host_ratio c (count_ht c (host_is_marked c pkt) st) = Some (host_marked_ratio st')"
    "\<exists>change. changed_window (host_min_srpb c) (max_srpb c) (host_max_srpb_bytes st) change = Some (host_max_srpb_bytes st')"
    "pkts_ht_marked_since_last_ratio_update st' = (if ratios_due st then 0 else pkts_ht_marked_since_last_ratio_update st + (if host_is_marked c pkt then 1 else 0))"
    "nw_max_srpb_bytes st' = nw_max_srpb_bytes st" "nw_marked_ratio st' = nw_marked_ratio st"
    "srpb_ceiling st' = srpb_ceiling st" "pkts_since_last_ratio_update st' = pkts_since_last_ratio_update st"
    "pkts_at_next_ratio_update st' = pkts_at_next_ratio_update st" "max_srpb_bytes st' = max_srpb_bytes st"
    "pkts_nw_marked_since_last_ratio_update st' = pkts_nw_marked_since_last_ratio_update st"
proof -
  obtain ratio change at_next w where u: "host_ratio c (count_ht c (host_is_marked c pkt) st) = Some ratio"
    "changed_window (host_min_srpb c) (max_srpb c) (host_max_srpb_bytes (count_ht c (host_is_marked c pkt) st)) change = Some w"
    "(count_ht c (host_is_marked c pkt) st)\<lparr>host_marked_ratio := ratio,
       pkts_ht_marked_since_last_ratio_update := (if ratios_due (count_ht c (host_is_marked c pkt) st) then 0
         else pkts_ht_marked_since_last_ratio_update (count_ht c (host_is_marked c pkt) st)),
       pkts_ht_since_last_wnd_update := (if reduce_ht_window (host_is_marked c pkt) (count_ht c (host_is_marked c pkt) st) then 0
         else pkts_ht_since_last_wnd_update (count_ht c (host_is_marked c pkt) st)),
       pkts_ht_at_next_wnd_update := at_next,
       host_max_srpb_bytes := w\<rparr> = st'"
    using upd by (rule update_ecn_Some)
  show "\<exists>change. changed_window (host_min_srpb c) (max_srpb c) (host_max_srpb_bytes st) change = Some (host_max_srpb_bytes st')"
    using u(2) unfolding u(3) [symmetric] by (intro exI [of _ change]) (simp add: count_ht_def)
  show "host_ratio c (count_ht c (host_is_marked c pkt) st) = Some (host_marked_ratio st')"
    using u(1) unfolding u(3) [symmetric] by simp
  show "pkts_ht_marked_since_last_ratio_update st' = (if ratios_due st then 0 else pkts_ht_marked_since_last_ratio_update st + (if host_is_marked c pkt then 1 else 0))"
    "nw_max_srpb_bytes st' = nw_max_srpb_bytes st"
    "nw_marked_ratio st' = nw_marked_ratio st"
    "srpb_ceiling st' = srpb_ceiling st"
    "pkts_since_last_ratio_update st' = pkts_since_last_ratio_update st"
    "pkts_at_next_ratio_update st' = pkts_at_next_ratio_update st"
    "max_srpb_bytes st' = max_srpb_bytes st"
    "pkts_nw_marked_since_last_ratio_update st' = pkts_nw_marked_since_last_ratio_update st"
    unfolding u(3) [symmetric] by (simp_all add: count_ht_def ratios_due_def)
qed

lemma update_hpcc_fields:
  assumes "update_sn_hpcc c pkt st = Some st'"
  shows "\<exists>w. host_max_srpb_bytes st' = clamp_window (host_min_srpb c) (max_srpb c) w"
    "host_marked_ratio st' = host_marked_ratio st"
    "pkts_ht_marked_since_last_ratio_update st' = pkts_ht_marked_since_last_ratio_update st"
    "nw_max_srpb_bytes st' = nw_max_srpb_bytes st" "nw_marked_ratio st' = nw_marked_ratio st"
    "srpb_ceiling st' = srpb_ceiling st" "pkts_since_last_ratio_update st' = pkts_since_last_ratio_update st"
    "pkts_at_next_ratio_update st' = pkts_at_next_ratio_update st" "max_srpb_bytes st' = max_srpb_bytes st"
    "pkts_nw_marked_since_last_ratio_update st' = pkts_nw_marked_since_last_ratio_update st"
proof -
  obtain u w new_wc stage where st: "st' = st\<lparr>prev_qlen := hdr_qlen (hp_hdr pkt), prev_U := u, Wc := new_wc, inc_stage := stage,
      host_max_srpb_bytes := clamp_window (host_min_srpb c) (max_srpb c) w\<rparr>"
    using assms unfolding update_sn_hpcc_def Let_def bind_eq_Some_conv option.inject by metis
  show "\<exists>w. host_max_srpb_bytes st' = clamp_window (host_min_srpb c) (max_srpb c) w"
    by (rule exI [of _ w]) (simp add: st)
  show "host_marked_ratio st' = host_marked_ratio st"
    "pkts_ht_marked_since_last_ratio_update st' = pkts_ht_marked_since_last_ratio_update st"
    "nw_max_srpb_bytes st' = nw_max_srpb_bytes st"
    "nw_marked_ratio st' = nw_marked_ratio st"
    "srpb_ceiling st' = srpb_ceiling st"
    "pkts_since_last_ratio_update st' = pkts_since_last_ratio_update st"
    "pkts_at_next_ratio_update st' = pkts_at_next_ratio_update st"
    "max_srpb_bytes st' = max_srpb_bytes st"
    "pkts_nw_marked_since_last_ratio_update st' = pkts_nw_marked_since_last_ratio_update st"
    unfolding st by simp_all
qed

lemma window_ok_nw:
  assumes "update_nw_state c pkt st = Some st'" "config_ok c" "window_ok c st"
    "pkts_nw_marked_since_last_ratio_update st + (if nw_is_marked c pkt then 1 else 0) \<le> pkts_since_last_ratio_update st"
  shows "window_ok c st'"
proof -
  note f = update_nw_fields [OF assms(1)]
  have "0 \<le> nw_marked_ratio st' \<and> nw_marked_ratio st' \<le> 1"
    using f(1) assms(2-4) by (auto simp: nw_ratio_def count_nw_def window_ok_def split: if_splits dest!: marked_ratio_range)
  moreover have "nw_min_srpb c \<le> nw_max_srpb_bytes st' \<and> nw_max_srpb_bytes st' \<le> max_srpb c"
    using f(2) assms(2) by (auto simp: config_ok_def dest!: changed_window_range)
  ultimately show ?thesis using assms(3) by (simp add: window_ok_def f(4-6))
qed

lemma window_ok_sn:
  assumes "update_sn_state c pkt st = Some st'" "config_ok c" "window_ok c st"
    "sender_algo c < 100 \<longrightarrow> pkts_ht_marked_since_last_ratio_update st + (if host_is_marked c pkt then 1 else 0)
       \<le> pkts_since_last_ratio_update st"
  shows "window_ok c st'"
proof (cases "sender_algo c = 0 \<or> sender_algo c = 1")
  case True
  then have e: "update_sn_ecn c pkt st = Some st'" using assms(1) by (simp add: update_sn_state_def)
  note f = update_ecn_fields [OF e]
  have "0 \<le> host_marked_ratio st' \<and> host_marked_ratio st' \<le> 1"
    using f(1) assms(2-4) True
    by (auto simp: host_ratio_def count_ht_def window_ok_def split: if_splits dest!: marked_ratio_range)
  moreover have "host_min_srpb c \<le> host_max_srpb_bytes st' \<and> host_max_srpb_bytes st' \<le> max_srpb c"
    using f(2) assms(2) by (auto simp: config_ok_def dest!: changed_window_range)
  ultimately show ?thesis using assms(3) by (simp add: window_ok_def f(4-6))
next
  case False
  then have e: "update_sn_hpcc c pkt st = Some st'" using assms(1) by (simp add: update_sn_state_def split: if_splits)
  note f = update_hpcc_fields [OF e]
  have "host_min_srpb c \<le> host_max_srpb_bytes st' \<and> host_max_srpb_bytes st' \<le> max_srpb c"
    using f(1) assms(2) clamp_window_range [of "host_min_srpb c" "max_srpb c"] by (auto simp: config_ok_def)
  then show ?thesis using assms(3) by (simp add: window_ok_def f(2,4-6))
qed

lemma update_sender_Some:
  assumes "update_sender now c pkt st = Some st'"
  obtains st1 st2 at_next where "update_nw_state c pkt (count_packet st) = Some st1" "update_sn_state c pkt st1 = Some st2"
    "(if ratios_due (count_packet st) then double_to_u32 (ddiv (of_int (sender_window c pkt st2)) (of_int MAX_ETHERNET_FRAME_ON_WIRE))
      else Some (pkts_at_next_ratio_update st2)) = Some at_next"
    "st2\<lparr>max_srpb_bytes := sender_window c pkt st2, last_pkt := now,
       pkts_since_last_ratio_update := (if ratios_due (count_packet st) then 0 else pkts_since_last_ratio_update st2),
       pkts_at_next_ratio_update := at_next\<rparr> = st'"
  using assms unfolding update_sender_def Let_def bind_eq_Some_conv option.inject
  by - (elim exE conjE, rule that)

lemma sn_marks:
  assumes "update_sn_state c pkt st = Some st'"
  shows "pkts_since_last_ratio_update st' = pkts_since_last_ratio_update st"
    "pkts_at_next_ratio_update st' = pkts_at_next_ratio_update st"
    "pkts_nw_marked_since_last_ratio_update st' = pkts_nw_marked_since_last_ratio_update st"
    "sender_algo c < 100 \<Longrightarrow> pkts_ht_marked_since_last_ratio_update st' = (if ratios_due st then 0
       else pkts_ht_marked_since_last_ratio_update st + (if host_is_marked c pkt then 1 else 0))"
    "sender_algo c \<ge> 100 \<Longrightarrow> pkts_ht_marked_since_last_ratio_update st' = pkts_ht_marked_since_last_ratio_update st"
  using assms by (auto simp: update_sn_state_def update_ecn_fields update_hpcc_fields split: if_splits)

lemma sender_ok_update:
  assumes "update_sender now c pkt st = Some st'" "config_ok c" "sender_ok c st"
  shows "sender_ok c st'"
proof -
  obtain st1 st2 at_next where u: "update_nw_state c pkt (count_packet st) = Some st1" "update_sn_state c pkt st1 = Some st2"
    "(if ratios_due (count_packet st) then double_to_u32 (ddiv (of_int (sender_window c pkt st2)) (of_int MAX_ETHERNET_FRAME_ON_WIRE))
      else Some (pkts_at_next_ratio_update st2)) = Some at_next"
    "st2\<lparr>max_srpb_bytes := sender_window c pkt st2, last_pkt := now,
       pkts_since_last_ratio_update := (if ratios_due (count_packet st) then 0 else pkts_since_last_ratio_update st2),
       pkts_at_next_ratio_update := at_next\<rparr> = st'"
    using assms(1) by (rule update_sender_Some)
  note nw = update_nw_fields [OF u(1)] and sn = sn_marks [OF u(2)]
  let ?n = "pkts_since_last_ratio_update st + 1"
  have w: "window_ok c (count_packet st)" and m: "marks_ok st" using assms(3)
    by (simp_all add: sender_ok_def window_ok_def count_packet_def)
  have at: "pkts_at_next_ratio_update st = 0 \<or> pkts_since_last_ratio_update st < pkts_at_next_ratio_update st"
    using assms(3) by (simp add: sender_ok_def)
  have n: "?n \<noteq> 0"
  proof
    assume zero: "?n = 0"
    then have "pkts_since_last_ratio_update st = - 1" by (simp add: eq_neg_iff_add_eq_0)
    with at zero have "ratios_due (count_packet st)" by (auto simp: ratios_due_def count_packet_def)
    then show False using nw(1) zero
      by (simp add: nw_ratio_def ratios_due_def count_nw_def count_packet_def marked_ratio_def fdiv_def)
  qed
  have since: "pkts_since_last_ratio_update st2 = ?n" "pkts_at_next_ratio_update st2 = pkts_at_next_ratio_update st"
    "ratios_due st1 = ratios_due (count_packet st)"
    by (simp_all add: sn nw ratios_due_def) (simp_all add: count_packet_def)
  have marks: "pkts_nw_marked_since_last_ratio_update (count_packet st) + (if b then 1 else 0) \<le> ?n"
    "pkts_ht_marked_since_last_ratio_update st1 + (if b then 1 else 0) \<le> ?n" for b
    using m count_marks [OF _ n] by (simp_all add: nw(10) marks_ok_def count_packet_def)
  have "window_ok c st1" using window_ok_nw [OF u(1) assms(2) w] marks(1) by (simp add: count_packet_def)
  then have w2: "window_ok c st2" using window_ok_sn [OF u(2) assms(2)] marks(2)
    by (simp add: nw(7)) (simp add: count_packet_def)
  have ht: "sender_algo c \<ge> 100 \<Longrightarrow> pkts_ht_marked_since_last_ratio_update st2 = 0"
    using assms(3) by (simp add: sn(5) nw(10) sender_ok_def count_packet_def)
  have "ratios_due (count_packet st) \<Longrightarrow> pkts_nw_marked_since_last_ratio_update st2 = 0
      \<and> pkts_ht_marked_since_last_ratio_update st2 = 0"
    using sn(3,4) nw(3) ht since(3) by (cases "sender_algo c < 100") simp_all
  moreover have "\<not> ratios_due (count_packet st) \<Longrightarrow> pkts_nw_marked_since_last_ratio_update st2 \<le> ?n
      \<and> pkts_ht_marked_since_last_ratio_update st2 \<le> ?n"
    using sn(3,4) nw(3) ht since(3) marks by (cases "sender_algo c < 100") simp_all
  ultimately have mk: "marks_ok st'" unfolding u(4) [symmetric] by (auto simp: marks_ok_def since)
  have "sender_window c pkt st2 \<le> max_srpb c \<and> min (nw_min_srpb c) (host_min_srpb c) \<le> sender_window c pkt st2"
    using w2 assms(2) by (auto simp: sender_window_def window_ok_def config_ok_def)
  moreover have "window_ok c st'" using w2 unfolding u(4) [symmetric] by (simp add: window_ok_def)
  moreover have "pkts_at_next_ratio_update st' = 0 \<or> pkts_since_last_ratio_update st' < pkts_at_next_ratio_update st'"
  proof (cases "ratios_due (count_packet st)")
    case True
    then show ?thesis unfolding u(4) [symmetric] by (simp add: word_greater_zero_iff)
  next
    case False
    then have "?n \<noteq> pkts_at_next_ratio_update st" by (simp add: ratios_due_def count_packet_def)
    moreover have "pkts_at_next_ratio_update st \<noteq> 0 \<Longrightarrow> ?n \<le> pkts_at_next_ratio_update st"
      using at by (simp add: inc_le)
    ultimately show ?thesis using u(3) False since unfolding u(4) [symmetric] by (cases "pkts_at_next_ratio_update st = 0") auto
  qed
  ultimately show ?thesis using mk ht unfolding u(4) [symmetric] sender_ok_def by simp
qed

section \<open>Every event keeps them\<close>

definition windows_ok :: "hybrid \<Rightarrow> bool" where
  "windows_ok h \<longleftrightarrow> (\<forall>a st. sender_states h a = Some st \<longrightarrow> sender_ok (cfg h) st)"

lemma sender_ok_srpb [simp]: "sender_ok c (st\<lparr>srpb_bytes := n\<rparr>) = sender_ok c st"
  by (simp add: sender_ok_def window_ok_def marks_ok_def)

lemma windows_ok_updates [simp]:
  "windows_ok (h\<lparr>inbound := l\<rparr>) = windows_ok h"
  "windows_ok (h\<lparr>grant_pacer_backlog := n\<rparr>) = windows_ok h"
  "windows_ok (h\<lparr>data_pacer_backlog := n\<rparr>) = windows_ok h"
  "windows_ok (h\<lparr>credit_granted := w\<rparr>) = windows_ok h"
  "windows_ok (h\<lparr>credit_replenished := w\<rparr>) = windows_ok h"
  "windows_ok (h\<lparr>credit_data_granted := w\<rparr>) = windows_ok h"
  "windows_ok (h\<lparr>credit_data_request_rcvd := w\<rparr>) = windows_ok h"
  by (simp_all add: windows_ok_def)

lemma windows_srpb: "with_srpb addr n h = Some h' \<Longrightarrow> windows_ok h \<Longrightarrow> windows_ok h'"
  by (auto simp: with_srpb_def bind_eq_Some_conv windows_ok_def split: if_splits)

lemma new_sender_ok: "config_ok c \<Longrightarrow> sender_ok c (new_sender_state a (max_srpb c))"
  by (auto simp: sender_ok_def window_ok_def marks_ok_def new_sender_state_def config_ok_def)

lemma windows_sender:
  assumes "update_sender_state now pkt h = Some h'" "config_ok (cfg h)" "windows_ok h"
  shows "windows_ok h'"
proof -
  let ?st = "case sender_states h (hp_src pkt) of None \<Rightarrow> new_sender_state (hp_src pkt) (max_srpb (cfg h)) | Some st \<Rightarrow> st"
  obtain st where st: "update_sender now (cfg h) pkt ?st = Some st" "h' = h\<lparr>sender_states := (sender_states h)(hp_src pkt \<mapsto> st)\<rparr>"
    using assms(1) by (auto simp: update_sender_state_def bind_eq_Some_conv)
  have "sender_ok (cfg h) ?st" using assms(2,3) by (auto simp: windows_ok_def new_sender_ok split: option.splits)
  then have "sender_ok (cfg h) st" by (rule sender_ok_update [OF st(1) assms(2)])
  then show ?thesis using assms(3) unfolding st(2) by (simp add: windows_ok_def)
qed

lemma windows_grant: "send_credit_policy_common now pos h = Some (r, out, h') \<Longrightarrow> windows_ok h \<Longrightarrow> windows_ok h'"
  by (auto simp: send_credit_policy_common_def give_credit_def forward_grant_def bind_eq_Some_conv Let_def dest: windows_srpb split: if_splits)

lemma windows_message:
  assumes "recv_message pkt h = Some (out, h')" "windows_ok h"
  shows "windows_ok h'"
proof -
  have find: "find_or_add pkt h = Some (pos, h1) \<Longrightarrow> windows_ok h1" for pos h1
    using assms(2) by (auto simp: find_or_add_def bind_eq_Some_conv Let_def split: option.splits)
  have info: "message_info hdr pos h1 = Some h2 \<Longrightarrow> windows_ok h1 \<Longrightarrow> windows_ok h2" for hdr pos h1 h2
    by (auto simp: message_info_def unsolicited_credit_def bind_eq_Some_conv Let_def dest: windows_srpb split: if_splits)
  have data: "received_data pkt pos h1 = Some h2 \<Longrightarrow> windows_ok h1 \<Longrightarrow> windows_ok h2" for pos h1 h2
    by (auto simp: received_data_def bind_eq_Some_conv Let_def dest: windows_srpb split: if_splits)
  show ?thesis using assms(1) by (rule recv_message_cases) (blast dest: find info data)+
qed

definition windows_kept :: "hybrid \<Rightarrow> hybrid_output list \<Rightarrow> hybrid \<Rightarrow> bool" where
  "windows_kept h out h' \<longleftrightarrow> cfg h' = cfg h \<and> (config_ok (cfg h) \<longrightarrow> windows_ok h \<longrightarrow> windows_ok h')"

lemma cfg_sender: "sender_part h' = sender_part h \<Longrightarrow> cfg h' = cfg h"
  by (simp add: sender_part_def)

interpretation windows: receiver_relation windows_kept
proof
  fix h h' :: hybrid and out out' h''
  show "windows_kept h out h' \<Longrightarrow> windows_kept h' out' h'' \<Longrightarrow> windows_kept h (out @ out') h''"
    by (auto simp: windows_kept_def)
  show "receiver_part h' = receiver_part h \<Longrightarrow> windows_kept h out h'"
    by (auto simp: windows_kept_def windows_ok_def receiver_part_def)
qed (auto simp: windows_kept_def intro: cfg_sender sender_part_frames dest: windows_grant windows_sender windows_message)

lemma reachable_windows:
  assumes "hybrid_reachable lib c h" "lib_ok lib" "config_ok c"
  shows "cfg h = c \<and> windows_ok h"
  using assms
proof (induction rule: hybrid_reachable.induct)
  case (reach_init now)
  show ?case by (simp add: new_hybrid_def windows_ok_def)
next
  case (reach_step h out h')
  then show ?case using windows.host.step [OF reach_step.hyps(2)] by (simp add: windows_kept_def)
qed

text \<open>Property C10. Whatever marks its packets carry, the windows a receiver keeps for a sender lie between the
  least window configured and the budget of a sender, and the two moving averages of marked packets are shares:
  they lie between 0 and 1, so that the assertions on them, which allow a millionth more, never fail. No rounding
  of the arithmetic of doubles takes an average out of its range.\<close>
theorem hybrid_windows_bounded:
  assumes "hybrid_reachable lib c h" "lib_ok lib" "config_ok c" "sender_states h a = Some st"
  shows "nw_max_srpb_bytes st \<in> {nw_min_srpb c..max_srpb c} \<and> host_max_srpb_bytes st \<in> {host_min_srpb c..max_srpb c}
    \<and> max_srpb_bytes st \<in> {min (nw_min_srpb c) (host_min_srpb c)..max_srpb c}
    \<and> nw_marked_ratio st \<in> {0..1} \<and> host_marked_ratio st \<in> {0..1}
    \<and> ratio_in_range (nw_marked_ratio st) \<and> ratio_in_range (host_marked_ratio st)"
proof -
  have ok: "sender_ok c st" using reachable_windows [OF assms(1-3)] assms(4) by (auto simp: windows_ok_def)
  have "dbl (- 1 / 1000000) \<le> 0" "1 \<le> dbl (1000001 / 1000000)"
    using dbl_nonpos [of "- 1 / 1000000"] dbl_mono [of 1 "1000001 / 1000000"] by simp_all
  then have "0 \<le> r \<Longrightarrow> r \<le> 1 \<Longrightarrow> ratio_in_range r" for r unfolding ratio_in_range_def by linarith
  then show ?thesis using ok by (simp add: sender_ok_def window_ok_def)
qed

theorem hybrid_windows_bounded_witness:
  "sender_states sample_host 7 \<noteq> None \<and> nw_max_srpb_bytes (the (sender_states sample_host 7)) \<in> {1538..15380}"
proof -
  obtain st where st: "sender_states sample_host 7 = Some st" by (simp add: sample_host_def)
  have "config_ok sample_config" using dbl_scaled [of 1 "- 1"] by (simp add: config_ok_def sample_config_def powr_minus)
  from hybrid_windows_bounded [OF sample_reachable sample_lib_ok this st] show ?thesis
    by (simp add: st sample_config_def)
qed

end
