(* ===== verification/Hybrid_Grants.thy ===== *)
theory Hybrid_Grants
  imports Hybrid_Samples
begin

text \<open>
  What a round of grants spends, for each of the three policies: the laws of \<open>grant_relation\<close> for the budgets
  and for the packets that are sent.
\<close>

section \<open>Grants and what they cost\<close>

fun grant_credit :: "hybrid_output \<Rightarrow> int" where
  "grant_credit (Transport hdr n a) = hdr_credit hdr"
| "grant_credit (Layer hdr) = 0"

fun credit_to :: "int \<Rightarrow> hybrid_output list \<Rightarrow> int" where
  "credit_to a [] = 0"
| "credit_to a (Transport hdr n b # out) = (if a = b then hdr_credit hdr else 0) + credit_to a out"
| "credit_to a (Layer hdr # out) = credit_to a out"

lemma credit_to_append [simp]: "credit_to a (out @ out') = credit_to a out + credit_to a out'"
  by (induction a out rule: credit_to.induct) simp_all

fun proper_grant :: "hybrid_output \<Rightarrow> bool" where
  \<comment> \<open>what \<open>received_credit\<close> asserts of a grant\<close>
  "proper_grant (Transport hdr n a) \<longleftrightarrow> n = GRANT_MSG_SIZE \<and> hdr_msg_type hdr = GRANT
     \<and> MIN_ETHERNET_FRAME_ON_WIRE \<le> hdr_credit hdr \<and> hdr_credit hdr \<le> MAX_ETHERNET_FRAME_ON_WIRE
     \<and> 0 \<le> hdr_credit_pad hdr \<and> hdr_credit_pad hdr < MIN_R2P2_PAYLOAD \<and> hdr_credit_req hdr = 0"
| "proper_grant (Layer hdr) \<longleftrightarrow> False"

definition sender_spends :: "int \<Rightarrow> int \<Rightarrow> sender_state \<Rightarrow> sender_state \<Rightarrow> bool" where
  \<comment> \<open>a sender whose budget was \<open>cap\<close> at first has been given \<open>n\<close> bytes of credit\<close>
  "sender_spends cap n s s' \<longleftrightarrow> srpb_bytes s' = srpb_bytes s - n \<and> max_srpb_bytes s' = max_srpb_bytes s
     \<and> (0 \<le> srpb_bytes s \<longrightarrow> 0 \<le> srpb_bytes s')
     \<and> cap - srpb_bytes s' \<le> max (cap - srpb_bytes s) (max_srpb_bytes s + MAX_ETHERNET_FRAME_ON_WIRE)"

definition senders_spend :: "int \<Rightarrow> hybrid_output list \<Rightarrow> (int \<rightharpoonup> sender_state) \<Rightarrow> (int \<rightharpoonup> sender_state) \<Rightarrow> bool" where
  "senders_spend cap out st st' \<longleftrightarrow> (\<forall>a. case st a of
       None \<Rightarrow> st' a = None \<and> credit_to a out = 0
     | Some s \<Rightarrow> (\<exists>s'. st' a = Some s' \<and> sender_spends cap (credit_to a out) s s'))"

definition grants_spend :: "hybrid \<Rightarrow> hybrid_output list \<Rightarrow> hybrid \<Rightarrow> bool" where
  "grants_spend h out h' \<longleftrightarrow> cfg h' = cfg h \<and> (\<forall>x\<in>set out. proper_grant x)
     \<and> budget_bytes h' = budget_bytes h - sum_list (map grant_credit out)
     \<and> (0 \<le> budget_bytes h \<longrightarrow> 0 \<le> budget_bytes h')
     \<and> senders_spend (max_srpb (cfg h)) out (sender_states h) (sender_states h')"

lemma sender_spends_refl [simp]: "sender_spends cap 0 s s"
  by (simp add: sender_spends_def)

lemma sender_spends_trans: "sender_spends cap n s s' \<Longrightarrow> sender_spends cap n' s' s'' \<Longrightarrow> sender_spends cap (n + n') s s''"
  by (auto simp: sender_spends_def)

lemma senders_spend_refl [simp]: "senders_spend cap [] st st"
  by (simp add: senders_spend_def split: option.split)

lemma senders_spendD:
  assumes "senders_spend cap out st st'"
  shows "st a = None \<Longrightarrow> st' a = None \<and> credit_to a out = 0"
    "st a = Some s \<Longrightarrow> \<exists>s'. st' a = Some s' \<and> sender_spends cap (credit_to a out) s s'"
  using assms [unfolded senders_spend_def, rule_format, of a] by simp_all

lemma senders_spendI:
  assumes "\<And>a. st a = None \<Longrightarrow> st' a = None \<and> credit_to a out = 0"
    "\<And>a s. st a = Some s \<Longrightarrow> \<exists>s'. st' a = Some s' \<and> sender_spends cap (credit_to a out) s s'"
  shows "senders_spend cap out st st'"
  using assms by (auto simp: senders_spend_def split: option.split)

lemma senders_spend_trans:
  assumes "senders_spend cap out st st'" "senders_spend cap out' st' st''"
  shows "senders_spend cap (out @ out') st st''"
proof (rule senders_spendI)
  fix a s assume "st a = Some s"
  then obtain s' where s': "st' a = Some s'" "sender_spends cap (credit_to a out) s s'"
    using senders_spendD(2) [OF assms(1)] by blast
  then obtain s'' where "st'' a = Some s''" "sender_spends cap (credit_to a out') s' s''"
    using senders_spendD(2) [OF assms(2)] by blast
  then show "\<exists>s''. st'' a = Some s'' \<and> sender_spends cap (credit_to a (out @ out')) s s''"
    using sender_spends_trans [OF s'(2)] by simp
qed (use senders_spendD(1) [OF assms(1)] senders_spendD(1) [OF assms(2)] in simp)

section \<open>One grant\<close>

lemma grant_header_simps [simp]:
  "hdr_msg_type (grant_header now m credit padding) = GRANT" "hdr_credit (grant_header now m credit padding) = credit"
  "hdr_credit_pad (grant_header now m credit padding) = padding" "hdr_credit_req (grant_header now m credit padding) = 0"
  by (simp_all add: grant_header_def new_hdr_def)

lemma forward_grant_sends:
  assumes "forward_grant now pos credit padding h = Some (out, h')" "pos < length (msgs (inbound h))"
  shows "\<exists>m. out = [Transport (grant_header now m credit padding) GRANT_MSG_SIZE (im_remote_addr (msgs (inbound h) ! pos))]"
    "padding < MIN_R2P2_PAYLOAD"
  using assms by (auto simp: forward_grant_def transport_def bind_eq_Some_conv Let_def list_update_at_def)

lemma forward_grant_frame:
  assumes "forward_grant now pos credit padding h = Some (out, h')"
  shows "budget_bytes h' = budget_bytes h" "sender_states h' = sender_states h" "cfg h' = cfg h"
  using assms by (auto simp: forward_grant_def bind_eq_Some_conv Let_def)

lemma credit_needed_range:
  assumes "0 < uncredited_data m"
  shows "MIN_ETHERNET_FRAME_ON_WIRE \<le> credit_needed m" "credit_needed m \<le> MAX_ETHERNET_FRAME_ON_WIRE" "0 \<le> credit_padding m"
  using assms by (simp_all add: credit_needed_def credit_needed_data_def credit_padding_def r2p2_sizes)

lemma give_credit_spends:
  assumes "give_credit now pos m h = Some (out, h')" "sender_states h (im_remote_addr m) = Some st" "may_grant m st h"
    "0 < uncredited_data m" "pos < length (msgs (inbound h))" "m = msgs (inbound h) ! pos"
  shows "grants_spend h out h'"
proof -
  let ?a = "im_remote_addr m" and ?n = "credit_needed m"
  obtain h1 where h1: "with_srpb ?a (- ?n) h = Some h1"
    and fwd1: "forward_grant now pos ?n (credit_padding m) (h1\<lparr>credit_granted := credit_granted h1 + word_of_int ?n,
       credit_data_granted := credit_data_granted h1 + word_of_int (credit_needed_data m),
       grant_pacer_backlog := grant_pacer_backlog h1 + ?n,
       inbound := list_update_at pos (\<lambda>m'. m'\<lparr>data_bytes_granted := data_bytes_granted m'
         + word_of_int (credit_needed_data m)\<rparr>) (inbound h1)\<rparr>) = Some (out, h')"
    using assms(1) by (auto simp: give_credit_def bind_eq_Some_conv Let_def)
  have inb: "inbound h1 = inbound h" using h1 by (auto simp: with_srpb_def bind_eq_Some_conv)
  obtain h2 where h2: "budget_bytes h2 = budget_bytes h1" "sender_states h2 = sender_states h1" "cfg h2 = cfg h1"
      "pos < length (msgs (inbound h2))" "im_remote_addr (msgs (inbound h2) ! pos) = ?a"
    and fwd: "forward_grant now pos ?n (credit_padding m) h2 = Some (out, h')"
    by (rule that [OF _ _ _ _ _ fwd1]) (use assms(5,6) inb in \<open>simp_all add: list_update_at_def\<close>)
  have h1': "budget_bytes h1 = budget_bytes h - ?n" "cfg h1 = cfg h"
    "sender_states h1 = (sender_states h)(?a \<mapsto> st\<lparr>srpb_bytes := srpb_bytes st - ?n\<rparr>)"
    using h1 assms(2) by (auto simp: with_srpb_def bind_eq_Some_conv)
  note f = forward_grant_frame [OF fwd] and s = forward_grant_sends [OF fwd h2(4)]
  note n = credit_needed_range [OF assms(4)]
  obtain hdr where out: "out = [Transport hdr GRANT_MSG_SIZE ?a]" "hdr_credit hdr = ?n" "proper_grant (Transport hdr GRANT_MSG_SIZE ?a)"
    using s n h2(5) by auto
  have "sender_spends (max_srpb (cfg h)) ?n st (st\<lparr>srpb_bytes := srpb_bytes st - ?n\<rparr>)"
    using assms(3) n by (simp add: sender_spends_def may_grant_def max_def)
  then have "senders_spend (max_srpb (cfg h)) out (sender_states h) (sender_states h')"
    using assms(2) by (intro senders_spendI) (auto simp: f h2 h1' out(1,2))
  then show ?thesis using assms(3) out by (simp add: grants_spend_def f h2 h1' may_grant_def)
qed

lemma policy_spends:
  assumes "send_credit_policy_common now pos h = Some (r, out, h')" "pos < length (msgs (inbound h))"
  shows "grants_spend h out h'"
proof -
  let ?m = "msgs (inbound h) ! pos"
  consider "out = []" "h' = h \<or> (\<exists>l. h' = h\<lparr>inbound := l\<rparr>)"
    | st where "sender_states h (im_remote_addr ?m) = Some st" "may_grant ?m st h" "0 < uncredited_data ?m"
        "give_credit now pos ?m h = Some (out, h')"
    using assms(1) by (auto simp: send_credit_policy_common_def bind_eq_Some_conv Let_def split: if_splits)
  then show ?thesis
  proof cases
    case 1
    then show ?thesis by (auto simp: grants_spend_def)
  next
    case 2
    then show ?thesis using give_credit_spends [OF 2(4,1-3) assms(2)] by simp
  qed
qed

interpretation grants: grant_relation grants_spend
proof
  fix h h' :: hybrid and out out' h''
  show "grants_spend h out h' \<Longrightarrow> grants_spend h' out' h'' \<Longrightarrow> grants_spend h (out @ out') h''"
    by (auto simp: grants_spend_def intro: senders_spend_trans)
qed (erule (1) policy_spends | simp add: grants_spend_def)+


definition waiting_host :: hybrid where
  \<comment> \<open>a message of 1000 bytes waits for its credit\<close>
  "waiting_host = (new_hybrid sample_config 0)\<lparr>last_grant_time := - 1,
     sender_states := [7 \<mapsto> new_sender_state 7 15380], credit_data_request_rcvd := 1000,
     inbound := \<lparr>msgs = [\<lparr>im_req_id = (0, 0, 0), im_remote_addr = 7, im_seq = 0, first_header = new_hdr,
       data_bytes_expected = 1000, data_bytes_received = 0, data_bytes_granted = 0, received_msg_info = True\<rparr>], current = 0\<rparr>\<rparr>"

lemma waiting_grants: "\<exists>hdr h'. send_grants sample_lib 0 waiting_host = Some ([Transport hdr 4 7], h') \<and> hdr_credit hdr = 1080"
proof -
  have time: "\<not> dsub 0 (- 1) < dbl (48 / 100000000)" using dbl_mono [of "48 / 100000000" 1] by (simp add: dsub_def)
  have full: "\<not> dbl (1125 / 2) < 0" using dbl_nonneg [of "1125 / 2"] by linarith
  have zero: "dsub 0 0 = 0" "min 0 (dbl (1 / 100000)) = 0" by (simp_all add: dsub_def)
  show ?thesis using time full
    by (simp add: zero send_grants_def waiting_host_def new_hybrid_def sample_config_def update_grant_backlog_def pacer_drain_def
        double_to_int_def dmul_def ddiv_def receiver_policies send_grants_srpt_msg_def send_grants_sorted_def grant_pacer_full_def
        sample_lib_def list_reset_def list_sort_def list_next_def list_peek_next_def grant_one_def send_credit_policy_common_def
        uncredited_data_def u64_to_int_def may_grant_def give_credit_def with_srpb_def credit_needed_def credit_needed_data_def
        credit_padding_def forward_grant_def transport_def grant_checks_def list_update_at_def ratio_in_range_def
        new_sender_state_def r2p2_sizes Let_def dbl_nonpos)
qed


section \<open>The loops end, and how one of them fails\<close>

definition shrinks :: "hybrid \<Rightarrow> hybrid_output list \<Rightarrow> hybrid \<Rightarrow> bool" where
  "shrinks h out h' \<longleftrightarrow> length (msgs (inbound h')) \<le> length (msgs (inbound h))"

lemma shrinks_srpb: "with_srpb a n h = Some h' \<Longrightarrow> inbound h' = inbound h"
  by (auto simp: with_srpb_def bind_eq_Some_conv)

lemma shrinks_forward: "forward_grant now pos credit padding h = Some (out, h') \<Longrightarrow> length (msgs (inbound h')) = length (msgs (inbound h))"
  by (auto simp: forward_grant_def bind_eq_Some_conv Let_def list_update_at_def)

lemma shrinks_policy: "send_credit_policy_common now pos h = Some (r, out, h') \<Longrightarrow> shrinks h out h'"
  by (auto simp: shrinks_def send_credit_policy_common_def give_credit_def bind_eq_Some_conv Let_def list_update_at_def
      dest!: shrinks_srpb shrinks_forward remove_length split: if_splits)

interpretation shrinking: grant_relation shrinks
  by unfold_locales (erule shrinks_policy | (simp add: shrinks_def; fail) | (drule mset_eq_length, simp add: shrinks_def; fail))+

text \<open>One turn for every message is enough: more change nothing.\<close>
lemma ts_msg_loop_fuel:
  "length (msgs (inbound h)) \<le> i + n \<Longrightarrow> ts_msg_loop (n + k) now i r h = ts_msg_loop n now i r h"
proof (induction n arbitrary: i r h)
  case 0
  then show ?case by (cases k) auto
next
  case (Suc n)
  have rec: "ts_msg_loop (n + k) now (i + 1) r1 (h1\<lparr>inbound := l\<rparr>) = ts_msg_loop n now (i + 1) r1 (h1\<lparr>inbound := l\<rparr>)"
    if "list_peek_next (inbound h) = Some pos" "grant_one now pos r h = Some (r1, o1, h1)" "list_next (inbound h1) = Some (pos', l)"
    for pos r1 o1 h1 pos' l
  proof (rule Suc.IH)
    have "pos < length (msgs (inbound h))" using that(1) by (auto simp: list_peek_next_def split: if_splits)
    then have "length (msgs (inbound h1)) \<le> length (msgs (inbound h))"
      using shrinking.grant_one [OF that(2)] by (simp add: shrinks_def)
    moreover have "msgs l = msgs (inbound h1)" using that(3) by (auto simp: list_next_def bind_eq_Some_conv)
    ultimately show "length (msgs (inbound (h1\<lparr>inbound := l\<rparr>))) \<le> i + 1 + n" using Suc.prems by simp
  qed
  show ?case unfolding add_Suc ts_msg_loop.simps(2) using rec
    by (auto intro!: Option.bind_cong)
qed

lemma in_order_loop_fuel:
  "length (msgs (inbound h)) \<le> i + n \<Longrightarrow> in_order_loop (n + k) now i r h = in_order_loop n now i r h"
proof (induction n arbitrary: i r h)
  case 0
  then show ?case by (cases k) auto
next
  case (Suc n)
  have rec: "in_order_loop (n + k) now (i + 1) r1 h1 = in_order_loop n now (i + 1) r1 h1"
    if "list_next (inbound h) = Some (pos, l)" "grant_one now pos r (h\<lparr>inbound := l\<rparr>) = Some (r1, o1, h1)" for pos l r1 o1 h1
  proof (rule Suc.IH)
    have "pos < length (msgs l)" "msgs l = msgs (inbound h)" using that(1) by (auto simp: list_next_def list_peek_next_def
        bind_eq_Some_conv split: if_splits)
    then show "length (msgs (inbound h1)) \<le> i + 1 + n"
      using shrinking.grant_one [OF that(2)] Suc.prems by (simp add: shrinks_def)
  qed
  show ?case unfolding add_Suc in_order_loop.simps(2) using rec
    by (auto intro!: Option.bind_cong)
qed

definition completed :: "in_msg \<Rightarrow> bool" where
  \<comment> \<open>received and granted in full\<close>
  "completed m \<longleftrightarrow> received_msg_info m \<and> data_bytes_expected m > 0 \<and> data_bytes_received m = data_bytes_expected m
     \<and> data_bytes_granted m = data_bytes_expected m"

lemma completed_removed:
  assumes "msgs (inbound h) = [m]" "completed m"
  shows "grant_one now 0 r h = Some (2, [], h\<lparr>inbound := (inbound h)\<lparr>msgs := [], current := 0\<rparr>\<rparr>)"
  using assms by (simp add: grant_one_def send_credit_policy_common_def completed_def list_remove_def list_find_pos_def)

text \<open>Property C17. A message that has been received in full before all of it was granted is removed by the loop
  over the grants. When it is the only message, the loop of the round robin policy fails: it calls \<open>next\<close> on the
  list it has just emptied, which throws. The policies that sort call \<open>next\<close> first and go on.\<close>
theorem hybrid_round_robin_throws:
  assumes "msgs (inbound h) = [m]" "list_ok (inbound h)" "completed m" "\<not> grant_pacer_full h" "pace_grants (cfg h)" "lib_ok lib"
  shows "send_grants_ts_msg now h = None
    \<and> send_grants_srpt_msg lib now h = Some ([], h\<lparr>inbound := new_msg_list\<rparr>)
    \<and> send_grants_equal_bif_msg lib now h = Some ([], h\<lparr>inbound := new_msg_list\<rparr>)"
proof -
  have cur: "current (inbound h) = 0" using assms(1,2) by (simp add: list_ok_def)
  have "ts_msg_loop (Suc 0) now 0 (- 1) h = None"
    using assms(1,4) cur completed_removed [OF assms(1,3)] by (simp add: list_peek_next_def list_next_def)
  then have ts: "send_grants_ts_msg now h = None" using assms(1) by (simp add: send_grants_ts_msg_def)
  have sorted: "send_grants_sorted srt now h = Some ([], h\<lparr>inbound := new_msg_list\<rparr>)" if "\<And>ms. mset (srt ms) = mset ms" for srt
  proof -
    have srt: "srt [m] = [m]" using that [of "[m]"] by simp
    let ?h = "h\<lparr>inbound := list_reset (list_sort srt (inbound h))\<rparr>"
    have "?h = h" using assms(1) cur srt by (simp add: list_reset_def list_sort_def)
    moreover have "list_next (inbound h) = Some (0, inbound h)"
      using assms(1) cur by (simp add: list_next_def list_peek_next_def)
    ultimately have "in_order_loop (Suc 0) now 0 (- 1) ?h = Some ([], h\<lparr>inbound := new_msg_list\<rparr>)"
      using assms(1,4,5) completed_removed [OF assms(1,3)] by (simp add: new_msg_list_def)
    then show ?thesis using assms(1,4) by (simp add: send_grants_sorted_def)
  qed
  show ?thesis using ts sorted assms(6)
    by (simp add: send_grants_srpt_msg_def send_grants_equal_bif_msg_def lib_ok_def)
qed

definition finished_host :: hybrid where
  "finished_host = waiting_host\<lparr>inbound := \<lparr>msgs = [\<lparr>im_req_id = (0, 0, 0), im_remote_addr = 7, im_seq = 0,
     first_header = new_hdr, data_bytes_expected = 1000, data_bytes_received = 1000, data_bytes_granted = 1000,
     received_msg_info = True\<rparr>], current = 0\<rparr>\<rparr>"

theorem hybrid_round_robin_throws_witness:
  "send_grants_ts_msg 0 finished_host = None
    \<and> send_grants_srpt_msg sample_lib 0 finished_host = Some ([], finished_host\<lparr>inbound := new_msg_list\<rparr>)"
proof -
  let ?m = "hd (msgs (inbound finished_host))"
  have m: "msgs (inbound finished_host) = [?m]" "completed ?m" "list_ok (inbound finished_host)"
    by (simp_all add: finished_host_def completed_def list_ok_def)
  have "\<not> dbl (1125 / 2) < 0" using dbl_nonneg [of "1125 / 2"] by linarith
  then have "\<not> grant_pacer_full finished_host" "pace_grants (cfg finished_host)"
    by (simp_all add: grant_pacer_full_def finished_host_def waiting_host_def new_hybrid_def sample_config_def dmul_def)
  from hybrid_round_robin_throws [OF m(1,3,2) this sample_lib_ok] show ?thesis by blast
qed

end
