(* ===== verification/Hybrid_Credit.thy ===== *)
theory Hybrid_Credit
  imports Hybrid_Samples
begin

text \<open>
  The credit of a sender: what it holds for each receiver, and the counters of the credit it has received or
  given itself and of the credit it has used.
\<close>

section \<open>The accounts of a sender\<close>

definition held_credit :: "hybrid \<Rightarrow> int" where
  "held_credit h = sum_list (map (\<lambda>(a, r). avail_credit_bytes r) (remotes h))"

definition credit_ok :: "hybrid \<Rightarrow> bool" where
  "credit_ok h \<longleftrightarrow> distinct (map fst (remotes h)) \<and> (\<forall>(a, r)\<in>set (remotes h). 0 \<le> avail_credit_bytes r)
     \<and> credit_received h - credit_used h = word_of_int (held_credit h)"

lemma credit_ok_part: "sender_part h = sender_part g \<Longrightarrow> credit_ok h = credit_ok g"
  by (simp add: credit_ok_def held_credit_def sender_part_def)

lemma credit_ok_updates [simp]:
  "credit_ok (h\<lparr>outbound_inactive := ol\<rparr>) = credit_ok h"
  "credit_ok (h\<lparr>policy_states := pss\<rparr>) = credit_ok h"
  "credit_ok (h\<lparr>credit_data_received := w\<rparr>) = credit_ok h"
  "credit_ok (h\<lparr>credit_data_requested := w\<rparr>) = credit_ok h"
  "credit_ok (h\<lparr>data_pacer_backlog := n\<rparr>) = credit_ok h"
  by (simp_all add: credit_ok_def held_credit_def)

lemma keys_update: "map fst (map (\<lambda>(a, r). (a, if a = addr then f r else r)) rs) = map fst rs"
  by (induction rs) auto

lemma held_update:
  assumes "distinct (map fst rs)" "map_of rs addr = Some r"
  shows "sum_list (map (\<lambda>(a, r). avail_credit_bytes r) (map (\<lambda>(a, r). (a, if a = addr then f r else r)) rs))
    = sum_list (map (\<lambda>(a, r). avail_credit_bytes r) rs) + (avail_credit_bytes (f r) - avail_credit_bytes r)"
  using assms
proof (induction rs)
  case (Cons p rs)
  obtain a q where p: "p = (a, q)" by fastforce
  show ?case
  proof (cases "a = addr")
    case True
    have "map (\<lambda>(a, r). (a, if a = addr then f r else r)) rs = rs"
      using Cons.prems(1) True p by (intro map_idI) force
    then show ?thesis using Cons.prems True p by simp
  qed (use Cons p in simp)
qed simp

lemma update_remote_held:
  assumes "credit_ok h" "find_remote addr h = Some r"
  shows "held_credit (update_remote addr f h) = held_credit h + (avail_credit_bytes (f r) - avail_credit_bytes r)"
    "distinct (map fst (remotes (update_remote addr f h)))"
  using assms held_update [of "remotes h" addr r f]
  by (simp_all add: credit_ok_def held_credit_def update_remote_def find_remote_def keys_update del: map_map)

lemma update_remote_nonneg:
  assumes "credit_ok h" "find_remote addr h = Some r" "0 \<le> avail_credit_bytes (f r)"
  shows "\<forall>(a, r)\<in>set (remotes (update_remote addr f h)). 0 \<le> avail_credit_bytes r"
proof -
  have "r' = r" if "(addr, r') \<in> set (remotes h)" for r'
    using that assms(1,2) map_of_is_SomeI [of "remotes h" addr r'] by (simp add: credit_ok_def find_remote_def)
  then show ?thesis using assms(1,3) by (fastforce simp: update_remote_def credit_ok_def split: if_splits)
qed

lemma update_remote_counters [simp]:
  "credit_received (update_remote addr f h) = credit_received h" "credit_used (update_remote addr f h) = credit_used h"
  by (simp_all add: update_remote_def)

lemma found_nonneg: "credit_ok h \<Longrightarrow> find_remote addr h = Some r \<Longrightarrow> 0 \<le> avail_credit_bytes r"
  by (auto simp: credit_ok_def find_remote_def dest: map_of_SomeD)

lemma credit_same:
  assumes "credit_ok h" "find_remote addr h = Some r" "avail_credit_bytes (f r) = avail_credit_bytes r"
  shows "credit_ok (update_remote addr f h)"
  using assms update_remote_held [OF assms(1,2), of f] update_remote_nonneg [OF assms(1,2), of f] found_nonneg [OF assms(1,2)]
  by (simp add: credit_ok_def)

lemma credit_gained:
  assumes "credit_ok h" "find_remote addr h = Some r" "0 \<le> n" "avail_credit_bytes (f r) = avail_credit_bytes r + n"
  shows "credit_ok ((update_remote addr f h)\<lparr>credit_received := credit_received h + word_of_int n\<rparr>)"
proof -
  have "\<forall>(a, r)\<in>set (remotes (update_remote addr f h)). 0 \<le> avail_credit_bytes r"
    using update_remote_nonneg [OF assms(1,2), of f] found_nonneg [OF assms(1,2)] assms(3,4) by simp
  moreover have "held_credit ((update_remote addr f h)\<lparr>credit_received := credit_received h + word_of_int n\<rparr>) = held_credit h + n"
    using update_remote_held(1) [OF assms(1,2), of f] assms(4) by (simp add: held_credit_def)
  ultimately show ?thesis using assms(1) update_remote_held(2) [OF assms(1,2), of f]
    by (simp add: credit_ok_def algebra_simps)
qed

lemma credit_spent:
  assumes "credit_ok h" "find_remote addr h = Some r" "0 \<le> avail_credit_bytes (f r)"
    "avail_credit_bytes (f r) = avail_credit_bytes r - n"
  shows "credit_ok ((update_remote addr f h)\<lparr>credit_used := credit_used h + word_of_int n\<rparr>)"
proof -
  have "held_credit ((update_remote addr f h)\<lparr>credit_used := credit_used h + word_of_int n\<rparr>) = held_credit h - n"
    using update_remote_held(1) [OF assms(1,2), of f] assms(4) by (simp add: held_credit_def)
  then show ?thesis using assms(1) update_remote_held(2) [OF assms(1,2), of f] update_remote_nonneg [OF assms(1,2), of f] assms(3)
    by (simp add: credit_ok_def)
qed

section \<open>Every operation keeps them\<close>

lemma credit_create: "credit_ok h \<Longrightarrow> credit_ok (find_or_create lib addr h)"
  by (auto simp: find_or_create_def credit_ok_def held_credit_def find_remote_def new_receiver_state_def map_of_eq_None_iff
      split: option.splits)

lemma credit_add_outbound: "add_outbound_msg m h = Some h' \<Longrightarrow> credit_ok h \<Longrightarrow> credit_ok h'"
  by (auto simp: add_outbound_msg_def bind_eq_Some_conv intro: credit_same)

lemma credit_activates_kept: "credit_activates req h = Some h' \<Longrightarrow> credit_ok h \<Longrightarrow> credit_ok h'"
  by (auto simp: credit_activates_def bind_eq_Some_conv Let_def dest: credit_add_outbound split: option.splits)

lemma find_outbound_msg_None [simp]: "find_outbound_msg addr req h = None"
  by (simp add: find_outbound_msg_def split: option.split)

lemma credit_received_kept:
  assumes "received_credit pkt h = Some h'" "credit_ok h"
  shows "credit_ok h'"
  using assms by (auto simp: received_credit_def bind_eq_Some_conv Let_def r2p2_sizes
      dest!: credit_activates_kept intro!: credit_gained)

lemma credit_self:
  assumes "self_credit pos h = Some h'" "credit_ok h"
  shows "credit_ok h'"
  using assms by (auto simp: self_credit_def bind_eq_Some_conv Let_def case_prod_beta r2p2_sizes split: if_splits
      intro!: credit_gained)

lemma credit_request: "request_credit m h = Some (out, h') \<Longrightarrow> credit_ok h \<Longrightarrow> credit_ok h'"
  by (auto simp: request_credit_def bind_eq_Some_conv Let_def)

lemma credit_activate: "activate_msg pos h = Some (out, h') \<Longrightarrow> credit_ok h \<Longrightarrow> credit_ok h'"
  by (auto simp: activate_msg_def bind_eq_Some_conv Let_def dest!: credit_request credit_add_outbound split: if_splits)

lemma credit_start: "start_messages h = Some (out, h') \<Longrightarrow> credit_ok h \<Longrightarrow> credit_ok h'"
  by (erule start_messages_keeps) (auto dest: credit_self credit_activate)

lemma want_to_send_avail: "want_to_send lib r ps = Some (r', ps') \<Longrightarrow> avail_credit_bytes r' = avail_credit_bytes r"
  by (auto simp: want_to_send_def bind_eq_Some_conv Let_def split: if_splits)

lemma credit_scan: "scan_receivers lib policy pss sc h = Some (pss', sc', h') \<Longrightarrow> credit_ok h \<Longrightarrow> credit_ok h'"
proof (induction lib policy pss sc h arbitrary: pss' sc' rule: scan_receivers.induct)
  case (2 lib policy addr ps rest sc h)
  then obtain r r' ps1 where s: "find_remote addr h = Some r" "want_to_send lib r ps = Some (r', ps1)"
    "credit_ok (update_remote addr (\<lambda>_. r') h) \<Longrightarrow> credit_ok h'"
    by (fastforce simp: bind_eq_Some_conv)
  show ?case by (rule s(3), rule credit_same [OF 2(3) s(1)]) (rule want_to_send_avail [OF s(2)])
qed simp

lemma credit_policy: "update_policy_state lib h = Some h' \<Longrightarrow> credit_ok h \<Longrightarrow> credit_ok h'"
  by (auto simp: update_policy_state_def bind_eq_Some_conv Let_def dest!: credit_scan split: if_splits)

lemma credit_spent_word:
  assumes "credit_ok h" "find_remote addr h = Some r" "0 \<le> avail_credit_bytes (f r)"
    "avail_credit_bytes (f r) = avail_credit_bytes r - uint (t :: 32 word)"
  shows "credit_ok ((update_remote addr f h)\<lparr>credit_used := credit_used h + ucast t\<rparr>)"
  using credit_spent [where f = f, OF assms] by (simp only: ucast_eq)

lemma find_remote_requested [simp]: "find_remote addr (h\<lparr>credit_data_requested := w\<rparr>) = find_remote addr h"
  by (simp add: find_remote_def)

lemma credit_packet:
  assumes "send_packet addr h = Some (out, h')" "credit_ok h"
  shows "credit_ok h'"
proof -
  obtain r t f h1 n where p: "find_remote addr h = Some r" "0 \<le> avail_credit_bytes r - uint (t :: 32 word)"
    "\<And>r. avail_credit_bytes (f r) = avail_credit_bytes r - uint t" "h1 = h\<lparr>credit_data_requested := n\<rparr>"
    "h' = (update_remote addr f h1)\<lparr>credit_used := credit_used h1 + ucast t,
       data_pacer_backlog := data_pacer_backlog h1 + uint t\<rparr>"
    using assms(1) unfolding send_packet_def Let_def bind_eq_Some_conv option.inject Pair_inject
    by (elim exE conjE) (rule that, assumption, simp, auto)
  have "credit_ok h1" "find_remote addr h1 = Some r" using assms(2) p(1) unfolding p(4) by simp_all
  then show ?thesis unfolding p(5) using credit_spent_word [of h1 addr r f t] p(2,3) by simp
qed

lemma credit_chosen: "send_chosen lib h = Some (out, h') \<Longrightarrow> credit_ok h \<Longrightarrow> credit_ok h'"
  by (auto simp: send_chosen_def bind_eq_Some_conv Let_def dest!: credit_policy credit_packet split: option.splits)

section \<open>The accounts of every reachable host\<close>

definition credit_kept :: "hybrid \<Rightarrow> hybrid_output list \<Rightarrow> hybrid \<Rightarrow> bool" where
  "credit_kept h out h' \<longleftrightarrow> (credit_ok h \<longrightarrow> credit_ok h')"

interpretation credits: sender_relation credit_kept
proof
  fix h h' :: hybrid and out out' h''
  show "credit_kept h out h' \<Longrightarrow> credit_kept h' out' h'' \<Longrightarrow> credit_kept h (out @ out') h''"
    by (simp add: credit_kept_def)
  show "sender_part h' = sender_part h \<Longrightarrow> credit_kept h out h'"
    using credit_ok_part [of h' h] by (simp add: credit_kept_def)
qed (simp_all add: credit_kept_def credit_create credit_received_kept credit_start credit_chosen)

lemma credit_new [simp]: "credit_ok (new_hybrid c now)"
  by (simp add: credit_ok_def held_credit_def new_hybrid_def)

lemma reachable_credit: "hybrid_reachable lib c h \<Longrightarrow> lib_ok lib \<Longrightarrow> credit_ok h"
  by (induction rule: hybrid_reachable.induct) (auto simp: credit_kept_def dest!: credits.host.step)

lemma available_is_held: "get_total_available_credit h = word_of_int (held_credit h)"
proof -
  have "sum_list (map (\<lambda>(a, r). word_of_int (avail_credit_bytes r)) rs)
      = (word_of_int (sum_list (map (\<lambda>(a, r). avail_credit_bytes r) rs)) :: 64 word)" for rs :: "(int \<times> receiver_state) list"
    by (induction rs) auto
  then show ?thesis by (simp add: get_total_available_credit_def held_credit_def)
qed

text \<open>Property C9. At any time, whatever packets have arrived, been asked for and been sent, the credit that a
  sender holds for its receivers, added up as \<open>get_total_available_credit\<close> does, is the credit it has counted as received
  (from receivers and from itself) less the credit it has counted as used, and it is not overdrawn with any receiver.\<close>
theorem hybrid_credit_accounted:
  assumes "hybrid_reachable lib c h" "lib_ok lib"
  shows "get_total_available_credit h = credit_received h - credit_used h
    \<and> list_all (\<lambda>(a, r). 0 \<le> avail_credit_bytes r) (remotes h)"
  using reachable_credit [OF assms] by (simp add: available_is_held credit_ok_def list_all_iff)

theorem hybrid_credit_accounted_witness:
  "get_total_available_credit polled_host = credit_received polled_host - credit_used polled_host
    \<and> list_all (\<lambda>(a, r). 0 \<le> avail_credit_bytes r) (remotes polled_host)
    \<and> get_total_available_credit polled_host = 1538 \<and> credit_used polled_host = 1538"
proof -
  have "get_total_available_credit polled_host = 1538" "credit_used polled_host = 1538"
    by (simp_all add: polled_host_def sent_host_def get_total_available_credit_def)
  then show ?thesis using hybrid_credit_accounted [OF polled_reachable sample_lib_ok] by blast
qed

end
