(* ===== verification/Hybrid_Choice.thy ===== *)
theory Hybrid_Choice
  imports Hybrid_Samples
begin

text \<open>
  The choice of a sender: \<open>select_msg_to_send\<close> finds a receiver whenever there is one that can be sent a
  packet, so that the sender is work conserving.
\<close>

section \<open>Receivers that can be sent a packet\<close>

definition affordable :: "receiver_state \<Rightarrow> out_msg \<Rightarrow> bool" where
  "affordable r m \<longleftrightarrow> (ucast (to_send_bytes m) :: u64) \<le> word_of_int (avail_credit_bytes r)"

definition wants :: "receiver_state \<Rightarrow> bool" where
  \<comment> \<open>there is credit for the next packet of some message\<close>
  "wants r \<longleftrightarrow> (\<exists>m\<in>set (msgs (out_msgs r)). affordable r m)"

lemma list_next_at:
  "current l < length (msgs l) \<Longrightarrow> list_next l = Some (current l, l\<lparr>current := (current l + 1) mod length (msgs l)\<rparr>)"
  by (auto simp: list_next_def list_peek_next_def)

lemma want_loop_can_send:
  assumes "want_loop n credit l ps = Some (ps', l')" "n = 0 \<or> current l + n = length (msgs l)"
  shows "(ps_can_send ps' \<longleftrightarrow> ps_can_send ps \<or> (\<exists>m\<in>set (take n (drop (current l) (msgs l))). ucast (to_send_bytes m) \<le> credit))
    \<and> msgs l' = msgs l"
  using assms
proof (induction n credit l ps rule: want_loop.induct)
  case (2 n credit l ps)
  let ?k = "current l" let ?m = "msgs l ! ?k" let ?l = "l\<lparr>current := (?k + 1) mod length (msgs l)\<rparr>"
  let ?ps = "if ucast (to_send_bytes ?m) \<le> credit \<and> (ps_can_send ps \<longrightarrow> \<not> sent_anouncement ?m) then ps_take ?k ?m ps else ps"
  have k: "?k < length (msgs l)" using 2(3) by simp
  have loop: "want_loop n credit ?l ?ps = Some (ps', l')"
    and c: "to_send_bytes ?m \<ge> word_of_int MIN_ETHERNET_FRAME_ON_WIRE" "to_send_bytes ?m \<le> word_of_int MAX_ETHERNET_FRAME_ON_WIRE"
    using 2(2) list_next_at [OF k] by (auto simp: bind_eq_Some_conv Let_def)
  have turn: "n = 0 \<or> (?k + 1) mod length (msgs l) = Suc ?k" using 2(3) by (cases "n = 0") simp_all
  then have "n = 0 \<or> current ?l + n = length (msgs ?l)" using 2(3) by auto
  then have IH: "(ps_can_send ps' \<longleftrightarrow> ps_can_send ?ps \<or> (\<exists>m\<in>set (take n (drop (current ?l) (msgs ?l))). ucast (to_send_bytes m) \<le> credit))
      \<and> msgs l' = msgs ?l"
    using 2(1) [OF list_next_at [OF k] refl refl] c loop by (simp cong: if_cong)
  have "take n (drop (current ?l) (msgs ?l)) = take n (drop (Suc ?k) (msgs l))"
    using turn by (cases "n = 0") auto
  moreover have "take (Suc n) (drop ?k (msgs l)) = ?m # take n (drop (Suc ?k) (msgs l))"
    using Cons_nth_drop_Suc [OF k] by (metis take_Suc_Cons)
  moreover have "ps_can_send ?ps \<longleftrightarrow> ps_can_send ps \<or> ucast (to_send_bytes ?m) \<le> credit"
    by (auto simp: ps_take_def)
  ultimately show ?case using IH by auto
qed simp

lemma set_sorted: "lib_ok lib \<Longrightarrow> set (sort_by_unsent lib ms) = set ms" "lib_ok lib \<Longrightarrow> length (sort_by_unsent lib ms) = length ms"
  using mset_eq_setD [of "sort_by_unsent lib ms" ms] mset_eq_length [of "sort_by_unsent lib ms" ms] by (simp_all add: lib_ok_def)

lemma want_to_send_wants:
  assumes "want_to_send lib r ps = Some (r', ps')" "lib_ok lib"
  shows "ps_can_send ps' \<longleftrightarrow> wants r" "wants r' \<longleftrightarrow> wants r"
proof -
  let ?l = "list_reset (list_sort (sort_by_unsent lib) (out_msgs r))"
  have "(ps_can_send ps' \<longleftrightarrow> wants r) \<and> (wants r' \<longleftrightarrow> wants r)"
  proof (cases "msgs (out_msgs r) = []")
    case True
    then show ?thesis using assms by (auto simp: want_to_send_def wants_def)
  next
    case False
    then obtain ps1 l where w: "want_loop (length (msgs (out_msgs r))) (word_of_int (avail_credit_bytes r)) ?l
         (ps\<lparr>ps_can_send := False, ps_msg := None, ps_want_to_send_bytes := 0\<rparr>) = Some (ps1, l)"
      "r' = r\<lparr>out_msgs := l\<rparr>" "ps_can_send ps' = ps_can_send ps1"
      using assms by (auto simp: want_to_send_def bind_eq_Some_conv Let_def split: if_splits)
    have l: "set (msgs ?l) = set (msgs (out_msgs r))" "length (msgs ?l) = length (msgs (out_msgs r))" "current ?l = 0"
      using set_sorted [OF assms(2)] by (simp_all add: list_reset_def list_sort_def)
    have "(ps_can_send ps1 \<longleftrightarrow> (\<exists>m\<in>set (msgs ?l). ucast (to_send_bytes m) \<le> (word_of_int (avail_credit_bytes r) :: u64)))
        \<and> msgs l = msgs ?l"
      using want_loop_can_send [OF w(1)] l(2,3) by simp
    then show ?thesis using w(2,3) l(1) by (simp add: wants_def affordable_def)
  qed
  then show "ps_can_send ps' \<longleftrightarrow> wants r" "wants r' \<longleftrightarrow> wants r" by simp_all
qed

section \<open>The scan of the receivers\<close>

definition able :: "(int \<times> policy_state) list \<Rightarrow> int set" where
  "able pss = {a. \<exists>ps. (a, ps) \<in> set pss \<and> ps_can_send ps}"

lemma able_simps [simp]:
  "able [] = {}" "able ((a, ps) # pss) = (if ps_can_send ps then insert a (able pss) else able pss)"
  by (auto simp: able_def)

definition wanting :: "hybrid \<Rightarrow> int set" where
  "wanting h = {a. \<exists>r. find_remote a h = Some r \<and> wants r}"

lemma scan_able:
  assumes "scan_receivers lib policy pss sc h = Some (pss', sc', h')" "lib_ok lib" "0 \<le> sc_num_can_send sc"
  shows "map fst pss' = map fst pss \<and> able pss' = wanting h \<inter> set (map fst pss) \<and> wanting h' = wanting h
    \<and> sc_num_can_send sc \<le> sc_num_can_send sc' \<and> (sc_num_can_send sc' = sc_num_can_send sc \<longrightarrow> able pss' = {})"
  using assms
proof (induction lib policy pss sc h arbitrary: pss' sc' h' rule: scan_receivers.induct)
  case (2 lib policy addr ps rest sc h)
  obtain r r' ps1 sc1 pss1 where s: "find_remote addr h = Some r" "want_to_send lib r ps = Some (r', ps1)"
    "(if ps_can_send ps1 then do { pos \<leftarrow> ps_msg ps1; scan_one policy addr r' (msgs (out_msgs r') ! pos) sc }
      else do { check (ps_deficit ps1 < dbl (1 / 1000000)); Some sc }) = Some sc1"
    "check (ps_deficit ps1 \<ge> 0) = Some ()" "scan_receivers lib policy rest sc1 (update_remote addr (\<lambda>_. r') h) = Some (pss1, sc', h')" "pss' = (addr, ps1) # pss1"
    using 2(2) by (fastforce simp: bind_eq_Some_conv)
  note w = want_to_send_wants [OF s(2) 2(3)]
  have sc1: "sc_num_can_send sc1 = sc_num_can_send sc + (if ps_can_send ps1 then 1 else 0)"
    using s(3) by (auto simp: scan_one_def bind_eq_Some_conv Let_def split: if_splits)
  have same: "wanting (update_remote addr (\<lambda>_. r') h) = wanting h"
    using s(1) w(2) by (auto simp: wanting_def find_update split: if_splits)
  have IH: "map fst pss1 = map fst rest \<and> able pss1 = wanting h \<inter> set (map fst rest) \<and> wanting h' = wanting h
      \<and> sc_num_can_send sc1 \<le> sc_num_can_send sc' \<and> (sc_num_can_send sc' = sc_num_can_send sc1 \<longrightarrow> able pss1 = {})"
    using 2(1) [OF s(1) s(2) refl s(3) s(4) s(5) 2(3)] 2(4) sc1 unfolding same by (cases "ps_can_send ps1") auto
  have "ps_can_send ps1 \<longleftrightarrow> addr \<in> wanting h" using w(1) s(1) by (simp add: wanting_def)
  then show ?case using IH sc1 unfolding s(6) by (cases "ps_can_send ps1") auto
qed (auto simp: able_def)

lemma add_quantum_able:
  assumes "add_quantum sc high low (addr, ps) = Some p" "0 \<le> high" "0 \<le> low"
  obtains ps' where "p = (addr, ps')" "ps_can_send ps' = ps_can_send ps" "ps_can_send ps \<longrightarrow> 0 \<le> ps_deficit ps'"
proof -
  have "0 \<le> ps_deficit ps \<Longrightarrow> 0 \<le> q \<Longrightarrow> 0 \<le> dadd (ps_deficit ps) q" for q by (simp add: dadd_def)
  then show ?thesis using assms by (auto simp: add_quantum_def bind_eq_Some_conv Let_def split: if_splits intro: that)
qed

definition ready :: "(int \<times> policy_state) list \<Rightarrow> bool" where
  "ready pss \<longleftrightarrow> (\<forall>(a, ps)\<in>set pss. ps_can_send ps \<longrightarrow> 0 \<le> ps_deficit ps)"

lemma quanta_able:
  assumes "map_checked (add_quantum sc high low) pss = Some pss'" "0 \<le> high" "0 \<le> low"
  shows "map fst pss' = map fst pss \<and> able pss' = able pss \<and> ready pss'"
  using assms(1)
proof (induction pss arbitrary: pss')
  case (Cons p pss)
  obtain addr ps where p: "p = (addr, ps)" by fastforce
  obtain q qs where q: "add_quantum sc high low (addr, ps) = Some q" "map_checked (add_quantum sc high low) pss = Some qs" "pss' = q # qs"
    using Cons(2) unfolding p by (auto simp: bind_eq_Some_conv)
  obtain ps' where ps': "q = (addr, ps')" "ps_can_send ps' = ps_can_send ps" "ps_can_send ps \<longrightarrow> 0 \<le> ps_deficit ps'"
    using add_quantum_able [OF q(1) assms(2,3)] by blast
  then show ?case using Cons(1) [OF q(2)] ps' unfolding p q(3) by (simp add: ready_def)
qed (simp add: ready_def)

lemma policy_able:
  assumes "update_policy_state lib h = Some h'" "lib_ok lib"
  shows "map fst (policy_states h') = map fst (policy_states h)
    \<and> able (policy_states h') = wanting h \<inter> set (map fst (policy_states h)) \<and> ready (policy_states h')"
proof -
  let ?policy = "sender_policy (cfg h)"
  obtain pss sc h1 where s: "scan_receivers lib ?policy (policy_states h) (new_scan ?policy) h = Some (pss, sc, h1)"
    using assms(1) by (auto simp: update_policy_state_def bind_eq_Some_conv)
  have a: "map fst pss = map fst (policy_states h) \<and> able pss = wanting h \<inter> set (map fst (policy_states h))
      \<and> (sc_num_can_send sc = 0 \<longrightarrow> able pss = {})"
    using scan_able [OF s assms(2)] by (auto simp: new_scan_def)
  show ?thesis
  proof (cases "sc_num_can_send sc = 0")
    case True
    then have "policy_states h' = pss" using assms(1) s by (auto simp: update_policy_state_def bind_eq_Some_conv Let_def)
    moreover have "ready pss" using a True by (auto simp: ready_def able_def)
    ultimately show ?thesis using a by simp
  next
    case False
    define n where "n = sc_num_can_send sc"
    define pss1 where "pss1 = map (\<lambda>(addr, ps). (addr, ps\<lparr>ps_num_can_send := n\<rparr>)) pss"
    obtain pss2 where q: "map_checked (add_quantum sc (high_prio_quantum (cfg h1) n) (low_prio_quantum (cfg h1) n)) pss1 = Some pss2"
      "0 \<le> high_prio_quantum (cfg h1) n" "0 \<le> low_prio_quantum (cfg h1) n" "policy_states h' = pss2"
      using assms(1) s False unfolding pss1_def n_def by (auto simp: update_policy_state_def bind_eq_Some_conv Let_def)
    have "map fst pss1 = map fst pss \<and> able pss1 = able pss" unfolding pss1_def by (induction pss) auto
    then show ?thesis using quanta_able [OF q(1-3)] a unfolding q(4) by simp
  qed
qed

section \<open>The choice\<close>

lemma spend_keys: "map fst (map (spend a) pss) = map fst pss"
  by (induction pss) (auto simp: spend_def)

lemma re_add_able:
  assumes "map_checked re_add pss = Some pss'" "ready pss"
  shows "map fst pss' = map fst pss \<and> able pss' = able pss \<and> ready pss'"
  using assms
proof (induction pss arbitrary: pss')
  case (Cons p pss)
  obtain addr ps where p: "p = (addr, ps)" by fastforce
  obtain q qs where q: "re_add (addr, ps) = Some q" "map_checked re_add pss = Some qs" "pss' = q # qs"
    using Cons(2) unfolding p by (auto simp: bind_eq_Some_conv)
  obtain ps' where ps': "q = (addr, ps')" "ps_can_send ps' = ps_can_send ps" "ps_can_send ps \<longrightarrow> 0 \<le> ps_deficit ps'"
  proof -
    have "0 \<le> dadd (ps_deficit ps) (ps_quantum ps)" if "ps_can_send ps" "dbl (1 / 1000000) \<le> ps_quantum ps"
      using that Cons(3) small_quantum unfolding p by (simp add: ready_def dadd_def)
    then show ?thesis using q(1) that by (auto simp: re_add_def bind_eq_Some_conv split: if_splits)
  qed
  then show ?case using Cons(1) [OF q(2)] Cons(3) ps' unfolding p q(3) by (simp add: ready_def)
qed (simp add: ready_def)

lemma select_able:
  assumes "select_msg_to_send pss = Some (ret, pss')" "ready pss"
  shows "map fst pss' = map fst pss \<and> (case ret of None \<Rightarrow> able pss = {} | Some a \<Rightarrow> a \<in> able pss)"
  using assms
proof (induction pss arbitrary: ret pss' rule: select_msg_to_send.induct)
  case (1 pss)
  obtain best r where h: "highest_deficit pss (- 1) None = Some (best, r)"
    using 1(2) by (subst (asm) select_msg_to_send.simps) (auto split: option.splits)
  note top = highest_deficit_Some [OF h order_refl]
  show ?case
  proof (cases r)
    case None
    then have "ret = None" "pss' = pss" using 1(2) h by (subst (asm) select_msg_to_send.simps, simp)+
    moreover have "able pss = {}"
    proof -
      have "best = - 1" using top(2) None by auto
      then have "top_deficit pss \<le> - 1" using top(1) by simp
      then show ?thesis using 1(3) top_deficit_upper [of _ _ pss] by (fastforce simp: able_def ready_def)
    qed
    ultimately show ?thesis by simp
  next
    case (Some a)
    then have a: "a \<in> able pss" using top(2) by (auto simp: able_def)
    show ?thesis
    proof (cases "best < 1")
      case True
      then obtain pss1 where p: "map_checked re_add pss = Some pss1" "select_msg_to_send pss1 = Some (ret, pss')"
        using 1(2) h Some by (subst (asm) select_msg_to_send.simps) (auto split: option.splits)
      have r: "map fst pss1 = map fst pss \<and> able pss1 = able pss \<and> ready pss1" using re_add_able [OF p(1) 1(3)] .
      show ?thesis using 1(1) [OF h refl Some True p(1) p(2)] r by (simp split: option.splits)
    next
      case False
      then have "ret = Some a" "pss' = map (spend a) pss"
        using 1(2) h Some by (subst (asm) select_msg_to_send.simps, auto simp: bind_eq_Some_conv Let_def)+
      then show ?thesis using a spend_keys [of a pss] by simp
    qed
  qed
qed

section \<open>Every receiver has its policy state\<close>

definition policies_ok :: "hybrid \<Rightarrow> bool" where
  "policies_ok h \<longleftrightarrow> distinct (map fst (policy_states h)) \<and> set (map fst (policy_states h)) = set (map fst (remotes h))"

definition keys :: "hybrid \<Rightarrow> int list \<times> int list" where
  "keys h = (map fst (remotes h), map fst (policy_states h))"

lemma policies_ok_keys: "keys h = keys g \<Longrightarrow> policies_ok h = policies_ok g"
  by (simp add: policies_ok_def keys_def)

lemma keys_part: "sender_part h = sender_part g \<Longrightarrow> keys h = keys g"
  by (simp add: keys_def sender_part_def)

lemma keys_updates [simp]:
  "keys (update_remote addr f h) = keys h"
  "keys (h\<lparr>outbound_inactive := ol\<rparr>) = keys h"
  "keys (h\<lparr>credit_received := w\<rparr>) = keys h"
  "keys (h\<lparr>credit_used := w\<rparr>) = keys h"
  "keys (h\<lparr>credit_data_received := w\<rparr>) = keys h"
  "keys (h\<lparr>credit_data_requested := w\<rparr>) = keys h"
  "keys (h\<lparr>data_pacer_backlog := n\<rparr>) = keys h"
proof -
  have "map fst (map (\<lambda>(a, r). (a, if a = addr then f r else r)) rs) = map fst rs" for rs
    by (induction rs) auto
  then show "keys (update_remote addr f h) = keys h" by (simp add: keys_def update_remote_def)
qed (simp_all add: keys_def)

lemma keys_add_outbound: "add_outbound_msg m h = Some h' \<Longrightarrow> keys h' = keys h"
  by (auto simp: add_outbound_msg_def bind_eq_Some_conv)

lemma keys_credit: "received_credit pkt h = Some h' \<Longrightarrow> keys h' = keys h"
  by (auto simp: received_credit_def credit_activates_def bind_eq_Some_conv Let_def find_outbound_msg_def
      dest!: keys_add_outbound split: option.splits)

lemma keys_self_credit: "self_credit pos h = Some h' \<Longrightarrow> keys h' = keys h"
  by (auto simp: self_credit_def bind_eq_Some_conv Let_def case_prod_beta split: if_splits)

lemma keys_activate: "activate_msg pos h = Some (out, h') \<Longrightarrow> keys h' = keys h"
  by (auto simp: activate_msg_def request_credit_def bind_eq_Some_conv Let_def dest!: keys_add_outbound split: if_splits)

lemma keys_start: "start_messages h = Some (out, h') \<Longrightarrow> keys h' = keys h"
  by (erule start_messages_keeps) (auto dest: keys_self_credit keys_activate)

lemma policies_ok_create: "policies_ok h \<Longrightarrow> lib_ok lib \<Longrightarrow> policies_ok (find_or_create lib addr h)"
proof (cases "find_remote addr h")
  case None
  assume h: "policies_ok h" and lib: "lib_ok lib"
  let ?pss = "AList.update addr new_policy_state (policy_states h)"
  have "mset (map_order lib ?pss) = mset ?pss" using lib by (simp add: lib_ok_def)
  then have "mset (map fst (map_order lib ?pss)) = mset (map fst ?pss)" by (metis mset_map)
  then have "set (map fst (map_order lib ?pss)) = set (map fst ?pss)" "distinct (map fst (map_order lib ?pss)) = distinct (map fst ?pss)"
    by (metis mset_eq_setD, metis mset_eq_imp_distinct_iff)
  moreover have "distinct (map fst ?pss)" using h by (simp add: policies_ok_def distinct_update)
  moreover have "set (map fst ?pss) = insert addr (set (map fst (policy_states h)))"
    by (auto simp: update_keys)
  ultimately show ?thesis using h None by (auto simp: find_or_create_def policies_ok_def)
qed (simp add: find_or_create_def)

lemma keys_scan: "scan_receivers lib policy pss sc h = Some (pss', sc', h') \<Longrightarrow> keys h' = keys h"
  by (induction lib policy pss sc h arbitrary: pss' sc' rule: scan_receivers.induct) (auto simp: bind_eq_Some_conv)

lemma keys_policy:
  assumes "update_policy_state lib h = Some h'" "lib_ok lib"
  shows "keys h' = keys h"
proof -
  have "map fst (remotes h') = map fst (remotes h)"
    using assms(1) by (auto simp: update_policy_state_def bind_eq_Some_conv Let_def keys_def dest!: keys_scan split: if_splits)
  then show ?thesis using policy_able [OF assms] by (simp add: keys_def)
qed

lemma keys_packet: "send_packet addr h = Some (out, h') \<Longrightarrow> keys h' = keys h"
  unfolding send_packet_def Let_def
  by (simp only: bind_eq_Some_conv option.inject Pair_inject split_paired_Ex prod.case) auto

lemma one_packet: "send_packet addr h = Some (out, h') \<Longrightarrow> \<exists>hdr n a. out = [Transport hdr n a]"
  unfolding send_packet_def Let_def
  by (simp only: bind_eq_Some_conv option.inject Pair_inject split_paired_Ex prod.case) (auto simp: transport_def bind_eq_Some_conv)

lemma send_chosen_cases:
  \<comment> \<open>the policy, then the choice, then at most one packet\<close>
  assumes "send_chosen lib h = Some (out, h')"
  obtains h1 pss where "update_policy_state lib h = Some h1" "select_msg_to_send (policy_states h1) = Some (None, pss)"
      "out = []" "h' = h1\<lparr>policy_states := pss\<rparr>"
  | h1 a pss where "update_policy_state lib h = Some h1" "select_msg_to_send (policy_states h1) = Some (Some a, pss)"
      "send_packet a (h1\<lparr>policy_states := pss\<rparr>) = Some (out, h')"
proof -
  obtain h1 ret pss where s: "update_policy_state lib h = Some h1" "select_msg_to_send (policy_states h1) = Some (ret, pss)"
    "(case ret of None \<Rightarrow> Some ([], h1\<lparr>policy_states := pss\<rparr>) | Some a \<Rightarrow> send_packet a (h1\<lparr>policy_states := pss\<rparr>)) = Some (out, h')"
    using assms by (auto simp: send_chosen_def bind_eq_Some_conv Let_def)
  show ?thesis
  proof (cases ret)
    case None
    then show ?thesis using that(1) [OF s(1)] s(2,3) by simp
  next
    case (Some a)
    then show ?thesis using that(2) [OF s(1)] s(2,3) by simp
  qed
qed

lemma keys_chosen:
  assumes "send_chosen lib h = Some (out, h')" "lib_ok lib"
  shows "keys h' = keys h"
  using assms(1)
proof (cases rule: send_chosen_cases)
  case (1 h1 pss)
  have "map fst pss = map fst (policy_states h1)" using select_able [OF 1(2)] policy_able [OF 1(1) assms(2)] by blast
  then show ?thesis using keys_policy [OF 1(1) assms(2)] unfolding 1(4) by (simp add: keys_def)
next
  case (2 h1 a pss)
  have "map fst pss = map fst (policy_states h1)" using select_able [OF 2(2)] policy_able [OF 2(1) assms(2)] by blast
  then have "keys (h1\<lparr>policy_states := pss\<rparr>) = keys h1" by (simp add: keys_def)
  then show ?thesis using keys_policy [OF 2(1) assms(2)] keys_packet [OF 2(3)] by simp
qed

definition policies_kept :: "hybrid \<Rightarrow> hybrid_output list \<Rightarrow> hybrid \<Rightarrow> bool" where
  "policies_kept h out h' \<longleftrightarrow> (policies_ok h \<longrightarrow> policies_ok h')"

interpretation policies: sender_relation policies_kept
proof
  fix h h' :: hybrid and out out' h''
  show "policies_kept h out h' \<Longrightarrow> policies_kept h' out' h'' \<Longrightarrow> policies_kept h (out @ out') h''"
    by (simp add: policies_kept_def)
  show "sender_part h' = sender_part h \<Longrightarrow> policies_kept h out h'"
    using policies_ok_keys [OF keys_part [of h' h]] by (simp add: policies_kept_def)
  show "received_credit pkt h = Some h' \<Longrightarrow> policies_kept h [] h'" for pkt
    using policies_ok_keys [OF keys_credit [of pkt h h']] by (simp add: policies_kept_def)
  show "start_messages h = Some (out, h') \<Longrightarrow> policies_kept h out h'"
    using policies_ok_keys [OF keys_start [of h out h']] by (simp add: policies_kept_def)
  show "send_chosen lib h = Some (out, h') \<Longrightarrow> lib_ok lib \<Longrightarrow> policies_kept h out h'" for lib
    using policies_ok_keys [OF keys_chosen [of lib h out h']] by (simp add: policies_kept_def)
qed (simp add: policies_kept_def policies_ok_create)

lemma reachable_policies: "hybrid_reachable lib c h \<Longrightarrow> lib_ok lib \<Longrightarrow> policies_ok h"
proof (induction rule: hybrid_reachable.induct)
  case (reach_init now)
  show ?case by (simp add: policies_ok_def new_hybrid_def)
qed (auto simp: policies_kept_def dest!: policies.host.step)

section \<open>The sender is work conserving\<close>

lemma chosen_iff_wanting:
  assumes "policies_ok h" "lib_ok lib" "send_chosen lib h = Some (out, h')"
  shows "wanting h \<noteq> {} \<longleftrightarrow> (\<exists>hdr n a. out = [Transport hdr n a])" "wanting h = {} \<longleftrightarrow> out = []"
proof -
  have sub: "wanting h \<inter> set (map fst (policy_states h)) = wanting h"
    using assms(1) map_of_SomeD [of "remotes h"] by (force simp: policies_ok_def wanting_def find_remote_def)
  have "(wanting h \<noteq> {} \<and> (\<exists>hdr n a. out = [Transport hdr n a])) \<or> (wanting h = {} \<and> out = [])"
    using assms(3)
  proof (cases rule: send_chosen_cases)
    case (1 h1 pss)
    show ?thesis using select_able [OF 1(2)] policy_able [OF 1(1) assms(2)] sub 1(3) by simp
  next
    case (2 h1 a pss)
    have "a \<in> wanting h" using select_able [OF 2(2)] policy_able [OF 2(1) assms(2)] sub by simp
    then show ?thesis using one_packet [OF 2(3)] by auto
  qed
  then show "wanting h \<noteq> {} \<longleftrightarrow> (\<exists>hdr n a. out = [Transport hdr n a])" "wanting h = {} \<longleftrightarrow> out = []" by auto
qed

text \<open>Property C11. When the pacer lets a sender send, and no assertion fails, it hands the network one packet
  exactly when some receiver has a message whose next packet, with its headers, its gap and its preamble, the
  credit available for that receiver pays for; otherwise it sends nothing. However small its share of the deficit
  round robin is, a receiver is not kept waiting while the sender could send. That each receiver has its policy state
  (\<open>policies_ok\<close>) is an invariant of every host: lemma \<open>reachable_policies\<close>.\<close>
theorem hybrid_sender_work_conserving:
  assumes "policies_ok h" "lib_ok lib" "send_chosen lib h = Some (out, h')"
  shows "((\<exists>a r m. find_remote a h = Some r \<and> m \<in> set (msgs (out_msgs r)) \<and> affordable r m)
      \<longleftrightarrow> (\<exists>hdr n a. out = [Transport hdr n a]))
    \<and> (out = [] \<or> (\<exists>hdr n a. out = [Transport hdr n a]))"
  using chosen_iff_wanting [OF assms] by (auto simp: wanting_def wants_def)

theorem hybrid_sender_work_conserving_witness:
  "\<exists>a r m. find_remote a started_host = Some r \<and> m \<in> set (msgs (out_msgs r)) \<and> affordable r m"
proof -
  obtain hdr where "send_packet 7 (started_host\<lparr>policy_states := [(7, sample_policy\<lparr>ps_deficit := 0\<rparr>)]\<rparr>)
     = Some ([Transport hdr 1458 7], sent_host)" using sample_send_packet by blast
  then have c: "send_chosen sample_lib started_host = Some ([Transport hdr 1458 7], sent_host)"
    by (simp add: send_chosen_def sample_update_policy sample_select)
  have ok: "policies_ok started_host" by (simp add: policies_ok_def started_host_def sample_host_def)
  show ?thesis using hybrid_sender_work_conserving [OF ok sample_lib_ok c] by blast
qed

end
