(* ===== verification/Hybrid_Packets.thy ===== *)
theory Hybrid_Packets
  imports Hybrid_Samples
begin

text \<open>
  The packets of a message: how many are sent, and what the header of a request tells the receiver of them.
\<close>

section \<open>What is left after some packets\<close>

lemma packet_payload_range:
  "packet_payload m = min 1458 (uint (unsent_bytes m))"
proof -
  have "sint w = uint w" if "w \<le> 1458" for w :: "32 word"
  proof -
    have "uint w \<le> 1458" using that by (simp add: word_le_def)
    moreover have "- (2 ^ 31) \<le> uint w" by (rule order_trans [OF _ uint_ge_0]) simp
    ultimately show ?thesis using signed_take_bit_int_eq_self [of 31 "uint w"] by (simp add: sint_uint)
  qed
  then show ?thesis by (auto simp: packet_payload_def r2p2_sizes word_le_def)
qed

lemma unsent_after_packet: "uint (unsent_bytes (packet_sent m)) = max 0 (uint (unsent_bytes m) - 1458)"
proof -
  let ?u = "uint (unsent_bytes m)"
  define x where "x = ?u - min 1458 ?u"
  have "0 \<le> x" "x < 2 ^ 32" using uint_bounded [of "unsent_bytes m"] by (auto simp: x_def)
  then have "uint (word_of_int x :: 32 word) = x" by (simp add: uint_word_of_int)
  moreover have "unsent_bytes (packet_sent m) = word_of_int x"
    by (simp add: packet_sent_def packet_payload_range x_def)
  ultimately show ?thesis by (simp add: x_def)
qed

lemma unsent_after_packets: "uint (unsent_bytes ((packet_sent ^^ k) m)) = max 0 (uint (unsent_bytes m) - 1458 * int k)"
  by (induction k) (auto simp: unsent_after_packet)

lemma packets_header: "hdr_pkt_id (om_hdr (packet_sent m)) = hdr_pkt_id (om_hdr m)"
  by (simp add: packet_sent_def)

section \<open>What the first packet tells\<close>

lemma packet_count_bound:
  fixes n :: int
  shows "n div 1458 + (if n mod 1458 > 0 then 1 else 0) \<le> k \<longleftrightarrow> n \<le> 1458 * k"
proof -
  define d r where "d = n div 1458" and "r = n mod 1458"
  have n: "n = 1458 * d + r" "0 \<le> r" "r < 1458" by (simp_all add: d_def r_def)
  have "d < k \<Longrightarrow> n \<le> 1458 * k" "k < d \<Longrightarrow> \<not> n \<le> 1458 * k" "d = k \<Longrightarrow> n \<le> 1458 * k \<longleftrightarrow> r = 0" using n by linarith+
  then show ?thesis using n(2) unfolding d_def [symmetric] r_def [symmetric] by (cases d k rule: linorder_cases) auto
qed

lemma request_count:
  fixes w :: "32 word"
  assumes "0 < w div 1458 + (if w mod 1458 > 0 then 1 else 0)"
  shows "sint (w div 1458 + (if w mod 1458 > 0 then 1 else 0) - 1) = uint w div 1458 + (if uint w mod 1458 > 0 then 1 else 0) - 1"
proof -
  define n where "n = uint w div 1458 + (if uint w mod 1458 > 0 then 1 else 0)"
  have w: "w div 1458 + (if w mod 1458 > 0 then 1 else 0) = word_of_int n"
  proof -
    have "w div 1458 = word_of_int (uint w div 1458)" "0 < w mod 1458 \<longleftrightarrow> 0 < uint w mod 1458"
      by (simp_all add: word_div_def word_less_def uint_mod_distrib)
    then show ?thesis by (simp add: n_def)
  qed
  have "0 \<le> uint w div 1458" by (simp add: pos_imp_zdiv_nonneg_iff)
  then have "0 \<le> n" "n \<le> 2 ^ 22" using uint_bounded [of w] by (auto simp: n_def)
  moreover have "0 < n"
  proof (rule ccontr)
    assume "\<not> 0 < n"
    then have "n = 0" using \<open>0 \<le> n\<close> by simp
    then show False using assms unfolding w by simp
  qed
  ultimately have "signed_take_bit 31 (n - 1) = n - 1" by (intro signed_take_bit_int_eq_self) simp_all
  then have "sint (word_of_int (n - 1) :: 32 word) = n - 1" by (simp only: sint_sbintrunc') simp
  then show ?thesis unfolding w by (simp add: n_def)
qed

text \<open>Property C13. A request is sent in as many packets as its header announces: after \<open>sending_request\<close>,
  the packet count stored in the header of the message is one less than the number of packets after which nothing
  is left to send, for every size that fits the 32 bits of the counter, with no packet lost or too many when the
  size is a multiple of the payload.\<close>
theorem hybrid_request_packet_count:
  assumes "sending_request hdr payload h = Some h'" "list_find_pos om_req_id (uniq_id hdr) (outbound_inactive h) = Some pos"
    "m = msgs (outbound_inactive h') ! pos" "unsent_bytes m = total_bytes m"
  shows "unsent_bytes ((packet_sent ^^ k) m) = 0 \<longleftrightarrow> hdr_pkt_id (om_hdr m) < int k"
proof -
  let ?n = "uint (total_bytes m) div 1458 + (if uint (total_bytes m) mod 1458 > 0 then 1 else 0)"
  have "0 < total_bytes m div 1458 + (if total_bytes m mod 1458 > 0 then 1 else 0)
    \<and> hdr_pkt_id (om_hdr m) = sint (total_bytes m div 1458 + (if total_bytes m mod 1458 > 0 then 1 else 0) - 1)"
    using assms(1,2) find_pos_Some(1) [OF assms(2)] unfolding assms(3)
    by (auto simp: sending_request_def bind_eq_Some_conv Let_def list_update_at_def r2p2_sizes)
  then have "hdr_pkt_id (om_hdr m) = ?n - 1" using request_count by simp
  moreover have "unsent_bytes ((packet_sent ^^ k) m) = 0 \<longleftrightarrow> uint (unsent_bytes m) \<le> 1458 * int k"
    using unsent_after_packets [of k m] by (auto simp: word_uint_eq_iff)
  moreover have "?n \<le> int k \<longleftrightarrow> uint (unsent_bytes m) \<le> 1458 * int k"
    using packet_count_bound [of "uint (total_bytes m)"] assms(4) by simp
  ultimately show ?thesis by linarith
qed

definition request_host :: hybrid where
  \<comment> \<open>the first packet of a request has been handed over\<close>
  "request_host = (new_hybrid sample_config 0)\<lparr>outbound_inactive :=
     \<lparr>msgs = [(new_out_msg (0, 0, 0) 7 new_hdr)\<lparr>unsent_bytes := 14, total_bytes := 14\<rparr>], current = 0\<rparr>\<rparr>"

theorem hybrid_request_packet_count_witness:
  "\<exists>h' m. sending_request new_hdr 2902 request_host = Some h' \<and> msgs (outbound_inactive h') = [m] \<and> total_bytes m = 2916
    \<and> unsent_bytes ((packet_sent ^^ 1) m) \<noteq> 0 \<and> unsent_bytes ((packet_sent ^^ 2) m) = 0"
proof -
  obtain h' m where h': "sending_request new_hdr 2902 request_host = Some h'" "msgs (outbound_inactive h') = [m]"
    "total_bytes m = 2916" "unsent_bytes m = 2916" "hdr_pkt_id (om_hdr m) = 1"
    by (simp add: sending_request_def request_host_def list_find_pos_def uniq_id_def new_hdr_def new_out_msg_def is_single_packet_msg_def
        r2p2_sizes list_update_at_def new_hybrid_def Let_def)
  have "list_find_pos om_req_id (uniq_id new_hdr) (outbound_inactive request_host) = Some 0"
    by (simp add: request_host_def list_find_pos_def uniq_id_def new_hdr_def new_out_msg_def)
  note c = hybrid_request_packet_count [OF h'(1) this, of m]
  show ?thesis using c [of 1] c [of 2] h' by auto
qed

section \<open>What the packets of a message cost\<close>

lemma to_send_size: "uint (to_send_bytes m) = max (min 1458 (uint (unsent_bytes m)) + 80) 84"
proof -
  define w where "w = min 1458 (unsent_bytes m)"
  have w: "uint w = min 1458 (uint (unsent_bytes m))" by (simp add: w_def min_def word_le_def)
  then have "uint w + 80 < 2 ^ 32" by simp
  then have "uint (w + 80) = uint w + 80" by (simp add: uint_plus_simple_iff word_le_def uint_word_ariths)
  moreover have "to_send_bytes m = max (w + 80) 84" by (simp add: to_send_bytes_def w_def r2p2_sizes add.assoc)
  ultimately show ?thesis using w by (auto simp: max_def min_def word_le_def)
qed

definition packet_count :: "int \<Rightarrow> nat" where
  "packet_count n = nat (n div 1458 + (if n mod 1458 > 0 then 1 else 0))"

lemma header_overhead_nonneg:
  assumes "0 \<le> n"
  shows "add_header_overhead n False = n div 1458 * 1538 + (if n mod 1458 > 0 then max (n mod 1458 + 80) 84 else 0)"
proof -
  have "n sdiv 1458 = n div 1458" "n smod 1458 = n mod 1458"
    using assms by (cases "n = 0"; simp add: signed_divide_int_def smod_int_alt_def)+
  then show ?thesis by (simp add: add_header_overhead_def r2p2_sizes Let_def add.commute)
qed

lemma header_overhead_least: "0 < n \<Longrightarrow> 84 \<le> add_header_overhead n False"
proof -
  assume n: "0 < n"
  have "0 \<le> n div 1458" using n by (simp add: pos_imp_zdiv_nonneg_iff)
  moreover have "0 < n div 1458 \<or> 0 < n mod 1458"
  proof (rule ccontr)
    assume "\<not> (0 < n div 1458 \<or> 0 < n mod 1458)"
    then have "n div 1458 = 0" "n mod 1458 = 0" using \<open>0 \<le> n div 1458\<close> pos_mod_sign [of 1458 n] by auto
    then show False using n div_mult_mod_eq [of n 1458] by simp
  qed
  ultimately show ?thesis using n by (auto simp: header_overhead_nonneg)
qed

lemma packets_cost:
  "(\<Sum>k<packet_count (uint (unsent_bytes m)). uint (to_send_bytes ((packet_sent ^^ k) m)))
    = add_header_overhead (uint (unsent_bytes m)) False"
proof -
  define n where "n = uint (unsent_bytes m)"
  define q where "q = nat (n div 1458)"
  define r where "r = n mod 1458"
  have "0 \<le> n div 1458" unfolding n_def by (simp add: pos_imp_zdiv_nonneg_iff)
  then have n: "n = 1458 * int q + r" "0 \<le> r" "r < 1458" "n div 1458 = int q" by (simp_all add: q_def r_def)
  have size: "uint (to_send_bytes ((packet_sent ^^ k) m)) = max (min 1458 (max 0 (n - 1458 * int k)) + 80) 84" for k
    by (simp add: to_send_size unsent_after_packets n_def)
  have "uint (to_send_bytes ((packet_sent ^^ k) m)) = 1538" if "k < q" for k
  proof -
    have "1458 \<le> n - 1458 * int k" using that n(1,2) by linarith
    then have "min 1458 (max 0 (n - 1458 * int k)) = 1458" by linarith
    then show ?thesis unfolding size by simp
  qed
  then have full: "(\<Sum>k<q. uint (to_send_bytes ((packet_sent ^^ k) m))) = (\<Sum>k<q. 1538)"
    by (intro sum.cong) simp_all
  have "add_header_overhead n False = int q * 1538 + (if r > 0 then max (r + 80) 84 else 0)"
    using header_overhead_nonneg [of n] n(4) by (simp add: n_def [symmetric] r_def [symmetric])
  moreover have "(\<Sum>k<packet_count n. uint (to_send_bytes ((packet_sent ^^ k) m)))
      = int q * 1538 + (if r > 0 then max (r + 80) 84 else 0)"
  proof (cases "r > 0")
    case True
    then have "packet_count n = Suc q" by (simp add: packet_count_def n(4) r_def [symmetric] nat_add_distrib)
    then show ?thesis using True full n by (simp add: size)
  next
    case False
    then have "packet_count n = q" by (simp add: packet_count_def n(4) r_def [symmetric])
    then show ?thesis using False full by simp
  qed
  ultimately show ?thesis by (simp add: n_def)
qed

lemma packet_count_exact: "unsent_bytes ((packet_sent ^^ k) m) = 0 \<longleftrightarrow> packet_count (uint (unsent_bytes m)) \<le> k"
proof -
  have "unsent_bytes ((packet_sent ^^ k) m) = 0 \<longleftrightarrow> uint (unsent_bytes m) \<le> 1458 * int k"
    using unsent_after_packets [of k m] by (auto simp: word_uint_eq_iff)
  also have "\<dots> \<longleftrightarrow> packet_count (uint (unsent_bytes m)) \<le> k"
    unfolding packet_count_def nat_le_iff using packet_count_bound [of "uint (unsent_bytes m)" "int k"] by simp
  finally show ?thesis .
qed

lemma signed_small:
  assumes "0 \<le> sint (w :: 32 word)"
  shows "sint w = uint w"
proof -
  have "sint w < 2 ^ 31" using sint_lt [of w] by simp
  then have "uint (word_of_int (sint w) :: 32 word) = sint w" using assms by (simp only: uint_word_of_int) simp
  then show ?thesis by simp
qed



end
