(* ===== verification/R2p2_Agent.thy ===== *)
theory R2p2_Agent
  imports Hybrid_Samples
begin

text \<open>
  The agents of \<open>r2p2/core/r2p2-udp.cc\<close>, one for each destination of a host, which cut what the transport sends into packets,
  pad them to the smallest frame and mark them, and take headers and padding off what arrives; and the priority and the flow of
  a packet, which \<open>forward_to_transport\<close> of \<open>r2p2-cc-micro.cc\<close> chooses.

  The time stamps and the talkspurt flag of the RTP header, which nothing reads, are left out. An agent throws unless its
  transport is an \<open>R2p2CCHybrid\<close>; the definitions take that host as an argument.
\<close>

section \<open>Priority and flow\<close>

definition packet_prio :: "r2p2_hdr \<Rightarrow> int" where
  "packet_prio hdr = (if hdr_msg_type hdr = GRANT_REQ \<or> hdr_msg_type hdr = REQRDY \<or> hdr_msg_type hdr = GRANT \<or> hdr_is_unsol_pkt hdr
     then 0 else 7)"

definition packet_fid :: "bool \<Rightarrow> bool \<Rightarrow> int \<Rightarrow> int \<Rightarrow> int option" where
  \<comment> \<open>\<open>single_path_per_msg_\<close>, \<open>pace_uplink_\<close>, the identifier of the urpc and a number drawn; an agent replaces \<open>-1\<close>\<close>
  "packet_fid single_path paced umsg_id rnd = (let fid = (if single_path then - 1 else if paced then umsg_id else rnd mod 200) in
     if fid \<noteq> - 2 then Some fid else None)"

section \<open>Sending\<close>

record wire_packet =
  wp_hdr :: r2p2_hdr
  wp_size :: int
  wp_padding :: int
  wp_dst :: int
  wp_ect :: bool
  wp_fid :: int
  wp_prio :: int
  wp_ttl :: "int option"
  wp_src :: "int option"
  wp_seqno :: int

record send_args =
  \<comment> \<open>the arguments after the header; a time to live or a source of \<open>-1\<close> leaves that of the packet\<close>
  sa_fid :: int
  sa_prio :: int
  sa_ttl :: int
  sa_src :: int
  sa_ecn_capable :: bool

record r2p2_agent =
  \<comment> \<open>with the counter \<open>total_bytes_sent_\<close> of its host\<close>
  ag_daddr :: int
  ag_seqno :: int
  ag_total_bytes_sent :: u64

definition replacement :: "int \<Rightarrow> int option" where
  "replacement v = (if v = - 1 then None else Some v)"

definition ecn_mark :: "hybrid \<Rightarrow> bool \<Rightarrow> int \<Rightarrow> int \<Rightarrow> r2p2_hdr \<Rightarrow> (r2p2_hdr \<times> int) option" where
  \<comment> \<open>\<open>granted\<close> bytes are left to be sent; they are compared as unsigned numbers\<close>
  "ecn_mark h should_mark limit granted hdr = (if should_mark then do {
       m \<leftarrow> actually_mark (cfg h) ((word_of_int granted :: 32 word) > ecn_thresh_pkts (cfg h) * word_of_int MAX_R2P2_PAYLOAD);
       check (granted - MAX_R2P2_PAYLOAD \<ge> - limit);
       Some (hdr\<lparr>hdr_sender_marked := m\<rparr>, granted - MAX_R2P2_PAYLOAD) }
     else Some (hdr, granted))"

definition emit :: "hybrid \<Rightarrow> send_args \<Rightarrow> r2p2_hdr \<Rightarrow> int \<Rightarrow> int \<Rightarrow> r2p2_agent \<Rightarrow> (wire_packet \<times> r2p2_agent) option" where
  \<comment> \<open>a packet of a size and a padding\<close>
  "emit h a hdr sz padding ag = do {
     qlen \<leftarrow> get_outbound_vq_len (ag_daddr ag) h;
     Some (\<lparr>wp_hdr = hdr\<lparr>hdr_qlen := qlen, hdr_B := link_speed_gbps (cfg h)\<rparr>, wp_size = sz, wp_padding = padding,
         wp_dst = ag_daddr ag, wp_ect = sa_ecn_capable a, wp_fid = (if sa_fid a = - 1 then hdr_req_id hdr else sa_fid a),
         wp_prio = (if sa_prio a = - 1 then 7 else sa_prio a), wp_ttl = replacement (sa_ttl a), wp_src = replacement (sa_src a),
         wp_seqno = ag_seqno ag + 1\<rparr>,
       ag\<lparr>ag_seqno := ag_seqno ag + 1, ag_total_bytes_sent := ag_total_bytes_sent ag + word_of_int sz\<rparr>) }"

definition next_packet_hdr :: "r2p2_hdr \<Rightarrow> r2p2_hdr" where
  \<comment> \<open>only the first packet is the first\<close>
  "next_packet_hdr hdr = hdr\<lparr>hdr_pkt_id := hdr_pkt_id hdr + 1, hdr_first := False, hdr_credit_req := 0\<rparr>"

definition marks :: "send_args \<Rightarrow> r2p2_hdr \<Rightarrow> bool" where
  "marks a hdr \<longleftrightarrow> sa_ecn_capable a \<and> (hdr_msg_type hdr = REQUEST \<or> hdr_msg_type hdr = REPLY)"

fun send_full :: "hybrid \<Rightarrow> send_args \<Rightarrow> nat \<Rightarrow> int \<Rightarrow> r2p2_hdr \<Rightarrow> r2p2_agent \<Rightarrow> (wire_packet list \<times> int \<times> r2p2_hdr \<times> r2p2_agent) option" where
  "send_full h a 0 granted hdr ag = Some ([], granted, hdr, ag)"
| "send_full h a (Suc n) granted hdr ag = do {
     (marked, granted) \<leftarrow> ecn_mark h (marks a hdr) (2 * MAX_R2P2_PAYLOAD) granted hdr;
     (p, ag) \<leftarrow> emit h a marked MAX_ETHERNET_FRAME_ON_WIRE 0 ag;
     (ps, granted, hdr, ag) \<leftarrow> send_full h a n granted (next_packet_hdr hdr) ag;
     Some (p # ps, granted, hdr, ag) }"

definition granted_bytes :: "hybrid \<Rightarrow> r2p2_hdr \<Rightarrow> int" where
  "granted_bytes h hdr = (if hdr_msg_type hdr = REQUEST \<or> hdr_msg_type hdr = REPLY then sint (get_granted_bytes_queue_len h) else 0)"

definition frame_padding :: "int \<Rightarrow> int" where
  "frame_padding n = (if n + overhead < MIN_ETHERNET_FRAME_ON_WIRE then MIN_ETHERNET_FRAME_ON_WIRE - (n + overhead) else 0)"

definition sendmsg :: "hybrid \<Rightarrow> send_args \<Rightarrow> int \<Rightarrow> r2p2_hdr \<Rightarrow> r2p2_agent \<Rightarrow> (wire_packet list \<times> r2p2_agent) option" where
  "sendmsg h a nbytes hdr ag = do {
     check (hdr_msg_creation_time hdr > 0);
     if nbytes = - 1 then Some ([], ag)
     else do {
       (ps, granted, hdr, ag) \<leftarrow> send_full h a (nat (nbytes sdiv MAX_R2P2_PAYLOAD)) (granted_bytes h hdr) hdr ag;
       let n = nbytes smod MAX_R2P2_PAYLOAD;
       if n > 0 then do {
         (marked, granted) \<leftarrow> ecn_mark h (marks a hdr) MAX_R2P2_PAYLOAD granted hdr;
         let sz = n + overhead + frame_padding n;
         check (sz \<ge> MIN_ETHERNET_FRAME_ON_WIRE);
         check (sz \<le> MAX_ETHERNET_FRAME_ON_WIRE);
         (p, ag) \<leftarrow> emit h a marked sz (frame_padding n) ag;
         Some (ps @ [p], ag) }
       else Some (ps, ag) } }"

section \<open>Receiving\<close>

definition agent_recv :: "int \<Rightarrow> bool \<Rightarrow> wire_packet \<Rightarrow> hybrid_packet option" where
  \<comment> \<open>a packet from a source, with the mark that the network has given it; the result goes to \<open>recv\<close> of the transport\<close>
  "agent_recv src ce p = do {
     check (wp_size p \<le> MAX_ETHERNET_FRAME_ON_WIRE);
     check (wp_size p \<ge> MIN_ETHERNET_FRAME_ON_WIRE);
     let sz = wp_size p - INTER_PKT_GAP_SIZE - ETHERNET_PREAMBLE_SIZE - R2P2_ALL_HEADERS_SIZE;
     check (sz \<ge> MIN_R2P2_PAYLOAD);
     check (sz \<le> MAX_R2P2_PAYLOAD);
     check (wp_padding p < MIN_R2P2_PAYLOAD);
     Some \<lparr>hp_hdr = wp_hdr p, hp_src = src, hp_size = sz - wp_padding p, hp_padding = wp_padding p, hp_ect = wp_ect p, hp_ce = ce\<rparr> }"

section \<open>What is sent arrives\<close>

definition arrives :: "int \<Rightarrow> bool \<Rightarrow> real \<Rightarrow> r2p2_hdr \<Rightarrow> int \<Rightarrow> wire_packet \<Rightarrow> bool" where
  \<comment> \<open>with a payload of \<open>n\<close> bytes and the header given, but for its mark, the length of the queue and the speed of the link\<close>
  "arrives src ce B hdr n p \<longleftrightarrow> (\<exists>q m ql. agent_recv src ce p = Some q \<and> hp_size q = n \<and> hp_src q = src
    \<and> hp_hdr q = hdr\<lparr>hdr_sender_marked := m, hdr_qlen := ql, hdr_B := B\<rparr>)"

fun all_arrive :: "int \<Rightarrow> bool \<Rightarrow> real \<Rightarrow> r2p2_hdr \<Rightarrow> int list \<Rightarrow> wire_packet list \<Rightarrow> bool" where
  "all_arrive src ce B hdr [] [] \<longleftrightarrow> True"
| "all_arrive src ce B hdr (n # ns) (p # ps) \<longleftrightarrow> arrives src ce B hdr n p \<and> all_arrive src ce B (next_packet_hdr hdr) ns ps"
| "all_arrive src ce B hdr _ _ \<longleftrightarrow> False"

lemma all_arrive_snoc:
  "all_arrive src ce B hdr ns ps \<Longrightarrow> arrives src ce B ((next_packet_hdr ^^ length ns) hdr) n p \<Longrightarrow> all_arrive src ce B hdr (ns @ [n]) (ps @ [p])"
  by (induction src ce B hdr ns ps rule: all_arrive.induct) (simp_all add: funpow_swap1)

lemma marks_next [simp]: "marks a ((next_packet_hdr ^^ n) hdr) = marks a hdr"
  by (induction n) (simp_all add: marks_def next_packet_hdr_def)

definition can_emit :: "hybrid \<Rightarrow> send_args \<Rightarrow> r2p2_hdr \<Rightarrow> r2p2_agent \<Rightarrow> bool" where
  \<comment> \<open>the algorithm of the sender has a queue length, and a decision where packets are marked\<close>
  "can_emit h a hdr ag \<longleftrightarrow> get_outbound_vq_len (ag_daddr ag) h \<noteq> None \<and> (marks a hdr \<longrightarrow> sender_algo (cfg h) \<noteq> 1)"

lemma packet_emitted:
  assumes "can_emit h a hdr ag" "marks a hdr \<Longrightarrow> granted - 1458 \<ge> - limit" "0 < n" "n \<le> 1458"
    "sz = max (n + 80) 84" "padding = sz - (n + 80)"
  shows "\<exists>marked p ag'. ecn_mark h (marks a hdr) limit granted hdr = Some (marked, if marks a hdr then granted - 1458 else granted)
    \<and> emit h a marked sz padding ag = Some (p, ag') \<and> arrives src ce (link_speed_gbps (cfg h)) hdr n p \<and> ag_daddr ag' = ag_daddr ag
    \<and> ag_total_bytes_sent ag' = ag_total_bytes_sent ag + word_of_int sz"
proof -
  obtain ql where ql: "get_outbound_vq_len (ag_daddr ag) h = Some ql" using assms(1) by (auto simp: can_emit_def)
  obtain marked m where m: "ecn_mark h (marks a hdr) limit granted hdr = Some (marked, if marks a hdr then granted - 1458 else granted)"
      "marked = hdr\<lparr>hdr_sender_marked := m\<rparr>"
  proof (cases "marks a hdr")
    case True
    then have "\<exists>d. ecn_mark h (marks a hdr) limit granted hdr = Some (hdr\<lparr>hdr_sender_marked := d\<rparr>, granted - 1458)"
      using assms(1,2) by (simp add: ecn_mark_def can_emit_def actually_mark_def r2p2_sizes) blast
    then show ?thesis using that True by auto
  next
    case False
    then have "ecn_mark h (marks a hdr) limit granted hdr = Some (hdr\<lparr>hdr_sender_marked := hdr_sender_marked hdr\<rparr>, granted)"
      by (simp add: ecn_mark_def)
    then show ?thesis using that [of hdr "hdr_sender_marked hdr"] False by simp
  qed
  obtain p ag' where p: "emit h a marked sz padding ag = Some (p, ag')" "wp_size p = sz" "wp_padding p = padding"
      "wp_hdr p = hdr\<lparr>hdr_sender_marked := m, hdr_qlen := ql, hdr_B := link_speed_gbps (cfg h)\<rparr>" "ag_daddr ag' = ag_daddr ag"
      "ag_total_bytes_sent ag' = ag_total_bytes_sent ag + word_of_int sz"
    by (simp add: emit_def ql m(2))
  have "84 \<le> sz" "sz \<le> 1538" "padding < 4" "sz - 80 - padding = n" using assms(3-6) by auto
  then have "\<exists>q. agent_recv src ce p = Some q \<and> hp_size q = n \<and> hp_src q = src \<and> hp_hdr q = wp_hdr p"
    using p(2,3) by (simp add: agent_recv_def r2p2_sizes Let_def)
  then have "arrives src ce (link_speed_gbps (cfg h)) hdr n p" unfolding arrives_def p(4) by metis
  then show ?thesis using m(1) p(1,5,6) by blast
qed

lemma send_full_arrives:
  assumes "can_emit h a hdr ag" "marks a hdr \<Longrightarrow> granted - 1458 * int n \<ge> - 2916"
  shows "\<exists>ps ag'. send_full h a n granted hdr ag = Some (ps, if marks a hdr then granted - 1458 * int n else granted, (next_packet_hdr ^^ n) hdr, ag')
    \<and> all_arrive src ce (link_speed_gbps (cfg h)) hdr (replicate n 1458) ps \<and> ag_daddr ag' = ag_daddr ag
    \<and> ag_total_bytes_sent ag' = ag_total_bytes_sent ag + word_of_int (int n * 1538)"
  using assms
proof (induction n arbitrary: granted hdr ag)
  case (Suc n)
  have "marks a hdr \<Longrightarrow> granted - 1458 \<ge> - 2916" using Suc(3) by simp
  from packet_emitted [OF Suc(2) this, where n = 1458 and sz = 1538 and padding = 0 and src = src and ce = ce] obtain marked p ag1
    where one: "ecn_mark h (marks a hdr) 2916 granted hdr = Some (marked, if marks a hdr then granted - 1458 else granted)"
      "emit h a marked 1538 0 ag = Some (p, ag1)" "arrives src ce (link_speed_gbps (cfg h)) hdr 1458 p" "ag_daddr ag1 = ag_daddr ag"
      "ag_total_bytes_sent ag1 = ag_total_bytes_sent ag + 1538" by auto
  have mk: "marks a (next_packet_hdr hdr) = marks a hdr" using marks_next [of a 1 hdr] by simp
  have "can_emit h a (next_packet_hdr hdr) ag1" using Suc(2) one(4) mk by (simp add: can_emit_def)
  moreover have "marks a (next_packet_hdr hdr) \<Longrightarrow> (if marks a hdr then granted - 1458 else granted) - 1458 * int n \<ge> - 2916"
    using Suc(3) mk by simp
  ultimately obtain ps ag' where rest: "send_full h a n (if marks a hdr then granted - 1458 else granted) (next_packet_hdr hdr) ag1
      = Some (ps, if marks a (next_packet_hdr hdr) then (if marks a hdr then granted - 1458 else granted) - 1458 * int n
            else (if marks a hdr then granted - 1458 else granted), (next_packet_hdr ^^ n) (next_packet_hdr hdr), ag')"
      "all_arrive src ce (link_speed_gbps (cfg h)) (next_packet_hdr hdr) (replicate n 1458) ps" "ag_daddr ag' = ag_daddr ag1"
      "ag_total_bytes_sent ag' = ag_total_bytes_sent ag1 + word_of_int (int n * 1538)"
    using Suc(1) by blast
  have "send_full h a (Suc n) granted hdr ag = Some (p # ps, if marks a hdr then granted - 1458 * int (Suc n) else granted,
      (next_packet_hdr ^^ Suc n) hdr, ag')"
    using one(1,2) rest(1) mk by (simp add: r2p2_sizes funpow_swap1)
  then show ?case using one(3-5) rest(2-4) by (simp add: algebra_simps)
qed simp

lemma all_arrive_sizes: "all_arrive src ce B hdr ns ps \<Longrightarrow> length ps = length ns"
  by (induction src ce B hdr ns ps rule: all_arrive.induct) simp_all

lemma header_overhead_small: "add_header_overhead 3 False = 84"
  by (simp add: add_header_overhead_def r2p2_sizes Let_def)

lemma unsigned_mark:
  \<comment> \<open>once the credit is used up the number of bytes is negative, which is a huge unsigned number\<close>
  assumes "sender_algo (cfg h) \<noteq> 1" "ecn_thresh_pkts (cfg h) \<le> 1000" "- 1458 \<le> granted" "granted < 0"
  shows "\<exists>g. ecn_mark h True 2916 granted hdr = Some (hdr\<lparr>hdr_sender_marked := True\<rparr>, g)"
proof -
  have "uint (ecn_thresh_pkts (cfg h)) \<le> 1000" using assms(2) by (simp add: word_le_def)
  then have "uint (ecn_thresh_pkts (cfg h)) * 1458 < 2 ^ 32" by simp
  then have "uint (ecn_thresh_pkts (cfg h) * 1458) = uint (ecn_thresh_pkts (cfg h)) * 1458" by (simp add: uint_word_ariths)
  moreover have "uint (word_of_int granted :: 32 word) = granted + 2 ^ 32"
  proof -
    have "(granted + 2 ^ 32) mod 2 ^ 32 = granted + 2 ^ 32" using assms(3,4) by (intro mod_pos_pos_trivial) simp_all
    then show ?thesis by (simp add: uint_word_of_int)
  qed
  ultimately have "ecn_thresh_pkts (cfg h) * 1458 < word_of_int granted"
    using \<open>uint (ecn_thresh_pkts (cfg h)) \<le> 1000\<close> assms(3) by (simp add: word_less_def)
  then show ?thesis using assms(1,3) by (simp add: ecn_mark_def actually_mark_def r2p2_sizes)
qed

lemma frame_bounds:
  assumes "0 < r" "r < 1458"
  shows "MIN_ETHERNET_FRAME_ON_WIRE \<le> r + overhead + frame_padding r" "r + overhead + frame_padding r \<le> MAX_ETHERNET_FRAME_ON_WIRE"
  using assms by (simp_all add: frame_padding_def r2p2_sizes)

lemma last_packet:
  assumes "can_emit h a hdr ag" "marks a hdr \<Longrightarrow> 0 \<le> G" "0 < r" "r < 1458"
  shows "\<exists>marked g p ag'. ecn_mark h (marks a hdr) MAX_R2P2_PAYLOAD G hdr = Some (marked, g)
    \<and> emit h a marked (r + overhead + frame_padding r) (frame_padding r) ag = Some (p, ag') \<and> arrives src ce (link_speed_gbps (cfg h)) hdr r p
    \<and> ag_total_bytes_sent ag' = ag_total_bytes_sent ag + word_of_int (max (r + 80) 84)"
proof -
  have sz: "r + overhead + frame_padding r = max (r + 80) 84" "frame_padding r = max (r + 80) 84 - (r + 80)"
    by (auto simp: frame_padding_def r2p2_sizes)
  have "- MAX_R2P2_PAYLOAD \<le> G - 1458" if "marks a hdr" using assms(2) [OF that] by (simp add: r2p2_sizes)
  moreover have "r \<le> 1458" using assms(4) by simp
  ultimately show ?thesis unfolding sz(1) unfolding sz(2)
    using packet_emitted [OF assms(1) _ assms(3) _ refl refl, of MAX_R2P2_PAYLOAD G src ce] by blast
qed

lemma credit_lasts:
  fixes granted nbytes r :: int
  assumes "0 \<le> granted" "nbytes \<le> 1458 \<or> nbytes \<le> granted" "nbytes = 1458 * int nf + r" "0 \<le> r"
  shows "granted - 1458 * int nf \<ge> - 2916" "r > 0 \<Longrightarrow> granted - 1458 * int nf \<ge> 0"
proof -
  have "0 < nf \<Longrightarrow> 1458 \<le> 1458 * int nf" by simp
  then show "granted - 1458 * int nf \<ge> - 2916" "r > 0 \<Longrightarrow> granted - 1458 * int nf \<ge> 0"
    using assms by (cases "nf = 0"; linarith)+
qed

text \<open>Property C16. What an agent sends arrives: whatever the number of bytes, from one up, \<open>sendmsg\<close> of one host cuts them into full
  packets and a last one, padded where it is shorter than four bytes; the agent of the other host gives every one of them to its
  transport with the payload it was given, headers and padding taken off, the number of the packet counted on and only
  the first marked as first; and the bytes counted as sent are those that \<open>add_header_overhead\<close> charges.
  The assertions of \<open>sendmsg\<close> hold for a single packet, and for more as long as the credit covers them.\<close>
theorem agent_delivers:
  assumes "1 \<le> nbytes" "0 < hdr_msg_creation_time hdr" "can_emit h a hdr ag" "granted = sint (get_granted_bytes_queue_len h)" "0 \<le> granted"
    "nbytes \<le> 1458 \<or> nbytes \<le> granted"
  shows "\<exists>ps ag'. sendmsg h a nbytes hdr ag = Some (ps, ag')
    \<and> all_arrive src ce (link_speed_gbps (cfg h)) hdr (replicate (nat (nbytes div 1458)) 1458 @ (if nbytes mod 1458 > 0 then [nbytes mod 1458] else [])) ps
    \<and> ag_total_bytes_sent ag' = ag_total_bytes_sent ag + word_of_int (add_header_overhead nbytes False)"
proof -
  define nf r where "nf = nat (nbytes div 1458)" and "r = nbytes mod 1458"
  let ?g = "granted_bytes h hdr"
  have "0 \<le> nbytes div 1458" using assms(1) by (simp add: pos_imp_zdiv_nonneg_iff)
  then have n: "nbytes = 1458 * int nf + r" "0 \<le> r" "r < 1458" "nbytes div 1458 = int nf" by (simp_all add: nf_def r_def)
  have sd: "nbytes sdiv 1458 = nbytes div 1458" "nbytes smod 1458 = nbytes mod 1458"
    using assms(1) by (cases "nbytes = 0"; simp add: signed_divide_int_def smod_int_alt_def)+
  note credit_lasts [OF assms(5,6) n(1,2)]
  then have full: "marks a hdr \<Longrightarrow> ?g - 1458 * int nf \<ge> - 2916" and last: "r > 0 \<Longrightarrow> marks a hdr \<Longrightarrow> ?g - 1458 * int nf - 1458 \<ge> - 1458"
    by (auto simp: marks_def granted_bytes_def assms(4))
  obtain ps ag1 where ps: "send_full h a nf ?g hdr ag = Some (ps, if marks a hdr then ?g - 1458 * int nf else ?g, (next_packet_hdr ^^ nf) hdr, ag1)"
      "all_arrive src ce (link_speed_gbps (cfg h)) hdr (replicate nf 1458) ps" "ag_daddr ag1 = ag_daddr ag"
      "ag_total_bytes_sent ag1 = ag_total_bytes_sent ag + word_of_int (int nf * 1538)"
    using send_full_arrives [OF assms(3) full] by blast
  have cost: "add_header_overhead nbytes False = int nf * 1538 + (if r > 0 then max (r + 80) 84 else 0)"
    using assms(1) sd n(4) by (simp add: add_header_overhead_def r2p2_sizes Let_def r_def add.commute)
  show ?thesis
  proof (cases "r > 0")
    case True
    let ?hdr = "(next_packet_hdr ^^ nf) hdr"
    define G where "G = (if marks a hdr then ?g - 1458 * int nf else ?g)"
    have "can_emit h a ?hdr ag1" using assms(3) ps(3) by (simp add: can_emit_def)
    moreover have "0 \<le> G" if "marks a ?hdr" using last True that by (simp add: G_def)
    ultimately obtain marked g p ag' where p: "ecn_mark h (marks a ?hdr) MAX_R2P2_PAYLOAD G ?hdr = Some (marked, g)"
        "emit h a marked (r + overhead + frame_padding r) (frame_padding r) ag1 = Some (p, ag')"
        "arrives src ce (link_speed_gbps (cfg h)) ?hdr r p" "ag_total_bytes_sent ag' = ag_total_bytes_sent ag1 + word_of_int (max (r + 80) 84)"
      using last_packet [OF _ _ True n(3), of h a ?hdr ag1 G src ce] by blast
    have mod: "nat (nbytes sdiv MAX_R2P2_PAYLOAD) = nf" "nbytes smod MAX_R2P2_PAYLOAD = r" "nbytes \<noteq> - 1"
      using n(4) assms(1) by (simp_all add: sd r2p2_sizes r_def)
    have "sendmsg h a nbytes hdr ag = Some (ps @ [p], ag')"
      using ps(1) [folded G_def] p(1) [unfolded marks_next] p(2) assms(2) True frame_bounds [OF True n(3)]
      by (simp add: sendmsg_def mod Let_def)
    moreover have "all_arrive src ce (link_speed_gbps (cfg h)) hdr (replicate nf 1458 @ [r]) (ps @ [p])"
      using all_arrive_snoc [OF ps(2)] p(3) by simp
    ultimately show ?thesis using ps(4) p(4) cost True by (simp add: n(4) r_def [symmetric] add.assoc)
  next
    case False
    have "sendmsg h a nbytes hdr ag = Some (ps, ag1)"
      using ps(1) assms(1,2,4) False n(4) by (simp add: sendmsg_def sd r2p2_sizes Let_def r_def [symmetric])
    then show ?thesis using ps cost False by (simp add: n(4) r_def [symmetric])
  qed
qed

definition sample_agent :: r2p2_agent where
  "sample_agent = \<lparr>ag_daddr = 7, ag_seqno = - 1, ag_total_bytes_sent = 0\<rparr>"

definition sample_args :: send_args where
  "sample_args = \<lparr>sa_fid = - 1, sa_prio = 7, sa_ttl = - 1, sa_src = - 1, sa_ecn_capable = True\<rparr>"

theorem agent_delivers_witness:
  "\<exists>p ag' q. sendmsg sample_host sample_args 3 (new_hdr\<lparr>hdr_msg_creation_time := 10\<rparr>) sample_agent = Some ([p], ag')
    \<and> agent_recv 1 False p = Some q \<and> hp_size q = 3 \<and> ag_total_bytes_sent ag' = 84"
proof -
  have h: "get_outbound_vq_len 7 sample_host = Some 0" "sender_algo (cfg sample_host) = 0" "get_granted_bytes_queue_len sample_host = 0"
    by (simp_all add: sample_host_def new_hybrid_def sample_config_def get_outbound_vq_len_def get_granted_bytes_queue_len_def num_outbound_def
        new_receiver_state_def new_msg_list_def)
  obtain ps ag' where ps: "sendmsg sample_host sample_args 3 (new_hdr\<lparr>hdr_msg_creation_time := 10\<rparr>) sample_agent = Some (ps, ag')"
      "all_arrive 1 False (link_speed_gbps (cfg sample_host)) (new_hdr\<lparr>hdr_msg_creation_time := 10\<rparr>) [3] ps" "ag_total_bytes_sent ag' = 84"
    using agent_delivers [of 3 "new_hdr\<lparr>hdr_msg_creation_time := 10\<rparr>" sample_host sample_args sample_agent 0 1 False] h
    by (auto simp: can_emit_def sample_agent_def header_overhead_small)
  obtain p where "ps = [p]" using all_arrive_sizes [OF ps(2)] by (auto simp: length_Suc_conv)
  then show ?thesis using ps by (auto simp: arrives_def)
qed

end
