(* ===== verification/R2p2_Layer.thy ===== *)
theory R2p2_Layer
  imports Hybrid_Host Ns_Timer
begin

text \<open>
  The R2P2 layer, \<open>r2p2/core/r2p2.cc\<close>, \<open>r2p2-client.cc\<close> and \<open>r2p2-server.cc\<close>: what lies between the
  applications of a host and its transport. The client numbers the requests of each thread and puts the
  packets of a reply together, the server those of a request.

  A call to the transport or to an application is an output. The state of a request that has been deleted while its
  entry stays in the map of the client is \<open>Some None\<close>; to look at it, through a dangling pointer, is \<open>None\<close>.
\<close>

section \<open>Calls\<close>

record request_tuple =
  rt_req_id :: int
  rt_app_level_id :: int
  rt_cl_addr :: int
  rt_sr_addr :: int
  rt_cl_thread_id :: int
  rt_sr_thread_id :: int
  rt_ts :: real

datatype layer_output =
  \<comment> \<open>\<open>send_to_transport\<close> with a payload and an address; \<open>req_recv\<close> and \<open>req_success\<close> of the application of a thread\<close>
  To_transport r2p2_hdr int int | Req_recv int int request_tuple | Req_success int int request_tuple

definition app_tuple :: "r2p2_hdr \<Rightarrow> request_tuple" where
  "app_tuple hdr = \<lparr>rt_req_id = hdr_req_id hdr, rt_app_level_id = hdr_app_level_id hdr, rt_cl_addr = hdr_cl_addr hdr,
     rt_sr_addr = hdr_sr_addr hdr, rt_cl_thread_id = hdr_cl_thread_id hdr, rt_sr_thread_id = hdr_sr_thread_id hdr,
     rt_ts = hdr_msg_creation_time hdr\<rparr>"

definition send_to_application :: "int list \<Rightarrow> r2p2_hdr \<Rightarrow> int \<Rightarrow> layer_output list option" where
  \<comment> \<open>the first argument lists the threads of the applications attached\<close>
  "send_to_application apps hdr n = (
     if hdr_msg_type hdr = REQUEST then do {
       check (hdr_sr_thread_id hdr \<in> set apps);
       Some [Req_recv (hdr_sr_thread_id hdr) n (app_tuple hdr)] }
     else if hdr_msg_type hdr = REPLY then do {
       check (hdr_cl_thread_id hdr \<in> set apps);
       Some [Req_success (hdr_cl_thread_id hdr) n (app_tuple hdr)] }
     else Some [])"

definition num_packets :: "int \<Rightarrow> int" where
  "num_packets payload = payload sdiv MAX_R2P2_PAYLOAD + (if payload smod MAX_R2P2_PAYLOAD > 0 then 1 else 0)"

section \<open>The client\<close>

record client_request =
  req_bytes_left :: int
  reply_pkts_to_rec :: int
  reply_pkts_recvd :: int
  reply_bytes_recvd :: int
  cr_msg_creation_time :: real

definition new_client_request :: client_request where
  "new_client_request = \<lparr>req_bytes_left = 0, reply_pkts_to_rec = 0, reply_pkts_recvd = 0, reply_bytes_recvd = 0,
     cr_msg_creation_time = - 1\<rparr>"

record r2p2_client =
  thrd_id_to_req_id :: "int \<rightharpoonup> 32 word"
  thrd_id_to_pending_reqs :: "int \<rightharpoonup> (int \<rightharpoonup> client_request option)"

definition new_client :: r2p2_client where
  "new_client = \<lparr>thrd_id_to_req_id = Map.empty, thrd_id_to_pending_reqs = Map.empty\<rparr>"

definition next_req_id :: "int \<Rightarrow> r2p2_client \<Rightarrow> 32 word" where
  "next_req_id thread c = (case thrd_id_to_req_id c thread of None \<Rightarrow> 0 | Some r \<Rightarrow> r + 1)"

definition pending_of :: "int \<Rightarrow> r2p2_client \<Rightarrow> int \<rightharpoonup> client_request option" where
  "pending_of thread c = (case thrd_id_to_pending_reqs c thread of None \<Rightarrow> Map.empty | Some m \<Rightarrow> m)"

definition REQ0_MSG_SIZE :: int where "REQ0_MSG_SIZE = 14"

definition request_header :: "int \<Rightarrow> int \<Rightarrow> request_tuple \<Rightarrow> r2p2_hdr" where
  \<comment> \<open>for a request of so many bytes\<close>
  "request_header payload rid tup = (let single = (num_packets payload = 1) in
     new_hdr\<lparr>hdr_first := True, hdr_last := single, hdr_msg_type := REQUEST, hdr_req_id := rid,
       hdr_pkt_id := (if single then 0 else num_packets (payload - REQ0_MSG_SIZE)),
       hdr_cl_addr := rt_cl_addr tup, hdr_cl_thread_id := rt_cl_thread_id tup, hdr_app_level_id := rt_app_level_id tup,
       hdr_sr_addr := rt_sr_addr tup, hdr_sr_thread_id := rt_sr_thread_id tup, hdr_msg_creation_time := rt_ts tup\<rparr>)"

definition send_req :: "int \<Rightarrow> request_tuple \<Rightarrow> r2p2_client \<Rightarrow> (layer_output list \<times> r2p2_client) option" where
  "send_req payload tup c = (let
     single = (num_packets payload = 1);
     thread = rt_cl_thread_id tup;
     rid = next_req_id thread c;
     st = new_client_request\<lparr>req_bytes_left := (if single then 0 else payload - REQ0_MSG_SIZE), cr_msg_creation_time := rt_ts tup\<rparr>
   in do {
     check (payload \<ge> 1);
     Some ([To_transport (request_header payload (uint rid) tup) (if single then payload else REQ0_MSG_SIZE) (rt_sr_addr tup)],
       c\<lparr>thrd_id_to_req_id := (thrd_id_to_req_id c)(thread \<mapsto> rid),
         thrd_id_to_pending_reqs := (thrd_id_to_pending_reqs c)(thread \<mapsto> (pending_of thread c)(uint rid \<mapsto> Some st))\<rparr>) })"

definition client_state :: "r2p2_hdr \<Rightarrow> r2p2_client \<Rightarrow> client_request option" where
  \<comment> \<open>both \<open>at\<close> throw for what is not there; the last step follows the pointer\<close>
  "client_state hdr c = do {
     m \<leftarrow> thrd_id_to_pending_reqs c (hdr_cl_thread_id hdr);
     p \<leftarrow> m (hdr_req_id hdr);
     p }"

definition set_client_state :: "r2p2_hdr \<Rightarrow> client_request option \<Rightarrow> r2p2_client \<Rightarrow> r2p2_client" where
  "set_client_state hdr st c = c\<lparr>thrd_id_to_pending_reqs := (thrd_id_to_pending_reqs c)(hdr_cl_thread_id hdr \<mapsto>
     (pending_of (hdr_cl_thread_id hdr) c)(hdr_req_id hdr \<mapsto> st))\<rparr>"

definition handle_req_rdy :: "r2p2_hdr \<Rightarrow> r2p2_client \<Rightarrow> layer_output list option" where
  \<comment> \<open>the rest of a request is sent\<close>
  "handle_req_rdy hdr c = do {
     st \<leftarrow> client_state hdr c;
     Some [To_transport (hdr\<lparr>hdr_msg_type := REQUEST, hdr_pkt_id := 1, hdr_first := False,
       hdr_msg_creation_time := cr_msg_creation_time st\<rparr>) (req_bytes_left st) (hdr_sr_addr hdr)] }"

definition reply_counted :: "r2p2_hdr \<Rightarrow> int \<Rightarrow> client_request \<Rightarrow> client_request" where
  "reply_counted hdr payload st = st\<lparr>reply_pkts_recvd := reply_pkts_recvd st + 1,
     reply_pkts_to_rec := (if hdr_first hdr then hdr_pkt_id hdr else reply_pkts_to_rec st),
     reply_bytes_recvd := reply_bytes_recvd st + payload\<rparr>"

definition handle_reply_pkt :: "int list \<Rightarrow> r2p2_hdr \<Rightarrow> int \<Rightarrow> r2p2_client \<Rightarrow> (layer_output list \<times> r2p2_client) option" where
  "handle_reply_pkt apps hdr payload c = do {
     st \<leftarrow> client_state hdr c;
     let st = reply_counted hdr payload st;
     let is_ooo = (\<not> hdr_first hdr \<and> reply_pkts_to_rec st = 0);
     if \<not> is_ooo \<and> reply_pkts_recvd st = reply_pkts_to_rec st then do {
       out \<leftarrow> send_to_application apps hdr (reply_bytes_recvd st);
       Some (out, set_client_state hdr None c) }
     else Some ([], set_client_state hdr (Some st) c) }"

section \<open>The server\<close>

record server_request =
  req_pkts_expected :: int
  req_pkts_received :: int
  req_bytes_received :: int
  reply_sent :: bool
  old_state :: bool

definition new_server_request :: server_request where
  "new_server_request = \<lparr>req_pkts_expected = - 1, req_pkts_received = 0, req_bytes_received = 0, reply_sent = False, old_state = False\<rparr>"

record r2p2_server =
  pending_requests :: "int \<times> int \<rightharpoonup> (int \<rightharpoonup> server_request)"
  thrd_id_to_reqs_served :: "int \<rightharpoonup> int"
  garbage_timer :: timer
  gc_freq_sec :: real

definition new_server :: "real \<Rightarrow> r2p2_server" where
  "new_server now = (let freq = ddiv (ddiv 1000 1000) 1000 in
     \<lparr>pending_requests = Map.empty, thrd_id_to_reqs_served = Map.empty, garbage_timer = timer_resched now freq new_timer,
       gc_freq_sec = freq\<rparr>)"

definition client_of :: "r2p2_hdr \<Rightarrow> int \<times> int" where
  "client_of hdr = (hdr_cl_addr hdr, hdr_cl_thread_id hdr)"

definition requests_of :: "int \<times> int \<Rightarrow> r2p2_server \<Rightarrow> int \<rightharpoonup> server_request" where
  "requests_of cl s = (case pending_requests s cl of None \<Rightarrow> Map.empty | Some m \<Rightarrow> m)"

definition set_server_state :: "r2p2_hdr \<Rightarrow> server_request \<Rightarrow> r2p2_server \<Rightarrow> r2p2_server" where
  "set_server_state hdr st s = s\<lparr>pending_requests := (pending_requests s)(client_of hdr \<mapsto>
     (requests_of (client_of hdr) s)(hdr_req_id hdr \<mapsto> st))\<rparr>"

definition request_counted :: "r2p2_hdr \<Rightarrow> int \<Rightarrow> server_request option \<Rightarrow> server_request option" where
  \<comment> \<open>the state of a request after a packet, of a new one or of one whose size is not known when the first packet comes\<close>
  "request_counted hdr payload old = (case old of
     None \<Rightarrow> Some (new_server_request\<lparr>req_pkts_expected := (if hdr_first hdr then hdr_pkt_id hdr + 1 else - 1),
       req_pkts_received := 1, req_bytes_received := payload\<rparr>)
   | Some st \<Rightarrow> do {
       check (hdr_first hdr \<longrightarrow> req_pkts_expected st = - 1);
       Some (st\<lparr>req_pkts_expected := (if hdr_first hdr then hdr_pkt_id hdr + 1 else req_pkts_expected st),
         req_pkts_received := req_pkts_received st + 1, req_bytes_received := req_bytes_received st + payload\<rparr>) })"

definition handle_request_pkt :: "int list \<Rightarrow> r2p2_hdr \<Rightarrow> int \<Rightarrow> r2p2_server \<Rightarrow> (layer_output list \<times> r2p2_server) option" where
  "handle_request_pkt apps hdr payload s = (let old = requests_of (client_of hdr) s (hdr_req_id hdr) in do {
     st \<leftarrow> request_counted hdr payload old;
     let s = set_server_state hdr st s;
     if old = None \<and> hdr_first hdr \<and> req_pkts_expected st = 1 then do {
       out \<leftarrow> send_to_application apps hdr (req_bytes_received st);
       Some (out, s) }
     else if req_pkts_expected st \<noteq> - 1 \<and> req_pkts_expected st = req_pkts_received st then do {
       out \<leftarrow> send_to_application apps hdr (req_bytes_received st);
       Some (out, s) }
     else Some ([], s) })"

definition reply_header :: "real \<Rightarrow> int \<Rightarrow> request_tuple \<Rightarrow> r2p2_hdr" where
  "reply_header now payload tup = new_hdr\<lparr>hdr_first := True, hdr_last := False, hdr_msg_type := REPLY, hdr_req_id := rt_req_id tup,
     hdr_pkt_id := num_packets payload, hdr_cl_addr := rt_cl_addr tup, hdr_sr_addr := rt_sr_addr tup,
     hdr_cl_thread_id := rt_cl_thread_id tup, hdr_sr_thread_id := rt_sr_thread_id tup, hdr_app_level_id := rt_app_level_id tup,
     hdr_msg_creation_time := now\<rparr>"

definition send_response :: "real \<Rightarrow> int \<Rightarrow> request_tuple \<Rightarrow> r2p2_server \<Rightarrow> (layer_output list \<times> r2p2_server) option" where
  "send_response now payload tup s = (let hdr = reply_header now payload tup in do {
     m \<leftarrow> pending_requests s (client_of hdr);
     st \<leftarrow> m (rt_req_id tup);
     Some ([To_transport hdr payload (rt_cl_addr tup)],
       (set_server_state hdr (st\<lparr>reply_sent := True\<rparr>) s)\<lparr>thrd_id_to_reqs_served := (thrd_id_to_reqs_served s)
         (rt_sr_thread_id tup \<mapsto> (case thrd_id_to_reqs_served s (rt_sr_thread_id tup) of None \<Rightarrow> 1 | Some n \<Rightarrow> n + 1))\<rparr>) })"

definition collected :: "server_request \<Rightarrow> server_request option" where
  \<comment> \<open>an answered request goes at the second collection after the answer\<close>
  "collected st = (if reply_sent st then (if old_state st then None else Some (st\<lparr>old_state := True\<rparr>)) else Some st)"

definition garbage_collect_state :: "real \<Rightarrow> r2p2_server \<Rightarrow> r2p2_server" where
  "garbage_collect_state now s = s\<lparr>pending_requests := (\<lambda>cl. map_option (\<lambda>m r. Option.bind (m r) collected) (pending_requests s cl)),
     garbage_timer := timer_resched now (gc_freq_sec s) (garbage_timer s)\<rparr>"

section \<open>The layer\<close>

record r2p2_layer =
  layer_client :: r2p2_client
  layer_server :: r2p2_server
  layer_apps :: "int list"

definition new_layer :: "real \<Rightarrow> r2p2_layer" where
  "new_layer now = \<lparr>layer_client = new_client, layer_server = new_server now, layer_apps = []\<rparr>"

definition attach_r2p2_application :: "int \<Rightarrow> r2p2_layer \<Rightarrow> r2p2_layer" where
  "attach_r2p2_application thread l = l\<lparr>layer_apps := List.insert thread (layer_apps l)\<rparr>"

definition r2p2_send_req :: "int \<Rightarrow> request_tuple \<Rightarrow> r2p2_layer \<Rightarrow> (layer_output list \<times> r2p2_layer) option" where
  "r2p2_send_req payload tup l = do {
     (out, c) \<leftarrow> send_req payload tup (layer_client l);
     Some (out, l\<lparr>layer_client := c\<rparr>) }"

definition r2p2_send_response :: "real \<Rightarrow> int \<Rightarrow> request_tuple \<Rightarrow> r2p2_layer \<Rightarrow> (layer_output list \<times> r2p2_layer) option" where
  "r2p2_send_response now nbytes tup l = do {
     (out, s) \<leftarrow> send_response now nbytes tup (layer_server l);
     Some (out, l\<lparr>layer_server := s\<rparr>) }"

definition layer_recv :: "r2p2_hdr \<Rightarrow> int \<Rightarrow> r2p2_layer \<Rightarrow> (layer_output list \<times> r2p2_layer) option" where
  \<comment> \<open>\<open>R2p2::recv\<close>; other kinds of packets are dropped\<close>
  "layer_recv hdr nbytes l = (
     if hdr_msg_type hdr = REQUEST then do {
       (out, s) \<leftarrow> handle_request_pkt (layer_apps l) hdr nbytes (layer_server l);
       Some (out, l\<lparr>layer_server := s\<rparr>) }
     else if hdr_msg_type hdr = REQRDY then do {
       out \<leftarrow> handle_req_rdy hdr (layer_client l);
       Some (out, l) }
     else if hdr_msg_type hdr = REPLY then do {
       (out, c) \<leftarrow> handle_reply_pkt (layer_apps l) hdr nbytes (layer_client l);
       Some (out, l\<lparr>layer_client := c\<rparr>) }
     else Some ([], l))"

end
