(* ===== verification/R2p2_Messages.thy ===== *)
theory R2p2_Messages
  imports R2p2_Layer Hybrid_Packets
begin

text \<open>
  Messages from one application to another: the R2P2 layer puts the packets of a request or a reply together,
  and these packets are the ones that the hybrid transport cuts a message into.
\<close>

section \<open>Packets in any order\<close>

definition firsts :: "(r2p2_hdr \<times> int) list \<Rightarrow> r2p2_hdr list" where
  "firsts pkts = filter hdr_first (map fst pkts)"

lemma firsts_simps [simp]:
  "firsts [] = []" "firsts ((h, n) # pkts) = (if hdr_first h then h # firsts pkts else firsts pkts)"
  by (simp_all add: firsts_def)

definition payload_sum :: "(r2p2_hdr \<times> int) list \<Rightarrow> int" where
  "payload_sum pkts = sum_list (map snd pkts)"

lemma payload_sum_simps [simp]: "payload_sum [] = 0" "payload_sum ((h, n) # pkts) = n + payload_sum pkts"
  by (simp_all add: payload_sum_def)

fun run_packets :: "(r2p2_hdr \<Rightarrow> int \<Rightarrow> 's \<Rightarrow> ('o list \<times> 's) option) \<Rightarrow> (r2p2_hdr \<times> int) list \<Rightarrow> 's \<Rightarrow> ('o list \<times> 's) option" where
  \<comment> \<open>packets arrive one after the other\<close>
  "run_packets step [] s = Some ([], s)"
| "run_packets step ((hdr, n) # pkts) s = do {
     (out, s) \<leftarrow> step hdr n s;
     (outs, s) \<leftarrow> run_packets step pkts s;
     Some (out @ outs, s) }"

definition expect :: "(r2p2_hdr \<Rightarrow> int) \<Rightarrow> r2p2_hdr \<Rightarrow> int option \<Rightarrow> int option" where
  "expect announced h e = (if hdr_first h then Some (announced h) else e)"

text \<open>What the two ends have in common: \<open>view\<close> is what is known of one message, the packets received, how many there
  will be once the first packet has told, and the bytes; \<open>delivered\<close> holds once the application has got it.\<close>
locale reassembly =
  fixes step :: "r2p2_hdr \<Rightarrow> int \<Rightarrow> 's \<Rightarrow> ('o list \<times> 's) option"
    and view :: "'s \<Rightarrow> (int \<times> int option \<times> int) option"
    and announced :: "r2p2_hdr \<Rightarrow> int"
    and result :: "r2p2_hdr \<Rightarrow> int \<Rightarrow> 'o"
    and accepts :: "r2p2_hdr \<Rightarrow> bool"
    and delivered :: "'s \<Rightarrow> bool"
  assumes deliver: "\<lbrakk>accepts h; view s = Some (k, e, b); hdr_first h \<Longrightarrow> e = None; expect announced h e = Some (k + 1)\<rbrakk>
      \<Longrightarrow> \<exists>s'. step h n s = Some ([result h (b + n)], s') \<and> delivered s'"
    and collect: "\<lbrakk>accepts h; view s = Some (k, e, b); hdr_first h \<Longrightarrow> e = None; expect announced h e \<noteq> Some (k + 1)\<rbrakk>
      \<Longrightarrow> \<exists>s'. step h n s = Some ([], s') \<and> view s' = Some (k + 1, expect announced h e, b + n)"
begin

lemma run_all:
  assumes "\<forall>(h, n)\<in>set pkts. accepts h" "pkts \<noteq> []" "view s = Some (k, e, b)" "N = k + int (length pkts)"
    "e = Some N \<and> firsts pkts = [] \<or> e = None \<and> (\<exists>f. firsts pkts = [f] \<and> announced f = N)"
  shows "\<exists>s'. run_packets step pkts s = Some ([result (fst (last pkts)) (b + payload_sum pkts)], s') \<and> delivered s'"
  using assms
proof (induction pkts arbitrary: s k e b)
  case (Cons p pkts)
  obtain h n where p: "p = (h, n)" by fastforce
  have acc: "accepts h" "\<forall>(h, n)\<in>set pkts. accepts h" using Cons(2) unfolding p by auto
  have unknown: "hdr_first h \<Longrightarrow> e = None" using Cons(6) unfolding p by auto
  have ex: "expect announced h e = Some N \<and> firsts pkts = []
      \<or> expect announced h e = None \<and> (\<exists>f. firsts pkts = [f] \<and> announced f = N)"
    using Cons(6) unfolding p by (auto simp: expect_def split: if_splits)
  show ?case
  proof (cases "pkts = []")
    case True
    then have "expect announced h e = Some (k + 1)" using ex Cons(5) by auto
    from deliver [OF acc(1) Cons(4) unknown this, of n] show ?thesis using True unfolding p by auto
  next
    case False
    then have "expect announced h e \<noteq> Some (k + 1)" using ex Cons(5) by auto
    from collect [OF acc(1) Cons(4) unknown this, of n] obtain s1
      where s1: "step h n s = Some ([], s1)" "view s1 = Some (k + 1, expect announced h e, b + n)" by blast
    have "N = k + 1 + int (length pkts)" using Cons(5) by simp
    from Cons(1) [OF acc(2) False s1(2) this ex] show ?thesis using False s1(1) unfolding p by (auto simp: add.assoc)
  qed
qed simp

lemma run_new:
  assumes "\<forall>(h, n)\<in>set pkts. accepts h" "firsts pkts = [f]" "announced f = int (length pkts)" "view s = Some (0, None, 0)"
  shows "\<exists>s'. run_packets step pkts s = Some ([result (fst (last pkts)) (payload_sum pkts)], s') \<and> delivered s'"
proof -
  have "pkts \<noteq> []" using assms(2) by auto
  from run_all [OF assms(1) this assms(4) refl] show ?thesis using assms(2,3) by simp
qed

end

section \<open>The server puts a request together\<close>

definition req_output :: "r2p2_hdr \<Rightarrow> int \<Rightarrow> layer_output" where
  "req_output hdr n = Req_recv (hdr_sr_thread_id hdr) n (app_tuple hdr)"

definition server_view :: "int \<times> int \<Rightarrow> int \<Rightarrow> r2p2_server \<Rightarrow> (int \<times> int option \<times> int) option" where
  "server_view cl r s = (case requests_of cl s r of
     None \<Rightarrow> Some (0, None, 0)
   | Some st \<Rightarrow> Some (req_pkts_received st, if req_pkts_expected st = - 1 then None else Some (req_pkts_expected st), req_bytes_received st))"

definition server_accepts :: "int list \<Rightarrow> int \<times> int \<Rightarrow> int \<Rightarrow> r2p2_hdr \<Rightarrow> bool" where
  "server_accepts apps cl r h \<longleftrightarrow> hdr_msg_type h = REQUEST \<and> client_of h = cl \<and> hdr_req_id h = r \<and> hdr_sr_thread_id h \<in> set apps
     \<and> 0 \<le> hdr_pkt_id h"

definition server_done :: "int \<times> int \<Rightarrow> int \<Rightarrow> r2p2_server \<Rightarrow> bool" where
  "server_done cl r s \<longleftrightarrow> (\<exists>st. requests_of cl s r = Some st \<and> req_pkts_received st = req_pkts_expected st)"

lemma requests_of_set [simp]: "requests_of (client_of hdr) (set_server_state hdr st s) (hdr_req_id hdr) = Some st"
  by (simp add: requests_of_def set_server_state_def)

definition server_counted :: "r2p2_hdr \<Rightarrow> int \<Rightarrow> int \<Rightarrow> int option \<Rightarrow> int \<Rightarrow> server_request \<Rightarrow> bool" where
  "server_counted h n k e b st \<longleftrightarrow> req_pkts_received st = k + 1 \<and> req_bytes_received st = b + n
    \<and> (if req_pkts_expected st = - 1 then None else Some (req_pkts_expected st)) = expect (\<lambda>h. hdr_pkt_id h + 1) h e"

lemma request_counted_view:
  assumes "server_accepts apps cl r h" "server_view cl r s = Some (k, e, b)" "hdr_first h \<Longrightarrow> e = None"
  shows "\<exists>st. request_counted h n (requests_of cl s r) = Some st \<and> server_counted h n k e b st
    \<and> (requests_of cl s r = None \<longrightarrow> k = 0)"
proof (cases "requests_of cl s r")
  case None
  then show ?thesis using assms
    by (simp add: server_accepts_def server_view_def request_counted_def new_server_request_def server_counted_def expect_def)
next
  case (Some st)
  then have st: "k = req_pkts_received st" "b = req_bytes_received st" "e = (if req_pkts_expected st = - 1 then None else Some (req_pkts_expected st))"
    using assms(2) by (simp_all add: server_view_def)
  have "hdr_first h \<Longrightarrow> req_pkts_expected st = - 1" using assms(3) st(3) by (simp split: if_splits)
  then show ?thesis using Some assms(1) unfolding st
    by (simp add: server_accepts_def request_counted_def server_counted_def expect_def)
qed

lemma server_step:
  assumes "server_accepts apps cl r h" "server_view cl r s = Some (k, e, b)" "hdr_first h \<Longrightarrow> e = None"
  shows "\<exists>st. handle_request_pkt apps h n s = Some (if expect (\<lambda>h. hdr_pkt_id h + 1) h e = Some (k + 1)
        then [req_output h (b + n)] else [], set_server_state h st s) \<and> server_counted h n k e b st"
proof -
  obtain st where st: "request_counted h n (requests_of cl s r) = Some st" "server_counted h n k e b st"
    "requests_of cl s r = None \<longrightarrow> k = 0"
    using request_counted_view [OF assms] by blast
  have key: "client_of h = cl" "hdr_req_id h = r" and app: "send_to_application apps h x = Some [req_output h x]" for x
    using assms(1) by (simp_all add: server_accepts_def send_to_application_def req_output_def)
  have "expect (\<lambda>h. hdr_pkt_id h + 1) h e = Some (k + 1) \<longleftrightarrow> req_pkts_expected st \<noteq> - 1 \<and> req_pkts_expected st = req_pkts_received st"
    using st(2) by (auto simp: server_counted_def split: if_splits)
  moreover have "requests_of cl s r = None \<and> hdr_first h \<and> req_pkts_expected st = 1
      \<Longrightarrow> req_pkts_expected st \<noteq> - 1 \<and> req_pkts_expected st = req_pkts_received st"
    using st(2,3) by (simp add: server_counted_def)
  moreover have "req_bytes_received st = b + n" using st(2) by (simp add: server_counted_def)
  ultimately show ?thesis using st(1,2) by (auto simp: handle_request_pkt_def key app Let_def)
qed

interpretation server: reassembly "handle_request_pkt apps" "server_view cl r" "\<lambda>h. hdr_pkt_id h + 1" req_output
    "server_accepts apps cl r" "server_done cl r" for apps cl r
proof
  fix h s k e b n
  assume a: "server_accepts apps cl r h" "server_view cl r s = Some (k, e, b)" "hdr_first h \<Longrightarrow> e = None"
  obtain st where st: "handle_request_pkt apps h n s = Some (if expect (\<lambda>h. hdr_pkt_id h + 1) h e = Some (k + 1)
        then [req_output h (b + n)] else [], set_server_state h st s)" "server_counted h n k e b st"
    using server_step [OF a, of n] by blast
  have get: "requests_of cl (set_server_state h st s) r = Some st"
    using a(1) by (auto simp: server_accepts_def requests_of_def set_server_state_def)
  show "expect (\<lambda>h. hdr_pkt_id h + 1) h e = Some (k + 1)
      \<Longrightarrow> \<exists>s'. handle_request_pkt apps h n s = Some ([req_output h (b + n)], s') \<and> server_done cl r s'"
    using st get by (auto simp: server_done_def server_counted_def split: if_splits)
  show "expect (\<lambda>h. hdr_pkt_id h + 1) h e \<noteq> Some (k + 1) \<Longrightarrow> \<exists>s'. handle_request_pkt apps h n s = Some ([], s')
      \<and> server_view cl r s' = Some (k + 1, expect (\<lambda>h. hdr_pkt_id h + 1) h e, b + n)"
    using st get by (simp add: server_view_def server_counted_def)
qed

section \<open>The client puts a reply together\<close>

definition reply_output :: "r2p2_hdr \<Rightarrow> int \<Rightarrow> layer_output" where
  "reply_output hdr n = Req_success (hdr_cl_thread_id hdr) n (app_tuple hdr)"

definition pending_request :: "int \<Rightarrow> int \<Rightarrow> r2p2_client \<Rightarrow> client_request option" where
  "pending_request thread r c = Option.bind (thrd_id_to_pending_reqs c thread) (\<lambda>m. Option.bind (m r) (\<lambda>p. p))"

definition client_view :: "int \<Rightarrow> int \<Rightarrow> r2p2_client \<Rightarrow> (int \<times> int option \<times> int) option" where
  "client_view thread r c = map_option (\<lambda>st. (reply_pkts_recvd st,
     if reply_pkts_to_rec st = 0 then None else Some (reply_pkts_to_rec st), reply_bytes_recvd st)) (pending_request thread r c)"

definition client_accepts :: "int list \<Rightarrow> int \<Rightarrow> int \<Rightarrow> r2p2_hdr \<Rightarrow> bool" where
  "client_accepts apps thread r h \<longleftrightarrow> hdr_msg_type h = REPLY \<and> hdr_cl_thread_id h = thread \<and> hdr_req_id h = r \<and> thread \<in> set apps
     \<and> 0 < hdr_pkt_id h"

definition client_done :: "int \<Rightarrow> int \<Rightarrow> r2p2_client \<Rightarrow> bool" where
  \<comment> \<open>the state is deleted, its entry is still there\<close>
  "client_done thread r c \<longleftrightarrow> pending_of thread c r = Some None"

lemma pending_request_state: "pending_request (hdr_cl_thread_id h) (hdr_req_id h) c = client_state h c"
  by (simp add: pending_request_def client_state_def)

lemma client_state_set [simp]: "client_state h (set_client_state h st c) = st"
  by (simp add: client_state_def set_client_state_def)

lemma pending_of_set [simp]: "pending_of (hdr_cl_thread_id h) (set_client_state h st c) (hdr_req_id h) = Some st"
  by (simp add: pending_of_def set_client_state_def)

interpretation client: reassembly "handle_reply_pkt apps" "client_view thread r" hdr_pkt_id reply_output
    "client_accepts apps thread r" "client_done thread r" for apps thread r
proof
  fix h c k e b n
  assume a: "client_accepts apps thread r h" "client_view thread r c = Some (k, e, b)" "hdr_first h \<Longrightarrow> e = None"
  have key: "hdr_cl_thread_id h = thread" "hdr_req_id h = r" using a(1) by (simp_all add: client_accepts_def)
  obtain st where st: "client_state h c = Some st" "k = reply_pkts_recvd st" "b = reply_bytes_recvd st"
      "e = (if reply_pkts_to_rec st = 0 then None else Some (reply_pkts_to_rec st))"
    using a(2) pending_request_state [of h c] unfolding key client_view_def by auto
  show "expect hdr_pkt_id h e = Some (k + 1)
      \<Longrightarrow> \<exists>c'. handle_reply_pkt apps h n c = Some ([reply_output h (b + n)], c') \<and> client_done thread r c'"
    using a(1) st pending_of_set [of h None c] unfolding key
    by (auto simp: handle_reply_pkt_def client_accepts_def reply_counted_def expect_def send_to_application_def reply_output_def
        client_done_def Let_def split: if_splits)
  show "expect hdr_pkt_id h e \<noteq> Some (k + 1) \<Longrightarrow> \<exists>c'. handle_reply_pkt apps h n c = Some ([], c')
      \<and> client_view thread r c' = Some (k + 1, expect hdr_pkt_id h e, b + n)"
    using a(1,3) st pending_request_state [of h] unfolding key
    by (auto simp: handle_reply_pkt_def client_accepts_def reply_counted_def expect_def client_view_def Let_def split: if_splits)
qed

lemma client_done_faults:
  assumes "client_done thread r c" "hdr_cl_thread_id h = thread" "hdr_req_id h = r"
  shows "handle_reply_pkt apps h n c = None"
  using assms by (auto simp: client_done_def handle_reply_pkt_def client_state_def pending_of_def split: option.splits)

section \<open>The packets that a message is cut into\<close>

definition message_packets :: "hybrid_config \<Rightarrow> (nat \<Rightarrow> policy_state) \<Rightarrow> out_msg \<Rightarrow> (r2p2_hdr \<times> int) list" where
  \<comment> \<open>what \<open>send_packet\<close> hands to the agents of the host, from the first packet to the last\<close>
  "message_packets c ps m = map (\<lambda>k. (packet_header c (ps k) ((packet_sent ^^ k) m), packet_payload ((packet_sent ^^ k) m)))
     [0..<packet_count (uint (total_bytes m))]"

lemma packets_sent_msg:
  "sent_first ((packet_sent ^^ k) m) \<longleftrightarrow> 0 < k \<or> sent_first m"
  "om_msg_creation_time ((packet_sent ^^ k) m) = om_msg_creation_time m"
  "om_is_request ((packet_sent ^^ k) m) = om_is_request m"
  "\<exists>f. om_hdr ((packet_sent ^^ k) m) = (om_hdr m)\<lparr>hdr_first := f\<rparr>"
proof -
  show "sent_first ((packet_sent ^^ k) m) \<longleftrightarrow> 0 < k \<or> sent_first m" by (cases k) (simp_all add: packet_sent_def)
  show "om_msg_creation_time ((packet_sent ^^ k) m) = om_msg_creation_time m" by (induction k) (simp_all add: packet_sent_def)
  show "om_is_request ((packet_sent ^^ k) m) = om_is_request m" by (induction k) (simp_all add: packet_sent_def)
  show "\<exists>f. om_hdr ((packet_sent ^^ k) m) = (om_hdr m)\<lparr>hdr_first := f\<rparr>"
  proof (induction k)
    case 0
    show ?case by (rule exI [of _ "hdr_first (om_hdr m)"]) simp
  next
    case (Suc k)
    then obtain f where "om_hdr ((packet_sent ^^ k) m) = (om_hdr m)\<lparr>hdr_first := f\<rparr>" by blast
    moreover obtain g where "om_hdr (packet_sent ((packet_sent ^^ k) m)) = (om_hdr ((packet_sent ^^ k) m))\<lparr>hdr_first := g\<rparr>"
      by (simp add: packet_sent_def)
    ultimately have "om_hdr ((packet_sent ^^ Suc k) m) = (om_hdr m)\<lparr>hdr_first := g\<rparr>" by simp
    then show ?case by (rule exI)
  qed
qed

definition same_envelope :: "r2p2_hdr \<Rightarrow> r2p2_hdr \<Rightarrow> bool" where
  \<comment> \<open>the fields that the layer and the application look at\<close>
  "same_envelope a b \<longleftrightarrow> hdr_msg_type a = hdr_msg_type b \<and> hdr_pkt_id a = hdr_pkt_id b \<and> client_of a = client_of b \<and> app_tuple a = app_tuple b"

definition msg_envelope :: "out_msg \<Rightarrow> r2p2_hdr" where
  "msg_envelope m = (om_hdr m)\<lparr>hdr_msg_creation_time := om_msg_creation_time m,
     hdr_msg_type := (if om_is_request m then REQUEST else REPLY)\<rparr>"

lemma packet_envelope:
  "same_envelope (packet_header c p ((packet_sent ^^ k) m)) (msg_envelope m)"
  "hdr_first (packet_header c p ((packet_sent ^^ k) m)) \<longleftrightarrow> k = 0 \<and> \<not> sent_first m"
proof -
  obtain f where "om_hdr ((packet_sent ^^ k) m) = (om_hdr m)\<lparr>hdr_first := f\<rparr>" using packets_sent_msg(4) by blast
  then show "same_envelope (packet_header c p ((packet_sent ^^ k) m)) (msg_envelope m)"
    by (simp add: same_envelope_def packet_header_def client_of_def app_tuple_def msg_envelope_def packets_sent_msg(2,3))
  show "hdr_first (packet_header c p ((packet_sent ^^ k) m)) \<longleftrightarrow> k = 0 \<and> \<not> sent_first m"
    by (simp add: packet_header_def packets_sent_msg(1))
qed

lemma payload_of_packets:
  assumes "unsent_bytes m = total_bytes m"
  shows "payload_sum (message_packets c ps m) = uint (total_bytes m)"
proof -
  let ?n = "uint (unsent_bytes m)"
  have one: "packet_payload ((packet_sent ^^ k) m) = max 0 (?n - 1458 * int k) - max 0 (?n - 1458 * int (Suc k))" for k
    by (auto simp: packet_payload_range unsent_after_packets)
  have "(\<Sum>k<j. packet_payload ((packet_sent ^^ k) m)) = ?n - max 0 (?n - 1458 * int j)" for j
    by (induction j) (simp_all add: one)
  moreover have "max 0 (?n - 1458 * int (packet_count ?n)) = 0"
    using packet_count_exact [of "packet_count ?n" m] unsent_after_packets [of "packet_count ?n" m] by simp
  ultimately have "(\<Sum>k<packet_count ?n. packet_payload ((packet_sent ^^ k) m)) = ?n" by simp
  then show ?thesis using assms
    by (simp add: payload_sum_def message_packets_def comp_def interv_sum_list_conv_sum_set_nat atLeast0LessThan)
qed

lemma firsts_of_packets:
  assumes "\<not> sent_first m" "0 < uint (total_bytes m)"
  shows "firsts (message_packets c ps m) = [packet_header c (ps 0) m]"
proof -
  have "0 < packet_count (uint (total_bytes m))" using packet_count_bound [of "uint (total_bytes m)" 0] assms(2)
    by (simp add: packet_count_def not_le [symmetric])
  then have "[0..<packet_count (uint (total_bytes m))] = 0 # [1..<packet_count (uint (total_bytes m))]" by (simp add: upt_conv_Cons)
  moreover have "hdr_first (packet_header c (ps 0) m)" using packet_envelope(2) [of c "ps 0" 0 m] assms(1) by simp
  ultimately show ?thesis
    by (simp add: firsts_def message_packets_def filter_map comp_def packet_envelope(2))
qed

lemma mset_firsts:
  assumes "mset pkts = mset qkts" "firsts qkts = [f]"
  shows "firsts pkts = [f]"
proof -
  have "mset (firsts pkts) = mset (firsts qkts)" using assms(1) by (simp add: firsts_def mset_filter [symmetric] del: mset_filter) (metis mset_filter mset_map)
  then show ?thesis using assms(2) by simp
qed

lemma mset_payload_sum: "mset pkts = mset qkts \<Longrightarrow> payload_sum pkts = payload_sum qkts"
  by (metis mset_map payload_sum_def sum_mset_sum_list)

section \<open>From the application to the transport\<close>

lemma packet_count_le: "packet_count n \<le> k \<longleftrightarrow> n \<le> 1458 * int k"
  unfolding packet_count_def nat_le_iff using packet_count_bound [of n "int k"] by simp

lemma num_packets_count:
  assumes "0 \<le> n"
  shows "num_packets n = int (packet_count n)"
proof -
  have "n sdiv 1458 = n div 1458" "n smod 1458 = n mod 1458"
    using assms by (cases "n = 0"; simp add: signed_divide_int_def smod_int_alt_def)+
  moreover have "0 \<le> n div 1458" using assms by (simp add: pos_imp_zdiv_nonneg_iff)
  ultimately show ?thesis by (simp add: num_packets_def packet_count_def r2p2_sizes)
qed

lemma request_count_pos:
  fixes w :: "32 word"
  assumes "0 < uint w"
  shows "0 < w div 1458 + (if w mod 1458 > 0 then 1 else 0)"
    and "sint (w div 1458 + (if w mod 1458 > 0 then 1 else 0) - 1) = int (packet_count (uint w)) - 1"
proof -
  define n where "n = int (packet_count (uint w))"
  have "0 \<le> uint w div 1458" by (simp add: pos_imp_zdiv_nonneg_iff)
  then have n: "n = uint w div 1458 + (if uint w mod 1458 > 0 then 1 else 0)" by (simp add: n_def packet_count_def)
  have "\<not> packet_count (uint w) \<le> 0" using assms by (simp only: packet_count_le)
  moreover have "n \<le> 2 ^ 22" using uint_bounded [of w] by (auto simp: n)
  ultimately have "0 < n" "n < 2 ^ 32" by (auto simp: n_def)
  then have "uint (word_of_int n :: 32 word) = n" by (simp add: uint_word_of_int)
  moreover have "w div 1458 + (if w mod 1458 > 0 then 1 else 0) = word_of_int n"
  proof -
    have "w div 1458 = word_of_int (uint w div 1458)" "0 < w mod 1458 \<longleftrightarrow> 0 < uint w mod 1458"
      by (simp_all add: word_div_def word_less_def uint_mod_distrib)
    then show ?thesis by (simp add: n)
  qed
  ultimately show pos: "0 < w div 1458 + (if w mod 1458 > 0 then 1 else 0)" using \<open>0 < n\<close> by (simp add: word_less_def)
  show "sint (w div 1458 + (if w mod 1458 > 0 then 1 else 0) - 1) = int (packet_count (uint w)) - 1"
    using request_count [OF pos] n by (simp add: n_def)
qed

lemma find_pos_snoc:
  assumes "key m = r" "r \<notin> key ` set ms"
  shows "find_pos_from key r k (ms @ [m]) = Some (k + length ms)"
  using assms by (induction ms arbitrary: k) auto

lemma sending_prepared:
  assumes "msgs (outbound_inactive g) = ms @ [m0]" "om_req_id m0 = uniq_id hdr" "uniq_id hdr \<notin> om_req_id ` set ms"
    "hdr_msg_type hdr = REQUEST" "total_bytes m0 = unsent_bytes m0" "1 \<le> n" "n < 2 ^ 31"
    "if hdr_first hdr \<and> hdr_pkt_id hdr = 0 then unsent_bytes m0 = word_of_int n else unsent_bytes m0 = 14 \<and> payload = n - 14"
  shows "\<exists>g'. sending_request hdr payload g = Some g' \<and> msgs (outbound_inactive g') = ms @ [m0\<lparr>unsent_bytes := word_of_int n,
      total_bytes := word_of_int n, om_hdr := (om_hdr m0)\<lparr>hdr_pkt_id := int (packet_count n) - 1\<rparr>\<rparr>]"
proof -
  define w :: "32 word" where "w = word_of_int n"
  have u: "uint w = n" using assms(6,7) by (simp add: w_def uint_word_of_int)
  have s: "sint w = n" using assms(6,7) by (simp add: w_def sint_sbintrunc' signed_take_bit_int_eq_self)
  have pos: "list_find_pos om_req_id (uniq_id hdr) (outbound_inactive g) = Some (length ms)"
    using find_pos_snoc [of om_req_id m0 "uniq_id hdr" ms 0] assms(1-3) by (simp add: list_find_pos_def)
  have at: "msgs (outbound_inactive g) ! length ms = m0" by (simp add: assms(1))
  let ?single = "hdr_first hdr \<and> hdr_pkt_id hdr = 0"
  have single: "is_single_packet_msg hdr = Some ?single" by (simp add: is_single_packet_msg_def assms(4))
  define add :: "32 word" where "add = (if unsent_bytes m0 = 14 \<and> \<not> ?single \<and> hdr_msg_type hdr = REQUEST then word_of_int payload else 0)"
  have all: "unsent_bytes m0 + add = w" 
  proof (cases ?single)
    case True
    then have "add = 0" "unsent_bytes m0 = word_of_int n" using assms(8) by (simp_all add: add_def)
    then show ?thesis by (simp add: w_def)
  next
    case False
    then have "add = word_of_int (n - 14)" "unsent_bytes m0 = 14" using assms(4,8) by (simp_all add: add_def)
    then show ?thesis by (simp add: w_def)
  qed
  then have tot: "total_bytes m0 + add = w" using assms(5) by simp
  have chk: "\<not> (hdr_msg_type hdr = REQUEST \<and> ?single) \<longrightarrow> sint (unsent_bytes m0 + add) = payload + 14"

  proof (cases ?single)
    case False
    then have "payload = n - 14" using assms(8) by simp
    then show ?thesis using s unfolding all by simp
  qed (use assms(4) in simp)
  have cnt: "0 < w div 1458 + (if w mod 1458 > 0 then 1 else 0)"
      "sint (w div 1458 + (if w mod 1458 > 0 then 1 else 0) - 1) = int (packet_count n) - 1"
    using request_count_pos [of w] u assms(6) by simp_all
  have "sending_request hdr payload g = Some (g\<lparr>outbound_inactive := list_update_at (length ms) (\<lambda>m. m\<lparr>unsent_bytes := unsent_bytes m + add,
       total_bytes := w, om_hdr := (om_hdr m)\<lparr>hdr_pkt_id := int (packet_count n) - 1\<rparr>\<rparr>) (outbound_inactive g)\<rparr>)"
    using cnt chk unfolding sending_request_def pos single Let_def option.case bind.bind_lunit at add_def [symmetric] tot all
    by (simp add: r2p2_sizes)
  then show ?thesis using all by (simp add: list_update_at_def assms(1) w_def)
qed

fun to_transport :: "hybrid_lib \<Rightarrow> real \<Rightarrow> layer_output list \<Rightarrow> hybrid \<Rightarrow> (hybrid_output list \<times> hybrid) option" where
  \<comment> \<open>\<open>R2p2::send_to_transport\<close>, for the calls that a step of the layer makes\<close>
  "to_transport lib now (To_transport hdr n daddr # outs) h = do {
     (out, h) \<leftarrow> send_to_transport lib now hdr n daddr h;
     (outs, h) \<leftarrow> to_transport lib now outs h;
     Some (out @ outs, h) }"
| "to_transport lib now (_ # outs) h = to_transport lib now outs h"
| "to_transport lib now [] h = Some ([], h)"

fun from_transport :: "hybrid_output list \<Rightarrow> r2p2_layer \<Rightarrow> (layer_output list \<times> r2p2_layer) option" where
  \<comment> \<open>the packets without a payload that the transport gives to the layer above\<close>
  "from_transport (Layer hdr # outs) l = do {
     (out, l) \<leftarrow> layer_recv hdr 0 l;
     (outs, l) \<leftarrow> from_transport outs l;
     Some (out @ outs, l) }"
| "from_transport (_ # outs) l = from_transport outs l"
| "from_transport [] l = Some ([], l)"

definition host_send_req :: "hybrid_lib \<Rightarrow> real \<Rightarrow> int \<Rightarrow> request_tuple \<Rightarrow> r2p2_layer \<Rightarrow> hybrid \<Rightarrow> (r2p2_layer \<times> hybrid) option" where
  \<comment> \<open>the first call to the transport asks for the rest, which the layer hands over in a second one\<close>
  "host_send_req lib now payload tup l h = do {
     (outs, l) \<leftarrow> r2p2_send_req payload tup l;
     (out, h) \<leftarrow> to_transport lib now outs h;
     (outs, l) \<leftarrow> from_transport out l;
     (out, h) \<leftarrow> to_transport lib now outs h;
     Some (l, h) }"

definition request_msg :: "int \<Rightarrow> int \<Rightarrow> request_tuple \<Rightarrow> out_msg" where
  \<comment> \<open>what the transport is left with\<close>
  "request_msg payload rid tup = (let hdr = request_header payload rid tup in
     (new_out_msg (rt_cl_addr tup, rt_cl_thread_id tup, rid) (rt_sr_addr tup) (hdr\<lparr>hdr_pkt_id := int (packet_count payload) - 1\<rparr>))
       \<lparr>unsent_bytes := word_of_int payload, total_bytes := word_of_int payload, om_msg_creation_time := rt_ts tup\<rparr>)"

lemma prep_msgs: "msgs (outbound_inactive (prep_msg_send lib hdr payload daddr h)) = msgs (outbound_inactive h)
    @ [(new_out_msg (uniq_id hdr) daddr hdr)\<lparr>unsent_bytes := word_of_int payload, total_bytes := word_of_int payload,
        om_is_request := True, om_msg_creation_time := hdr_msg_creation_time hdr\<rparr>]"
  "poll_started (prep_msg_send lib hdr payload daddr h) = poll_started h"
  by (simp_all add: prep_msg_send_def find_or_create_def list_append_def Let_def split: option.splits)

lemma host_send_req_msg:
  assumes "1 \<le> payload" "payload < 2 ^ 31" "rt_sr_addr tup \<noteq> - 1" "poll_started h"
    "rid = uint (next_req_id (rt_cl_thread_id tup) (layer_client l))"
    "(rt_cl_addr tup, rt_cl_thread_id tup, rid) \<notin> om_req_id ` set (msgs (outbound_inactive h))"
  shows "\<exists>l' h'. host_send_req lib now payload tup l h = Some (l', h')
    \<and> msgs (outbound_inactive h') = msgs (outbound_inactive h) @ [request_msg payload rid tup]"
proof -
  let ?hdr = "request_header payload rid tup"
  have hdr: "hdr_msg_type ?hdr = REQUEST" "hdr_first ?hdr" "uniq_id ?hdr = (rt_cl_addr tup, rt_cl_thread_id tup, rid)"
    "hdr_msg_creation_time ?hdr = rt_ts tup" "hdr_sr_addr ?hdr = rt_sr_addr tup"
    by (simp_all add: request_header_def uniq_id_def Let_def)
  obtain l' where l': "r2p2_send_req payload tup l
      = Some ([To_transport ?hdr (if num_packets payload = 1 then payload else REQ0_MSG_SIZE) (rt_sr_addr tup)], l')"
    "client_state ?hdr (layer_client l') = Some (new_client_request\<lparr>req_bytes_left := (if num_packets payload = 1 then 0 else payload - REQ0_MSG_SIZE),
       cr_msg_creation_time := rt_ts tup\<rparr>)"
    using assms(1,5) by (simp add: r2p2_send_req_def send_req_def client_state_def request_header_def Let_def)
  have start: "start_polling lib now h = Some ([], h)" if "poll_started h" for h using that by (simp add: start_polling_def)
  show ?thesis
  proof (cases "num_packets payload = 1")
    case True
    let ?g = "prep_msg_send lib ?hdr payload (rt_sr_addr tup) h"
    have kind: "hdr_pkt_id ?hdr = 0" using True by (simp add: request_header_def)
    let ?m0 = "(new_out_msg (uniq_id ?hdr) (rt_sr_addr tup) ?hdr)\<lparr>unsent_bytes := word_of_int payload, total_bytes := word_of_int payload,
        om_is_request := True, om_msg_creation_time := hdr_msg_creation_time ?hdr\<rparr>"
    have "\<exists>g'. sending_request ?hdr payload ?g = Some g'
        \<and> msgs (outbound_inactive g') = msgs (outbound_inactive h) @ [?m0\<lparr>unsent_bytes := word_of_int payload,
      total_bytes := word_of_int payload, om_hdr := (om_hdr ?m0)\<lparr>hdr_pkt_id := int (packet_count payload) - 1\<rparr>\<rparr>]"
      by (rule sending_prepared [OF prep_msgs(1)]) (use hdr kind assms(1,2,6) in \<open>simp_all add: new_out_msg_def\<close>)
    then obtain g' where "sending_request ?hdr payload ?g = Some g'"
        "msgs (outbound_inactive g') = msgs (outbound_inactive h) @ [request_msg payload rid tup]"
      using hdr by (auto simp: request_msg_def new_out_msg_def Let_def)
    moreover have "\<not> is_req0_of_multipkt ?hdr" "is_single_packet_msg ?hdr = Some True"
      using kind hdr(1,2) by (simp_all add: is_req0_of_multipkt_def is_single_packet_msg_def)
    ultimately show ?thesis using l'(1) assms(3) hdr(1) start [OF assms(4)] True
      by (simp add: host_send_req_def send_to_transport_def Let_def)
  next
    case False
    have count: "num_packets payload = int (packet_count payload)" using num_packets_count assms(1) by simp
    have "\<not> packet_count payload \<le> 0" using assms(1) by (simp only: packet_count_le)
    then have "\<not> packet_count payload \<le> 1" using False count by linarith
    then have long: "1458 < payload" by (simp only: packet_count_le)
    then have cnt: "num_packets (payload - 14) = int (packet_count (payload - 14))" using num_packets_count by simp
    have kind: "1 \<le> hdr_pkt_id ?hdr"
    proof -
      have "\<not> packet_count (payload - 14) \<le> 0" using long by (simp only: packet_count_le)
      then show ?thesis using False cnt by (simp add: request_header_def REQ0_MSG_SIZE_def)
    qed
    let ?g = "prep_msg_send lib ?hdr 14 (rt_sr_addr tup) h"
    let ?hdr1 = "?hdr\<lparr>hdr_msg_type := REQUEST, hdr_pkt_id := 1, hdr_first := False, hdr_last := False, hdr_msg_creation_time := rt_ts tup\<rparr>"
    let ?m0 = "(new_out_msg (uniq_id ?hdr) (rt_sr_addr tup) ?hdr)\<lparr>unsent_bytes := word_of_int 14, total_bytes := word_of_int 14,
        om_is_request := True, om_msg_creation_time := hdr_msg_creation_time ?hdr\<rparr>"
    have u1: "uniq_id ?hdr1 = uniq_id ?hdr" by (simp add: uniq_id_def)
    have "\<exists>g'. sending_request ?hdr1 (payload - 14) ?g = Some g'
        \<and> msgs (outbound_inactive g') = msgs (outbound_inactive h) @ [?m0\<lparr>unsent_bytes := word_of_int payload,
      total_bytes := word_of_int payload, om_hdr := (om_hdr ?m0)\<lparr>hdr_pkt_id := int (packet_count payload) - 1\<rparr>\<rparr>]"
      by (rule sending_prepared [OF prep_msgs(1)]) (use hdr assms(1,2,6) in \<open>simp_all add: new_out_msg_def u1\<close>)
    then obtain g' where g': "sending_request ?hdr1 (payload - 14) ?g = Some g'"
        "msgs (outbound_inactive g') = msgs (outbound_inactive h) @ [request_msg payload rid tup]"
      using hdr by (auto simp: request_msg_def new_out_msg_def Let_def)
    have "send_to_transport lib now ?hdr 14 (rt_sr_addr tup) h
        = Some ([Layer (?hdr\<lparr>hdr_msg_type := REQRDY, hdr_first := False, hdr_last := False\<rparr>)], ?g)"
      using assms(3) start [OF assms(4)] kind hdr(1,2)
      by (simp add: send_to_transport_def is_req0_of_multipkt_def is_req0_def shorting_req0_def Let_def)
    moreover have "layer_recv (?hdr\<lparr>hdr_msg_type := REQRDY, hdr_first := False, hdr_last := False\<rparr>) 0 l'
        = Some ([To_transport ?hdr1 (payload - 14) (rt_sr_addr tup)], l')"
      using l'(2) False hdr(5) by (simp add: layer_recv_def handle_req_rdy_def client_state_def REQ0_MSG_SIZE_def)
    moreover have "send_to_transport lib now ?hdr1 (payload - 14) (rt_sr_addr tup) ?g = Some ([], g')"
      using g'(1) assms(3) start [of ?g] prep_msgs(2) assms(4)
      by (simp add: send_to_transport_def is_req0_of_multipkt_def is_req0_def is_from_multipkt_req_not_req0_def is_single_packet_msg_def Let_def)
    ultimately show ?thesis using l'(1) False g'(2) by (simp add: host_send_req_def REQ0_MSG_SIZE_def)
  qed
qed

section \<open>From the transport to the application\<close>

definition sent_whole :: "out_msg \<Rightarrow> bool" where
  \<comment> \<open>nothing of the message has been sent\<close>
  "sent_whole m \<longleftrightarrow> unsent_bytes m = total_bytes m \<and> \<not> sent_first m \<and> 0 < uint (total_bytes m)"

lemma arrived:
  assumes "mset pkts = mset (message_packets c ps m)" "sent_whole m"
  shows "int (length pkts) = int (packet_count (uint (total_bytes m)))" "payload_sum pkts = uint (total_bytes m)"
    "firsts pkts = [packet_header c (ps 0) m]"
    "(h, n) \<in> set pkts \<Longrightarrow> same_envelope h (msg_envelope m)" "same_envelope (fst (last pkts)) (msg_envelope m)"
    "same_envelope (packet_header c (ps 0) m) (msg_envelope m)"
proof -
  have s: "unsent_bytes m = total_bytes m" "\<not> sent_first m" "0 < uint (total_bytes m)" using assms(2) by (simp_all add: sent_whole_def)
  show "int (length pkts) = int (packet_count (uint (total_bytes m)))"
    using mset_eq_length [OF assms(1)] by (simp add: message_packets_def)
  show "payload_sum pkts = uint (total_bytes m)" using mset_payload_sum [OF assms(1)] payload_of_packets [OF s(1)] by simp
  show f: "firsts pkts = [packet_header c (ps 0) m]" by (rule mset_firsts [OF assms(1) firsts_of_packets [OF s(2,3)]])
  have e: "same_envelope h (msg_envelope m)" if "(h, n) \<in> set pkts" for h n
  proof -
    have "(h, n) \<in> set (message_packets c ps m)" using that mset_eq_setD [OF assms(1)] by simp
    then show ?thesis using packet_envelope(1) by (auto simp: message_packets_def)
  qed
  then show "(h, n) \<in> set pkts \<Longrightarrow> same_envelope h (msg_envelope m)" .
  have "pkts \<noteq> []" using f by auto
  then have "(fst (last pkts), snd (last pkts)) \<in> set pkts" by simp
  then show "same_envelope (fst (last pkts)) (msg_envelope m)" by (rule e)
  show "same_envelope (packet_header c (ps 0) m) (msg_envelope m)" using packet_envelope(1) [of c "ps 0" 0 m] by simp
qed

lemma request_reassembled:
  assumes "mset pkts = mset (message_packets c ps m)" "sent_whole m" "om_is_request m"
    "hdr_pkt_id (om_hdr m) = int (packet_count (uint (total_bytes m))) - 1" "hdr_sr_thread_id (om_hdr m) \<in> set apps"
    "requests_of (client_of (om_hdr m)) s (hdr_req_id (om_hdr m)) = None"
  shows "\<exists>s'. run_packets (handle_request_pkt apps) pkts s = Some ([req_output (msg_envelope m) (uint (total_bytes m))], s')
    \<and> server_done (client_of (om_hdr m)) (hdr_req_id (om_hdr m)) s'"
proof -
  note a = arrived [OF assms(1,2)]
  have "\<not> packet_count (uint (total_bytes m)) \<le> 0" using assms(2) by (simp only: packet_count_le sent_whole_def) simp
  then have pos: "0 \<le> hdr_pkt_id (om_hdr m)" using assms(4) by linarith
  have acc: "server_accepts apps (client_of (om_hdr m)) (hdr_req_id (om_hdr m)) h" if "same_envelope h (msg_envelope m)" for h
    using that assms(3,5) pos
    by (auto simp: same_envelope_def msg_envelope_def server_accepts_def client_of_def app_tuple_def)
  have "\<exists>s'. run_packets (handle_request_pkt apps) pkts s = Some ([req_output (fst (last pkts)) (payload_sum pkts)], s')
      \<and> server_done (client_of (om_hdr m)) (hdr_req_id (om_hdr m)) s'"
  proof (rule server.run_new [OF _ a(3)])
    show "\<forall>(h, n)\<in>set pkts. server_accepts apps (client_of (om_hdr m)) (hdr_req_id (om_hdr m)) h" using a(4) acc by blast
    show "hdr_pkt_id (packet_header c (ps 0) m) + 1 = int (length pkts)"
      using a(1,6) assms(4) by (simp add: same_envelope_def msg_envelope_def)
    show "server_view (client_of (om_hdr m)) (hdr_req_id (om_hdr m)) s = Some (0, None, 0)" by (simp add: server_view_def assms(6))
  qed
  moreover have "req_output (fst (last pkts)) (payload_sum pkts) = req_output (msg_envelope m) (uint (total_bytes m))"
    using a(2,5) by (simp add: req_output_def same_envelope_def app_tuple_def)
  ultimately show ?thesis by simp
qed

lemma reply_reassembled:
  assumes "mset pkts = mset (message_packets c ps m)" "sent_whole m" "\<not> om_is_request m"
    "hdr_pkt_id (om_hdr m) = int (packet_count (uint (total_bytes m)))" "hdr_cl_thread_id (om_hdr m) \<in> set apps"
    "client_view (hdr_cl_thread_id (om_hdr m)) (hdr_req_id (om_hdr m)) cl = Some (0, None, 0)"
  shows "\<exists>cl'. run_packets (handle_reply_pkt apps) pkts cl = Some ([reply_output (msg_envelope m) (uint (total_bytes m))], cl')
    \<and> client_done (hdr_cl_thread_id (om_hdr m)) (hdr_req_id (om_hdr m)) cl'"
proof -
  note a = arrived [OF assms(1,2)]
  have "\<not> packet_count (uint (total_bytes m)) \<le> 0" using assms(2) by (simp only: packet_count_le sent_whole_def) simp
  then have pos: "0 < hdr_pkt_id (om_hdr m)" using assms(4) by linarith
  have acc: "client_accepts apps (hdr_cl_thread_id (om_hdr m)) (hdr_req_id (om_hdr m)) h" if "same_envelope h (msg_envelope m)" for h
    using that assms(3,5) pos
    by (auto simp: same_envelope_def msg_envelope_def client_accepts_def app_tuple_def)
  have "\<exists>cl'. run_packets (handle_reply_pkt apps) pkts cl = Some ([reply_output (fst (last pkts)) (payload_sum pkts)], cl')
      \<and> client_done (hdr_cl_thread_id (om_hdr m)) (hdr_req_id (om_hdr m)) cl'"
  proof (rule client.run_new [OF _ a(3) _ assms(6)])
    show "\<forall>(h, n)\<in>set pkts. client_accepts apps (hdr_cl_thread_id (om_hdr m)) (hdr_req_id (om_hdr m)) h" using a(4) acc by blast
    show "hdr_pkt_id (packet_header c (ps 0) m) = int (length pkts)"
      using a(1,6) assms(4) by (simp add: same_envelope_def msg_envelope_def)
  qed
  moreover have "reply_output (fst (last pkts)) (payload_sum pkts) = reply_output (msg_envelope m) (uint (total_bytes m))"
    using a(2,5) by (simp add: reply_output_def same_envelope_def app_tuple_def)
  ultimately show ?thesis by simp
qed

section \<open>A request from one application to another\<close>

text \<open>Property C14. A request reaches the application of the server whole and once. What one host hands over as
  \<open>payload\<close> bytes (a first packet of 14 bytes and the rest, on which the two layers agree with two calls each way) leaves
  the transport as one message; its packets, in whatever order they arrive at a server that does not know the request,
  make exactly one call of \<open>req_recv\<close>, with the number of bytes and the addresses, threads and time given by the
  application and the number of the request.\<close>
theorem request_delivered:
  assumes "1 \<le> payload" "payload < 2 ^ 31" "rt_sr_addr tup \<noteq> - 1" "poll_started h"
    "rid = uint (next_req_id (rt_cl_thread_id tup) (layer_client l))"
    "(rt_cl_addr tup, rt_cl_thread_id tup, rid) \<notin> om_req_id ` set (msgs (outbound_inactive h))"
    "requests_of (rt_cl_addr tup, rt_cl_thread_id tup) s rid = None" "rt_sr_thread_id tup \<in> set apps"
  shows "\<exists>l' h' m. host_send_req lib now payload tup l h = Some (l', h')
    \<and> msgs (outbound_inactive h') = msgs (outbound_inactive h) @ [m] \<and> om_remote_addr m = rt_sr_addr tup
    \<and> (\<forall>c ps pkts. mset pkts = mset (message_packets c ps m) \<longrightarrow>
        (\<exists>s'. run_packets (handle_request_pkt apps) pkts s = Some ([Req_recv (rt_sr_thread_id tup) payload (tup\<lparr>rt_req_id := rid\<rparr>)], s')))"
proof -
  let ?m = "request_msg payload rid tup"
  obtain l' h' where h': "host_send_req lib now payload tup l h = Some (l', h')"
    "msgs (outbound_inactive h') = msgs (outbound_inactive h) @ [?m]"
    using host_send_req_msg [OF assms(1-6)] by blast
  have n: "uint (total_bytes ?m) = payload" using assms(1,2) by (simp add: request_msg_def uint_word_of_int Let_def)
  have m: "sent_whole ?m" "om_is_request ?m" "hdr_pkt_id (om_hdr ?m) = int (packet_count (uint (total_bytes ?m))) - 1"
    "hdr_sr_thread_id (om_hdr ?m) = rt_sr_thread_id tup" "client_of (om_hdr ?m) = (rt_cl_addr tup, rt_cl_thread_id tup)"
    "hdr_req_id (om_hdr ?m) = rid" "om_remote_addr ?m = rt_sr_addr tup"
    "req_output (msg_envelope ?m) payload = Req_recv (rt_sr_thread_id tup) payload (tup\<lparr>rt_req_id := rid\<rparr>)"
    using n assms(1)
    by (simp_all add: sent_whole_def request_msg_def new_out_msg_def request_header_def client_of_def req_output_def msg_envelope_def
        app_tuple_def Let_def)
  have "\<exists>s'. run_packets (handle_request_pkt apps) pkts s = Some ([Req_recv (rt_sr_thread_id tup) payload (tup\<lparr>rt_req_id := rid\<rparr>)], s')"
    if "mset pkts = mset (message_packets c ps ?m)" for c ps pkts
    using request_reassembled [OF that m(1-3), of apps s] assms(7,8) m(4-6,8) n by auto
  then show ?thesis using h' m(7) by blast
qed

definition host_send_response :: "hybrid_lib \<Rightarrow> real \<Rightarrow> int \<Rightarrow> request_tuple \<Rightarrow> r2p2_layer \<Rightarrow> hybrid \<Rightarrow> (r2p2_layer \<times> hybrid) option" where
  "host_send_response lib now payload tup l h = do {
     (outs, l) \<leftarrow> r2p2_send_response now payload tup l;
     (out, h) \<leftarrow> to_transport lib now outs h;
     Some (l, h) }"

definition reply_msg :: "real \<Rightarrow> int \<Rightarrow> request_tuple \<Rightarrow> out_msg" where
  "reply_msg now payload tup = (new_out_msg (rt_cl_addr tup, rt_cl_thread_id tup, rt_req_id tup) (rt_cl_addr tup) (reply_header now payload tup))
     \<lparr>total_bytes := word_of_int payload, unsent_bytes := word_of_int payload, om_is_request := False, om_msg_creation_time := now\<rparr>"

lemma host_send_response_msg:
  assumes "rt_cl_addr tup \<noteq> - 1" "poll_started h" "find_remote (rt_cl_addr tup) h = Some r"
    "(rt_cl_addr tup, rt_cl_thread_id tup, rt_req_id tup) \<notin> om_req_id ` set (msgs (outbound_inactive h))"
    "requests_of (rt_cl_addr tup, rt_cl_thread_id tup) (layer_server l) (rt_req_id tup) = Some st"
  shows "\<exists>l' h'. host_send_response lib now payload tup l h = Some (l', h')
    \<and> msgs (outbound_inactive h') = msgs (outbound_inactive h) @ [reply_msg now payload tup]
    \<and> map_option reply_sent (requests_of (rt_cl_addr tup, rt_cl_thread_id tup) (layer_server l') (rt_req_id tup)) = Some True"
proof -
  let ?hdr = "reply_header now payload tup"
  have hdr: "hdr_msg_type ?hdr = REPLY" "uniq_id ?hdr = (rt_cl_addr tup, rt_cl_thread_id tup, rt_req_id tup)"
    "client_of ?hdr = (rt_cl_addr tup, rt_cl_thread_id tup)" "hdr_req_id ?hdr = rt_req_id tup" "hdr_msg_creation_time ?hdr = now"
    by (simp_all add: reply_header_def uniq_id_def client_of_def)
  obtain ms where ms: "pending_requests (layer_server l) (rt_cl_addr tup, rt_cl_thread_id tup) = Some ms" "ms (rt_req_id tup) = Some st"
    using assms(5) by (auto simp: requests_of_def split: option.splits)
  obtain l' where l': "r2p2_send_response now payload tup l = Some ([To_transport ?hdr payload (rt_cl_addr tup)], l')"
      "map_option reply_sent (requests_of (rt_cl_addr tup, rt_cl_thread_id tup) (layer_server l') (rt_req_id tup)) = Some True"
    using ms hdr by (simp add: r2p2_send_response_def send_response_def set_server_state_def requests_of_def Let_def)
  have "list_find_pos om_req_id (uniq_id ?hdr) (outbound_inactive h) = None" using assms(4) by (simp add: find_pos_None hdr)
  then have "send_to_transport lib now ?hdr payload (rt_cl_addr tup) h
      = Some ([], h\<lparr>outbound_inactive := list_append (reply_msg now payload tup) (outbound_inactive h)\<rparr>)"
    using assms(1-3) hdr
    by (simp add: send_to_transport_def start_polling_def is_req0_of_multipkt_def is_req0_def is_from_multipkt_req_not_req0_def
        sending_reply_def reply_msg_def new_out_msg_def Let_def)
  then show ?thesis using l' by (simp add: host_send_response_def list_append_def)
qed

text \<open>Property C15. A reply reaches the application that made the request whole and once, and a further packet of it faults.
  The bytes of a response leave the transport of the server as one message; its packets, in whatever order they
  arrive at the client, make exactly one call of \<open>req_success\<close> with their number. The client then deletes the state of the request
  but keeps its entry, so that any other packet of the same request is looked up through a dangling pointer.\<close>
theorem reply_delivered:
  assumes "1 \<le> payload" "payload < 2 ^ 31" "rt_cl_addr tup \<noteq> - 1" "poll_started h" "find_remote (rt_cl_addr tup) h = Some r"
    "(rt_cl_addr tup, rt_cl_thread_id tup, rt_req_id tup) \<notin> om_req_id ` set (msgs (outbound_inactive h))"
    "requests_of (rt_cl_addr tup, rt_cl_thread_id tup) (layer_server l) (rt_req_id tup) = Some st"
    "client_view (rt_cl_thread_id tup) (rt_req_id tup) cl = Some (0, None, 0)" "rt_cl_thread_id tup \<in> set apps"
  shows "\<exists>l' h' m. host_send_response lib now payload tup l h = Some (l', h')
    \<and> msgs (outbound_inactive h') = msgs (outbound_inactive h) @ [m] \<and> om_remote_addr m = rt_cl_addr tup
    \<and> (\<forall>c ps pkts. mset pkts = mset (message_packets c ps m) \<longrightarrow>
        (\<exists>cl'. run_packets (handle_reply_pkt apps) pkts cl = Some ([Req_success (rt_cl_thread_id tup) payload (tup\<lparr>rt_ts := now\<rparr>)], cl')
          \<and> (\<forall>hdr n. hdr_cl_thread_id hdr = rt_cl_thread_id tup \<and> hdr_req_id hdr = rt_req_id tup \<longrightarrow> handle_reply_pkt apps hdr n cl' = None)))"
proof -
  let ?m = "reply_msg now payload tup"
  obtain l' h' where h': "host_send_response lib now payload tup l h = Some (l', h')"
    "msgs (outbound_inactive h') = msgs (outbound_inactive h) @ [?m]"
    using host_send_response_msg [OF assms(3-7)] by blast
  have n: "uint (total_bytes ?m) = payload" using assms(1,2) by (simp add: reply_msg_def uint_word_of_int)
  have m: "sent_whole ?m" "\<not> om_is_request ?m" "hdr_pkt_id (om_hdr ?m) = int (packet_count (uint (total_bytes ?m)))"
    "hdr_cl_thread_id (om_hdr ?m) = rt_cl_thread_id tup" "hdr_req_id (om_hdr ?m) = rt_req_id tup" "om_remote_addr ?m = rt_cl_addr tup"
    "reply_output (msg_envelope ?m) payload = Req_success (rt_cl_thread_id tup) payload (tup\<lparr>rt_ts := now\<rparr>)"
    using n assms(1) num_packets_count [of payload]
    by (simp_all add: sent_whole_def reply_msg_def new_out_msg_def reply_header_def reply_output_def msg_envelope_def app_tuple_def)
  have "\<exists>cl'. run_packets (handle_reply_pkt apps) pkts cl = Some ([Req_success (rt_cl_thread_id tup) payload (tup\<lparr>rt_ts := now\<rparr>)], cl')
      \<and> (\<forall>hdr n. hdr_cl_thread_id hdr = rt_cl_thread_id tup \<and> hdr_req_id hdr = rt_req_id tup \<longrightarrow> handle_reply_pkt apps hdr n cl' = None)"
    if "mset pkts = mset (message_packets c ps ?m)" for c ps pkts
    using reply_reassembled [OF that m(1-3), of apps cl] assms(8,9) m(4,5,7) n client_done_faults by auto
  then show ?thesis using h' m(6) by blast
qed

section \<open>Witnesses\<close>

definition sample_request :: request_tuple where
  "sample_request = \<lparr>rt_req_id = 0, rt_app_level_id = 5, rt_cl_addr = 1, rt_sr_addr = 7, rt_cl_thread_id = 2, rt_sr_thread_id = 0, rt_ts = 10\<rparr>"

definition polling_host :: hybrid where
  "polling_host = (new_hybrid sample_config 0)\<lparr>poll_started := True, remotes := [(1, new_receiver_state 1)]\<rparr>"

lemma polling_host: "poll_started polling_host" "msgs (outbound_inactive polling_host) = []"
    "find_remote 1 polling_host = Some (new_receiver_state 1)"
  by (simp_all add: polling_host_def new_hybrid_def new_msg_list_def find_remote_def)

theorem request_delivered_witness:
  "\<exists>l' h' m s'. host_send_req sample_lib 10 2916 sample_request (new_layer 0) polling_host = Some (l', h')
    \<and> msgs (outbound_inactive h') = [m]
    \<and> run_packets (handle_request_pkt [0]) (rev (message_packets sample_config (\<lambda>_. new_policy_state) m)) (new_server 0)
        = Some ([Req_recv 0 2916 sample_request], s')"
proof -
  obtain l' h' m where m: "host_send_req sample_lib 10 2916 sample_request (new_layer 0) polling_host = Some (l', h')"
      "msgs (outbound_inactive h') = [m]"
    and all: "\<forall>c ps pkts. mset pkts = mset (message_packets c ps m) \<longrightarrow>
        (\<exists>s'. run_packets (handle_request_pkt [0]) pkts (new_server 0) = Some ([Req_recv 0 2916 sample_request], s'))"
    using request_delivered [of 2916 sample_request polling_host 0 "new_layer 0" "new_server 0" "[0]" sample_lib 10] polling_host
    by (auto simp: sample_request_def new_layer_def new_client_def new_server_def next_req_id_def requests_of_def Let_def)
  show ?thesis using m all [rule_format, of "rev (message_packets sample_config (\<lambda>_. new_policy_state) m)" sample_config "\<lambda>_. new_policy_state"]
    by auto
qed

definition answered_layer :: r2p2_layer where
  \<comment> \<open>a server that has a request, a client that waits for the reply\<close>
  "answered_layer = (new_layer 0)\<lparr>layer_server := (new_server 0)\<lparr>pending_requests := [(1, 2) \<mapsto> [0 \<mapsto> new_server_request]]\<rparr>\<rparr>"

definition waiting_client :: r2p2_client where
  "waiting_client = new_client\<lparr>thrd_id_to_pending_reqs := [2 \<mapsto> [0 \<mapsto> Some new_client_request]]\<rparr>"

theorem reply_delivered_witness:
  "\<exists>l' h' m cl'. host_send_response sample_lib 11 2916 sample_request answered_layer polling_host = Some (l', h')
    \<and> msgs (outbound_inactive h') = [m]
    \<and> run_packets (handle_reply_pkt [2]) (rev (message_packets sample_config (\<lambda>_. new_policy_state) m)) waiting_client
        = Some ([Req_success 2 2916 (sample_request\<lparr>rt_ts := 11\<rparr>)], cl')
    \<and> handle_reply_pkt [2] (new_hdr\<lparr>hdr_msg_type := REPLY, hdr_cl_thread_id := 2\<rparr>) 4 cl' = None"
proof -
  obtain l' h' m where m: "host_send_response sample_lib 11 2916 sample_request answered_layer polling_host = Some (l', h')"
      "msgs (outbound_inactive h') = [m]"
    and all: "\<forall>c ps pkts. mset pkts = mset (message_packets c ps m) \<longrightarrow>
        (\<exists>cl'. run_packets (handle_reply_pkt [2]) pkts waiting_client = Some ([Req_success 2 2916 (sample_request\<lparr>rt_ts := 11\<rparr>)], cl')
          \<and> (\<forall>hdr n. hdr_cl_thread_id hdr = 2 \<and> hdr_req_id hdr = 0 \<longrightarrow> handle_reply_pkt [2] hdr n cl' = None))"
    using reply_delivered [of 2916 sample_request polling_host "new_receiver_state 1" answered_layer new_server_request waiting_client "[2]"
        sample_lib 11] polling_host
    by (auto simp: sample_request_def answered_layer_def waiting_client_def new_client_def requests_of_def client_view_def pending_request_def
        new_client_request_def)
  obtain cl' where "run_packets (handle_reply_pkt [2]) (rev (message_packets sample_config (\<lambda>_. new_policy_state) m)) waiting_client
      = Some ([Req_success 2 2916 (sample_request\<lparr>rt_ts := 11\<rparr>)], cl')"
    "\<forall>hdr n. hdr_cl_thread_id hdr = 2 \<and> hdr_req_id hdr = 0 \<longrightarrow> handle_reply_pkt [2] hdr n cl' = None"
    using all [rule_format, of "rev (message_packets sample_config (\<lambda>_. new_policy_state) m)" sample_config "\<lambda>_. new_policy_state"] by auto
  then show ?thesis using m by (auto simp: new_hdr_def)
qed

end
