(* ===== verification/R2p2_App.thy ===== *)
theory R2p2_App
  imports R2p2_Layer
begin

text \<open>
  The application of a host, \<open>R2p2Application\<close> of \<open>r2p2/app/r2p2-app.cc\<close> with the state of its base class
  \<open>GenericApp\<close> (\<open>common/generic-app.cc\<close>): it makes requests at random times, which a load pattern makes denser or
  sparser, and answers those it gets one after the other, each after a processing time.

  What the distributions draw (sizes, targets, intervals, processing times) and what \<open>IncastGenerator\<close> decides are
  arguments of the operations; tracing is left out.
\<close>

section \<open>Load patterns\<close>

record step_pattern =
  high_ratio :: real
  period :: real
  high_value_multiplier :: real
  low_value_multiplier :: real
  start_time :: real
  load_value :: real
  update_timer :: timer

datatype load_pattern = Fixed_load_pattern | Step_load_pattern step_pattern

definition new_step_pattern :: "real \<Rightarrow> real \<Rightarrow> real \<Rightarrow> real \<Rightarrow> step_pattern option" where
  "new_step_pattern ratio per high low = do {
     check (per > 0);
     check (high \<ge> 0);
     check (low \<ge> 0);
     check (ratio > 0);
     check (ratio < 1);
     Some \<lparr>high_ratio = ratio, period = per, high_value_multiplier = high, low_value_multiplier = low, start_time = - 1,
       load_value = - 1, update_timer = new_timer\<rparr> }"

definition point_in_period :: "real \<Rightarrow> step_pattern \<Rightarrow> real option" where
  "point_in_period now p = (let total_duration = dsub now (start_time p) in do {
     periods_past \<leftarrow> double_to_int (ddiv total_duration (period p));
     Some (ddiv (dsub total_duration (dmul (of_int periods_past) (period p))) (period p)) })"

definition step_update :: "real \<Rightarrow> step_pattern \<Rightarrow> step_pattern option" where
  "step_update now p = do {
     check (start_time p \<noteq> - 1);
     point \<leftarrow> point_in_period now p;
     Some (p\<lparr>load_value := (if point \<ge> dsub 1 (high_ratio p) then high_value_multiplier p else low_value_multiplier p),
       update_timer := timer_resched now (ddiv (period p) 500) (update_timer p)\<rparr>) }"

definition expire_update :: "real \<Rightarrow> step_pattern \<Rightarrow> step_pattern option" where
  "expire_update now p = do {
     tm \<leftarrow> timer_begin (update_timer p);
     p \<leftarrow> step_update now (p\<lparr>update_timer := tm\<rparr>);
     Some (p\<lparr>update_timer := timer_end (update_timer p)\<rparr>) }"

fun get_load_multiplier :: "real \<Rightarrow> load_pattern \<Rightarrow> (real \<times> load_pattern) option" where
  "get_load_multiplier now Fixed_load_pattern = Some (1, Fixed_load_pattern)"
| "get_load_multiplier now (Step_load_pattern p) = do {
     p \<leftarrow> (if start_time p = - 1 then step_update now (p\<lparr>start_time := now\<rparr>) else Some p);
     check (load_value p \<ge> 0);
     Some (load_value p, Step_load_pattern p) }"

section \<open>The application\<close>

record r2p2_app =
  reqs_sent :: int
  send_req_timer :: timer
  send_resp_timer :: timer
  send_incast_timer :: timer
  request_interval_sec :: real
  incast_interval_sec :: real
  enable_incast :: int
  app_num_servers :: nat
  app_thread_id :: int
  app_local_addr :: int
  app_load_pattern :: load_pattern
  pending_tasks :: "request_tuple list"
  dst_ids :: "int list"

datatype app_output = Send_req int request_tuple | Send_response int request_tuple

definition SERVER_THREAD_BASE :: int where "SERVER_THREAD_BASE = 0"

definition attach_agent :: "int \<Rightarrow> int \<Rightarrow> int \<Rightarrow> r2p2_app \<Rightarrow> r2p2_app option" where
  \<comment> \<open>the addresses of the agent and the number of threads of its destination\<close>
  "attach_agent daddr addr num_threads a = do {
     check (num_threads = 1);
     Some (a\<lparr>dst_ids := dst_ids a @ [daddr], app_local_addr := addr\<rparr>) }"

definition start_app :: "bool \<Rightarrow> real \<Rightarrow> real \<Rightarrow> r2p2_app \<Rightarrow> r2p2_app option" where
  \<comment> \<open>whether the interval is a \<open>ManualDistr\<close>, and the first interval drawn\<close>
  "start_app manual_distr first now a = (let
     a = (if request_interval_sec a > 0 then a\<lparr>send_req_timer := timer_resched now first (send_req_timer a)\<rparr> else a);
     manual_mode = (request_interval_sec a > 0 \<and> manual_distr)
   in do {
     check (int (length (dst_ids a)) = int (app_num_servers a) - 1 \<or> length (dst_ids a) = app_num_servers a);
     check (\<not> (manual_mode \<and> enable_incast a = 1));
     Some (if enable_incast a \<noteq> 0 then a\<lparr>send_incast_timer := timer_resched now (incast_interval_sec a) (send_incast_timer a)\<rparr> else a) })"

definition stop_app :: "r2p2_app \<Rightarrow> r2p2_app" where
  "stop_app a = a\<lparr>send_req_timer := timer_force_cancel (send_req_timer a), send_incast_timer := timer_force_cancel (send_incast_timer a)\<rparr>"

definition app_request :: "real \<Rightarrow> int \<Rightarrow> r2p2_app \<Rightarrow> request_tuple" where
  \<comment> \<open>the identifier of the request is not set here\<close>
  "app_request now target a = \<lparr>rt_req_id = 0, rt_app_level_id = reqs_sent a, rt_cl_addr = app_local_addr a, rt_sr_addr = target,
     rt_cl_thread_id = app_thread_id a, rt_sr_thread_id = SERVER_THREAD_BASE, rt_ts = now\<rparr>"

definition app_send_request :: "int \<Rightarrow> int \<Rightarrow> (real \<Rightarrow> real) \<Rightarrow> real \<Rightarrow> r2p2_app \<Rightarrow> (app_output list \<times> r2p2_app) option" where
  \<comment> \<open>the size and the target drawn, and the interval drawn with a mean; a multiplier of 0 makes it infinite, outside the model\<close>
  "app_send_request req_size srvr_addr draw now a = (let next_req_size = (if req_size < 4 then 4 else req_size) in do {
     check (srvr_addr \<noteq> app_local_addr a);
     (mul, pat) \<leftarrow> get_load_multiplier now (app_load_pattern a);
     check (mul \<noteq> 0);
     Some ([Send_req next_req_size (app_request now srvr_addr a)],
       a\<lparr>reqs_sent := reqs_sent a + 1, app_load_pattern := pat,
         send_req_timer := timer_resched now (draw (dmul (request_interval_sec a) (ddiv 1 mul))) (send_req_timer a)\<rparr>) })"

definition app_send_incast :: "(int \<times> int) option \<Rightarrow> real \<Rightarrow> r2p2_app \<Rightarrow> app_output list \<times> r2p2_app" where
  \<comment> \<open>the target and the size of the burst, when this host is one of its senders\<close>
  "app_send_incast binfo now a = (let
     timer = timer_resched now (incast_interval_sec a) (send_incast_timer a)
   in case binfo of
     None \<Rightarrow> ([], a\<lparr>send_incast_timer := timer\<rparr>)
   | Some (target, n) \<Rightarrow> ([Send_req n (app_request now target a)], a\<lparr>reqs_sent := reqs_sent a + 1, send_incast_timer := timer\<rparr>))"

definition req_recv :: "real \<Rightarrow> real \<Rightarrow> request_tuple \<Rightarrow> r2p2_app \<Rightarrow> r2p2_app option" where
  "req_recv proc now tup a = do {
     check (rt_ts tup > dbl (99 / 10));
     tm \<leftarrow> (if pending_tasks a = [] then timer_sched now proc (send_resp_timer a) else Some (send_resp_timer a));
     Some (a\<lparr>send_resp_timer := tm, pending_tasks := pending_tasks a @ [tup]\<rparr>) }"

definition app_send_response :: "real \<Rightarrow> real \<Rightarrow> r2p2_app \<Rightarrow> (app_output list \<times> r2p2_app) option" where
  \<comment> \<open>\<open>front\<close> of an empty queue is undefined\<close>
  "app_send_response proc now a = (case pending_tasks a of
     [] \<Rightarrow> None
   | tup # tasks \<Rightarrow> Some ([Send_response 4 tup], a\<lparr>pending_tasks := tasks,
       send_resp_timer := (if tasks \<noteq> [] then timer_resched now proc (send_resp_timer a) else send_resp_timer a)\<rparr>))"

definition expire_request :: "int \<Rightarrow> int \<Rightarrow> (real \<Rightarrow> real) \<Rightarrow> real \<Rightarrow> r2p2_app \<Rightarrow> (app_output list \<times> r2p2_app) option" where
  "expire_request req_size srvr_addr draw now a = do {
     tm \<leftarrow> timer_begin (send_req_timer a);
     (out, a) \<leftarrow> app_send_request req_size srvr_addr draw now (a\<lparr>send_req_timer := tm\<rparr>);
     Some (out, a\<lparr>send_req_timer := timer_end (send_req_timer a)\<rparr>) }"

definition expire_incast :: "(int \<times> int) option \<Rightarrow> real \<Rightarrow> r2p2_app \<Rightarrow> (app_output list \<times> r2p2_app) option" where
  "expire_incast binfo now a = do {
     tm \<leftarrow> timer_begin (send_incast_timer a);
     let (out, a) = app_send_incast binfo now (a\<lparr>send_incast_timer := tm\<rparr>);
     Some (out, a\<lparr>send_incast_timer := timer_end (send_incast_timer a)\<rparr>) }"

definition expire_response :: "real \<Rightarrow> real \<Rightarrow> r2p2_app \<Rightarrow> (app_output list \<times> r2p2_app) option" where
  "expire_response proc now a = do {
     tm \<leftarrow> timer_begin (send_resp_timer a);
     (out, a) \<leftarrow> app_send_response proc now (a\<lparr>send_resp_timer := tm\<rparr>);
     Some (out, a\<lparr>send_resp_timer := timer_end (send_resp_timer a)\<rparr>) }"

section \<open>Runs\<close>

text \<open>The events of an application, the requests it has got and the responses it has given.\<close>

inductive app_run :: "r2p2_app \<Rightarrow> request_tuple list \<Rightarrow> request_tuple list \<Rightarrow> r2p2_app \<Rightarrow> bool" for a0 where
  init: "app_run a0 [] [] a0"
| attach: "\<lbrakk>app_run a0 got given a; attach_agent daddr addr k a = Some a'\<rbrakk> \<Longrightarrow> app_run a0 got given a'"
| start: "\<lbrakk>app_run a0 got given a; start_app manual first now a = Some a'\<rbrakk> \<Longrightarrow> app_run a0 got given a'"
| stop: "app_run a0 got given a \<Longrightarrow> app_run a0 got given (stop_app a)"
| request: "\<lbrakk>app_run a0 got given a; expire_request n target draw now a = Some (out, a')\<rbrakk> \<Longrightarrow> app_run a0 got given a'"
| incast: "\<lbrakk>app_run a0 got given a; expire_incast binfo now a = Some (out, a')\<rbrakk> \<Longrightarrow> app_run a0 got given a'"
| get: "\<lbrakk>app_run a0 got given a; req_recv proc now tup a = Some a'\<rbrakk> \<Longrightarrow> app_run a0 (got @ [tup]) given a'"
| give: "\<lbrakk>app_run a0 got given a; expire_response proc now a = Some ([Send_response n tup], a')\<rbrakk> \<Longrightarrow> app_run a0 got (given @ [tup]) a'"

definition busy_ok :: "r2p2_app \<Rightarrow> bool" where
  \<comment> \<open>the response timer is set exactly while there is something to answer\<close>
  "busy_ok a \<longleftrightarrow> tm_status (send_resp_timer a) = (if pending_tasks a = [] then TIMER_IDLE else TIMER_PENDING)"

lemma start_app_frame:
  assumes "start_app manual first now a = Some a'"
  shows "pending_tasks a' = pending_tasks a \<and> send_resp_timer a' = send_resp_timer a"
  using assms by (auto simp: start_app_def bind_eq_Some_conv Let_def split: if_splits)

lemma expire_request_frame:
  assumes "expire_request n target draw now a = Some (out, a')"
  shows "pending_tasks a' = pending_tasks a \<and> send_resp_timer a' = send_resp_timer a"
  using assms by (auto simp: expire_request_def app_send_request_def bind_eq_Some_conv Let_def)

lemma expire_incast_frame:
  assumes "expire_incast binfo now a = Some (out, a')"
  shows "pending_tasks a' = pending_tasks a \<and> send_resp_timer a' = send_resp_timer a"
  using assms by (auto simp: expire_incast_def app_send_incast_def bind_eq_Some_conv Let_def split: option.splits)

lemma req_recv_cases:
  assumes "busy_ok a"
  shows "req_recv proc now tup a = (if rt_ts tup > dbl (99 / 10) then Some (a\<lparr>send_resp_timer :=
      (if pending_tasks a = [] then timer_resched now proc (send_resp_timer a) else send_resp_timer a), pending_tasks := pending_tasks a @ [tup]\<rparr>) else None)"
  using assms by (auto simp: req_recv_def busy_ok_def timer_sched_def timer_resched_def check_def)

lemma expire_response_cases:
  assumes "busy_ok a"
  shows "expire_response proc now a = (case pending_tasks a of [] \<Rightarrow> None
    | tup # tasks \<Rightarrow> Some ([Send_response 4 tup], a\<lparr>pending_tasks := tasks, send_resp_timer :=
        (if tasks \<noteq> [] then timer_resched now proc (send_resp_timer a) else (send_resp_timer a)\<lparr>tm_status := TIMER_IDLE\<rparr>)\<rparr>))"
  using assms
  by (auto simp: expire_response_def app_send_response_def busy_ok_def timer_begin_def timer_resched_def timer_end_def split: list.splits)

lemma app_run_ok:
  assumes "app_run a0 got given a" "busy_ok a0" "pending_tasks a0 = []"
  shows "busy_ok a \<and> got = given @ pending_tasks a"
  using assms(1)
proof induction
  case (attach got given a daddr addr k a')
  then show ?case by (auto simp: attach_agent_def bind_eq_Some_conv busy_ok_def)
next
  case (start got given a manual first now a')
  then show ?case using start_app_frame [OF start(2)] by (simp add: busy_ok_def)
next
  case (request got given a n target draw now out a')
  then show ?case using expire_request_frame [OF request(2)] by (simp add: busy_ok_def)
next
  case (incast got given a binfo now out a')
  then show ?case using expire_incast_frame [OF incast(2)] by (simp add: busy_ok_def)
next
  case (get got given a proc now tup a')
  then show ?case using req_recv_cases [of a proc now tup] by (auto simp: busy_ok_def split: if_splits)
next
  case (give got given a proc now n tup a')
  then show ?case using expire_response_cases [of a proc now] by (auto simp: busy_ok_def split: list.splits)
qed (use assms in \<open>simp_all add: busy_ok_def stop_app_def\<close>)

text \<open>Property C33. An application answers every request, in the order in which they came, and never sets its response timer twice.
  In every state that a run can reach, starting, stopping, requests and bursts of its own in between included, the requests
  got are those answered followed by those waiting; a request that comes, made after the start of the simulation, is taken (scheduling a timer that is
  pending would end the simulation); and while one waits the timer is set, whose event gives the answer of four
  bytes to the oldest.\<close>
theorem app_answers_in_order:
  assumes "app_run a0 got given a" "pending_tasks a0 = []" "tm_status (send_resp_timer a0) = TIMER_IDLE"
  shows "got = given @ pending_tasks a
    \<and> (req_recv proc now tup a = None \<longleftrightarrow> rt_ts tup \<le> dbl (99 / 10))
    \<and> (case pending_tasks a of [] \<Rightarrow> tm_status (send_resp_timer a) = TIMER_IDLE
       | oldest # rest \<Rightarrow> tm_status (send_resp_timer a) = TIMER_PENDING
           \<and> (\<exists>a'. expire_response proc now a = Some ([Send_response 4 oldest], a') \<and> pending_tasks a' = rest))"
proof -
  have ok: "busy_ok a" "got = given @ pending_tasks a" using app_run_ok [OF assms(1)] assms(2,3) by (simp_all add: busy_ok_def)
  have "req_recv proc now tup a = None \<longleftrightarrow> rt_ts tup \<le> dbl (99 / 10)" using req_recv_cases [OF ok(1)] by auto
  then show ?thesis using ok expire_response_cases [OF ok(1), of proc now]
    by (cases "pending_tasks a") (simp_all add: busy_ok_def)
qed

definition sample_app :: r2p2_app where
  "sample_app = \<lparr>reqs_sent = 0, send_req_timer = new_timer, send_resp_timer = new_timer, send_incast_timer = new_timer,
     request_interval_sec = 1, incast_interval_sec = 1, enable_incast = 0, app_num_servers = 2, app_thread_id = 0, app_local_addr = 1,
     app_load_pattern = Fixed_load_pattern, pending_tasks = [], dst_ids = [7]\<rparr>"

definition sample_task :: "int \<Rightarrow> request_tuple" where
  "sample_task r = \<lparr>rt_req_id = r, rt_app_level_id = r, rt_cl_addr = 7, rt_sr_addr = 1, rt_cl_thread_id = 0, rt_sr_thread_id = 0, rt_ts = 16\<rparr>"

theorem app_answers_in_order_witness:
  "\<exists>a. app_run sample_app [sample_task 0, sample_task 1] [] a \<and> pending_tasks a = [sample_task 0, sample_task 1]
    \<and> (\<exists>a'. expire_response 1 20 a = Some ([Send_response 4 (sample_task 0)], a') \<and> pending_tasks a' = [sample_task 1])"
proof -
  have late: "dbl (99 / 10) < 16"
    using dbl_mono [of "99 / 10" 10] by simp
  have s: "busy_ok sample_app" by (simp add: busy_ok_def sample_app_def new_timer_def)
  obtain a1 where a1: "req_recv 1 16 (sample_task 0) sample_app = Some a1" "busy_ok a1"
    using late req_recv_cases [OF s, of 1 16 "sample_task 0"] by (simp add: sample_task_def sample_app_def busy_ok_def)
  obtain a2 where a2: "req_recv 1 17 (sample_task 1) a1 = Some a2"
    using late req_recv_cases [OF a1(2), of 1 17 "sample_task 1"] by (simp add: sample_task_def)
  have "app_run sample_app ([] @ [sample_task 0]) [] a1" by (rule app_run.get [OF app_run.init a1(1)])
  then have "app_run sample_app (([] @ [sample_task 0]) @ [sample_task 1]) [] a2" by (rule app_run.get [OF _ a2])
  then have run: "app_run sample_app [sample_task 0, sample_task 1] [] a2" by simp
  have "pending_tasks sample_app = []" "tm_status (send_resp_timer sample_app) = TIMER_IDLE" by (simp_all add: sample_app_def new_timer_def)
  note c = app_answers_in_order [OF run this, of 1 20 "sample_task 0"]
  then have p: "pending_tasks a2 = [sample_task 0, sample_task 1]" by simp
  from c have "\<exists>a'. expire_response 1 20 a2 = Some ([Send_response 4 (sample_task 0)], a') \<and> pending_tasks a' = [sample_task 1]"
    unfolding p by simp
  then show ?thesis using run p by blast
qed

end
