(* ===== verification/Spec2Isabelle.thy ===== *)
theory Spec2Isabelle
  imports Tcp_Cong Tcp_Naive_Reno Tcp_Scalable Tcp_Highspeed Tcp_Bic Tcp_Cubic Tcp_Htcp Tcp_Hybla
    Tcp_Illinois Tcp_Lp Tcp_Vegas Tcp_Veno Tcp_Yeah Tcp_Compound Tcp_Westwood Cong_Registry Linux_Params
    Packet_Queue PPass_Queue PPass_Switch Multi_Path XPass_Drop_Tail XPass_Rate XPass_Transfer
    Hybrid_Accounts Hybrid_Windows Hybrid_Grants Hybrid_Credit Hybrid_Choice Hybrid_Packets
    R2p2_Agent R2p2_Messages R2p2_App
begin

text \<open>
  PhantomPass: its queues and switches, the credit queue and transport of ExpressPass, the hybrid
  receiver-driven transport, and the congestion control of its simulator.

  The repository is a fork of the NS 2.34 simulator with the PhantomPass and ExpressPass
  transports. PhantomPass (\<open>queue/ppass-*.cc\<close>, \<open>classifier/*.cc\<close>, all under \<open>src/ns2.34/ns-2.34\<close>)
  gives every link a phantom queue: a level of bytes that credit and unsolicited data raise when
  they pass and that drains with time a little slower than the line; data that passes while the
  level is above a threshold is marked. ExpressPass throttles credit packets at every queue by a
  token bucket (\<open>queue/xpass-drop-tail.cc\<close>). The hybrid transport (\<open>apps/r2p2-cc/r2p2/cc/micro-rpcs\<close>)
  gives credit at the receiver, within a budget for all senders and a window for each, and lets a
  sender start with credit it has given itself. TCP-Linux (\<open>tcp/linux\<close>) is the congestion control of
  Linux 2.6.22, compiled against a small imitation of the kernel and called by the agent
  \<open>LinuxTcpAgent\<close> (\<open>tcp/tcp-linux.cc\<close>) for every acknowledgement, loss and timeout of a flow.

  \<^bold>\<open>Parts and theories.\<close>
  \<^item> \<open>C_Prelude\<close>: the integer types, division that faults, lemmas on words and linear search.
  \<^item> \<open>Linux_Kernel\<close>: \<open>ns-linux-util.h\<close>, \<open>ns-linux-c.h\<close>, \<open>ns-linux-c.c\<close>: the socket
    (\<open>tcp_sock\<close>), the globals (\<open>kernel\<close>), \<open>fls\<close>, \<open>fls64\<close>, \<open>do_div\<close>, \<open>div64_64\<close>, \<open>ktime_t\<close>.
  \<^item> \<open>Tcp_Cong\<close>: slow start and Reno of \<open>src/tcp_cong.c\<close>, the operations record, and the contract of
    a module: the locales \<open>cong_avoid_ops\<close> (an acknowledgement returns and leaves the window between
    1 and its clamp), \<open>ssthresh_ops\<close> (a threshold of at least 2 and at most the window) and their
    join \<open>cong_control\<close>. From the contract follows, once, that any run of acknowledgements is safe.
  \<^item> \<open>Cong_Registry\<close>: the module list of \<open>src/tcp_cong.c\<close>, its macros, and the cache
    \<open>CongestionControlManager\<close>; the locale \<open>change_flag\<close> is what the cache needs of the list.
  \<^item> \<open>Linux_Params\<close>: the recorded parameters (\<open>ns-linux-c.c\<close>, \<open>ns-linux-param.c\<close>) and the classes
    \<open>ParamList\<close> and \<open>LinuxParamManager\<close>; the locale \<open>session_params\<close> is what isolates the agents.
  \<^item> One theory per module, named after its file: \<open>Tcp_Naive_Reno\<close>, \<open>Tcp_Scalable\<close>,
    \<open>Tcp_Highspeed\<close>, \<open>Tcp_Bic\<close>, \<open>Tcp_Cubic\<close>, \<open>Tcp_Htcp\<close>, \<open>Tcp_Hybla\<close>, \<open>Tcp_Illinois\<close>, \<open>Tcp_Lp\<close>,
    \<open>Tcp_Vegas\<close>, \<open>Tcp_Veno\<close>, \<open>Tcp_Yeah\<close>, \<open>Tcp_Compound\<close>, \<open>Tcp_Westwood\<close>. Every operation of each is a
    definition. The contract is interpreted on Reno, Scalable, HighSpeed, BIC, CUBIC, H-TCP, Hybla,
    Illinois, TCP-LP, Vegas and Veno, each with the circumstances and the invariant of its private
    area that it needs; naive Reno, YeAH and Compound do not keep it, and their theories show where.

  \<^item> \<open>C_Double\<close>: the \<open>double\<close> of C++, binary64 rounding. \<open>Ns_Packet\<close>: the header fields
    (\<open>common/packet.h\<close>, \<open>r2p2-hdr.h\<close>). \<open>Ns_Timer\<close>: \<open>common/timer-handler.cc\<close>.
  \<^item> \<open>Packet_Queue\<close>: the linked list \<open>PacketQueue\<close> of \<open>queue/queue.h\<close> in a heap of packets, and its
    refinement of the plain list, which the disciplines below are written with.
  \<^item> \<open>Queue_Base\<close>: the class \<open>Queue\<close> of \<open>queue/queue.cc\<close>, which runs a link: \<open>recv\<close>, \<open>resume\<close>, \<open>reset\<close> and
    the utilization. The locale \<open>queue_discipline\<close> is its contract with the virtual \<open>enque\<close> and \<open>deque\<close>
    of a derived class; \<open>work_conserving\<close> extends it. Runs of a link are lists of \<open>link_event\<close>s.
  \<^item> \<open>PPass_State\<close>, \<open>PPass_Queue\<close>: \<open>queue/ppass-state.cc\<close> and \<open>queue/ppass-queue.cc\<close>, the phantom queue
    of a host link and the queue that feeds it; interpretation \<open>ppass\<close> of \<open>work_conserving\<close>.
  \<^item> \<open>Classifier\<close>: the table of \<open>classifier/classifier.cc\<close>. \<open>PPass_Switch\<close>: \<open>DestHashClassifier\<close> of
    \<open>classifier/classifier-hash.cc\<close>, the phantom queues of a switch, one for each interface, with the
    integrator of \<open>tools/integrator.cc\<close>. \<open>Multi_Path\<close>: \<open>classifier/classifier-mpath.cc\<close>, the choice
    among equal paths, which asks a \<open>DestHashClassifier\<close> to update the level of the path chosen.
  \<^item> \<open>XPass_Drop_Tail\<close>: \<open>queue/xpass-drop-tail.cc\<close>; interpretation \<open>xpass\<close> of \<open>queue_discipline\<close>, and
    the reachability relation \<open>xpass_reach\<close> of the queue together with its timer.
  \<^item> \<open>XPass_Agent\<close>: the transport of ExpressPass, \<open>apps/r2p2-cc/xpass\<close>: the two state machines, the
    packets, the timers and the feedback control. \<open>XPass_Timers\<close>: which timers are set in which state,
    and what faults. \<open>XPass_Rate\<close>: the feedback control. \<open>XPass_Connection\<close>: two agents and the packets
    between them (\<open>conn_step\<close>), and the invariant of a message. \<open>XPass_Transfer\<close>: what follows from it.

  \<^item> \<open>Hybrid_Msgs\<close>, \<open>Hybrid_Host\<close>: the header \<open>hdr_r2p2\<close>, the sizes, the message lists \<open>OutboundMsgs\<close> and
    \<open>InboundMsgs\<close>, and the states of \<open>r2p2-hybrid-support.h\<close>. One record, \<open>hybrid\<close>, is an \<open>R2p2CCHybrid\<close>;
    its configuration and the order that C++ leaves open (\<open>std::sort\<close>, \<open>unordered_map\<close>) are arguments.
  \<^item> \<open>Hybrid_Receiver\<close>: windows, budgets and grants. \<open>Hybrid_Sender\<close>: messages and credit.
    \<open>Hybrid_Policy\<close>: whose packet is next. \<open>Hybrid_Transport\<close>: sending, polling, \<open>recv\<close>,
    \<open>send_to_transport\<close> and \<open>init\<close>; all of \<open>r2p2-cc-hybrid.cc\<close> and \<open>r2p2-hybrid-support.cc\<close>.
  \<^item> \<open>Hybrid_Laws\<close>: the events (\<open>hybrid_step\<close>) and, as locales, what a relation between two states must
    satisfy to hold across every event: \<open>grant_relation\<close> for the grants, \<open>host_relation\<close> for a host,
    \<open>receiver_relation\<close> and \<open>sender_relation\<close> for what concerns one side only. \<open>Hybrid_Accounts\<close>,
    \<open>Hybrid_Windows\<close>, \<open>Hybrid_Grants\<close>, \<open>Hybrid_Credit\<close> and \<open>Hybrid_Choice\<close>, on the choice of a
    receiver, interpret them. \<open>Hybrid_Packets\<close>: the packets of a message and what they cost.
    \<open>Hybrid_Samples\<close>: a run of a host.
  \<^item> \<open>R2p2_Layer\<close>: \<open>r2p2/core/r2p2.cc\<close>, \<open>r2p2-client.cc\<close> and \<open>r2p2-server.cc\<close>, above the transport.
    \<open>R2p2_Agent\<close>: \<open>r2p2/core/r2p2-udp.cc\<close>, below it, and the priority and flow of a packet. \<open>R2p2_Messages\<close>:
    requests and replies from one application to another; the locale \<open>reassembly\<close>, what both ends need to put
    packets together in any order, is interpreted on \<open>handle_request_pkt\<close> and \<open>handle_reply_pkt\<close>.
    \<open>R2p2_App\<close>: \<open>r2p2/app/r2p2-app.cc\<close> and the load patterns of \<open>common/generic-app.cc\<close>, and the runs of an
    application (\<open>app_run\<close>).

  \<^bold>\<open>How the code is read.\<close> On the 64-bit hosts of the simulator, \<open>u32\<close> is \<open>unsigned long\<close> and has 64
  bits, \<open>u16\<close> is \<open>unsigned int\<close> and has 32, \<open>int\<close> has 32: the types \<open>u32\<close>, \<open>u16\<close>, \<open>cint\<close> and so on of
  \<open>C_Prelude\<close> have these widths, and unsigned arithmetic wraps as in C. A structure is a record; the
  private area of a socket has the type of its module. An operation is a function from the globals
  and the socket to the socket; \<open>None\<close> is a fault (division by zero, an access outside an array, an
  undefined shift, a write outside a buffer) or a loop that does not end. Loops are recursive:
  \<open>partial_function (option)\<close> where C may run for ever (slow start, \<open>cubic_friendly_loop\<close>,
  \<open>qroot_loop\<close>), functions with a measure elsewhere. Two loops of the hybrid transport, whose lists may
  shrink while they run, take the number of turns as an argument, the length of the list at the
  start; \<open>ts_msg_loop_fuel\<close> and \<open>in_order_loop_fuel\<close> show that it never runs out.

  In the C++ files an \<open>int\<close> is an integer whose overflow, undefined in C++, is outside the model
  except where a conversion tests it; the 64-bit levels are words and wrap; a \<open>double\<close> is the real
  number it stands for, each operation rounding to nearest even, with no bound on the exponent.
  The clock of the simulator is an argument \<open>now\<close>. A failed assertion, an uncaught exception, \<open>exit\<close>
  and \<open>abort\<close> are \<open>None\<close>, as is a call through a null pointer. The C library's \<open>srand\<close>/\<open>rand\<close> and \<open>qsort\<close>
  are arguments of the definitions that use them, and so are the length of an egress queue and the
  graph of the objects behind a table.

  \<^bold>\<open>What the lemmas show.\<close> Each theory proves that its loops end and its divisors are not zero under the
  invariant of the module, that every operation keeps that invariant, and what the operation does
  to the window; the properties, numbered C1 and so on in the texts before them, are the results
  that matter to a user of the module, failures included. For the hybrid transport: the accounts of the
  credit in flight agree and the credit of a sender is accounted for, in every reachable state; the
  windows and averages stay in range; grants stay within the budgets; a sender sends whenever it can pay;
  requests and replies arrive whole and once, and packets with the bytes that were paid for.

  \<^bold>\<open>Bounds.\<close> Windows below \<open>2 ^ 32\<close> follow from the clamp, a 32-bit field (\<open>window_ok_32\<close>). CUBIC is
  treated while the clock is below \<open>2 ^ 40\<close> jiffies (\<open>clock_ok\<close>), about 34 years of simulated time.
  The token bucket is treated up to \<open>2 * 10 ^ 10\<close> bytes per second (\<open>bucket_ok\<close>), 160 gigabits, since
  a refill must fit an \<open>int\<close>; the threshold of a switch is an \<open>int\<close>, below \<open>2 ^ 31\<close>. A message of
  ExpressPass has less than \<open>2 ^ 31\<close> bytes where its segments are counted. Its network keeps the order of
  the packets, as the queues do, and loses none but credit; the timer that sends a credit stop with no
  delay goes off before anything else happens to its agent.

  \<^bold>\<open>Not modelled.\<close> Of the hybrid transport the statistics and traces (\<open>poll_trace\<close>, \<open>per_loop_stats\<close>,
  \<open>hysup::Stats\<close>, \<open>MsgTracer\<close>), the searches only they use, and \<open>deduce_link_state\<close>; in the events of a host a
  packet handed to the layer above is an output, and what that layer sends in answer is an event of its own
  (\<open>R2p2_Messages\<close> puts the two together for the hand-over of a request and of a reply). The base class \<open>R2p2CCMicro\<close> beyond what the hybrid
  transport inherits, the R2P2 router, the uplink queue and the
  leaky bucket (dead code in this tree: they throw when used, or are not used), the random
  distributions and \<open>IncastGenerator\<close> behind the applications, Homa and pFabric. The agent \<open>LinuxTcpAgent\<close>, the other hash classifiers, the Tcl
  bindings but for the commands of \<open>PPassState\<close> and \<open>DestHashClassifier\<close>, the event loop and the rest
  of the simulator, netlink reports and log output.
\<close>

end
